(* ===== verification/Prelude.thy ===== *)
theory Prelude
  imports Complex_Main
begin

text \<open>
  Shared vocabulary of the development. It holds the collections the component
  proofs simplify with, the JavaScript helpers the code uses everywhere
  (\<open>Math.floor\<close>, \<open>Math.round\<close>, \<open>toFixed(2)\<close>, \<open>Number.parseFloat\<close>), untyped
  (\<open>unknown\<close>, jsonb) values, the three table operations every SQL statement of the
  code comes down to (select, update where, delete where), and the chunking of
  a list of ids.

  Numbers. A JavaScript number that the code treats as an exact count or instant is
  an \<open>int\<close> or \<open>nat\<close>; a rate, score or confidence is a \<open>rat\<close>, computed exactly.
  Instants are milliseconds since the epoch, as \<open>Date.getTime()\<close> gives them.
\<close>

named_theorems table_simps \<open>what a table operation leaves of a table\<close>

named_theorems keeps_intros \<open>how the parts of a worker body keep an invariant\<close>

subsection \<open>Names of types\<close>

type_synonym ident = string
type_synonym millis = int

definition day_ms :: int where
  "day_ms = 24 * 60 * 60 * 1000"

subsection \<open>JavaScript arithmetic and formatting\<close>

definition js_floor_div :: "int \<Rightarrow> int \<Rightarrow> int" where
  \<comment> \<open>\<open>Math.floor(a / b)\<close> for a positive divisor\<close>
  "js_floor_div a b = a div b"

definition js_rem :: "int \<Rightarrow> int \<Rightarrow> int" where
  \<comment> \<open>\<open>a % b\<close> for a positive divisor: the sign follows the dividend\<close>
  "js_rem a b = (if a < 0 then - ((- a) mod b) else a mod b)"

definition js_round :: "rat \<Rightarrow> int" where
  \<comment> \<open>\<open>Math.round\<close>: halves go up\<close>
  "js_round x = \<lfloor>x + 1 / 2\<rfloor>"

definition digit_char :: "nat \<Rightarrow> char" where
  "digit_char d = char_of (48 + d)"

fun show_nat :: "nat \<Rightarrow> string" where
  "show_nat n = (if n < 10 then [digit_char n] else show_nat (n div 10) @ [digit_char (n mod 10)])"

declare show_nat.simps [simp del]

definition show_int :: "int \<Rightarrow> string" where
  "show_int i = (if i < 0 then CHR ''-'' # show_nat (nat (- i)) else show_nat (nat i))"

definition to_fixed2 :: "rat \<Rightarrow> string" where
  \<comment> \<open>\<open>x.toFixed(2)\<close>\<close>
  "to_fixed2 x =
     (let n = js_round (\<bar>x\<bar> * 100); w = nat (n div 100); f = nat (n mod 100)
      in (if x < 0 then ''-'' else '''') @ show_nat w @ ''.''
         @ [digit_char (f div 10), digit_char (f mod 10)])"

definition is_digit :: "char \<Rightarrow> bool" where
  "is_digit c \<longleftrightarrow> 48 \<le> (of_char c :: nat) \<and> (of_char c :: nat) \<le> 57"

definition digit_val :: "char \<Rightarrow> nat" where
  "digit_val c = of_char c - 48"

definition digits_val :: "string \<Rightarrow> nat" where
  "digits_val s = foldl (\<lambda>n c. 10 * n + digit_val c) 0 s"

definition parse_float :: "string \<Rightarrow> rat option" where
  \<comment> \<open>\<open>Number.parseFloat\<close> on the text of a \<open>numeric\<close> column: the longest decimal prefix,
      \<open>None\<close> for \<open>NaN\<close>\<close>
  "parse_float s =
     (let neg = (s \<noteq> [] \<and> hd s = CHR ''-'');
          t = (if neg then tl s else s);
          whole = takeWhile is_digit t;
          rest = dropWhile is_digit t;
          frac = (if rest \<noteq> [] \<and> hd rest = CHR ''.'' then takeWhile is_digit (tl rest) else [])
      in if whole = [] \<and> frac = [] then None
         else let v = of_nat (digits_val whole)
                      + of_nat (digits_val frac) / 10 ^ length frac
              in Some (if neg then - v else v))"

lemma js_rem_nonneg [simp]: "0 \<le> a \<Longrightarrow> js_rem a b = a mod b"
  by (simp add: js_rem_def)

lemma js_round_of_int [simp]: "js_round (of_int n) = n"
  unfolding js_round_def by linarith

lemma js_round_mono: "x \<le> y \<Longrightarrow> js_round x \<le> js_round y"
  unfolding js_round_def by (simp add: floor_mono)

lemma day_ms_pos [simp]: "0 < day_ms"
  by (simp add: day_ms_def)

subsection \<open>Untyped values\<close>

text \<open>A value of type \<open>unknown\<close>: a parsed jsonb column or an error object.\<close>

datatype jsval =
    JNull
  | JBool bool
  | JNum rat
  | JStr string
  | JArr "jsval list"
  | JObj "(string \<times> jsval) list"

fun js_field :: "jsval \<Rightarrow> string \<Rightarrow> jsval option" where
  \<comment> \<open>\<open>(v as Record)[k]\<close>; \<open>None\<close> is \<open>undefined\<close>\<close>
  "js_field (JObj fs) k = map_of fs k"
| "js_field _ k = None"

fun js_is_object :: "jsval \<Rightarrow> bool" where
  \<comment> \<open>\<open>typeof v === 'object' && v !== null\<close>: arrays are objects\<close>
  "js_is_object (JObj _) = True"
| "js_is_object (JArr _) = True"
| "js_is_object _ = False"

subsection \<open>Tables\<close>

text \<open>
  A table is the list of its rows. \<open>UPDATE \<dots> SET \<dots> WHERE p\<close> is \<open>update_where\<close>, \<open>DELETE\<close>
  is \<open>filter\<close>, \<open>SELECT \<dots> LIMIT 1\<close> is \<open>List.find\<close>.
\<close>

definition update_where :: "('a \<Rightarrow> bool) \<Rightarrow> ('a \<Rightarrow> 'a) \<Rightarrow> 'a list \<Rightarrow> 'a list" where
  "update_where p f xs = map (\<lambda>x. if p x then f x else x) xs"

lemma update_where_Nil [simp]: "update_where p f [] = []"
  by (simp add: update_where_def)

lemma update_where_Cons [simp]:
  "update_where p f (x # xs) = (if p x then f x else x) # update_where p f xs"
  by (simp add: update_where_def)

lemma update_where_append [simp]:
  "update_where p f (xs @ ys) = update_where p f xs @ update_where p f ys"
  by (simp add: update_where_def)

lemma length_update_where [simp]: "length (update_where p f xs) = length xs"
  by (simp add: update_where_def)

lemma set_update_where [table_simps]:
  "set (update_where p f xs) = (\<lambda>x. if p x then f x else x) ` set xs"
  by (simp add: update_where_def)

lemma map_update_where [table_simps]:
  "(\<And>x. g (f x) = g x) \<Longrightarrow> map g (update_where p f xs) = map g xs"
  by (simp add: update_where_def)

lemma update_where_id: "(\<And>x. x \<in> set xs \<Longrightarrow> \<not> p x) \<Longrightarrow> update_where p f xs = xs"
  by (induction xs) auto

lemma update_where_member:
  "x \<in> set xs \<Longrightarrow> (if p x then f x else x) \<in> set (update_where p f xs)"
  by (auto simp: set_update_where)

lemma find_SomeD: "List.find p xs = Some x \<Longrightarrow> x \<in> set xs \<and> p x"
  by (induction xs) (auto split: if_splits)

lemma find_NoneD: "List.find p xs = None \<Longrightarrow> x \<in> set xs \<Longrightarrow> \<not> p x"
  by (induction xs) (auto split: if_splits)

subsection \<open>Chunks\<close>

text \<open>\<open>for (let i = 0; i < xs.length; i += n) f(xs.slice(i, i + n))\<close>.\<close>

function chunks :: "nat \<Rightarrow> 'a list \<Rightarrow> 'a list list" where
  "chunks n xs = (if xs = [] \<or> n = 0 then [] else take n xs # chunks n (drop n xs))"
  by pat_completeness auto
termination
  by (relation "measure (\<lambda>(n, xs). length xs)") auto

declare chunks.simps [simp del]

lemma chunks_Nil [simp]: "chunks n [] = []"
  by (simp add: chunks.simps)

lemma concat_chunks: "0 < n \<Longrightarrow> concat (chunks n xs) = xs"
proof (induction n xs rule: chunks.induct)
  case (1 n xs)
  then show ?case by (cases "xs = []") (simp_all add: chunks.simps [of n xs])
qed

lemma chunks_sized: "c \<in> set (chunks n xs) \<Longrightarrow> c \<noteq> [] \<and> length c \<le> n"
proof (induction n xs rule: chunks.induct)
  case (1 n xs)
  then show ?case
    by (cases "xs = [] \<or> n = 0") (auto simp: chunks.simps [of n xs])
qed

lemma chunks_subset: "0 < n \<Longrightarrow> c \<in> set (chunks n xs) \<Longrightarrow> set c \<subseteq> set xs"
  using concat_chunks [of n xs] by (metis UN_upper set_concat)

end
