(* ===== verification/Entitlements.thy ===== *)
theory Entitlements
  imports Prelude
begin

text \<open>
  Billing tiers and what they grant
  (\<^verbatim>\<open>packages/shared/src/entitlements/{tier-ids,types,pricing.config,resolve}.ts\<close>).

  A tier is one of the five rungs of the ladder; the manifest gives each its inbox
  limit, undo window, monthly cleanup quota, feature surfaces and whether self-serve
  checkout sells it. Prices and provider catalogue ids are not modelled: no decision
  of this component reads them. The \<open>PRICING_V2\<close> process flag is an argument of the
  resolvers that read it.
\<close>

datatype tier = Free | Plus | Pro | Team | Enterprise

definition tier_ids :: "tier list" where
  "tier_ids = [Free, Plus, Pro, Team, Enterprise]"

fun tier_rank :: "tier \<Rightarrow> nat" where
  "tier_rank Free = 0"
| "tier_rank Plus = 1"
| "tier_rank Pro = 2"
| "tier_rank Team = 3"
| "tier_rank Enterprise = 4"

datatype capability =
    Senders | SenderDetail | ActivityFeed | CleanupActions | Triage | Autopilot
  | AutopilotActive | Brief | Screener | Quiet | Snoozed | Followups

definition capabilities_all :: "capability list" where
  "capabilities_all = [Senders, SenderDetail, ActivityFeed, CleanupActions, Triage, Autopilot,
     AutopilotActive, Brief, Screener, Quiet, Snoozed, Followups]"

definition free_capabilities :: "capability list" where
  "free_capabilities = [Senders, SenderDetail, ActivityFeed, CleanupActions, Triage, Snoozed]"

definition plus_capabilities :: "capability list" where
  "plus_capabilities = free_capabilities @ [Screener, Autopilot, AutopilotActive, Quiet]"

definition pro_capabilities :: "capability list" where
  "pro_capabilities = plus_capabilities @ [Brief, Followups]"

datatype action_tier = ATFree | ATPlus | ATPro

fun action_tier_rank :: "action_tier \<Rightarrow> nat" where
  "action_tier_rank ATFree = 0"
| "action_tier_rank ATPlus = 1"
| "action_tier_rank ATPro = 2"

datatype selector_type = SelSender | SelMultiSender | SelSenderFilter

fun selector_tiers :: "selector_type \<Rightarrow> action_tier" where
  "selector_tiers SelSender = ATFree"
| "selector_tiers SelMultiSender = ATFree"
| "selector_tiers SelSenderFilter = ATPro"

fun selector_caps :: "selector_type \<Rightarrow> nat option" where
  "selector_caps SelMultiSender = Some 1000"
| "selector_caps _ = None"

datatype verb = VKeep | VArchive | VLater | VUnsubscribe | VUnarchive | VDelete

fun counts_as_cleanup :: "verb \<Rightarrow> bool" where
  "counts_as_cleanup VKeep = False"
| "counts_as_cleanup VArchive = True"
| "counts_as_cleanup VLater = True"
| "counts_as_cleanup VUnsubscribe = True"
| "counts_as_cleanup VDelete = True"
| "counts_as_cleanup VUnarchive = False"

record tier_definition =
  inboxLimit :: nat
  undoWindowDays :: nat
  cleanupActionsPerMonth :: "nat option"
  capabilities :: "capability list"
  purchasable :: bool

fun tier_manifest :: "tier \<Rightarrow> tier_definition" where
  "tier_manifest Free =
     \<lparr>inboxLimit = 1, undoWindowDays = 30, cleanupActionsPerMonth = Some 50,
      capabilities = free_capabilities, purchasable = True\<rparr>"
| "tier_manifest Plus =
     \<lparr>inboxLimit = 1, undoWindowDays = 30, cleanupActionsPerMonth = None,
      capabilities = plus_capabilities, purchasable = True\<rparr>"
| "tier_manifest Pro =
     \<lparr>inboxLimit = 5, undoWindowDays = 30, cleanupActionsPerMonth = None,
      capabilities = pro_capabilities, purchasable = True\<rparr>"
| "tier_manifest Team =
     \<lparr>inboxLimit = 5, undoWindowDays = 30, cleanupActionsPerMonth = None,
      capabilities = pro_capabilities, purchasable = False\<rparr>"
| "tier_manifest Enterprise =
     \<lparr>inboxLimit = 5, undoWindowDays = 30, cleanupActionsPerMonth = None,
      capabilities = pro_capabilities, purchasable = False\<rparr>"

fun inboxes_v2 :: "tier \<Rightarrow> nat option" where
  "inboxes_v2 Free = Some 1"
| "inboxes_v2 Plus = Some 2"
| "inboxes_v2 Pro = Some 5"
| "inboxes_v2 _ = None"

subsection \<open>Resolvers\<close>

definition hasCapability :: "tier \<Rightarrow> capability \<Rightarrow> bool" where
  "hasCapability t c \<longleftrightarrow> c \<in> set (capabilities (tier_manifest t))"

definition minimumTierForCapability :: "capability \<Rightarrow> tier option" where
  \<comment> \<open>\<open>None\<close> is the thrown \<open>No tier grants capability\<close>\<close>
  "minimumTierForCapability c = List.find (\<lambda>t. hasCapability t c) tier_ids"

definition inboxLimitFor :: "tier \<Rightarrow> bool \<Rightarrow> nat" where
  "inboxLimitFor t pricingV2 =
     (case (if pricingV2 then inboxes_v2 t else None) of
        Some n \<Rightarrow> n
      | None \<Rightarrow> inboxLimit (tier_manifest t))"

definition tierIsPurchasable :: "bool \<Rightarrow> tier \<Rightarrow> bool" where
  "tierIsPurchasable pricingV2 t =
     (if pricingV2 \<and> t = Pro then False else purchasable (tier_manifest t))"

definition undoWindowDaysFor :: "tier \<Rightarrow> nat" where
  "undoWindowDaysFor t = undoWindowDays (tier_manifest t)"

definition min_undo_window_days :: nat where
  "min_undo_window_days = Min (set (map undoWindowDaysFor tier_ids))"

definition max_undo_window_days :: nat where
  "max_undo_window_days = Max (set (map undoWindowDaysFor tier_ids))"

definition cleanupActionsPerMonthFor :: "tier \<Rightarrow> nat option" where
  "cleanupActionsPerMonthFor t = cleanupActionsPerMonth (tier_manifest t)"

fun actionTierRankFor :: "tier \<Rightarrow> nat" where
  "actionTierRankFor Free = action_tier_rank ATFree"
| "actionTierRankFor Plus = action_tier_rank ATPlus"
| "actionTierRankFor Pro = action_tier_rank ATPro"
| "actionTierRankFor Team = action_tier_rank ATPro"
| "actionTierRankFor Enterprise = action_tier_rank ATPro"

definition satisfiesActionTier :: "tier \<Rightarrow> action_tier \<Rightarrow> bool" where
  "satisfiesActionTier t required \<longleftrightarrow> action_tier_rank required \<le> actionTierRankFor t"

subsection \<open>The ladder as an order\<close>

instantiation tier :: linorder
begin

definition less_eq_tier :: "tier \<Rightarrow> tier \<Rightarrow> bool" where
  "less_eq_tier a b \<longleftrightarrow> tier_rank a \<le> tier_rank b"

definition less_tier :: "tier \<Rightarrow> tier \<Rightarrow> bool" where
  "less_tier a b \<longleftrightarrow> tier_rank a < tier_rank b"

instance
proof
  fix a b c :: tier
  show "a < b \<longleftrightarrow> a \<le> b \<and> \<not> b \<le> a"
    by (auto simp: less_eq_tier_def less_tier_def)
  show "a \<le> a"
    by (simp add: less_eq_tier_def)
  show "a \<le> b \<Longrightarrow> b \<le> c \<Longrightarrow> a \<le> c"
    by (simp add: less_eq_tier_def)
  show "a \<le> b \<Longrightarrow> b \<le> a \<Longrightarrow> a = b"
    by (cases a; cases b) (simp_all add: less_eq_tier_def)
  show "a \<le> b \<or> b \<le> a"
    by (auto simp: less_eq_tier_def)
qed

end

lemmas capability_lists =
  free_capabilities_def plus_capabilities_def pro_capabilities_def

lemmas tier_order = less_eq_tier_def less_tier_def

lemma hasCapability_mono: "t \<le> t' \<Longrightarrow> hasCapability t c \<Longrightarrow> hasCapability t' c"
  by (cases t; cases t') (auto simp: hasCapability_def capability_lists tier_order)

lemma inboxLimitFor_mono: "t \<le> t' \<Longrightarrow> inboxLimitFor t v \<le> inboxLimitFor t' v"
  by (cases t; cases t'; cases v) (simp_all add: inboxLimitFor_def tier_order)

lemma satisfiesActionTier_mono:
  "t \<le> t' \<Longrightarrow> satisfiesActionTier t a \<Longrightarrow> satisfiesActionTier t' a"
  by (cases t; cases t'; cases a) (simp_all add: satisfiesActionTier_def tier_order)

text \<open>What the autopilot workers rest on: a tier that may act unattended may also match.\<close>

lemma autopilot_active_implies_autopilot:
  "hasCapability t AutopilotActive \<Longrightarrow> hasCapability t Autopilot"
  by (cases t) (simp_all add: hasCapability_def capability_lists)

lemma autopilot_tiers: "hasCapability t Autopilot \<longleftrightarrow> t \<noteq> Free"
  by (cases t) (simp_all add: hasCapability_def capability_lists)

lemma autopilot_active_tiers: "hasCapability t AutopilotActive \<longleftrightarrow> t \<noteq> Free"
  by (cases t) (simp_all add: hasCapability_def capability_lists)

lemma undoWindowDaysFor_eq [simp]: "undoWindowDaysFor t = 30"
  by (cases t) (simp_all add: undoWindowDaysFor_def)

subsection \<open>What a ladder of grants promises\<close>

text \<open>
  A feature gate names one tier and opens for every tier above it. That works for any
  grant that never shrinks up the ladder; the capability buckets, the action tiers and
  the purchase of extra inboxes are its instances.
\<close>

locale ladder_grant =
  fixes grants :: "tier \<Rightarrow> 'c \<Rightarrow> bool"
  assumes grants_mono: "t \<le> t' \<Longrightarrow> grants t c \<Longrightarrow> grants t' c"
begin

lemma threshold_exact:
  assumes "List.find (\<lambda>t. grants t c) tier_ids = Some m"
  shows "grants t c \<longleftrightarrow> m \<le> t"
proof
  assume "grants t c"
  with assms show "m \<le> t"
    by (cases t) (auto simp: tier_ids_def tier_order split: if_splits)
next
  assume "m \<le> t"
  moreover from assms have "grants m c"
    by (auto dest: find_SomeD)
  ultimately show "grants t c"
    by (rule grants_mono)
qed

lemma threshold_exists: "grants Enterprise c \<Longrightarrow> \<exists>m. List.find (\<lambda>t. grants t c) tier_ids = Some m"
  by (auto simp: tier_ids_def)

end

interpretation capability_gate: ladder_grant hasCapability
  by unfold_locales (rule hasCapability_mono)

interpretation action_gate: ladder_grant satisfiesActionTier
  by unfold_locales (rule satisfiesActionTier_mono)

interpretation inbox_gate: ladder_grant "\<lambda>t n. n \<le> inboxLimitFor t v"
  by unfold_locales (blast intro: order_trans inboxLimitFor_mono)

lemma top_tier_grants_all: "hasCapability Enterprise c"
  by (cases c) (simp_all add: hasCapability_def capability_lists)

text \<open>
  Every feature surface has a first tier that grants it, and the gate that names
  that tier is exact: a tier grants the surface if and only if it is at or above the
  one \<open>minimumTierForCapability\<close> returns. The lookup never throws.
\<close>

theorem minimumTierForCapability_exact:
  "\<exists>m. minimumTierForCapability c = Some m \<and> (\<forall>t. hasCapability t c \<longleftrightarrow> m \<le> t)"
  using capability_gate.threshold_exists [OF top_tier_grants_all, of c]
    capability_gate.threshold_exact [of c]
  unfolding minimumTierForCapability_def by blast

end
