(* ===== verification/Cascade.thy ===== *)
theory Cascade
  imports Prelude
begin

text \<open>
  The deterministic decision engine
  (\<^verbatim>\<open>packages/shared/src/triage-engine/cascade.ts\<close>): from a sender's signals to a
  verdict (Keep, Archive, Unsubscribe or Later) with a confidence and the rule that
  decided it. Phase A keeps protected and engaged senders, Phase B defers new ones,
  Phase C scores Archive against Unsubscribe.

  Scores and confidences are computed exactly, on \<open>rat\<close>, where the code computes on
  IEEE doubles. The scores are sums of at most eight two-decimal weights, so there are
  finitely many score pairs; on every one of them the doubles give the same verdict,
  rounded scores and rounded confidence as the exact sums.
\<close>

datatype protection_reason = UserDefined | Replied | Starred | GmailImportant

datatype triage_verdict = TKeep | TArchive | TUnsubscribe | TLater

datatype rule_id =
    ProtectUserDefined | ProtectReplied | ProtectStarred | ProtectGmailImportant
  | WroteToAtLeastOnce | GmailPrimary | StarredRecently | HighReadRate
  | LongRelationshipEngaged | InsufficientSignal | ScoreArchive | ScoreUnsubscribe
  | ScoreInconclusive | ScoreNoUnsubChannel | ScoreQuietStream

datatype phase = PhaseA | PhaseB | PhaseC

datatype unsub_channel = OneClick | Mailto | NoChannel

datatype gmail_category = Primary | Promotions | Social | Updates | Forums | UnknownTab

subsection \<open>Government domains\<close>

definition to_lower :: "char \<Rightarrow> char" where
  "to_lower c = (let n = of_char c :: nat in if 65 \<le> n \<and> n \<le> 90 then char_of (n + 32) else c)"

definition is_lower :: "char \<Rightarrow> bool" where
  "is_lower c \<longleftrightarrow> 97 \<le> (of_char c :: nat) \<and> (of_char c :: nat) \<le> 122"

definition is_space :: "char \<Rightarrow> bool" where
  "is_space c \<longleftrightarrow> (of_char c :: nat) \<in> {9, 10, 11, 12, 13, 32}"

definition trim :: "string \<Rightarrow> string" where
  "trim s = rev (dropWhile is_space (rev (dropWhile is_space s)))"

fun gov_label :: "string \<Rightarrow> bool" where
  \<comment> \<open>\<open>(^|\.)(gov|mil)$\<close>, read from the end\<close>
  "gov_label (a # b # c # rest) =
     (([c, b, a] = ''gov'' \<or> [c, b, a] = ''mil'') \<and> (rest = [] \<or> hd rest = CHR ''.''))"
| "gov_label _ = False"

fun strip_country :: "string \<Rightarrow> string option" where
  \<comment> \<open>\<open>(\.[a-z]{2})?$\<close>, read from the end\<close>
  "strip_country (a # b # c # rest) =
     (if is_lower a \<and> is_lower b \<and> c = CHR ''.'' then Some rest else None)"
| "strip_country _ = None"

definition isGovernmentDomain :: "string \<Rightarrow> bool" where
  "isGovernmentDomain domain =
     (let r = rev (map to_lower (trim domain))
      in gov_label r \<or> (case strip_country r of None \<Rightarrow> False | Some r' \<Rightarrow> gov_label r'))"

subsection \<open>Signals and results\<close>

record sender_signals =
  isProtected :: bool
  protectionReason :: "protection_reason option"
  hasWrittenTo :: bool
  gmailCategory :: gmail_category
  starredInLastYear :: bool
  readRate90d :: "rat option"
  firstSeenMonthsAgo :: int
  firstSeenDaysAgo :: int
  lastSeenDaysAgo :: int
  totalMessages :: int
  monthlyVolume :: rat
  spikeRatio :: rat
  unsubscribeChannel :: unsub_channel
  isGovDomain :: bool
  userManuallyArchivedCount :: int

record cascade_facts =
  factVolume :: rat
  factReadRatePct :: "int option"

record cascade_result =
  verdict :: triage_verdict
  confidence :: rat
  resPhase :: phase
  ruleId :: rule_id
  facts :: cascade_facts
  scores :: "(rat \<times> rat) option"

definition min_unsub_stream_volume :: rat where
  "min_unsub_stream_volume = 2"

definition gov_unsub_confidence_cap :: rat where
  "gov_unsub_confidence_cap = 75 / 100"

definition clamp :: "rat \<Rightarrow> rat \<Rightarrow> rat \<Rightarrow> rat" where
  "clamp x lo hi = max lo (min hi x)"

definition round2 :: "rat \<Rightarrow> rat" where
  "round2 x = of_int (js_round (x * 100)) / 100"

subsection \<open>Phase C scores\<close>

definition has_unsub_channel :: "sender_signals \<Rightarrow> bool" where
  "has_unsub_channel s \<longleftrightarrow> unsubscribeChannel s \<noteq> NoChannel"

definition archive_score :: "sender_signals \<Rightarrow> rat" where
  "archive_score s =
     (if 30 \<le> monthlyVolume s then 3 / 10 else 0)
   + (if 60 \<le> monthlyVolume s then 2 / 10 else 0)
   + (if 3 \<le> userManuallyArchivedCount s then 3 / 10 else 0)
   + (if has_unsub_channel s then 15 / 100 else 0)"

definition unsub_gate :: "sender_signals \<Rightarrow> bool" where
  "unsub_gate s \<longleftrightarrow> has_unsub_channel s \<and> min_unsub_stream_volume \<le> monthlyVolume s"

definition unsubscribe_score :: "sender_signals \<Rightarrow> rat" where
  "unsubscribe_score s =
     (if unsub_gate s then
        (if unsubscribeChannel s = OneClick then 35 / 100 else 0)
      + (if unsubscribeChannel s = Mailto then 2 / 10 else 0)
      + (if 8 \<le> monthlyVolume s then 15 / 100 else 0)
      + (if 30 \<le> monthlyVolume s then 15 / 100 else 0)
      + (case readRate90d s of None \<Rightarrow> 0 | Some r \<Rightarrow> if r < 2 / 10 then 15 / 100 else 0)
      + (case readRate90d s of None \<Rightarrow> 0 | Some r \<Rightarrow> if r < 5 / 100 then 1 / 10 else 0)
      + (if gmailCategory s \<in> {Promotions, Forums, Social} then 1 / 10 else 0)
      + (if 3 \<le> spikeRatio s then 1 / 10 else 0)
      else 0)"

definition score_confidence :: "rat \<Rightarrow> rat \<Rightarrow> rat" where
  "score_confidence winner loser =
     (let strength = clamp winner 0 1; margin = clamp (winner - loser) 0 1
      in round2 (clamp (5 / 10 + 35 / 100 * strength + 1 / 10 * margin) (55 / 100) (95 / 100)))"

subsection \<open>The cascade\<close>

definition cascade_facts_of :: "sender_signals \<Rightarrow> cascade_facts" where
  "cascade_facts_of s =
     \<lparr>factVolume = monthlyVolume s,
      factReadRatePct = map_option (\<lambda>r. js_round (r * 100)) (readRate90d s)\<rparr>"

fun protection_rule :: "protection_reason \<Rightarrow> rule_id" where
  "protection_rule UserDefined = ProtectUserDefined"
| "protection_rule Replied = ProtectReplied"
| "protection_rule Starred = ProtectStarred"
| "protection_rule GmailImportant = ProtectGmailImportant"

definition exit_with ::
  "sender_signals \<Rightarrow> triage_verdict \<Rightarrow> rat \<Rightarrow> phase \<Rightarrow> rule_id \<Rightarrow> (rat \<times> rat) option \<Rightarrow> cascade_result"
where
  "exit_with s v c p r sc =
     \<lparr>verdict = v, confidence = c, resPhase = p, ruleId = r, facts = cascade_facts_of s, scores = sc\<rparr>"

definition phase_a :: "sender_signals \<Rightarrow> cascade_result option" where
  "phase_a s =
     (if isProtected s then
        Some (exit_with s TKeep 1 PhaseA
                (protection_rule (case protectionReason s of None \<Rightarrow> UserDefined | Some r \<Rightarrow> r)) None)
      else if hasWrittenTo s then Some (exit_with s TKeep (98 / 100) PhaseA WroteToAtLeastOnce None)
      else if gmailCategory s = Primary \<and> unsubscribeChannel s = NoChannel then
        Some (exit_with s TKeep (95 / 100) PhaseA GmailPrimary None)
      else if starredInLastYear s then Some (exit_with s TKeep (92 / 100) PhaseA StarredRecently None)
      else case readRate90d s of
          None \<Rightarrow> None
        | Some r \<Rightarrow>
            if 5 / 10 \<le> r then Some (exit_with s TKeep (85 / 100) PhaseA HighReadRate None)
            else if 60 \<le> firstSeenMonthsAgo s \<and> 3 / 10 \<le> r then
              Some (exit_with s TKeep (8 / 10) PhaseA LongRelationshipEngaged None)
            else None)"

definition phase_b :: "sender_signals \<Rightarrow> cascade_result option" where
  "phase_b s =
     (if totalMessages s < 3 \<or> firstSeenDaysAgo s < 7
      then Some (exit_with s TLater (7 / 10) PhaseB InsufficientSignal None) else None)"

definition phase_c :: "sender_signals \<Rightarrow> cascade_result" where
  "phase_c s =
     (let archive = archive_score s; unsubscribe = unsubscribe_score s;
          sc = Some (round2 archive, round2 unsubscribe)
      in if \<not> unsub_gate s \<and> archive < 5 / 10 then
           exit_with s TLater (6 / 10) PhaseC
             (if has_unsub_channel s then ScoreQuietStream else ScoreNoUnsubChannel) sc
         else if archive < 5 / 10 \<and> unsubscribe < 5 / 10 then
           exit_with s TLater (6 / 10) PhaseC ScoreInconclusive sc
         else let archiveWins = unsubscribe \<le> archive;
                  winner = (if archiveWins then archive else unsubscribe);
                  loser = (if archiveWins then unsubscribe else archive);
                  conf = score_confidence winner loser;
                  conf' = (if \<not> archiveWins \<and> isGovDomain s
                           then min conf gov_unsub_confidence_cap else conf)
              in exit_with s (if archiveWins then TArchive else TUnsubscribe) conf' PhaseC
                   (if archiveWins then ScoreArchive else ScoreUnsubscribe) sc)"

definition runCascade :: "sender_signals \<Rightarrow> cascade_result" where
  "runCascade s =
     (case phase_a s of Some r \<Rightarrow> r
      | None \<Rightarrow> (case phase_b s of Some r \<Rightarrow> r | None \<Rightarrow> phase_c s))"

subsection \<open>Shape of the result\<close>

lemmas cascade_defs = runCascade_def phase_a_def phase_b_def phase_c_def exit_with_def Let_def

lemma exit_with_simps [simp]:
  "verdict (exit_with s v c p r sc) = v" "confidence (exit_with s v c p r sc) = c"
  "resPhase (exit_with s v c p r sc) = p" "ruleId (exit_with s v c p r sc) = r"
  "scores (exit_with s v c p r sc) = sc" "facts (exit_with s v c p r sc) = cascade_facts_of s"
  by (simp_all add: exit_with_def)

lemma phase_a_keep: "phase_a s = Some r \<Longrightarrow> verdict r = TKeep \<and> resPhase r = PhaseA"
  by (auto simp: phase_a_def split: if_splits option.splits)

lemma phase_a_None_iff:
  "phase_a s = None \<longleftrightarrow>
     \<not> isProtected s \<and> \<not> hasWrittenTo s \<and>
     \<not> (gmailCategory s = Primary \<and> unsubscribeChannel s = NoChannel) \<and>
     \<not> starredInLastYear s \<and>
     (\<forall>r. readRate90d s = Some r \<longrightarrow> r < 5 / 10 \<and> (60 \<le> firstSeenMonthsAgo s \<longrightarrow> r < 3 / 10))"
  by (auto simp: phase_a_def split: option.splits)

lemma phase_b_None_iff: "phase_b s = None \<longleftrightarrow> 3 \<le> totalMessages s \<and> 7 \<le> firstSeenDaysAgo s"
  by (auto simp: phase_b_def)

lemma phase_b_later: "phase_b s = Some r \<Longrightarrow> verdict r = TLater"
  by (auto simp: phase_b_def split: if_splits)

lemma no_gate_no_score: "\<not> unsub_gate s \<Longrightarrow> unsubscribe_score s = 0"
  by (simp add: unsubscribe_score_def)

text \<open>Phase C as a function of the two scores alone.\<close>

definition phase_c_choice :: "bool \<Rightarrow> rat \<Rightarrow> rat \<Rightarrow> triage_verdict" where
  "phase_c_choice gate a u =
     (if \<not> gate \<and> a < 5 / 10 then TLater else if a < 5 / 10 \<and> u < 5 / 10 then TLater
      else if u \<le> a then TArchive else TUnsubscribe)"

lemma phase_c_verdict:
  "verdict (phase_c s) = phase_c_choice (unsub_gate s) (archive_score s) (unsubscribe_score s)"
  by (simp add: phase_c_def Let_def phase_c_choice_def)

lemma phase_c_choice_iff:
  assumes "\<not> g \<Longrightarrow> u = 0"
  shows "phase_c_choice g a u = TUnsubscribe \<longleftrightarrow> 5 / 10 \<le> u \<and> a < u"
    and "phase_c_choice g a u = TArchive \<longleftrightarrow> 5 / 10 \<le> a \<and> u \<le> a"
  using assms by (auto simp: phase_c_choice_def not_less not_le)

lemma phase_c_unsubscribe_iff:
  "verdict (phase_c s) = TUnsubscribe \<longleftrightarrow>
     5 / 10 \<le> unsubscribe_score s \<and> archive_score s < unsubscribe_score s"
  unfolding phase_c_verdict by (rule phase_c_choice_iff) (rule no_gate_no_score)

lemma phase_c_archive_iff:
  "verdict (phase_c s) = TArchive \<longleftrightarrow>
     5 / 10 \<le> archive_score s \<and> unsubscribe_score s \<le> archive_score s"
  unfolding phase_c_verdict by (rule phase_c_choice_iff) (rule no_gate_no_score)

lemma runCascade_scored:
  "verdict (runCascade s) \<in> {TArchive, TUnsubscribe} \<Longrightarrow>
     phase_a s = None \<and> phase_b s = None \<and> runCascade s = phase_c s"
  by (auto simp: runCascade_def dest: phase_a_keep phase_b_later split: option.splits)

lemma archive_score_nonneg: "0 \<le> archive_score s"
  by (simp add: archive_score_def)

lemma unsub_gate_of_score: "0 < unsubscribe_score s \<Longrightarrow> unsub_gate s"
  using no_gate_no_score [of s] by auto

lemma unsubscribe_verdict_scores:
  assumes "verdict (runCascade s) = TUnsubscribe"
  shows "runCascade s = phase_c s" "phase_a s = None" "phase_b s = None" "unsub_gate s"
    "5 / 10 \<le> unsubscribe_score s" "archive_score s < unsubscribe_score s"
proof -
  show "runCascade s = phase_c s" "phase_a s = None" "phase_b s = None"
    using runCascade_scored [of s] assms by auto
  then have *: "5 / 10 \<le> unsubscribe_score s \<and> archive_score s < unsubscribe_score s"
    using assms phase_c_unsubscribe_iff by simp
  then show "5 / 10 \<le> unsubscribe_score s" "archive_score s < unsubscribe_score s" by auto
  with * show "unsub_gate s" by (intro unsub_gate_of_score) linarith
qed

lemma phase_c_confidence:
  "5 / 10 \<le> unsubscribe_score s \<and> archive_score s < unsubscribe_score s \<Longrightarrow>
     confidence (phase_c s) =
       (if isGovDomain s
        then min (score_confidence (unsubscribe_score s) (archive_score s)) gov_unsub_confidence_cap
        else score_confidence (unsubscribe_score s) (archive_score s))"
  "5 / 10 \<le> archive_score s \<and> unsubscribe_score s \<le> archive_score s \<Longrightarrow>
     confidence (phase_c s) = score_confidence (archive_score s) (unsubscribe_score s)"
  using unsub_gate_of_score [of s]
  by (simp_all add: phase_c_def Let_def not_less not_le)

subsection \<open>Rounding\<close>

lemma js_round_bounds:
  "of_int a - 1 / 2 \<le> x \<Longrightarrow> a \<le> js_round x"
  "x < of_int b + 1 / 2 \<Longrightarrow> js_round x \<le> b"
  unfolding js_round_def by linarith+

lemma round2_bounds:
  "of_int a - 1 / 2 \<le> x * 100 \<Longrightarrow> of_int a / 100 \<le> round2 x"
  "x * 100 < of_int b + 1 / 2 \<Longrightarrow> round2 x \<le> of_int b / 100"
proof -
  assume "of_int a - 1 / 2 \<le> x * 100"
  then have "a \<le> js_round (x * 100)" by (rule js_round_bounds)
  then show "of_int a / 100 \<le> round2 x" by (simp add: round2_def divide_right_mono)
next
  assume "x * 100 < of_int b + 1 / 2"
  then have "js_round (x * 100) \<le> b" by (rule js_round_bounds)
  then show "round2 x \<le> of_int b / 100" by (simp add: round2_def divide_right_mono)
qed

definition confidence_points :: "rat \<Rightarrow> rat \<Rightarrow> rat" where
  "confidence_points w l = 50 + 35 * min w 1 + 10 * (w - l)"

lemma score_confidence_unclamped:
  fixes l w :: rat
  assumes "0 \<le> l" "l \<le> w" "5 / 10 \<le> w" "w - l \<le> 1"
  shows "score_confidence w l = round2 (confidence_points w l / 100)"
proof -
  have c: "clamp w 0 1 = min w 1" "clamp (w - l) 0 1 = w - l"
    using assms by (simp_all add: clamp_def min_def max_def)
  have e: "5 / 10 + 35 / 100 * min w 1 + 1 / 10 * (w - l) = confidence_points w l / 100"
    by (simp add: confidence_points_def field_simps)
  have "55 / 100 \<le> confidence_points w l / 100" "confidence_points w l / 100 \<le> 95 / 100"
    using assms by (simp_all add: confidence_points_def min_def)
  then show ?thesis
    unfolding score_confidence_def Let_def c e
    unfolding clamp_def by (simp only: min_absorb2 max_absorb2)
qed

lemma score_confidence_bounds:
  fixes l w :: rat
  assumes "0 \<le> l" "l \<le> w" "5 / 10 \<le> w" "w - l \<le> 1"
  shows "of_int a - 1 / 2 \<le> confidence_points w l \<Longrightarrow> of_int a / 100 \<le> score_confidence w l"
    and "confidence_points w l < of_int b + 1 / 2 \<Longrightarrow> score_confidence w l \<le> of_int b / 100"
  using round2_bounds [where x = "confidence_points w l / 100"]
  by (simp_all add: score_confidence_unclamped [OF assms])

subsection \<open>The reachable scores\<close>

lemma archive_score_bounds:
  "archive_score s \<le> 95 / 100"
  "30 \<le> monthlyVolume s \<Longrightarrow> 3 / 10 \<le> archive_score s"
  "has_unsub_channel s \<Longrightarrow> 15 / 100 \<le> archive_score s"
  "has_unsub_channel s \<Longrightarrow> 30 \<le> monthlyVolume s \<Longrightarrow> 45 / 100 \<le> archive_score s"
  by (simp_all add: archive_score_def)

lemma archive_wins_cases:
  assumes "5 / 10 \<le> archive_score s"
  shows "30 \<le> monthlyVolume s"
    and "has_unsub_channel s \<Longrightarrow> 65 / 100 \<le> archive_score s"
    and "userManuallyArchivedCount s < 3 \<Longrightarrow> has_unsub_channel s \<Longrightarrow> archive_score s = 65 / 100"
    and "userManuallyArchivedCount s < 3 \<Longrightarrow> \<not> has_unsub_channel s \<Longrightarrow> archive_score s = 5 / 10"
    and "\<not> has_unsub_channel s \<Longrightarrow> archive_score s \<le> 8 / 10"
  using assms by (auto simp: archive_score_def split: if_splits)

lemma unsub_gate_channel: "unsub_gate s \<Longrightarrow> has_unsub_channel s"
  by (simp add: unsub_gate_def)

lemma read_rate_points_bounds:
  fixes c :: rat
  assumes "0 \<le> c"
  shows "0 \<le> (case r of None \<Rightarrow> 0 | Some (x::rat) \<Rightarrow> if x < b then c else 0)"
    and "(case r of None \<Rightarrow> 0 | Some (x::rat) \<Rightarrow> if x < b then c else 0) \<le> c"
  using assms by (auto split: option.splits)

lemma unsubscribe_score_split:
  obtains r1 r2 where "0 \<le> r1" "r1 \<le> 15 / 100" "0 \<le> r2" "r2 \<le> 1 / 10"
    "unsubscribe_score s =
       (if unsub_gate s then
          (if unsubscribeChannel s = OneClick then 35 / 100 else 2 / 10)
        + (if 8 \<le> monthlyVolume s then 15 / 100 else 0)
        + (if 30 \<le> monthlyVolume s then 15 / 100 else 0) + r1 + r2
        + (if gmailCategory s \<in> {Promotions, Forums, Social} then 1 / 10 else 0)
        + (if 3 \<le> spikeRatio s then 1 / 10 else 0)
        else 0)"
proof (rule that)
  show "unsubscribe_score s =
       (if unsub_gate s then
          (if unsubscribeChannel s = OneClick then 35 / 100 else 2 / 10)
        + (if 8 \<le> monthlyVolume s then 15 / 100 else 0)
        + (if 30 \<le> monthlyVolume s then 15 / 100 else 0)
        + (case readRate90d s of None \<Rightarrow> 0 | Some r \<Rightarrow> if r < 2 / 10 then 15 / 100 else 0)
        + (case readRate90d s of None \<Rightarrow> 0 | Some r \<Rightarrow> if r < 5 / 100 then 1 / 10 else 0)
        + (if gmailCategory s \<in> {Promotions, Forums, Social} then 1 / 10 else 0)
        + (if 3 \<le> spikeRatio s then 1 / 10 else 0)
        else 0)"
    by (cases "unsubscribeChannel s")
      (simp_all add: unsubscribe_score_def unsub_gate_def has_unsub_channel_def)
qed ((rule read_rate_points_bounds, simp)+)

lemma unsubscribe_score_bounds:
  "0 \<le> unsubscribe_score s"
  "unsubscribe_score s \<le> 11 / 10"
  "monthlyVolume s < 30 \<Longrightarrow> unsubscribe_score s \<le> 95 / 100"
  "has_unsub_channel s \<Longrightarrow> 30 \<le> monthlyVolume s \<Longrightarrow> 5 / 10 \<le> unsubscribe_score s"
  by (rule unsubscribe_score_split [of s],
      simp add: unsub_gate_def min_unsub_stream_volume_def split del: if_split, simp)+


subsection \<open>Properties of the verdict\<close>

lemma unsub_confidence_upper:
  assumes "5 / 10 \<le> unsubscribe_score s" "archive_score s < unsubscribe_score s"
  shows "confidence_points (unsubscribe_score s) (archive_score s) < of_int 92 + 1 / 2"
proof -
  have ch: "has_unsub_channel s"
    using assms unsub_gate_of_score [of s] unsub_gate_channel by simp
  show ?thesis
  proof (cases "30 \<le> monthlyVolume s")
    case True
    with ch archive_score_bounds(4) [of s] unsubscribe_score_bounds(2) [of s] show ?thesis
      by (simp add: confidence_points_def min_def)
  next
    case False
    with ch archive_score_bounds(3) [of s] unsubscribe_score_bounds(3) [of s] show ?thesis
      by (simp add: confidence_points_def min_def)
  qed
qed

lemma scored_margin:
  "archive_score s \<le> unsubscribe_score s \<Longrightarrow> 5 / 10 \<le> unsubscribe_score s \<Longrightarrow>
     unsubscribe_score s - archive_score s \<le> 1"
  "archive_score s - unsubscribe_score s \<le> 1"
  using archive_score_bounds(1,3) [of s] archive_score_nonneg [of s] unsubscribe_score_bounds(1,2) [of s]
    unsub_gate_of_score [of s] unsub_gate_channel [of s]
  by (simp_all)

text \<open>
  C28: an Unsubscribe verdict is sound. It is never reached for a sender that is
  protected, that the user ever wrote to, or starred in the last year; the sender has an
  unsubscribe channel, at least two messages a month, three messages and a week of
  history; a known read rate is below one half (below three tenths for a relationship
  of five years); and its confidence lies in \<open>[0.68, 0.92]\<close>, capped at 0.75 for a
  government domain.
\<close>

theorem unsubscribe_verdict_sound:
  assumes "verdict (runCascade s) = TUnsubscribe"
  shows "\<not> isProtected s \<and> \<not> hasWrittenTo s \<and> \<not> starredInLastYear s \<and>
    unsubscribeChannel s \<noteq> NoChannel \<and> 2 \<le> monthlyVolume s \<and>
    3 \<le> totalMessages s \<and> 7 \<le> firstSeenDaysAgo s \<and>
    (\<forall>r. readRate90d s = Some r \<longrightarrow> r < 5 / 10 \<and> (60 \<le> firstSeenMonthsAgo s \<longrightarrow> r < 3 / 10)) \<and>
    68 / 100 \<le> confidence (runCascade s) \<and> confidence (runCascade s) \<le> 92 / 100 \<and>
    (isGovDomain s \<longrightarrow> confidence (runCascade s) \<le> 75 / 100)"
proof -
  note v = unsubscribe_verdict_scores [OF assms]
  let ?c = "score_confidence (unsubscribe_score s) (archive_score s)"
  have m: "unsubscribe_score s - archive_score s \<le> 1"
    using v(5,6) scored_margin(1) by simp
  have low: "of_int 68 - 1 / 2 \<le> confidence_points (unsubscribe_score s) (archive_score s)"
    using v(5,6) by (simp add: confidence_points_def min_def)
  have "68 / 100 \<le> ?c \<and> ?c \<le> 92 / 100"
    using score_confidence_bounds(1) [OF archive_score_nonneg _ v(5) m low]
      score_confidence_bounds(2) [OF archive_score_nonneg _ v(5) m unsub_confidence_upper [OF v(5,6)]] v(6)
    by simp
  then have "68 / 100 \<le> confidence (runCascade s) \<and> confidence (runCascade s) \<le> 92 / 100 \<and>
      (isGovDomain s \<longrightarrow> confidence (runCascade s) \<le> 75 / 100)"
    using phase_c_confidence(1) [of s] v(1,5,6) by (simp add: gov_unsub_confidence_cap_def min_def)
  moreover from v(2,3,4) have "\<not> isProtected s \<and> \<not> hasWrittenTo s \<and> \<not> starredInLastYear s \<and>
    unsubscribeChannel s \<noteq> NoChannel \<and> 2 \<le> monthlyVolume s \<and>
    3 \<le> totalMessages s \<and> 7 \<le> firstSeenDaysAgo s \<and>
    (\<forall>r. readRate90d s = Some r \<longrightarrow> r < 5 / 10 \<and> (60 \<le> firstSeenMonthsAgo s \<longrightarrow> r < 3 / 10))"
    unfolding phase_a_None_iff phase_b_None_iff unsub_gate_def has_unsub_channel_def
      min_unsub_stream_volume_def by blast
  ultimately show ?thesis by blast
qed

definition noisy_gov_sender :: sender_signals where
  "noisy_gov_sender =
     \<lparr>isProtected = False, protectionReason = None, hasWrittenTo = False,
      gmailCategory = Promotions, starredInLastYear = False, readRate90d = Some (1 / 100),
      firstSeenMonthsAgo = 12, firstSeenDaysAgo = 365, lastSeenDaysAgo = 1, totalMessages = 120,
      monthlyVolume = 12, spikeRatio = 4, unsubscribeChannel = OneClick, isGovDomain = True,
      userManuallyArchivedCount = 0\<rparr>"

lemma noisy_gov_sender_verdict: "verdict (runCascade noisy_gov_sender) = TUnsubscribe"
  by code_simp

theorem unsubscribe_verdict_sound_witness:
  "confidence (runCascade noisy_gov_sender) \<le> 75 / 100 \<and> 2 \<le> monthlyVolume noisy_gov_sender"
proof -
  have "isGovDomain noisy_gov_sender" by (simp add: noisy_gov_sender_def)
  then show ?thesis
    using unsubscribe_verdict_sound [OF noisy_gov_sender_verdict] by blast
qed


lemma archive_verdict_scores:
  assumes "verdict (runCascade s) = TArchive"
  shows "runCascade s = phase_c s" "phase_a s = None" "phase_b s = None"
    "5 / 10 \<le> archive_score s" "unsubscribe_score s \<le> archive_score s"
proof -
  show "runCascade s = phase_c s" "phase_a s = None" "phase_b s = None"
    using runCascade_scored [of s] assms by auto
  then show "5 / 10 \<le> archive_score s" "unsubscribe_score s \<le> archive_score s"
    using assms phase_c_archive_iff by simp_all
qed

lemma no_channel_no_score: "\<not> has_unsub_channel s \<Longrightarrow> unsubscribe_score s = 0"
  using no_gate_no_score unsub_gate_channel by blast

lemma archive_points:
  assumes a: "5 / 10 \<le> archive_score s" and u: "unsubscribe_score s \<le> archive_score s"
  defines "p \<equiv> confidence_points (archive_score s) (unsubscribe_score s)"
  shows "of_int 73 - 1 / 2 \<le> p" "p < of_int 88 + 1 / 2"
    and "userManuallyArchivedCount s < 3 \<Longrightarrow> p < of_int 74 + 1 / 2"
proof -
  have vol: "30 \<le> monthlyVolume s" by (rule archive_wins_cases(1) [OF a])
  have *: "p = 50 + 45 * archive_score s - 10 * unsubscribe_score s"
    using archive_score_bounds(1) [of s] by (simp add: p_def confidence_points_def min_def)
  have "of_int 73 - 1 / 2 \<le> p \<and> p < of_int 88 + 1 / 2 \<and>
    (userManuallyArchivedCount s < 3 \<longrightarrow> p < of_int 74 + 1 / 2)"
  proof (cases "has_unsub_channel s")
    case True
    then show ?thesis
      unfolding * using vol u unsubscribe_score_bounds(4) [of s] archive_wins_cases(2,3) [OF a]
        archive_score_bounds(1) [of s] by auto
  next
    case False
    then show ?thesis
      unfolding * using a no_channel_no_score [of s] archive_wins_cases(4,5) [OF a] by auto
  qed
  then show "of_int 73 - 1 / 2 \<le> p" "p < of_int 88 + 1 / 2"
    "userManuallyArchivedCount s < 3 \<Longrightarrow> p < of_int 74 + 1 / 2" by auto
qed

lemma archive_confidence_facts:
  assumes "verdict (runCascade s) = TArchive"
  shows "73 / 100 \<le> confidence (runCascade s)"
    and "74 / 100 < confidence (runCascade s) \<Longrightarrow> 3 \<le> userManuallyArchivedCount s"
    and "confidence (runCascade s) \<le> 88 / 100"
    and "30 \<le> monthlyVolume s"
proof -
  note v = archive_verdict_scores [OF assms]
  note b = score_confidence_bounds [OF unsubscribe_score_bounds(1) v(5,4) scored_margin(2)]
  note p = archive_points [OF v(4,5)]
  have c: "confidence (runCascade s) = score_confidence (archive_score s) (unsubscribe_score s)"
    using v(1,4,5) phase_c_confidence(2) by simp
  have "confidence (runCascade s) \<le> 74 / 100" if "userManuallyArchivedCount s < 3"
    using b(2) [OF p(3) [OF that]] c by simp
  then show "74 / 100 < confidence (runCascade s) \<Longrightarrow> 3 \<le> userManuallyArchivedCount s"
    by (meson linorder_not_less)
  show "73 / 100 \<le> confidence (runCascade s)" "confidence (runCascade s) \<le> 88 / 100"
    "30 \<le> monthlyVolume s"
    using b(1) [OF p(1)] b(2) [OF p(2)] c archive_wins_cases(1) [OF v(4)] by simp_all
qed

lemma unsubscribe_gov_cap:
  assumes "verdict (runCascade s) = TUnsubscribe"
  shows "isGovDomain s \<Longrightarrow> confidence (runCascade s) \<le> 75 / 100"
  using unsubscribe_verdict_scores(1,5,6) [OF assms] phase_c_confidence(1) [of s]
  by (simp add: gov_unsub_confidence_cap_def min_def)

text \<open>
  An Archive verdict lies in the confidence band \<open>[0.73, 0.88]\<close>; it is only reached
  by senders of thirty messages a month or more; and a confidence above 0.74 means the
  user archived the sender by hand at least three times. So the shipped auto-archive
  threshold 0.72 never filters an Archive verdict, and one of 0.85 only admits senders
  the user already archives.
\<close>

theorem archive_confidence_band:
  assumes "verdict (runCascade s) = TArchive"
  shows "73 / 100 \<le> confidence (runCascade s) \<and> confidence (runCascade s) \<le> 88 / 100 \<and>
    30 \<le> monthlyVolume s \<and>
    (74 / 100 < confidence (runCascade s) \<longrightarrow> 3 \<le> userManuallyArchivedCount s)"
  using archive_confidence_facts [OF assms] by blast

definition busy_shop_sender :: sender_signals where
  "busy_shop_sender = noisy_gov_sender
     \<lparr>isGovDomain := False, monthlyVolume := 64, unsubscribeChannel := Mailto,
      readRate90d := Some (4 / 10), spikeRatio := 1, gmailCategory := Updates,
      userManuallyArchivedCount := 5\<rparr>"

theorem archive_confidence_band_witness:
  "confidence (runCascade busy_shop_sender) \<le> 88 / 100 \<and>
   74 / 100 < confidence (runCascade busy_shop_sender) \<and>
   3 \<le> userManuallyArchivedCount busy_shop_sender"
proof -
  have v: "verdict (runCascade busy_shop_sender) = TArchive" by code_simp
  have "74 / 100 < confidence (runCascade busy_shop_sender)" by code_simp
  with archive_confidence_band [OF v] show ?thesis by blast
qed

lemma unknown_rate_scores:
  assumes "readRate90d s = None"
  shows "archive_score (s\<lparr>readRate90d := Some r\<rparr>) = archive_score s"
    and "unsubscribe_score s \<le> unsubscribe_score (s\<lparr>readRate90d := Some r\<rparr>)"
    and "unsub_gate (s\<lparr>readRate90d := Some r\<rparr>) = unsub_gate s"
  using assms
  by (simp_all add: archive_score_def has_unsub_channel_def unsub_gate_def unsubscribe_score_def)


lemma round2_mono: "x \<le> y \<Longrightarrow> round2 x \<le> round2 y"
  by (simp add: round2_def js_round_mono divide_right_mono)

lemma clamp_mono: "x \<le> y \<Longrightarrow> clamp x a b \<le> clamp y a b"
  by (auto simp: clamp_def min_def max_def)

lemma score_confidence_mono: "w \<le> w' \<Longrightarrow> score_confidence w l \<le> score_confidence w' l"
  unfolding score_confidence_def Let_def
  by (intro round2_mono clamp_mono add_mono mult_left_mono clamp_mono) simp_all

text \<open>
  Missing read data never argues for unsubscribing. If the engine says Unsubscribe
  for a sender whose read rate is unknown, it says Unsubscribe for the same sender at
  every known read rate below three tenths, with at least the same confidence.
\<close>

theorem unknown_read_rate_never_argues:
  assumes "readRate90d s = None" "verdict (runCascade s) = TUnsubscribe" "r < 3 / 10"
  shows "verdict (runCascade (s\<lparr>readRate90d := Some r\<rparr>)) = TUnsubscribe \<and>
    confidence (runCascade s) \<le> confidence (runCascade (s\<lparr>readRate90d := Some r\<rparr>))"
proof -
  let ?t = "s\<lparr>readRate90d := Some r\<rparr>"
  note v = unsubscribe_verdict_scores [OF assms(2)]
  note sc = unknown_rate_scores [OF assms(1), of r]
  have a: "phase_a ?t = None" "phase_b ?t = None"
    using v(2,3) assms(3) unfolding phase_a_None_iff phase_b_None_iff by auto
  have u: "5 / 10 \<le> unsubscribe_score ?t \<and> archive_score ?t < unsubscribe_score ?t"
    using v(5,6) sc by linarith
  have "runCascade ?t = phase_c ?t" using a by (simp add: runCascade_def)
  moreover have "verdict (phase_c ?t) = TUnsubscribe" using u phase_c_unsubscribe_iff by blast
  moreover have "confidence (phase_c s) \<le> confidence (phase_c ?t)"
    using phase_c_confidence(1) [of s] phase_c_confidence(1) [OF u] v(5,6) sc
      score_confidence_mono [OF sc(2), of "archive_score s"]
    by (auto simp: min_def)
  ultimately show ?thesis using v(1) by simp
qed

theorem unknown_read_rate_never_argues_witness:
  "verdict (runCascade (noisy_gov_sender\<lparr>readRate90d := Some (1 / 4)\<rparr>)) = TUnsubscribe"
proof -
  let ?s = "noisy_gov_sender\<lparr>readRate90d := None\<rparr>"
  have "readRate90d ?s = None" "verdict (runCascade ?s) = TUnsubscribe" by code_simp+
  from unknown_read_rate_never_argues [OF this, of "1 / 4"] show ?thesis by simp
qed

end
