(* ===== verification/Presets.thy ===== *)
theory Presets
  imports Cascade
begin

text \<open>
  The Autopilot rule vocabulary: the five preset matchers and the interpreter of a
  saved rule configuration (\<^verbatim>\<open>packages/workers/src/autopilot-presets.ts\<close>), the zod
  schema of a configuration, the default configuration of each preset and the
  approval-first Delete test
  (\<^verbatim>\<open>packages/shared/src/contracts/autopilot-rule-configuration.ts\<close>).

  The preset matchers and the configuration interpreter are two implementations of one
  meaning; the lemmas relate them preset by preset and to the engine's verdicts.
\<close>

subsection \<open>Presets\<close>

datatype preset_key =
    AutoArchiveLowEngagement | AutoUnsubscribeNoisy | AutoScreenNewSenders
  | NewsletterGraveyard | LongDormantUnsubscribe

fun preset_key_name :: "preset_key \<Rightarrow> string" where
  "preset_key_name AutoArchiveLowEngagement = ''auto_archive_low_engagement''"
| "preset_key_name AutoUnsubscribeNoisy = ''auto_unsubscribe_noisy''"
| "preset_key_name AutoScreenNewSenders = ''auto_screen_new_senders''"
| "preset_key_name NewsletterGraveyard = ''newsletter_graveyard''"
| "preset_key_name LongDormantUnsubscribe = ''long_dormant_unsubscribe''"

definition autopilot_preset_keys :: "preset_key list" where
  "autopilot_preset_keys = [AutoArchiveLowEngagement, AutoUnsubscribeNoisy, AutoScreenNewSenders,
     NewsletterGraveyard, LongDormantUnsubscribe]"

datatype autopilot_action = ActArchive | ActUnsubscribe | ActLater | ActDelete

fun triage_verdict_name :: "triage_verdict \<Rightarrow> string" where
  "triage_verdict_name TKeep = ''keep''"
| "triage_verdict_name TArchive = ''archive''"
| "triage_verdict_name TUnsubscribe = ''unsubscribe''"
| "triage_verdict_name TLater = ''later''"

record preset_signals =
  psProtected :: bool
  psFirstSeenDaysAgo :: int
  psTotalMessages :: int
  psReadRateLifetime :: "rat option"
  psLastSeenDaysAgo :: int

record preset_input =
  piSignals :: preset_signals
  piDecision :: "(triage_verdict \<times> rat) option"

record match_result =
  matched :: bool
  reason :: string

definition no_match :: match_result where
  "no_match = \<lparr>matched = False, reason = ''''\<rparr>"

definition dormancy_min_messages :: int where
  "dormancy_min_messages = 5"

definition pct_of :: "rat \<Rightarrow> int" where
  "pct_of r = js_round (r * 100)"

definition verdict_matcher ::
  "triage_verdict \<Rightarrow> rat \<Rightarrow> string \<Rightarrow> preset_input \<Rightarrow> rat option \<Rightarrow> match_result" where
  "verdict_matcher target dflt label inp threshold =
     (case piDecision inp of
        None \<Rightarrow> no_match
      | Some (v, conf) \<Rightarrow>
          if v \<noteq> target then no_match
          else let t = (case threshold of Some x \<Rightarrow> x | None \<Rightarrow> dflt)
               in if conf \<le> t then no_match
                  else \<lparr>matched = True,
                        reason = ''Engine verdict='' @ label @ '' @'' @ to_fixed2 conf
                                 @ '' above threshold '' @ to_fixed2 t\<rparr>)"

definition screen_matcher :: "preset_input \<Rightarrow> match_result" where
  "screen_matcher inp =
     (let sg = piSignals inp;
          newByDays = psFirstSeenDaysAgo sg < 7;
          newByCount = psTotalMessages sg < 3;
          days = show_int (psFirstSeenDaysAgo sg); msgs = show_int (psTotalMessages sg)
      in if \<not> newByDays \<and> \<not> newByCount then no_match
         else if newByDays \<and> newByCount then
           \<lparr>matched = True, reason = ''New sender ('' @ days @ ''d old, '' @ msgs @ '' msgs)''\<rparr>
         else \<lparr>matched = True,
               reason = (if newByDays then ''New sender ('' @ days @ ''d old)''
                         else ''New sender ('' @ msgs @ '' msgs)'')\<rparr>)"

definition dormancy_reason :: "rat \<Rightarrow> preset_signals \<Rightarrow> string" where
  "dormancy_reason r sg =
     ''Read rate '' @ show_int (pct_of r) @ ''% across all '' @ show_int (psTotalMessages sg)
     @ '' messages, last seen '' @ show_int (psLastSeenDaysAgo sg) @ ''d ago''"

definition graveyard_matcher :: "preset_input \<Rightarrow> match_result" where
  "graveyard_matcher inp =
     (let sg = piSignals inp in
      case psReadRateLifetime sg of
        None \<Rightarrow> no_match
      | Some r \<Rightarrow>
          if psTotalMessages sg < dormancy_min_messages then no_match
          else if 5 / 100 \<le> r then no_match
          else if psLastSeenDaysAgo sg \<le> 90 then no_match
          else if 180 < psLastSeenDaysAgo sg then no_match
          else \<lparr>matched = True, reason = dormancy_reason r sg\<rparr>)"

definition long_dormant_matcher :: "preset_input \<Rightarrow> match_result" where
  "long_dormant_matcher inp =
     (let sg = piSignals inp in
      case psReadRateLifetime sg of
        None \<Rightarrow> no_match
      | Some r \<Rightarrow>
          if psTotalMessages sg < dormancy_min_messages then no_match
          else if 5 / 100 \<le> r then no_match
          else if psLastSeenDaysAgo sg \<le> 180 then no_match
          else \<lparr>matched = True, reason = dormancy_reason r sg\<rparr>)"

record preset_definition =
  defaultName :: string
  presetAction :: autopilot_action
  defaultThreshold :: "rat option"
  defaultActionPayload :: jsval
  dailyActionCap :: nat

fun preset_match :: "preset_key \<Rightarrow> preset_input \<Rightarrow> rat option \<Rightarrow> match_result" where
  "preset_match AutoArchiveLowEngagement inp t =
     verdict_matcher TArchive (72 / 100) ''Archive'' inp t"
| "preset_match AutoUnsubscribeNoisy inp t =
     verdict_matcher TUnsubscribe (9 / 10) ''Unsubscribe'' inp t"
| "preset_match AutoScreenNewSenders inp t = screen_matcher inp"
| "preset_match NewsletterGraveyard inp t = graveyard_matcher inp"
| "preset_match LongDormantUnsubscribe inp t = long_dormant_matcher inp"

fun autopilot_presets :: "preset_key \<Rightarrow> preset_definition" where
  "autopilot_presets AutoArchiveLowEngagement =
     \<lparr>defaultName = ''Auto-archive low-engagement'', presetAction = ActArchive,
      defaultThreshold = Some (72 / 100), defaultActionPayload = JObj [], dailyActionCap = 100\<rparr>"
| "autopilot_presets AutoUnsubscribeNoisy =
     \<lparr>defaultName = ''Auto-unsubscribe noisy senders'', presetAction = ActUnsubscribe,
      defaultThreshold = Some (9 / 10),
      defaultActionPayload = JObj [(''and_archive_future'', JBool True)], dailyActionCap = 25\<rparr>"
| "autopilot_presets AutoScreenNewSenders =
     \<lparr>defaultName = ''Auto-screen new senders'', presetAction = ActLater,
      defaultThreshold = None, defaultActionPayload = JObj [], dailyActionCap = 50\<rparr>"
| "autopilot_presets NewsletterGraveyard =
     \<lparr>defaultName = ''Newsletter graveyard'', presetAction = ActUnsubscribe,
      defaultThreshold = None, defaultActionPayload = JObj [], dailyActionCap = 25\<rparr>"
| "autopilot_presets LongDormantUnsubscribe =
     \<lparr>defaultName = ''Long-dormant unsubscribe'', presetAction = ActUnsubscribe,
      defaultThreshold = None, defaultActionPayload = JObj [], dailyActionCap = 25\<rparr>"

subsection \<open>Saved configurations\<close>

datatype rule_conditions =
    Recommendation (recVerdict: triage_verdict) (recConfidence: rat)
  | NewSender (nsFirstSeenWithinDays: int) (nsFewerThanMessages: int)
  | Dormant (dLastSeenAfterDays: int) (dLastSeenWithinDays: "int option")
      (dReadRateBelow: rat) (dMinMessages: int)

text \<open>The combinators of the schema library the declarations use, by their documented meaning.\<close>

definition only_keys :: "string list \<Rightarrow> (string \<times> jsval) list \<Rightarrow> bool" where
  \<comment> \<open>\<open>.strict()\<close>\<close>
  "only_keys ks fs \<longleftrightarrow> list_all (\<lambda>(k, _). k \<in> set ks) fs"

fun z_number :: "rat \<Rightarrow> rat \<Rightarrow> jsval option \<Rightarrow> rat option" where
  \<comment> \<open>\<open>z.number().min(lo).max(hi)\<close>\<close>
  "z_number lo hi (Some (JNum x)) = (if lo \<le> x \<and> x \<le> hi then Some x else None)"
| "z_number lo hi _ = None"

definition z_int :: "int \<Rightarrow> int \<Rightarrow> jsval option \<Rightarrow> int option" where
  \<comment> \<open>\<open>z.number().int().min(lo).max(hi)\<close>\<close>
  "z_int lo hi v =
     (case z_number (of_int lo) (of_int hi) v of
        Some x \<Rightarrow> (if of_int \<lfloor>x\<rfloor> = x then Some \<lfloor>x\<rfloor> else None)
      | None \<Rightarrow> None)"

fun z_nullable_int :: "int \<Rightarrow> int \<Rightarrow> jsval option \<Rightarrow> int option option" where
  "z_nullable_int lo hi (Some JNull) = Some None"
| "z_nullable_int lo hi v = map_option Some (z_int lo hi v)"

fun z_condition_verdict :: "jsval option \<Rightarrow> triage_verdict option" where
  "z_condition_verdict (Some (JStr s)) =
     (if s = ''archive'' then Some TArchive else if s = ''unsubscribe'' then Some TUnsubscribe
      else if s = ''later'' then Some TLater else None)"
| "z_condition_verdict _ = None"

definition parse_recommendation :: "(string \<times> jsval) list \<Rightarrow> rule_conditions option" where
  "parse_recommendation fs =
     (if only_keys [''kind'', ''verdict'', ''confidence''] fs then
        (case (z_condition_verdict (map_of fs ''verdict''), z_number 0 1 (map_of fs ''confidence'')) of
           (Some v, Some c) \<Rightarrow> Some (Recommendation v c)
         | _ \<Rightarrow> None)
      else None)"

definition parse_new_sender :: "(string \<times> jsval) list \<Rightarrow> rule_conditions option" where
  "parse_new_sender fs =
     (if only_keys [''kind'', ''firstSeenWithinDays'', ''fewerThanMessages''] fs then
        (case (z_int 1 365 (map_of fs ''firstSeenWithinDays''),
               z_int 1 1000 (map_of fs ''fewerThanMessages'')) of
           (Some d, Some m) \<Rightarrow> Some (NewSender d m)
         | _ \<Rightarrow> None)
      else None)"

definition parse_dormant :: "(string \<times> jsval) list \<Rightarrow> rule_conditions option" where
  "parse_dormant fs =
     (if only_keys [''kind'', ''lastSeenAfterDays'', ''lastSeenWithinDays'', ''readRateBelow'',
                    ''minMessages''] fs then
        (case (z_int 0 3650 (map_of fs ''lastSeenAfterDays''),
               z_nullable_int 1 3650 (map_of fs ''lastSeenWithinDays''),
               z_number (1 / 100) 1 (map_of fs ''readRateBelow''),
               z_int 5 10000 (map_of fs ''minMessages'')) of
           (Some a, Some w, Some r, Some m) \<Rightarrow>
             (if (case w of None \<Rightarrow> True | Some hi \<Rightarrow> a < hi) then Some (Dormant a w r m) else None)
         | _ \<Rightarrow> None)
      else None)"

fun parse_conditions :: "jsval \<Rightarrow> rule_conditions option" where
  \<comment> \<open>\<open>AutopilotRuleConditionsSchema.safeParse\<close>: the \<open>kind\<close> field picks the schema\<close>
  "parse_conditions (JObj fs) =
     (case map_of fs ''kind'' of
        Some (JStr k) \<Rightarrow>
          (if k = ''recommendation'' then parse_recommendation fs
           else if k = ''new_sender'' then parse_new_sender fs
           else if k = ''dormant'' then parse_dormant fs
           else None)
      | _ \<Rightarrow> None)"
| "parse_conditions _ = None"

fun default_conditions :: "preset_key \<Rightarrow> rat option \<Rightarrow> rule_conditions" where
  "default_conditions AutoArchiveLowEngagement t =
     Recommendation TArchive (case t of Some x \<Rightarrow> x | None \<Rightarrow> 72 / 100)"
| "default_conditions AutoUnsubscribeNoisy t =
     Recommendation TUnsubscribe (case t of Some x \<Rightarrow> x | None \<Rightarrow> 9 / 10)"
| "default_conditions AutoScreenNewSenders t = NewSender 7 3"
| "default_conditions NewsletterGraveyard t = Dormant 90 (Some 180) (5 / 100) 5"
| "default_conditions LongDormantUnsubscribe t = Dormant 180 None (5 / 100) 5"

definition preset_key_of_name :: "string \<Rightarrow> preset_key option" where
  "preset_key_of_name s = List.find (\<lambda>k. preset_key_name k = s) autopilot_preset_keys"

definition defaultAutopilotConditions :: "string option \<Rightarrow> rat option \<Rightarrow> rule_conditions option" where
  \<comment> \<open>\<open>None\<close> is the thrown \<open>Unknown Autopilot preset.\<close>\<close>
  "defaultAutopilotConditions key t =
     (case key of None \<Rightarrow> None
      | Some s \<Rightarrow> map_option (\<lambda>k. default_conditions k t) (preset_key_of_name s))"

fun conditions_json :: "rule_conditions \<Rightarrow> jsval" where
  \<comment> \<open>the object literal a condition is written as\<close>
  "conditions_json (Recommendation v c) =
     JObj [(''kind'', JStr ''recommendation''), (''verdict'', JStr (triage_verdict_name v)),
           (''confidence'', JNum c)]"
| "conditions_json (NewSender d m) =
     JObj [(''kind'', JStr ''new_sender''), (''firstSeenWithinDays'', JNum (of_int d)),
           (''fewerThanMessages'', JNum (of_int m))]"
| "conditions_json (Dormant a w r m) =
     JObj [(''kind'', JStr ''dormant''), (''lastSeenAfterDays'', JNum (of_int a)),
           (''lastSeenWithinDays'', (case w of None \<Rightarrow> JNull | Some x \<Rightarrow> JNum (of_int x))),
           (''readRateBelow'', JNum r), (''minMessages'', JNum (of_int m))]"

subsection \<open>The interpreter\<close>

fun stored_is_empty :: "jsval \<Rightarrow> bool" where
  \<comment> \<open>\<open>stored && typeof stored === 'object' && Object.keys(stored).length === 0\<close>\<close>
  "stored_is_empty (JObj fs) = (fs = [])"
| "stored_is_empty (JArr xs) = (xs = [])"
| "stored_is_empty _ = False"

fun conditions_matched :: "rule_conditions \<Rightarrow> preset_input \<Rightarrow> rat option \<Rightarrow> bool" where
  "conditions_matched (Recommendation v c) inp t =
     (case piDecision inp of
        None \<Rightarrow> False
      | Some (v', conf) \<Rightarrow> v' = v \<and> (case t of Some x \<Rightarrow> x | None \<Rightarrow> c) < conf)"
| "conditions_matched (NewSender d m) inp t =
     (psFirstSeenDaysAgo (piSignals inp) < d \<or> psTotalMessages (piSignals inp) < m)"
| "conditions_matched (Dormant a w rb mm) inp t =
     (let sg = piSignals inp in
      case psReadRateLifetime sg of
        None \<Rightarrow> False
      | Some r \<Rightarrow> mm \<le> psTotalMessages sg \<and> r < rb \<and> a < psLastSeenDaysAgo sg \<and>
          (case w of None \<Rightarrow> True | Some hi \<Rightarrow> psLastSeenDaysAgo sg \<le> hi))"

fun conditions_reason :: "rule_conditions \<Rightarrow> preset_input \<Rightarrow> rat option \<Rightarrow> string" where
  "conditions_reason (Recommendation v c) inp t =
     ''Recommendation '' @ triage_verdict_name v @ '', confidence above ''
     @ show_int (js_round ((case t of Some x \<Rightarrow> x | None \<Rightarrow> c) * 100)) @ ''%''"
| "conditions_reason (NewSender d m) inp t =
     ''Sender first seen '' @ show_int (psFirstSeenDaysAgo (piSignals inp)) @ ''d ago, ''
     @ show_int (psTotalMessages (piSignals inp)) @ '' messages''"
| "conditions_reason (Dormant a w rb mm) inp t =
     ''Read rate ''
     @ show_int (js_round ((case psReadRateLifetime (piSignals inp) of Some r \<Rightarrow> r | None \<Rightarrow> 0) * 100))
     @ ''% across '' @ show_int (psTotalMessages (piSignals inp)) @ '' messages, last seen ''
     @ show_int (psLastSeenDaysAgo (piSignals inp)) @ ''d ago''"

definition matchConfiguredPreset ::
  "preset_key \<Rightarrow> preset_input \<Rightarrow> rat option \<Rightarrow> jsval \<Rightarrow> match_result" where
  "matchConfiguredPreset key inp t stored =
     (if stored_is_empty stored then preset_match key inp t
      else case parse_conditions stored of
          None \<Rightarrow> no_match
        | Some c \<Rightarrow>
            let m = conditions_matched c inp t
            in \<lparr>matched = m, reason = (if m then conditions_reason c inp t else '''')\<rparr>)"

subsection \<open>Rule configurations and approval-first Delete\<close>

definition z_reach :: "jsval option \<Rightarrow> bool" where
  \<comment> \<open>\<open>z.enum(['inbox_only', 'all_mail']).optional()\<close>\<close>
  "z_reach v = (v = None \<or> v = Some (JStr ''inbox_only'') \<or> v = Some (JStr ''all_mail''))"

record configurable_rule =
  crIsPreset :: bool
  crPresetKey :: "string option"
  crScope :: string
  crActionKind :: string
  crConditions :: jsval
  crActionPayload :: jsval

fun same_family :: "rule_conditions \<Rightarrow> rule_conditions \<Rightarrow> bool" where
  \<comment> \<open>same \<open>kind\<close>, and for two recommendations the same verdict\<close>
  "same_family (Recommendation v _) (Recommendation v' _) = (v = v')"
| "same_family (NewSender _ _) (NewSender _ _) = True"
| "same_family (Dormant _ _ _ _) (Dormant _ _ _ _) = True"
| "same_family _ _ = False"

fun payload_ok :: "jsval \<Rightarrow> bool" where
  "payload_ok (JObj fs) = z_reach (map_of fs ''reach'')"
| "payload_ok _ = False"

definition isApprovalFirstDeletePreset :: "configurable_rule \<Rightarrow> bool" where
  "isApprovalFirstDeletePreset r =
     (if \<not> crIsPreset r \<or> crActionKind r \<noteq> ''delete'' \<or> crScope r \<noteq> ''account'' then False
      else case parse_conditions (crConditions r) of
          None \<Rightarrow> False
        | Some c \<Rightarrow>
            if \<not> payload_ok (crActionPayload r) then False
            else case defaultAutopilotConditions (crPresetKey r) None of
                None \<Rightarrow> False
              | Some family \<Rightarrow> same_family c family)"

record rule_configuration =
  cfgVersion :: int
  cfgName :: string
  cfgConditions :: rule_conditions
  cfgAction :: string
  cfgReach :: "string option"

fun js_string :: "jsval option \<Rightarrow> string option" where
  "js_string (Some (JStr s)) = Some s"
| "js_string _ = None"

fun z_positive_int :: "jsval option \<Rightarrow> int option" where
  \<comment> \<open>\<open>z.number().int().positive()\<close>; \<open>int()\<close> admits the safe integers only\<close>
  "z_positive_int v = z_int 1 9007199254740991 v"

fun parse_rule_configuration :: "jsval \<Rightarrow> rule_configuration option" where
  "parse_rule_configuration (JObj fs) =
     (if only_keys [''version'', ''name'', ''conditions'', ''actionKind'', ''reach''] fs then
        (case (z_positive_int (map_of fs ''version''), map_option trim (js_string (map_of fs ''name'')),
               Option.bind (map_of fs ''conditions'') parse_conditions,
               js_string (map_of fs ''actionKind'')) of
           (Some v, Some n, Some c, Some a) \<Rightarrow>
             (let reach = js_string (map_of fs ''reach'') in
              if 1 \<le> length n \<and> length n \<le> 80 \<and>
                 a \<in> {''archive'', ''later'', ''unsubscribe'', ''delete''} \<and>
                 z_reach (map_of fs ''reach'') \<and>
                 (reach \<noteq> Some ''all_mail'' \<or> a = ''delete'')
              then Some \<lparr>cfgVersion = v, cfgName = n, cfgConditions = c, cfgAction = a, cfgReach = reach\<rparr>
              else None)
         | _ \<Rightarrow> None)
      else None)"
| "parse_rule_configuration _ = None"

subsection \<open>Valid conditions\<close>

fun valid_conditions :: "rule_conditions \<Rightarrow> bool" where
  "valid_conditions (Recommendation v c) = (v \<noteq> TKeep \<and> 0 \<le> c \<and> c \<le> 1)"
| "valid_conditions (NewSender d m) = (1 \<le> d \<and> d \<le> 365 \<and> 1 \<le> m \<and> m \<le> 1000)"
| "valid_conditions (Dormant a w r m) =
     (0 \<le> a \<and> a \<le> 3650 \<and> 1 / 100 \<le> r \<and> r \<le> 1 \<and> 5 \<le> m \<and> m \<le> 10000 \<and>
      (case w of None \<Rightarrow> True | Some hi \<Rightarrow> 1 \<le> hi \<and> hi \<le> 3650 \<and> a < hi))"

lemma z_number_SomeD: "z_number lo hi v = Some x \<Longrightarrow> lo \<le> x \<and> x \<le> hi"
  by (cases "(lo, hi, v)" rule: z_number.cases) (auto split: if_splits)

lemma z_int_SomeD: "z_int lo hi v = Some n \<Longrightarrow> lo \<le> n \<and> n \<le> hi"
  by (auto simp: z_int_def split: option.splits if_splits dest!: z_number_SomeD)

lemma z_int_of_int [simp]: "z_int lo hi (Some (JNum (of_int n))) = (if lo \<le> n \<and> n \<le> hi then Some n else None)"
  by (simp add: z_int_def)

lemma z_nullable_int_SomeD:
  "z_nullable_int lo hi v = Some w \<Longrightarrow> (case w of None \<Rightarrow> True | Some n \<Rightarrow> lo \<le> n \<and> n \<le> hi)"
  by (cases "(lo, hi, v)" rule: z_nullable_int.cases) (auto dest: z_int_SomeD)

lemma z_condition_verdict_SomeD: "z_condition_verdict v = Some d \<Longrightarrow> d \<noteq> TKeep"
  by (cases v rule: z_condition_verdict.cases) (auto split: if_splits)

lemma z_condition_verdict_name [simp]:
  "z_condition_verdict (Some (JStr (triage_verdict_name v))) = (if v = TKeep then None else Some v)"
  by (cases v) simp_all

lemma parse_conditions_valid: "parse_conditions j = Some c \<Longrightarrow> valid_conditions c"
  by (cases j)
    (auto simp: parse_recommendation_def parse_new_sender_def parse_dormant_def
      split: option.splits jsval.splits if_splits
      dest!: z_number_SomeD z_int_SomeD z_condition_verdict_SomeD z_nullable_int_SomeD)

lemma parse_conditions_json: "parse_conditions (conditions_json c) = (if valid_conditions c then Some c else None)"
  by (cases c)
    (auto simp: parse_recommendation_def parse_new_sender_def parse_dormant_def only_keys_def
      simp del: z_condition_verdict.simps split: option.splits)

lemma default_conditions_valid:
  "(\<And>x. t = Some x \<Longrightarrow> 0 \<le> x \<and> x \<le> 1) \<Longrightarrow> valid_conditions (default_conditions k t)"
  by (cases k; cases t) auto

subsection \<open>Two interpreters, one meaning\<close>

lemmas preset_matcher_defs =
  verdict_matcher_def screen_matcher_def graveyard_matcher_def long_dormant_matcher_def
  no_match_def dormancy_min_messages_def

lemma conditions_json_nonempty [simp]: "\<not> stored_is_empty (conditions_json c)"
  by (cases c) simp_all

lemma matchConfiguredPreset_parsed:
  "valid_conditions c \<Longrightarrow>
     matched (matchConfiguredPreset k inp t (conditions_json c)) = conditions_matched c inp t"
  by (simp add: matchConfiguredPreset_def parse_conditions_json Let_def)

lemma matchConfiguredPreset_valid:
  "matched (matchConfiguredPreset k inp t j) \<Longrightarrow>
     stored_is_empty j \<or>
     (\<exists>c. parse_conditions j = Some c \<and> valid_conditions c \<and> conditions_matched c inp t)"
  by (auto simp: matchConfiguredPreset_def Let_def no_match_def parse_conditions_valid
      split: if_splits option.splits)

text \<open>
  C30: the shipped preset matchers and the configuration interpreter agree. For each of
  the five presets, saving its default conditions matches exactly the senders the
  built-in matcher matches, for every input and every threshold a rule can hold.
\<close>

theorem default_conditions_equivalent:
  assumes "\<And>x. t = Some x \<Longrightarrow> 0 \<le> x \<and> x \<le> 1"
  shows "matched (matchConfiguredPreset k inp t (conditions_json (default_conditions k t))) =
    matched (matchConfiguredPreset k inp t (JObj []))"
proof -
  have "matched (matchConfiguredPreset k inp t (JObj [])) = matched (preset_match k inp t)"
    by (simp add: matchConfiguredPreset_def)
  also have "\<dots> = conditions_matched (default_conditions k t) inp t"
    by (cases k) (auto simp: preset_matcher_defs Let_def split: option.splits)
  finally show ?thesis
    using assms by (simp add: matchConfiguredPreset_parsed default_conditions_valid)
qed

definition quiet_sender :: preset_input where
  "quiet_sender =
     \<lparr>piSignals = \<lparr>psProtected = False, psFirstSeenDaysAgo = 900, psTotalMessages = 40,
        psReadRateLifetime = Some (1 / 40), psLastSeenDaysAgo = 120\<rparr>,
      piDecision = Some (TArchive, 74 / 100)\<rparr>"

theorem default_conditions_equivalent_witness:
  "matched (matchConfiguredPreset AutoArchiveLowEngagement quiet_sender (Some (1 / 2))
     (conditions_json (Recommendation TArchive (1 / 2))))"
proof -
  have "matched (matchConfiguredPreset AutoArchiveLowEngagement quiet_sender (Some (1 / 2)) (JObj []))"
    by (simp add: matchConfiguredPreset_def quiet_sender_def preset_matcher_defs Let_def)
  then show ?thesis
    using default_conditions_equivalent [of "Some (1 / 2)" AutoArchiveLowEngagement quiet_sender]
    by simp
qed

text \<open>
  No dormancy condition acts on missing or thin evidence. Whatever is stored for the
  two dormancy presets, as long as it is the empty default or parses as a dormancy
  condition, a match means a known read rate below one, at least five messages, and
  some silence since the last one.
\<close>

theorem dormancy_needs_evidence:
  assumes "k \<in> {NewsletterGraveyard, LongDormantUnsubscribe}"
    and "stored_is_empty j \<or> (\<exists>a w r m. parse_conditions j = Some (Dormant a w r m))"
    and "matched (matchConfiguredPreset k inp t j)"
  shows "\<exists>r. psReadRateLifetime (piSignals inp) = Some r \<and> r < 1 \<and>
      5 \<le> psTotalMessages (piSignals inp) \<and> 0 < psLastSeenDaysAgo (piSignals inp)"
proof (cases "stored_is_empty j")
  case True
  with assms show ?thesis
    by (auto simp: matchConfiguredPreset_def preset_matcher_defs Let_def split: option.splits if_splits)
next
  case False
  with matchConfiguredPreset_valid [OF assms(3)] assms(2) show ?thesis
    by (auto simp: Let_def split: option.splits)
qed

theorem dormancy_needs_evidence_witness:
  "psReadRateLifetime (piSignals quiet_sender) \<noteq> None \<and> 5 \<le> psTotalMessages (piSignals quiet_sender)"
proof -
  have "matched (matchConfiguredPreset NewsletterGraveyard quiet_sender None (JObj []))"
    by (simp add: matchConfiguredPreset_def quiet_sender_def preset_matcher_defs Let_def)
  from dormancy_needs_evidence [OF _ _ this] show ?thesis by auto
qed

text \<open>
  A sender is in at most one dormancy tier: the newsletter graveyard and the
  long-dormant preset never match the same input.
\<close>

theorem dormancy_tiers_disjoint:
  "\<not> (matched (preset_match NewsletterGraveyard inp t) \<and>
      matched (preset_match LongDormantUnsubscribe inp t'))"
  by (auto simp: preset_matcher_defs Let_def split: option.splits if_splits)

subsection \<open>Presets on the engine's own verdicts\<close>

definition cascade_decision :: "sender_signals \<Rightarrow> triage_verdict \<times> rat" where
  "cascade_decision s = (verdict (runCascade s), confidence (runCascade s))"

lemma verdict_matcher_matched:
  "matched (verdict_matcher v d l inp t) \<longleftrightarrow>
     (\<exists>c. piDecision inp = Some (v, c) \<and> (case t of Some x \<Rightarrow> x | None \<Rightarrow> d) < c)"
  by (auto simp: verdict_matcher_def no_match_def Let_def split: option.splits)

text \<open>
  The shipped thresholds against the engine. On a decision the cascade produced, the
  auto-archive preset at its default threshold matches exactly the Archive verdicts,
  raised to 0.85 it matches only senders the user archived by hand three times; and the
  auto-unsubscribe preset at its default threshold never matches a government domain, a
  protected sender, or one the user wrote to.
\<close>

theorem presets_on_cascade:
  assumes "piDecision inp = Some (cascade_decision s)"
  shows "(matched (preset_match AutoArchiveLowEngagement inp None) \<longleftrightarrow>
      verdict (runCascade s) = TArchive) \<and>
    (matched (preset_match AutoArchiveLowEngagement inp (Some (85 / 100))) \<longrightarrow>
      3 \<le> userManuallyArchivedCount s) \<and>
    (matched (preset_match AutoUnsubscribeNoisy inp None) \<longrightarrow>
      \<not> isGovDomain s \<and> \<not> isProtected s \<and> \<not> hasWrittenTo s)"
proof (intro conjI impI)
  show "matched (preset_match AutoArchiveLowEngagement inp None) \<longleftrightarrow>
      verdict (runCascade s) = TArchive"
    using assms archive_confidence_facts(1) [of s]
    by (auto simp: verdict_matcher_matched cascade_decision_def)
  assume "matched (preset_match AutoArchiveLowEngagement inp (Some (85 / 100)))"
  then show "3 \<le> userManuallyArchivedCount s"
    using assms archive_confidence_facts(2) [of s]
    by (auto simp: verdict_matcher_matched cascade_decision_def)
next
  assume "matched (preset_match AutoUnsubscribeNoisy inp None)"
  then have u: "verdict (runCascade s) = TUnsubscribe" "9 / 10 < confidence (runCascade s)"
    using assms by (auto simp: verdict_matcher_matched cascade_decision_def)
  then show "\<not> isGovDomain s" "\<not> isProtected s" "\<not> hasWrittenTo s"
    using unsubscribe_gov_cap [OF u(1)] unsubscribe_verdict_scores(2) [OF u(1)]
    by (auto simp: phase_a_None_iff)
qed

theorem presets_on_cascade_witness:
  "matched (preset_match AutoArchiveLowEngagement
     (quiet_sender\<lparr>piDecision := Some (cascade_decision busy_shop_sender)\<rparr>) None)"
proof -
  have "verdict (runCascade busy_shop_sender) = TArchive" by code_simp
  then show ?thesis
    using presets_on_cascade [of "quiet_sender\<lparr>piDecision := Some (cascade_decision busy_shop_sender)\<rparr>"
        busy_shop_sender]
    by simp
qed

end
