(* ===== verification/Quiet_Hours.thy ===== *)
theory Quiet_Hours
  imports Prelude
begin

text \<open>
  Quiet hours: the window arithmetic (\<^verbatim>\<open>packages/shared/src/contracts/quiet-hours.ts\<close>)
  and the stored state and predicate the sweeps defer on
  (\<^verbatim>\<open>packages/workers/src/quiet-hours-state.ts\<close>).

  What the code asks of its host is a parameter: the wall clock of a time zone at an
  instant (\<open>Intl.DateTimeFormat\<close>, \<open>None\<close> when it throws) and the instant a date string
  names (\<open>Date.parse\<close>, \<open>None\<close> for \<open>NaN\<close>). Stored times are read by \<open>js_number\<close>, which
  covers the decimal digits the write boundary's pattern admits; other text counts as
  \<open>NaN\<close>, the value \<open>None\<close> here.
\<close>

record host =
  wall_clock :: "string \<Rightarrow> millis \<Rightarrow> int option"
  date_parse :: "string \<Rightarrow> millis option"

text \<open>A call returns a value or throws.\<close>

datatype 'a outcome = Throws | Returns 'a

record quiet_config =
  qcEnabled :: bool
  startLocal :: string
  endLocal :: string
  timezone :: string

subsection \<open>The configuration schema\<close>

definition time_re :: "string \<Rightarrow> bool" where
  \<comment> \<open>\<open>^([01]\d|2[0-3]):[0-5]\d$\<close>\<close>
  "time_re s \<longleftrightarrow>
     (case s of
        [a, b, c, d, e] \<Rightarrow>
          ((a \<in> {CHR ''0'', CHR ''1''} \<and> is_digit b) \<or> (a = CHR ''2'' \<and> is_digit b \<and> digit_val b \<le> 3)) \<and>
          c = CHR '':'' \<and> is_digit d \<and> digit_val d \<le> 5 \<and> is_digit e
      | _ \<Rightarrow> False)"

definition isValidTimeZone :: "host \<Rightarrow> millis \<Rightarrow> string \<Rightarrow> bool" where
  \<comment> \<open>a zone \<open>Intl\<close> constructs is one it can evaluate\<close>
  "isValidTimeZone h t z \<longleftrightarrow> wall_clock h z t \<noteq> None"

definition valid_quiet_config :: "host \<Rightarrow> millis \<Rightarrow> quiet_config \<Rightarrow> bool" where
  \<comment> \<open>\<open>QuietHoursConfigSchema\<close>\<close>
  "valid_quiet_config h t c \<longleftrightarrow>
     time_re (startLocal c) \<and> time_re (endLocal c) \<and>
     1 \<le> length (timezone c) \<and> length (timezone c) \<le> 64 \<and> isValidTimeZone h t (timezone c) \<and>
     startLocal c \<noteq> endLocal c"

subsection \<open>Window arithmetic\<close>

definition js_number :: "string \<Rightarrow> int option" where
  "js_number s = (if list_all is_digit s then Some (int (digits_val s)) else None)"

definition parseTimeToMinutes :: "string \<Rightarrow> int option" where
  "parseTimeToMinutes s =
     (let h = takeWhile (\<lambda>c. c \<noteq> CHR '':'') s; rest = dropWhile (\<lambda>c. c \<noteq> CHR '':'') s
      in if rest = [] then None
         else case (js_number h, js_number (takeWhile (\<lambda>c. c \<noteq> CHR '':'') (tl rest))) of
             (Some a, Some b) \<Rightarrow> Some (a * 60 + b)
           | _ \<Rightarrow> None)"

fun nan_less :: "int option \<Rightarrow> int option \<Rightarrow> bool" where
  \<comment> \<open>\<open>a < b\<close>, false when either side is \<open>NaN\<close>\<close>
  "nan_less (Some a) (Some b) = (a < b)"
| "nan_less _ _ = False"

fun nan_le :: "int option \<Rightarrow> int option \<Rightarrow> bool" where
  "nan_le (Some a) (Some b) = (a \<le> b)"
| "nan_le _ _ = False"

definition isWithinQuietWindow :: "host \<Rightarrow> quiet_config \<Rightarrow> millis \<Rightarrow> bool" where
  "isWithinQuietWindow h c t =
     (if \<not> qcEnabled c then False
      else case wall_clock h (timezone c) t of
          None \<Rightarrow> True
        | Some nowMin \<Rightarrow>
            let start = parseTimeToMinutes (startLocal c); en = parseTimeToMinutes (endLocal c)
            in if nan_less start en then nan_le start (Some nowMin) \<and> nan_less (Some nowMin) en
               else nan_le start (Some nowMin) \<or> nan_less (Some nowMin) en)"

definition msUntilQuietWindowEnd :: "host \<Rightarrow> quiet_config \<Rightarrow> millis \<Rightarrow> millis option outcome" where
  "msUntilQuietWindowEnd h c t =
     (if \<not> isWithinQuietWindow h c t then Returns None
      else case wall_clock h (timezone c) t of
          None \<Rightarrow> Returns None
        | Some nowMin \<Rightarrow>
            case parseTimeToMinutes (endLocal c) of
              None \<Rightarrow> Throws \<comment> \<open>the span is \<open>NaN\<close> and \<open>wallMinutesAt\<close> formats an invalid date\<close>
            | Some en \<Rightarrow>
                let minutesLeft = js_rem (en - nowMin + 1440) 1440; span = minutesLeft * 60000
                in case wall_clock h (timezone c) (t + span) of
                     None \<Rightarrow> Throws
                   | Some w \<Rightarrow>
                       let drift = js_rem (w - en + 1440 + 720) 1440 - 720
                       in if drift = 0 then Returns (Some span)
                          else let corrected = span - drift * 60000
                               in if corrected > 0 then
                                    (case wall_clock h (timezone c) (t + corrected) of
                                       None \<Rightarrow> Throws
                                     | Some w' \<Rightarrow> Returns (Some (if w' = en then corrected else span)))
                                  else Returns (Some span))"

subsection \<open>Stored state\<close>

definition quiet_hours_state_key :: string where
  "quiet_hours_state_key = ''quiet_hours''"

fun jsonb_concat :: "jsval \<Rightarrow> jsval \<Rightarrow> jsval" where
  \<comment> \<open>the database's \<open>||\<close> on jsonb: objects merge at the top level, anything else concatenates
      as arrays\<close>
  "jsonb_concat (JObj a) (JObj b) = JObj (filter (\<lambda>kv. fst kv \<notin> fst ` set b) a @ b)"
| "jsonb_concat (JArr a) (JArr b) = JArr (a @ b)"
| "jsonb_concat (JArr a) b = JArr (a @ [b])"
| "jsonb_concat a (JArr b) = JArr (a # b)"
| "jsonb_concat a b = JArr [a, b]"

definition stored_quiet_hours :: "quiet_config \<Rightarrow> string \<Rightarrow> jsval" where
  "stored_quiet_hours c stamp =
     JObj [(''enabled'', JBool (qcEnabled c)), (''start_local'', JStr (startLocal c)),
           (''end_local'', JStr (endLocal c)), (''timezone'', JStr (timezone c)),
           (''updated_at'', JStr stamp)]"

definition persistQuietHoursState :: "jsval \<Rightarrow> quiet_config \<Rightarrow> string \<Rightarrow> jsval" where
  \<comment> \<open>the column after the write; \<open>stamp\<close> is \<open>now.toISOString()\<close>\<close>
  "persistQuietHoursState q c stamp =
     jsonb_concat q (JObj [(quiet_hours_state_key, stored_quiet_hours c stamp)])"

definition readQuietHoursState :: "jsval \<Rightarrow> quiet_config option" where
  "readQuietHoursState q =
     (if \<not> js_is_object q then None
      else case js_field q quiet_hours_state_key of
          None \<Rightarrow> None
        | Some v \<Rightarrow>
            if \<not> js_is_object v then None
            else case (js_field v ''enabled'', js_field v ''start_local'', js_field v ''end_local'',
                       js_field v ''timezone'') of
                (Some (JBool e), Some (JStr s), Some (JStr en), Some (JStr z)) \<Rightarrow>
                  Some \<lparr>qcEnabled = e, startLocal = s, endLocal = en, timezone = z\<rparr>
              | _ \<Rightarrow> None)"

fun isQuietStateActive :: "host \<Rightarrow> jsval \<Rightarrow> millis \<Rightarrow> bool" where
  "isQuietStateActive h (JObj fs) now =
     (if map_of fs ''enabled'' \<noteq> Some (JBool True) then False
      else case map_of fs ''until_at'' of
          None \<Rightarrow> True
        | Some JNull \<Rightarrow> True
        | Some (JStr u) \<Rightarrow> (case date_parse h u of None \<Rightarrow> True | Some p \<Rightarrow> now < p)
        | Some _ \<Rightarrow> True)"
| "isQuietStateActive h _ now = False"

definition isQuietActive :: "host \<Rightarrow> jsval \<Rightarrow> millis \<Rightarrow> bool" where
  "isQuietActive h q now =
     (if isQuietStateActive h q now then True
      else case readQuietHoursState q of
          None \<Rightarrow> False
        | Some c \<Rightarrow> isWithinQuietWindow h c now)"

definition manual_candidate :: "host \<Rightarrow> jsval \<Rightarrow> millis \<Rightarrow> millis list option" where
  \<comment> \<open>\<open>None\<close> is the early \<open>return null\<close>\<close>
  "manual_candidate h q now =
     (if \<not> isQuietStateActive h q now then Some []
      else case js_field q ''until_at'' of
          Some (JStr u) \<Rightarrow> map_option (\<lambda>p. [p - now]) (date_parse h u)
        | _ \<Rightarrow> None)"

definition msUntilQuietEnds :: "host \<Rightarrow> jsval \<Rightarrow> millis \<Rightarrow> millis option outcome" where
  "msUntilQuietEnds h q now =
     (case manual_candidate h q now of
        None \<Rightarrow> Returns None
      | Some cs \<Rightarrow>
          let finish = (\<lambda>cs. Returns (if cs = [] then None else Some (Max (set cs))))
          in case readQuietHoursState q of
               None \<Rightarrow> finish cs
             | Some c \<Rightarrow>
                 if \<not> isWithinQuietWindow h c now then finish cs
                 else case msUntilQuietWindowEnd h c now of
                     Throws \<Rightarrow> Throws
                   | Returns None \<Rightarrow> Returns None
                   | Returns (Some ms) \<Rightarrow> finish (cs @ [ms]))"

subsection \<open>Valid times\<close>

lemma digit_val_le: "is_digit c \<Longrightarrow> digit_val c \<le> 9"
  by (auto simp: is_digit_def digit_val_def)

lemma positional_inj:
  fixes x y x' y' :: nat
  assumes "x * n + y = x' * n + y'" "y < n" "y' < n"
  shows "x = x' \<and> y = y'"
proof -
  have "(x * n + y) div n = (x' * n + y') div n" "(x * n + y) mod n = (x' * n + y') mod n"
    using assms(1) by simp_all
  with assms(2,3) show ?thesis by simp
qed

lemma time_reE:
  assumes "time_re s"
  obtains a b d e where "s = [a, b, CHR '':'', d, e]" "is_digit a" "is_digit b" "is_digit d" "is_digit e"
    "digit_val a * 10 + digit_val b \<le> 23" "digit_val d \<le> 5"
proof -
  obtain a b c d e where s: "s = [a, b, c, d, e]"
    using assms by (auto simp: time_re_def split: list.splits)
  have "is_digit a \<and> digit_val a * 10 + digit_val b \<le> 23"
    using assms digit_val_le [of b] unfolding s
    by (auto simp: time_re_def is_digit_def digit_val_def)
  with assms that [of a b d e] show thesis
    unfolding s by (auto simp: time_re_def)
qed

lemma colon_not_digit: "is_digit c \<Longrightarrow> c \<noteq> CHR '':''"
  by (auto simp: is_digit_def)

lemma parseTimeToMinutes_valid:
  assumes "time_re s"
  obtains n where "parseTimeToMinutes s = Some n" "0 \<le> n" "n < 1440"
proof -
  obtain a b d e where s: "s = [a, b, CHR '':'', d, e]" and dg: "is_digit a" "is_digit b" "is_digit d" "is_digit e"
    and bd: "digit_val a * 10 + digit_val b \<le> 23" "digit_val d \<le> 5"
    using assms by (rule time_reE)
  have "parseTimeToMinutes s =
      Some (int (digit_val a * 10 + digit_val b) * 60 + int (digit_val d * 10 + digit_val e))"
    using dg colon_not_digit [OF dg(1)] colon_not_digit [OF dg(2)] colon_not_digit [OF dg(3)]
      colon_not_digit [OF dg(4)]
    by (simp add: s parseTimeToMinutes_def js_number_def digits_val_def)
  moreover have "int (digit_val a * 10 + digit_val b) * 60 + int (digit_val d * 10 + digit_val e) < 1440"
    using bd digit_val_le [OF dg(4)] by simp
  ultimately show thesis by (intro that) auto
qed

text \<open>Distinct well-formed times name distinct minutes.\<close>

lemma digit_val_inj: "is_digit c \<Longrightarrow> is_digit d \<Longrightarrow> digit_val c = digit_val d \<Longrightarrow> c = d"
  by (auto simp: is_digit_def digit_val_def) (metis char_of_char eq_diff_iff)

lemma parseTimeToMinutes_inj:
  assumes "time_re s" "time_re s'" "parseTimeToMinutes s = parseTimeToMinutes s'"
  shows "s = s'"
proof -
  obtain a b d e where s: "s = [a, b, CHR '':'', d, e]" and dg: "is_digit a" "is_digit b" "is_digit d" "is_digit e"
    and bd: "digit_val d \<le> 5"
    using assms(1) by (rule time_reE)
  obtain a' b' d' e' where s': "s' = [a', b', CHR '':'', d', e']"
    and dg': "is_digit a'" "is_digit b'" "is_digit d'" "is_digit e'" and bd': "digit_val d' \<le> 5"
    using assms(2) by (rule time_reE)
  note cn = colon_not_digit [OF dg(1)] colon_not_digit [OF dg(2)] colon_not_digit [OF dg(3)]
    colon_not_digit [OF dg(4)] colon_not_digit [OF dg'(1)] colon_not_digit [OF dg'(2)]
    colon_not_digit [OF dg'(3)] colon_not_digit [OF dg'(4)]
  have "(digit_val a * 10 + digit_val b) * 60 + (digit_val d * 10 + digit_val e) =
      (digit_val a' * 10 + digit_val b') * 60 + (digit_val d' * 10 + digit_val e')"
    using assms(3) dg dg' cn
    by (simp add: s s' parseTimeToMinutes_def js_number_def digits_val_def)
  then have "digit_val a * 10 + digit_val b = digit_val a' * 10 + digit_val b' \<and>
      digit_val d * 10 + digit_val e = digit_val d' * 10 + digit_val e'"
    by (rule positional_inj)
      (use bd bd' digit_val_le [OF dg(4)] digit_val_le [OF dg'(4)] in simp_all)
  then have "digit_val a = digit_val a' \<and> digit_val b = digit_val b' \<and>
      digit_val d = digit_val d' \<and> digit_val e = digit_val e'"
    using positional_inj [of "digit_val a" 10 "digit_val b" "digit_val a'" "digit_val b'"]
      positional_inj [of "digit_val d" 10 "digit_val e" "digit_val d'" "digit_val e'"]
      digit_val_le [OF dg(2)] digit_val_le [OF dg'(2)] digit_val_le [OF dg(4)] digit_val_le [OF dg'(4)]
    by simp
  with dg dg' show ?thesis
    unfolding s s' by (blast dest: digit_val_inj)
qed

subsection \<open>The window as an arc of the clock\<close>

text \<open>The zone's clock at an instant, when the host can evaluate it, is a minute of the day.\<close>

definition clock_at :: "host \<Rightarrow> string \<Rightarrow> millis \<Rightarrow> int \<Rightarrow> bool" where
  "clock_at h z t m \<longleftrightarrow> wall_clock h z t = Some m \<and> 0 \<le> m \<and> m < 1440"

lemma valid_quiet_config_minutes:
  assumes "valid_quiet_config h t c"
  obtains s e where "parseTimeToMinutes (startLocal c) = Some s" "0 \<le> s" "s < 1440"
    "parseTimeToMinutes (endLocal c) = Some e" "0 \<le> e" "e < 1440" "s \<noteq> e"
proof -
  have tr: "time_re (startLocal c)" "time_re (endLocal c)" "startLocal c \<noteq> endLocal c"
    using assms by (auto simp: valid_quiet_config_def)
  obtain s where s: "parseTimeToMinutes (startLocal c) = Some s" "0 \<le> s" "s < 1440"
    using tr(1) by (rule parseTimeToMinutes_valid)
  obtain e where e: "parseTimeToMinutes (endLocal c) = Some e" "0 \<le> e" "e < 1440"
    using tr(2) by (rule parseTimeToMinutes_valid)
  have "s \<noteq> e" using tr s(1) e(1) parseTimeToMinutes_inj by metis
  with s e show thesis by (rule that)
qed

lemma mod_1440_cases:
  fixes x :: int
  shows "0 \<le> x \<Longrightarrow> x < 1440 \<Longrightarrow> x mod 1440 = x"
    and "- 1440 \<le> x \<Longrightarrow> x < 0 \<Longrightarrow> x mod 1440 = x + 1440"
proof -
  show "0 \<le> x \<Longrightarrow> x < 1440 \<Longrightarrow> x mod 1440 = x" by (rule mod_pos_pos_trivial)
  assume "- 1440 \<le> x" "x < 0"
  then have "(x + 1440) mod 1440 = x + 1440" by (intro mod_pos_pos_trivial) simp_all
  then show "x mod 1440 = x + 1440" by simp
qed

lemma arc_iff:
  fixes s e m :: int
  assumes "0 \<le> s" "s < 1440" "0 \<le> e" "e < 1440" "s \<noteq> e" "0 \<le> m" "m < 1440"
  shows "(if s < e then s \<le> m \<and> m < e else s \<le> m \<or> m < e) \<longleftrightarrow> (m - s) mod 1440 < (e - s) mod 1440"
proof -
  have "(m - s) mod 1440 = (if s \<le> m then m - s else m - s + 1440)"
    using assms mod_1440_cases [of "m - s"] by auto
  moreover have "(e - s) mod 1440 = (if s \<le> e then e - s else e - s + 1440)"
    using assms mod_1440_cases [of "e - s"] by auto
  ultimately show ?thesis using assms by auto
qed

text \<open>
  C29: for a configuration the write boundary accepts, the quiet window is the arc of the
  24-hour clock from its start (included) to its end (excluded), whether or not it
  crosses midnight; a disabled window is never active, and a zone the host cannot
  evaluate counts as inside.
\<close>

theorem quiet_window_is_arc:
  assumes "valid_quiet_config h t' c" "qcEnabled c" "clock_at h (timezone c) t m"
    and "parseTimeToMinutes (startLocal c) = Some s" "parseTimeToMinutes (endLocal c) = Some e"
  shows "(isWithinQuietWindow h c t \<longleftrightarrow> (m - s) mod 1440 < (e - s) mod 1440) \<and>
    \<not> isWithinQuietWindow h (c\<lparr>qcEnabled := False\<rparr>) t \<and>
    (wall_clock h (timezone c) u = None \<longrightarrow> isWithinQuietWindow h c u)"
proof -
  obtain "0 \<le> s" "s < 1440" "0 \<le> e" "e < 1440" "s \<noteq> e"
    using valid_quiet_config_minutes [OF assms(1)] assms(4,5) by (metis option.inject)
  with arc_iff [of s e m] assms(2-5) show ?thesis
    by (auto simp: isWithinQuietWindow_def clock_at_def)
qed

definition utc_host :: host where
  "utc_host = \<lparr>wall_clock = (\<lambda>z t. if z = ''UTC'' then Some ((t div 60000) mod 1440) else None),
     date_parse = (\<lambda>s. None)\<rparr>"

definition overnight :: quiet_config where
  "overnight = \<lparr>qcEnabled = True, startLocal = ''22:00'', endLocal = ''07:00'', timezone = ''UTC''\<rparr>"

lemma overnight_facts:
  "valid_quiet_config utc_host 0 overnight" "qcEnabled overnight"
  "clock_at utc_host (timezone overnight) (23 * 3600000) 1380"
  "parseTimeToMinutes (startLocal overnight) = Some 1320"
  "parseTimeToMinutes (endLocal overnight) = Some 420"
  by code_simp+

theorem quiet_window_is_arc_witness:
  "isWithinQuietWindow utc_host overnight (23 * 3600000)"
  using quiet_window_is_arc [OF overnight_facts] by simp

subsection \<open>The resume hint\<close>

text \<open>
  One zone over one span: its clock advances a minute per minute from \<open>base\<close>, and jumps
  once, by \<open>d\<close> minutes at the instant \<open>c\<close> (daylight saving; \<open>d = 0\<close> for none).
\<close>

definition shifting_zone :: "host \<Rightarrow> string \<Rightarrow> int \<Rightarrow> int \<Rightarrow> millis \<Rightarrow> bool" where
  "shifting_zone h z base d c \<longleftrightarrow>
     (\<forall>t. wall_clock h z t = Some ((t div 60000 + base + (if c \<le> t then d else 0)) mod 1440))"

lemma div_add_minutes: "(t + k * 60000) div 60000 = t div 60000 + (k :: int)"
  by simp

lemma shifted_clock:
  "shifting_zone h z base d c \<Longrightarrow>
     wall_clock h z (t + k * 60000) =
       Some ((t div 60000 + k + base + (if c \<le> t + k * 60000 then d else 0)) mod 1440)"
  unfolding shifting_zone_def by (simp add: div_add_minutes)

lemma minutes_left_bounds:
  fixes e m :: int
  assumes "0 \<le> e" "e < 1440" "0 \<le> m" "m < 1440" "m \<noteq> e"
  shows "1 \<le> js_rem (e - m + 1440) 1440 \<and> js_rem (e - m + 1440) 1440 \<le> 1439"
    and "(m + js_rem (e - m + 1440) 1440) mod 1440 = e"
proof -
  have *: "js_rem (e - m + 1440) 1440 = (e - m) mod 1440"
    using assms by (simp add: mod_add_self2)
  show "1 \<le> js_rem (e - m + 1440) 1440 \<and> js_rem (e - m + 1440) 1440 \<le> 1439"
    unfolding * using assms mod_1440_cases [of "e - m"] by (cases "m \<le> e") simp_all
  show "(m + js_rem (e - m + 1440) 1440) mod 1440 = e"
    unfolding * mod_add_right_eq using assms(1,2) by simp
qed

lemma drift_recovers:
  fixes d e w :: int
  assumes "- 720 \<le> d" "d < 720" "0 \<le> e" "e < 1440" "w = (e + d) mod 1440"
  shows "js_rem (w - e + 1440 + 720) 1440 - 720 = d"
proof -
  have "0 \<le> w" using assms(5) by simp
  then have "js_rem (w - e + 1440 + 720) 1440 = (w - e + 720) mod 1440"
    using assms(4) mod_add_self2 [of "w - e + 720" 1440] by (simp add: algebra_simps)
  also have "\<dots> = ((e + d) mod 1440 + (720 - e)) mod 1440"
    unfolding assms(5) by (simp add: algebra_simps)
  also have "\<dots> = d + 720"
    unfolding mod_add_left_eq using assms(1,2) by simp
  finally show ?thesis by simp
qed

lemma arc_end_excluded:
  assumes "valid_quiet_config h t' c" "clock_at h (timezone c) t m" "isWithinQuietWindow h c t"
    "parseTimeToMinutes (endLocal c) = Some e"
  shows "m \<noteq> e"
proof -
  obtain s where s: "parseTimeToMinutes (startLocal c) = Some s" "s \<noteq> e"
    using valid_quiet_config_minutes [OF assms(1)] assms(4) by (metis option.inject)
  with assms(2-4) show ?thesis
    by (auto simp: isWithinQuietWindow_def clock_at_def split: if_splits)
qed

text \<open>
  The resume hint lands on the end of the window. In a zone whose clock runs
  uniformly but for one daylight-saving jump, if the jump (when there is one) falls
  after now and before both the uncorrected and the corrected wake-up, then the hint is
  a positive number of milliseconds after which the zone's clock reads exactly the
  configured end, and the window is over.
\<close>

theorem resume_hint_lands_on_end:
  assumes "valid_quiet_config h t' c" "isWithinQuietWindow h c t"
    and "shifting_zone h (timezone c) base d ch" "- 720 \<le> d" "d < 720"
    and "parseTimeToMinutes (endLocal c) = Some e"
    and "d = 0 \<or> t < ch"
    and "\<And>k. wall_clock h (timezone c) t = Some k \<Longrightarrow>
           d = 0 \<or> (ch \<le> t + js_rem (e - k + 1440) 1440 * 60000 \<and>
                    ch \<le> t + (js_rem (e - k + 1440) 1440 - d) * 60000)"
  shows "\<exists>ms. msUntilQuietWindowEnd h c t = Returns (Some ms) \<and> 0 < ms \<and>
    wall_clock h (timezone c) (t + ms) = Some e \<and> \<not> isWithinQuietWindow h c (t + ms)"
proof -
  obtain s where s: "parseTimeToMinutes (startLocal c) = Some s" "0 \<le> s" "s < 1440"
    and e: "0 \<le> e" "e < 1440" "s \<noteq> e"
    using valid_quiet_config_minutes [OF assms(1)] assms(6) by (metis option.inject)
  define m where "m = (t div 60000 + base) mod 1440"
  have m: "wall_clock h (timezone c) t = Some m"
    using shifted_clock [OF assms(3), of t 0] assms(7) by (auto simp: m_def)
  then have mc: "clock_at h (timezone c) t m" by (simp add: clock_at_def m_def)
  define l where "l = js_rem (e - m + 1440) 1440"
  have me: "m \<noteq> e" by (rule arc_end_excluded [OF assms(1) mc assms(2,6)])
  have l: "1 \<le> l" "(m + l) mod 1440 = e"
    using minutes_left_bounds [OF e(1,2) _ _ me] mc unfolding l_def clock_at_def by blast+
  have clk: "wall_clock h (timezone c) (t + k * 60000) = Some ((m + k + d) mod 1440)"
    if "d = 0 \<or> ch \<le> t + k * 60000" for k
  proof -
    have "(t div 60000 + k + base + d) mod 1440 = (m + (k + d)) mod 1440"
      unfolding m_def mod_add_left_eq by (simp add: algebra_simps)
    with that show ?thesis using shifted_clock [OF assms(3), of t k] by (auto simp: algebra_simps)
  qed
  have sp: "d = 0 \<or> ch \<le> t + l * 60000" "d = 0 \<or> ch \<le> t + (l - d) * 60000"
    using assms(8) [OF m] unfolding l_def by blast+
  have w: "wall_clock h (timezone c) (t + l * 60000) = Some ((e + d) mod 1440)"
    unfolding clk [OF sp(1)] l(2) [symmetric] mod_add_left_eq by (rule refl)
  have w': "wall_clock h (timezone c) (t + (l - d) * 60000) = Some e"
    using clk [OF sp(2)] l(2) by simp
  have drift: "js_rem ((e + d) mod 1440 - e + 1440 + 720) 1440 - 720 = d"
    by (rule drift_recovers) (use assms(4,5) e in simp_all)
  have pos: "0 < (l - d) * 60000"
    using assms(7) sp(2) l(1) by auto
  have over: "wall_clock h (timezone c) u = Some e \<Longrightarrow> \<not> isWithinQuietWindow h c u" for u
    using s e assms(6) by (auto simp: isWithinQuietWindow_def)
  have "msUntilQuietWindowEnd h c t = Returns (Some ((l - d) * 60000))"
    using assms(2,6) m w w' drift pos
    by (simp add: msUntilQuietWindowEnd_def Let_def l_def algebra_simps)
  with w' pos over show ?thesis by blast
qed

definition spring_host :: host where
  \<comment> \<open>UTC until 02:00 of the second day, an hour ahead from then on\<close>
  "spring_host =
     \<lparr>wall_clock = (\<lambda>z t. Some ((t div 60000 + 0 + (if 26 * 3600000 \<le> t then 60 else 0)) mod 1440)),
      date_parse = (\<lambda>s. None)\<rparr>"

theorem resume_hint_lands_on_end_witness:
  "\<exists>ms. msUntilQuietWindowEnd spring_host overnight (23 * 3600000) = Returns (Some ms) \<and> 0 < ms \<and>
    wall_clock spring_host (timezone overnight) (23 * 3600000 + ms) = Some 420 \<and>
    \<not> isWithinQuietWindow spring_host overnight (23 * 3600000 + ms)"
proof (rule resume_hint_lands_on_end)
  show "valid_quiet_config spring_host 0 overnight"
    "isWithinQuietWindow spring_host overnight (23 * 3600000)"
    "parseTimeToMinutes (endLocal overnight) = Some 420"
    by code_simp+
  show "shifting_zone spring_host (timezone overnight) 0 60 (26 * 3600000)"
    by (simp add: shifting_zone_def spring_host_def)
  have now: "wall_clock spring_host (timezone overnight) (23 * 3600000) = Some 1380"
    by code_simp
  fix k assume "wall_clock spring_host (timezone overnight) (23 * 3600000) = Some k"
  with now have "k = 1380" by simp
  then show "(60::int) = 0 \<or>
      26 * 3600000 \<le> 23 * 3600000 + js_rem (420 - k + 1440) 1440 * 60000 \<and>
      26 * 3600000 \<le> 23 * 3600000 + (js_rem (420 - k + 1440) 1440 - 60) * 60000"
    by simp
qed simp_all

text \<open>
  The read path checks only that the stored times are strings. With a stored end time
  that is not a time, an active window makes the hint throw rather than return null.
\<close>

lemma malformed_end_throws:
  "\<lbrakk>isWithinQuietWindow h c t; wall_clock h (timezone c) t = Some m;
    parseTimeToMinutes (endLocal c) = None\<rbrakk> \<Longrightarrow> msUntilQuietWindowEnd h c t = Throws"
  by (simp add: msUntilQuietWindowEnd_def)

subsection \<open>Persistence\<close>

lemma map_of_filter_key:
  "map_of (filter (\<lambda>kv. fst kv \<noteq> a) xs) k = (if k = a then None else map_of xs k)"
  by (induction xs) auto

lemma persist_fields:
  "js_field (persistQuietHoursState (JObj fs) c stamp) k =
     (if k = quiet_hours_state_key then Some (stored_quiet_hours c stamp) else map_of fs k)"
  by (simp add: persistQuietHoursState_def map_add_def map_of_filter_key split: option.splits)

lemma persist_object:
  obtains gs where "persistQuietHoursState (JObj fs) c stamp = JObj gs"
  by (simp add: persistQuietHoursState_def)

text \<open>
  Writing a configuration and reading it back gives it unchanged, and the write
  touches nothing else the column's other tenants own: every other key keeps its value
  (the Gmail watch state among them) and the manual toggle is exactly as active as before.
\<close>

theorem quiet_hours_roundtrip:
  "readQuietHoursState (persistQuietHoursState (JObj fs) c stamp) = Some c \<and>
   (\<forall>k. k = ''quiet_hours'' \<or>
      js_field (persistQuietHoursState (JObj fs) c stamp) k = js_field (JObj fs) k) \<and>
   isQuietStateActive h (persistQuietHoursState (JObj fs) c stamp) now = isQuietStateActive h (JObj fs) now"
proof -
  obtain gs where gs: "persistQuietHoursState (JObj fs) c stamp = JObj gs"
    by (rule persist_object)
  have f: "map_of gs k = (if k = ''quiet_hours'' then Some (stored_quiet_hours c stamp) else map_of fs k)" for k
    using persist_fields [of fs c stamp k] by (simp add: gs quiet_hours_state_key_def)
  show ?thesis
    unfolding gs
    by (simp add: readQuietHoursState_def quiet_hours_state_key_def f stored_quiet_hours_def)
qed

subsection \<open>The combined hint\<close>

lemma manual_candidate_cases:
  "manual_candidate h q now = Some cs \<Longrightarrow>
     (cs = [] \<and> \<not> isQuietStateActive h q now) \<or>
     (\<exists>u p. js_field q ''until_at'' = Some (JStr u) \<and> date_parse h u = Some p \<and> cs = [p - now] \<and>
        isQuietStateActive h q now)"
  by (auto simp: manual_candidate_def split: if_splits option.splits jsval.splits)

lemma isQuietStateActive_until:
  "js_field q ''until_at'' = Some (JStr u) \<Longrightarrow> date_parse h u = Some p \<Longrightarrow>
     isQuietStateActive h q t \<Longrightarrow> t < p"
  by (cases q) (auto split: if_splits)

lemma msUntil_positive:
  assumes "msUntilQuietWindowEnd h c t = Returns (Some ms)"
    and "parseTimeToMinutes (endLocal c) = Some e" "0 \<le> e" "e < 1440"
    and "wall_clock h (timezone c) t = Some m" "0 \<le> m" "m < 1440" "m \<noteq> e"
  shows "0 < ms"
proof -
  have "0 < js_rem (e - m + 1440) 1440" using minutes_left_bounds(1) [of e m] assms by linarith
  with assms(1,2,5) show ?thesis
    by (auto simp: msUntilQuietWindowEnd_def Let_def split: if_splits option.splits)
qed

text \<open>
  A resume hint is only given while quiet is active, is always positive, and no
  sweep scheduled by it wakes into the manual toggle that deferred it: at the hinted
  instant the manual quiet state is over. The configuration, where there is one, is one
  the write boundary accepts.
\<close>

theorem quiet_resume_hint:
  assumes "msUntilQuietEnds h q now = Returns (Some ms)"
    and "\<And>c. readQuietHoursState q = Some c \<Longrightarrow>
           valid_quiet_config h t' c \<and> (\<forall>m. wall_clock h (timezone c) now = Some m \<longrightarrow> 0 \<le> m \<and> m < 1440)"
  shows "isQuietActive h q now \<and> 0 < ms \<and> \<not> isQuietStateActive h q (now + ms)"
proof -
  obtain cs where cs: "manual_candidate h q now = Some cs"
    using assms(1) by (auto simp: msUntilQuietEnds_def split: option.splits)
  obtain w where w: "ms = Max (set (cs @ w))" "cs @ w \<noteq> []"
    and wpos: "\<And>x. x \<in> set w \<Longrightarrow> 0 < x"
    and wact: "w \<noteq> [] \<Longrightarrow> isQuietActive h q now"
  proof (cases "\<exists>c. readQuietHoursState q = Some c \<and> isWithinQuietWindow h c now")
    case False
    then have "ms = Max (set (cs @ []))" "cs @ [] \<noteq> []"
      using assms(1) cs by (auto simp: msUntilQuietEnds_def Let_def split: option.splits if_splits)
    then show thesis by (rule that) simp_all
  next
    case True
    then obtain c where c: "readQuietHoursState q = Some c" "isWithinQuietWindow h c now" by blast
    obtain x where x: "msUntilQuietWindowEnd h c now = Returns (Some x)" "ms = Max (set (cs @ [x]))"
      using assms(1) cs c
      by (auto simp: msUntilQuietEnds_def Let_def split: outcome.splits option.splits)
    obtain m where m: "wall_clock h (timezone c) now = Some m"
      using x(1) by (auto simp: msUntilQuietWindowEnd_def split: if_splits option.splits)
    have v: "valid_quiet_config h t' c" "clock_at h (timezone c) now m"
      using assms(2) [OF c(1)] m by (auto simp: clock_at_def)
    obtain e where e: "parseTimeToMinutes (endLocal c) = Some e" "0 \<le> e" "e < 1440"
      using valid_quiet_config_minutes [OF v(1)] by metis
    have "0 < x"
      using msUntil_positive [OF x(1) e m] arc_end_excluded [OF v c(2) e(1)] v(2)
      by (simp add: clock_at_def)
    then show thesis using x(2) c by (intro that [of "[x]"]) (simp_all add: isQuietActive_def)
  qed
  show ?thesis using manual_candidate_cases [OF cs]
  proof (elim disjE exE conjE)
    assume "cs = []" "\<not> isQuietStateActive h q now"
    moreover have "isQuietStateActive h q (now + ms) \<Longrightarrow> isQuietStateActive h q now" if "0 < ms"
      using that by (cases q) (auto split: if_splits option.splits jsval.splits)
    ultimately show ?thesis using w wpos wact by (simp add: Max_gr_iff) (metis Max_in finite_set set_empty)
  next
    fix u p assume u: "js_field q ''until_at'' = Some (JStr u)" "date_parse h u = Some p"
      "cs = [p - now]" "isQuietStateActive h q now"
    have "now < p" by (rule isQuietStateActive_until [OF u(1,2,4)])
    moreover have "p - now \<le> ms" using w(1) u(3) by simp
    moreover have "\<not> isQuietStateActive h q (now + ms)"
      using isQuietStateActive_until [OF u(1,2), of "now + ms"] calculation(2) by linarith
    ultimately show ?thesis using u(4) by (simp add: isQuietActive_def)
  qed
qed

definition toggled_host :: host where
  "toggled_host = utc_host\<lparr>date_parse := (\<lambda>s. Some (10 * 3600000))\<rparr>"

theorem quiet_resume_hint_witness:
  "\<not> isQuietStateActive toggled_host
     (JObj [(''enabled'', JBool True), (''until_at'', JStr ''later today'')]) (9 * 3600000 + 3600000)"
proof -
  let ?q = "JObj [(''enabled'', JBool True), (''until_at'', JStr ''later today'')]"
  have r: "readQuietHoursState ?q = None" by code_simp
  have "msUntilQuietEnds toggled_host ?q (9 * 3600000) = Returns (Some 3600000)"
    by (simp add: msUntilQuietEnds_def r manual_candidate_def toggled_host_def Let_def)
  from quiet_resume_hint [OF this, of 0] r show ?thesis by simp
qed

end
