(* ===== verification/Actions.thy ===== *)
theory Actions
  imports Presets Entitlements
begin

text \<open>
  The action registry (\<^verbatim>\<open>packages/shared/src/actions/manifest-entries.ts\<close>): which pipeline
  a verb runs through and which labels it moves; the label worker's fail-closed lookup,
  the resolution of label names to ids and the local label mirror
  (\<^verbatim>\<open>packages/workers/src/{label-action.worker,autopilot-action.worker}.ts\<close>); and the
  unsubscribe capabilities
  (\<^verbatim>\<open>packages/shared/src/actions/unsubscribe-capability.ts\<close>).

  A label set in the mirror is the column's array: the order and duplicates of
  \<open>array_remove\<close> and \<open>array_append\<close> are kept.
\<close>

subsection \<open>Label changes\<close>

record label_change =
  addLabels :: "string list"
  removeLabels :: "string list"

record label_change_pair =
  forwardChange :: label_change
  reverseChange :: label_change

definition array_remove :: "'a \<Rightarrow> 'a list \<Rightarrow> 'a list" where
  "array_remove l xs = filter (\<lambda>x. x \<noteq> l) xs"

definition array_append_new :: "'a \<Rightarrow> 'a list \<Rightarrow> 'a list" where
  \<comment> \<open>\<open>CASE WHEN l = ANY(xs) THEN xs ELSE array_append(xs, l) END\<close>\<close>
  "array_append_new l xs = (if l \<in> set xs then xs else xs @ [l])"

definition label_mirror :: "label_change \<Rightarrow> string list \<Rightarrow> string list" where
  \<comment> \<open>\<open>buildLabelMirrorExpr\<close>: removals, then additions\<close>
  "label_mirror ch labels =
     foldl (\<lambda>xs l. array_append_new l xs) (foldl (\<lambda>xs l. array_remove l xs) labels (removeLabels ch))
       (addLabels ch)"

subsection \<open>The registry\<close>

definition later_label :: string where
  "later_label = ''DeclutrMail/Later''"

datatype action_execution =
    LabelModify label_change_pair
  | PolicyOnly
  | UnsubscribeExec label_change

fun action_execution_of :: "verb \<Rightarrow> action_execution" where
  "action_execution_of VKeep = PolicyOnly"
| "action_execution_of VArchive =
     LabelModify \<lparr>forwardChange = \<lparr>addLabels = [], removeLabels = [''INBOX'']\<rparr>,
                  reverseChange = \<lparr>addLabels = [''INBOX''], removeLabels = []\<rparr>\<rparr>"
| "action_execution_of VLater =
     LabelModify \<lparr>forwardChange = \<lparr>addLabels = [later_label], removeLabels = [''INBOX'']\<rparr>,
                  reverseChange = \<lparr>addLabels = [''INBOX''], removeLabels = [later_label]\<rparr>\<rparr>"
| "action_execution_of VUnsubscribe =
     UnsubscribeExec \<lparr>addLabels = [''DeclutrMail/Unsubscribed''], removeLabels = []\<rparr>"
| "action_execution_of VDelete =
     LabelModify \<lparr>forwardChange = \<lparr>addLabels = [''TRASH''], removeLabels = [''INBOX'']\<rparr>,
                  reverseChange = \<lparr>addLabels = [''INBOX''], removeLabels = [''TRASH'']\<rparr>\<rparr>"
| "action_execution_of VUnarchive =
     LabelModify \<lparr>forwardChange = \<lparr>addLabels = [''INBOX''], removeLabels = []\<rparr>,
                  reverseChange = \<lparr>addLabels = [], removeLabels = [''INBOX'']\<rparr>\<rparr>"

fun selector_support :: "verb \<Rightarrow> selector_type \<Rightarrow> bool" where
  "selector_support VUnarchive sel = (sel = SelSender)"
| "selector_support VKeep sel = (sel \<noteq> SelSenderFilter)"
| "selector_support _ sel = True"

record action_capability =
  capTier :: action_tier
  capCountsAsCleanup :: bool
  capLimit :: "nat option"

definition capability_for :: "verb \<Rightarrow> selector_type \<Rightarrow> action_capability option" where
  "capability_for v sel =
     (if \<not> selector_support v sel then None
      else Some \<lparr>capTier = selector_tiers sel, capCountsAsCleanup = counts_as_cleanup v,
                 capLimit = selector_caps sel\<rparr>)"

definition pipeline_complete_verbs :: "verb list" where
  "pipeline_complete_verbs = [VArchive, VLater, VDelete]"

definition labelChangeForVerb :: "verb \<Rightarrow> label_change_pair option" where
  \<comment> \<open>\<open>None\<close> is the thrown \<open>ValidationError\<close>\<close>
  "labelChangeForVerb v =
     (case action_execution_of v of
        LabelModify p \<Rightarrow> (if v \<in> set pipeline_complete_verbs then Some p else None)
      | _ \<Rightarrow> None)"

definition system_label_ids :: "string list" where
  "system_label_ids =
     [''INBOX'', ''TRASH'', ''UNREAD'', ''SPAM'', ''STARRED'', ''IMPORTANT'', ''SENT'', ''DRAFT'']"

definition resolve_labels :: "(string \<Rightarrow> string) \<Rightarrow> string list \<Rightarrow> string list" where
  "resolve_labels ensure ls = map (\<lambda>l. if l \<in> set system_label_ids then l else ensure l) ls"

definition resolveLabelChange :: "(string \<Rightarrow> string) \<Rightarrow> label_change \<Rightarrow> label_change" where
  \<comment> \<open>\<open>ensure\<close> is the client's \<open>ensureLabelId\<close>\<close>
  "resolveLabelChange ensure ch =
     \<lparr>addLabels = resolve_labels ensure (addLabels ch),
      removeLabels = resolve_labels ensure (removeLabels ch)\<rparr>"

subsection \<open>Unsubscribe capability\<close>

datatype unsub_capability = CapOneClick | CapMailto | CapNone | CapUnknown

fun unsubscribeCapabilityOf :: "unsub_channel option \<Rightarrow> unsub_capability" where
  "unsubscribeCapabilityOf None = CapUnknown"
| "unsubscribeCapabilityOf (Some OneClick) = CapOneClick"
| "unsubscribeCapabilityOf (Some Mailto) = CapMailto"
| "unsubscribeCapabilityOf (Some NoChannel) = CapNone"

definition isExecutableUnsubscribe :: "unsub_channel option \<Rightarrow> bool" where
  "isExecutableUnsubscribe m \<longleftrightarrow> unsubscribeCapabilityOf m = CapOneClick"

definition countUnsubscribeCapabilities :: "unsub_channel option list \<Rightarrow> unsub_capability \<Rightarrow> nat" where
  "countUnsubscribeCapabilities ms =
     fold (\<lambda>m counts. counts(unsubscribeCapabilityOf m := counts (unsubscribeCapabilityOf m) + 1)) ms
       (\<lambda>_. 0)"

fun unsubscribeUnavailableReason :: "unsub_capability \<Rightarrow> string option" where
  "unsubscribeUnavailableReason CapOneClick = None"
| "unsubscribeUnavailableReason CapMailto = None"
| "unsubscribeUnavailableReason CapNone = Some ''No unsubscribe link found in the emails checked.''"
| "unsubscribeUnavailableReason CapUnknown = Some ''Not checked for an unsubscribe option yet.''"

subsection \<open>Lemmas\<close>

lemma set_array_remove [simp]: "set (array_remove l xs) = set xs - {l}"
  by (auto simp: array_remove_def)

lemma set_array_append_new [simp]: "set (array_append_new l xs) = insert l (set xs)"
  by (auto simp: array_append_new_def)

lemma distinct_array_append_new: "distinct xs \<Longrightarrow> distinct (array_append_new l xs)"
  by (simp add: array_append_new_def)

lemma set_fold_array_remove: "set (foldl (\<lambda>xs l. array_remove l xs) xs ls) = set xs - set ls"
  by (induction ls arbitrary: xs) auto

lemma set_fold_array_append: "set (foldl (\<lambda>xs l. array_append_new l xs) xs ls) = set xs \<union> set ls"
  by (induction ls arbitrary: xs) auto

lemma set_label_mirror:
  "set (label_mirror ch labels) = (set labels - set (removeLabels ch)) \<union> set (addLabels ch)"
  by (simp add: label_mirror_def set_fold_array_remove set_fold_array_append)

lemma labelChangeForVerb_cases:
  "labelChangeForVerb v = Some p \<Longrightarrow> v \<in> {VArchive, VLater, VDelete} \<and> action_execution_of v = LabelModify p"
  by (cases v) (auto simp: labelChangeForVerb_def pipeline_complete_verbs_def)

lemma count_capabilities_step:
  "fold (\<lambda>m counts. counts(unsubscribeCapabilityOf m := counts (unsubscribeCapabilityOf m) + 1)) ms f c =
     f c + length (filter (\<lambda>m. unsubscribeCapabilityOf m = c) ms)"
  by (induction ms arbitrary: f) auto

lemma countUnsubscribeCapabilities_eq:
  "countUnsubscribeCapabilities ms c = length (filter (\<lambda>m. unsubscribeCapabilityOf m = c) ms)"
  unfolding countUnsubscribeCapabilities_def count_capabilities_step by simp

text \<open>
  Undo puts the labels back. For every verb the label pipeline accepts, running its
  forward change and then its reverse change over a message that is in the inbox and
  carries none of the labels the verb adds leaves exactly the labels it had, whatever id
  the mail provider gives the product's own labels; running the forward change twice is
  the same as running it once.
\<close>

theorem label_change_undo:
  assumes "labelChangeForVerb v = Some p" "''INBOX'' \<in> set labels"
    and "\<And>l. ensure l \<noteq> ''INBOX''"
    and "set labels \<inter> set (addLabels (resolveLabelChange ensure (forwardChange p))) = {}"
  shows "set (label_mirror (resolveLabelChange ensure (reverseChange p))
           (label_mirror (resolveLabelChange ensure (forwardChange p)) labels)) = set labels \<and>
    set (label_mirror (resolveLabelChange ensure (forwardChange p))
           (label_mirror (resolveLabelChange ensure (forwardChange p)) labels)) =
      set (label_mirror (resolveLabelChange ensure (forwardChange p)) labels)"
proof -
  have "\<exists>a. p = \<lparr>forwardChange = \<lparr>addLabels = a, removeLabels = [''INBOX'']\<rparr>,
      reverseChange = \<lparr>addLabels = [''INBOX''], removeLabels = a\<rparr>\<rparr> \<and>
      ''INBOX'' \<notin> set (resolve_labels ensure a)"
    using labelChangeForVerb_cases [OF assms(1)] assms(3) [symmetric]
    by (auto simp: resolve_labels_def later_label_def system_label_ids_def)
  then obtain a where p: "p = \<lparr>forwardChange = \<lparr>addLabels = a, removeLabels = [''INBOX'']\<rparr>,
      reverseChange = \<lparr>addLabels = [''INBOX''], removeLabels = a\<rparr>\<rparr>"
    and a: "''INBOX'' \<notin> set (resolve_labels ensure a)" by blast
  have inbox: "resolve_labels ensure [''INBOX''] = [''INBOX'']"
    by (simp add: resolve_labels_def system_label_ids_def)
  have "set labels \<inter> set (resolve_labels ensure a) = {}"
    using assms(4) by (simp add: p resolveLabelChange_def)
  with a assms(2) show ?thesis
    unfolding p by (auto simp: set_label_mirror resolveLabelChange_def inbox)
qed

theorem label_change_undo_witness:
  "set (label_mirror \<lparr>addLabels = [''INBOX''], removeLabels = [''Label_7'']\<rparr>
     (label_mirror \<lparr>addLabels = [''Label_7''], removeLabels = [''INBOX'']\<rparr> [''UNREAD'', ''INBOX'']))
   = {''UNREAD'', ''INBOX''}"
proof -
  let ?p = "\<lparr>forwardChange = \<lparr>addLabels = [later_label], removeLabels = [''INBOX'']\<rparr>,
      reverseChange = \<lparr>addLabels = [''INBOX''], removeLabels = [later_label]\<rparr>\<rparr>"
  have p: "labelChangeForVerb VLater = Some ?p"
    by (simp add: labelChangeForVerb_def pipeline_complete_verbs_def)
  have r: "resolveLabelChange (\<lambda>l. ''Label_7'') (forwardChange ?p) =
      \<lparr>addLabels = [''Label_7''], removeLabels = [''INBOX'']\<rparr>"
    "resolveLabelChange (\<lambda>l. ''Label_7'') (reverseChange ?p) =
      \<lparr>addLabels = [''INBOX''], removeLabels = [''Label_7'']\<rparr>"
    by (simp_all add: resolveLabelChange_def resolve_labels_def later_label_def system_label_ids_def)
  show ?thesis
    using label_change_undo [OF p, of "[''UNREAD'', ''INBOX'']" "\<lambda>l. ''Label_7''"] unfolding r by simp
qed

text \<open>
  The capability partition is a partition. Every stored method is counted under
  exactly one of the four capabilities, an underived method always under "unknown", and
  only one-click senders are executable.
\<close>

theorem unsubscribe_capabilities_partition:
  "countUnsubscribeCapabilities ms CapOneClick + countUnsubscribeCapabilities ms CapMailto
     + countUnsubscribeCapabilities ms CapNone + countUnsubscribeCapabilities ms CapUnknown = length ms \<and>
   countUnsubscribeCapabilities ms CapUnknown = length (filter (\<lambda>m. m = None) ms) \<and>
   countUnsubscribeCapabilities ms CapOneClick = length (filter isExecutableUnsubscribe ms)"
proof -
  have u: "unsubscribeCapabilityOf m = CapUnknown \<longleftrightarrow> m = None" for m
    by (cases m rule: unsubscribeCapabilityOf.cases) auto
  have "length (filter (\<lambda>m. unsubscribeCapabilityOf m = CapOneClick) ms)
     + length (filter (\<lambda>m. unsubscribeCapabilityOf m = CapMailto) ms)
     + length (filter (\<lambda>m. unsubscribeCapabilityOf m = CapNone) ms)
     + length (filter (\<lambda>m. unsubscribeCapabilityOf m = CapUnknown) ms) = length ms"
  proof (induction ms)
    case (Cons m ms)
    then show ?case by (cases "unsubscribeCapabilityOf m") auto
  qed simp
  then show ?thesis
    by (simp add: countUnsubscribeCapabilities_eq u isExecutableUnsubscribe_def [abs_def])
qed

end
