(* ===== verification/Store.thy ===== *)
theory Store
  imports Actions
begin

text \<open>
  The rows the Autopilot workers and the Autopilot API share
  (\<^verbatim>\<open>packages/db/src/schema/\<close>), restricted to the columns their code reads or writes, and
  the predicates over a match row every reader of a stage uses
  (\<^verbatim>\<open>packages/db/src/autopilot-suggestions.ts\<close>, \<^verbatim>\<open>packages/db/src/predicates.ts\<close>).

  A table is the list of its rows; a SQL \<open>exists\<close> is \<open>list_ex\<close>. Primary keys and the unique
  index on \<open>action_jobs.idempotency_key\<close> are kept by the inserts, not by the type.
\<close>

subsection \<open>Enumerations\<close>

datatype rule_mode = Observe | Active | Paused

datatype match_mode = MatchedObserve | MatchedActive

datatype match_resolution = Pending | Approved | Dismissed

datatype dismiss_reason = DismissUser | DismissProtected | DismissEntitlement | DismissSuperseded

datatype job_status = Queued | Executing | JobDone | JobFailed

datatype job_direction = Forward | Reverse

datatype selector_kind = BySender | ByMessages

datatype action_reach = InboxOnly | AllMail

datatype policy_type = PolKeep | PolArchive | PolUnsubscribe | PolLater

subsection \<open>Rows\<close>

record workspace_row =
  ws_id :: ident
  ws_tier :: tier

record mailbox_row =
  mb_id :: ident
  mb_workspace :: ident
  mb_quiet :: jsval
  mb_active :: bool
  mb_user :: ident
  mb_connected :: "millis option"

record rule_row =
  ru_id :: ident
  ru_mailbox :: ident
  ru_preset_key :: "string option"
  ru_is_preset :: bool
  ru_enabled :: bool
  ru_mode :: rule_mode
  ru_mode_changed :: millis
  ru_threshold :: "string option"
  ru_conditions :: jsval
  ru_action :: autopilot_action
  ru_payload :: jsval
  ru_scope :: string
  ru_version :: int
  ru_retired :: "millis option"
  ru_last_run :: "millis option"
  ru_last_actions :: nat
  ru_last_senders :: nat

record sender_row =
  se_id :: ident
  se_mailbox :: ident
  se_key :: string
  se_created :: millis
  se_first_seen :: millis
  se_last_seen :: millis
  se_unsub :: "unsub_channel option"
  se_name :: string
  se_email :: string
  se_unsub_url :: "string option"

datatype unsub_status =
    StPending | StDone | StFailed | StAmbiguous \<comment> \<open>legacy, but for \<open>StFailed\<close>\<close>
  | StRequested | StEndpointAccepted | StUnconfirmed | StActionRequired | StDraftOpened | StUserMarkedSent | StUnavailable

record policy_row =
  po_mailbox :: ident
  po_key :: string
  po_type :: "policy_type option"
  po_protected :: bool
  po_reason :: "protection_reason option" \<comment> \<open>may outlive the protection: the memory pin\<close>
  po_protected_at :: "millis option"
  po_snoozed_until :: "millis option"
  po_snoozed_at :: "millis option"
  po_snooze_note :: "string option"
  po_wake_attempt :: "millis option"
  po_wake_failed :: "millis option"
  po_wake_failures :: nat
  po_wake_kind :: "string option"
  po_unsub :: "unsub_status option"

record match_row =
  ma_id :: ident
  ma_rule :: ident
  ma_mailbox :: ident
  ma_key :: string
  ma_matched_at :: millis
  ma_mode :: match_mode
  ma_confidence :: string
  ma_reason :: string
  ma_applied :: bool
  ma_token :: "ident option"
  ma_resolution :: match_resolution
  ma_resolved_at :: "millis option"
  ma_dismiss :: "dismiss_reason option"

record custom_run =
  cu_rule :: ident
  cu_version :: int
  cu_preview :: ident

record job_row =
  jo_id :: ident
  jo_mailbox :: ident
  jo_verb :: verb
  jo_sender_id :: ident
  jo_sender_key :: string
  jo_ids :: "ident list"
  jo_requested :: nat
  jo_affected :: nat
  jo_status :: job_status
  jo_key :: string
  jo_undo :: "ident option"
  jo_error :: "string option"
  jo_wake :: "millis option"
  jo_direction :: job_direction
  jo_selector :: selector_kind
  jo_custom :: "custom_run option"
  jo_delete_undo :: "(ident list \<times> ident list option) option" \<comment> \<open>scope, and what of it was in the inbox\<close>
  jo_quiet_until :: "millis option"
  jo_composite :: "ident option"
  jo_root :: "ident option"
  jo_attempt :: nat
  jo_older :: "nat option"
  jo_reach :: action_reach
  jo_quota :: nat
  jo_created :: millis

record activity_row =
  ac_id :: ident
  ac_mailbox :: ident
  ac_key :: string
  ac_source :: string
  ac_action :: string
  ac_affected :: nat
  ac_undo :: "ident option"
  ac_rule :: "ident option"
  ac_at :: millis
  ac_job :: "ident option"
  ac_reverted :: "millis option"

record undo_row =
  un_token :: ident
  un_mailbox :: ident
  un_kind :: verb
  un_ids :: "ident list"
  un_expires :: millis
  un_inbox :: "ident list option" \<comment> \<open>a Delete: what was in the inbox\<close>
  un_unknown :: bool
  un_all_mail :: bool
  un_created :: millis
  un_executed :: "millis option"
  un_reverted :: "millis option"

record mail_row =
  mm_id :: ident
  mm_mailbox :: ident
  mm_key :: "string option"
  mm_labels :: "string list"
  mm_outbound :: bool
  mm_date :: millis
  mm_row :: string \<comment> \<open>the primary key, a random uuid\<close>
  mm_one_click :: bool
  mm_unsub_url :: "string option"
  mm_mailto :: "string option"

record timeseries_row =
  ts_mailbox :: ident
  ts_key :: string
  ts_volume :: nat
  ts_reads :: nat

record decision_row =
  de_mailbox :: ident
  de_key :: string
  de_verdict :: triage_verdict
  de_confidence :: string
  de_produced :: millis
  de_expires :: millis

datatype exec_outcome = EndpointAccepted | ExecFailed | Unconfirmed | ActionRequired

datatype outbox_event =
    ActionIntentEmitted ident ident ident string verb ident
      \<comment> \<open>mailbox, rule, match, sender, verb, undo token\<close>
  | LabelApplied ident ident verb "string option" "ident option" nat "ident option" "millis option" millis
      \<comment> \<open>mailbox, action, verb, sender, undo token, count, composite, wake, applied at\<close>
  | UnsubscribeIntentRecorded ident string ident millis "unsub_channel option"
  | UnsubscribeExecuted ident string ident exec_outcome "nat option" millis
      \<comment> \<open>mailbox, sender, action, outcome, HTTP status, executed at\<close>
  | VerdictApplied ident string string \<comment> \<open>mailbox, sender, verdict\<close>
  | RuleMatched ident ident string
  | MailboxReconnectRequired ident ident millis string
      \<comment> \<open>mailbox, workspace, failed at, error code\<close>

record sync_row =
  sy_mailbox :: ident
  sy_error :: "string option"
  sy_error_at :: "millis option"
  sy_synced :: "millis option"

datatype cron_status = CronRunning | CronSucceeded | CronFailed

record cron_row =
  cr_worker :: string
  cr_key :: string
  cr_status :: cron_status
  cr_finished :: "millis option"

record db =
  workspaces :: "workspace_row list"
  mailboxes :: "mailbox_row list"
  rules :: "rule_row list"
  senders :: "sender_row list"
  policies :: "policy_row list"
  matches :: "match_row list"
  jobs :: "job_row list"
  activity :: "activity_row list"
  undos :: "undo_row list"
  mail :: "mail_row list"
  timeseries :: "timeseries_row list"
  decisions :: "decision_row list"
  outbox :: "outbox_event list"
  inbox_reports :: "ident list" \<comment> \<open>mailboxes with a cached inbox report\<close>
  sync_states :: "sync_row list"
  cron_runs :: "cron_row list"
  db_now :: millis

subsection \<open>Message predicates\<close>

definition non_mail_labels :: "string list" where
  "non_mail_labels = [''DRAFT'', ''CHAT'']"

definition isNonMail :: "string list \<Rightarrow> bool" where
  "isNonMail labels \<longleftrightarrow> list_ex (\<lambda>l. l \<in> set labels) non_mail_labels"

definition all_mail_excluded_labels :: "string list" where
  "all_mail_excluded_labels = [''TRASH'', ''SPAM''] @ non_mail_labels"

fun reach_where :: "action_reach \<Rightarrow> mail_row \<Rightarrow> bool" where
  "reach_where InboxOnly m = (''INBOX'' \<in> set (mm_labels m))"
| "reach_where AllMail m = (\<not> list_ex (\<lambda>l. l \<in> set all_mail_excluded_labels) (mm_labels m))"

definition senderActionWhere :: "ident \<Rightarrow> string list \<Rightarrow> action_reach \<Rightarrow> mail_row \<Rightarrow> bool" where
  \<comment> \<open>without the optional age filter, which no caller modelled here passes\<close>
  "senderActionWhere mb keys reach m \<longleftrightarrow>
     mm_mailbox m = mb \<and> (case mm_key m of None \<Rightarrow> False | Some k \<Rightarrow> k \<in> set keys) \<and>
     \<not> mm_outbound m \<and> reach_where reach m"

definition senderInboxActionWhere :: "ident \<Rightarrow> string list \<Rightarrow> mail_row \<Rightarrow> bool" where
  "senderInboxActionWhere mb keys = senderActionWhere mb keys InboxOnly"

subsection \<open>Claim keys\<close>

definition claim_key_prefix_label :: string where
  "claim_key_prefix_label = ''autopilot-''"

definition claim_key_prefix_unsub :: string where
  "claim_key_prefix_unsub = ''autopilot-unsubexec-''"

definition ruleMatchLabelClaimKey :: "match_row \<Rightarrow> string" where
  "ruleMatchLabelClaimKey m = claim_key_prefix_label @ ma_id m"

subsection \<open>Match predicates\<close>

definition policy_of :: "db \<Rightarrow> ident \<Rightarrow> string \<Rightarrow> policy_row option" where
  "policy_of d mb k = List.find (\<lambda>p. po_mailbox p = mb \<and> po_key p = k) (policies d)"

definition senderIndexedAtMatchTime :: "db \<Rightarrow> match_row \<Rightarrow> bool" where
  "senderIndexedAtMatchTime d m \<longleftrightarrow>
     list_ex (\<lambda>s. se_mailbox s = ma_mailbox m \<and> se_key s = ma_key m \<and> se_created s \<le> ma_matched_at m)
       (senders d)"

definition protectedSender :: "db \<Rightarrow> ident \<Rightarrow> string \<Rightarrow> bool" where
  \<comment> \<open>\<open>protectedSenderRow\<close>\<close>
  "protectedSender d mb k \<longleftrightarrow>
     list_ex (\<lambda>p. po_mailbox p = mb \<and> po_key p = k \<and> po_protected p) (policies d)"

definition ruleMatchSenderIsProtected :: "db \<Rightarrow> match_row \<Rightarrow> bool" where
  "ruleMatchSenderIsProtected d m = protectedSender d (ma_mailbox m) (ma_key m)"

definition ruleMatchIsPendingSuggestion :: "db \<Rightarrow> match_row \<Rightarrow> bool" where
  "ruleMatchIsPendingSuggestion d m \<longleftrightarrow>
     ma_mode m = MatchedObserve \<and> ma_resolution m = Pending \<and> senderIndexedAtMatchTime d m"

definition ruleMatchUnsubscribeAlreadyDone :: "db \<Rightarrow> match_row \<Rightarrow> bool" where
  "ruleMatchUnsubscribeAlreadyDone d m \<longleftrightarrow>
     list_ex (\<lambda>r. ru_id r = ma_rule m \<and> ru_action r = ActUnsubscribe \<and>
        list_ex (\<lambda>p. po_mailbox p = ma_mailbox m \<and> po_key p = ma_key m \<and>
           po_type p = Some PolUnsubscribe) (policies d)) (rules d)"

definition ruleMatchIsOfferableSuggestion :: "db \<Rightarrow> match_row \<Rightarrow> bool" where
  "ruleMatchIsOfferableSuggestion d m \<longleftrightarrow>
     ruleMatchIsPendingSuggestion d m \<and> \<not> ruleMatchSenderIsProtected d m \<and>
     \<not> ruleMatchUnsubscribeAlreadyDone d m"

definition ruleMatchEvidenceIsCurrent :: "db \<Rightarrow> match_row \<Rightarrow> bool" where
  "ruleMatchEvidenceIsCurrent d m \<longleftrightarrow>
     \<not> list_ex (\<lambda>s. se_mailbox s = ma_mailbox m \<and> se_key s = ma_key m \<and> ma_matched_at m < se_created s)
         (senders d) \<or>
     list_ex (\<lambda>j. jo_key j = ruleMatchLabelClaimKey m) (jobs d)"

definition ruleMatchIsQueuedAction :: "db \<Rightarrow> match_row \<Rightarrow> bool" where
  "ruleMatchIsQueuedAction d m \<longleftrightarrow>
     ma_resolution m = Approved \<and> \<not> ma_applied m \<and> ruleMatchEvidenceIsCurrent d m"

definition ruleMatchIsStaleAction :: "db \<Rightarrow> match_row \<Rightarrow> bool" where
  "ruleMatchIsStaleAction d m \<longleftrightarrow>
     ma_resolution m = Approved \<and> \<not> ma_applied m \<and> \<not> ruleMatchEvidenceIsCurrent d m"

definition ruleMatchRuleCanStart :: "db \<Rightarrow> match_row \<Rightarrow> bool" where
  "ruleMatchRuleCanStart d m \<longleftrightarrow>
     list_ex (\<lambda>r. ru_id r = ma_rule m \<and> ru_enabled r \<and> ru_mode r \<noteq> Paused) (rules d)"

definition ruleMatchIsHeldAction :: "db \<Rightarrow> match_row \<Rightarrow> bool" where
  "ruleMatchIsHeldAction d m \<longleftrightarrow>
     ruleMatchIsQueuedAction d m \<and> ruleMatchRuleCanStart d m \<and>
     \<not> ruleMatchSenderIsProtected d m \<and> \<not> ruleMatchUnsubscribeAlreadyDone d m"

end
