(* ===== verification/Match_Review.thy ===== *)
theory Match_Review
  imports Store
begin

text \<open>
  What happens to Autopilot matches outside the workers: the review API
  (\<^verbatim>\<open>apps/api/src/autopilot/autopilot.read-service.ts\<close>: \<open>dismissMatch\<close>, \<open>approveMatches\<close>,
  \<open>approveAllForRule\<close>, \<open>pauseAll\<close>, \<open>demoteUnattendedRules\<close> and its self-heal) and the
  teardown of the sender index by a full re-sync
  (\<^verbatim>\<open>packages/workers/src/initial-sync.worker.ts\<close>) and by the non-mail purge
  (\<^verbatim>\<open>packages/workers/src/non-mail-purge.ts\<close>). Each is one transaction, a function of the store.

  These are the writers that run while a sweep executes; \<open>review_step\<close> collects them, with
  the user's Protect toggle, as the environment of the sweep.
\<close>

subsection \<open>Claims\<close>

definition claimIsInFlight :: "job_row \<Rightarrow> bool" where
  "claimIsInFlight j \<longleftrightarrow> jo_status j \<noteq> JobDone \<and> (jo_status j \<noteq> Queued \<or> jo_ids j \<noteq> [])"

definition claim_untouched :: "job_row \<Rightarrow> bool" where
  \<comment> \<open>\<open>status = 'queued' and cardinality(resolved_message_ids) = 0\<close>\<close>
  "claim_untouched j \<longleftrightarrow> jo_status j = Queued \<and> jo_ids j = []"

definition claim_key_forms :: "ident \<Rightarrow> string list" where
  "claim_key_forms mid = [claim_key_prefix_label @ mid, claim_key_prefix_unsub @ mid]"

subsection \<open>The review API\<close>

datatype dismiss_result = DismissedNow | AlreadyDismissed

definition dismissMatch :: "ident \<Rightarrow> ident \<Rightarrow> db \<Rightarrow> dismiss_result option \<times> db" where
  "dismissMatch mb mid d =
     (let hit = (\<lambda>m. ma_mailbox m = mb \<and> ma_id m = mid \<and> ma_mode m = MatchedObserve \<and>
                     ma_resolution m = Pending)
      in if list_ex hit (matches d) then
           (Some DismissedNow,
            d\<lparr>matches := update_where hit
                (\<lambda>m. m\<lparr>ma_resolution := Dismissed, ma_resolved_at := Some (db_now d),
                       ma_dismiss := Some DismissUser\<rparr>) (matches d)\<rparr>)
         else if list_ex (\<lambda>m. ma_mailbox m = mb \<and> ma_id m = mid \<and> ma_mode m = MatchedObserve \<and>
                               ma_resolution m = Dismissed) (matches d)
           then (Some AlreadyDismissed, d)
         else (None, d))"

datatype review_error = QueueUnavailable | DeleteNeedsPreview | RuleCannotStart | RuleChanged

record approve_result =
  approvedCount :: nat
  alreadyResolvedCount :: nat
  skippedProtectedCount :: nat
  executionEnqueued :: bool

definition approve_rows :: "(match_row \<Rightarrow> bool) \<Rightarrow> db \<Rightarrow> db" where
  "approve_rows p d =
     d\<lparr>matches := update_where p
         (\<lambda>m. m\<lparr>ma_resolution := Approved, ma_resolved_at := Some (db_now d)\<rparr>) (matches d)\<rparr>"

definition count_where :: "('a \<Rightarrow> bool) \<Rightarrow> 'a list \<Rightarrow> nat" where
  "count_where p xs = length (filter p xs)"

definition rule_action_is :: "db \<Rightarrow> match_row \<Rightarrow> autopilot_action \<Rightarrow> bool" where
  "rule_action_is d m a \<longleftrightarrow> list_ex (\<lambda>r. ru_id r = ma_rule m \<and> ru_action r = a) (rules d)"

definition approveMatches ::
  "bool \<Rightarrow> ident \<Rightarrow> ident list \<Rightarrow> db \<Rightarrow> (review_error + approve_result) \<times> db" where
  \<comment> \<open>\<open>queueUp\<close>: the action queue is configured; the sweep enqueue itself reports success\<close>
  "approveMatches queueUp mb ids d =
     (let mine = (\<lambda>m. ma_mailbox m = mb \<and> ma_id m \<in> set ids)
      in if \<not> queueUp then (Inl QueueUnavailable, d)
         else if list_ex (\<lambda>m. mine m \<and> rule_action_is d m ActDelete) (matches d)
           then (Inl DeleteNeedsPreview, d)
         else if 0 < count_where (\<lambda>m. mine m \<and> ruleMatchIsPendingSuggestion d m \<and>
                                      \<not> ruleMatchRuleCanStart d m) (matches d)
           then (Inl RuleCannotStart, d)
         else let p = (\<lambda>m. mine m \<and> ruleMatchIsOfferableSuggestion d m);
                  d' = approve_rows p d;
                  n = count_where p (matches d);
                  terminal = count_where (\<lambda>m. mine m \<and> ma_resolution m \<noteq> Pending) (matches d')
              in (Inr \<lparr>approvedCount = n, alreadyResolvedCount = terminal - n,
                       skippedProtectedCount =
                         count_where (\<lambda>m. mine m \<and> ruleMatchIsPendingSuggestion d' m \<and>
                                          ruleMatchSenderIsProtected d' m) (matches d'),
                       executionEnqueued = (0 < n)\<rparr>, d'))"

datatype approve_scope =
    ScopeIds "ident list"
  | ScopeBefore millis "int option" \<comment> \<open>cutoff and the rule version the preview showed\<close>

fun in_scope :: "approve_scope option \<Rightarrow> match_row \<Rightarrow> bool" where
  "in_scope None m = True"
| "in_scope (Some (ScopeIds ids)) m = (ma_id m \<in> set ids)"
| "in_scope (Some (ScopeBefore t _)) m = (ma_matched_at m \<le> t)"

fun scope_stale :: "rule_row \<Rightarrow> approve_scope option \<Rightarrow> bool" where
  "scope_stale r (Some (ScopeBefore _ (Some v))) = (v \<noteq> ru_version r)"
| "scope_stale r (Some (ScopeBefore _ None)) = (\<not> stored_is_empty (ru_conditions r))"
| "scope_stale r _ = False"

definition approveAllForRule ::
  "bool \<Rightarrow> ident \<Rightarrow> ident \<Rightarrow> approve_scope option \<Rightarrow> db \<Rightarrow> (review_error + approve_result option) \<times> db" where
  "approveAllForRule queueUp mb rid scope d =
     (if \<not> queueUp then (Inl QueueUnavailable, d)
      else case List.find (\<lambda>r. ru_mailbox r = mb \<and> ru_id r = rid) (rules d) of
          None \<Rightarrow> (Inr None, d)
        | Some r \<Rightarrow>
            if ru_action r = ActDelete then (Inl DeleteNeedsPreview, d)
            else if scope_stale r scope then (Inl RuleChanged, d)
            else if \<not> ru_enabled r \<or> ru_mode r = Paused then (Inl RuleCannotStart, d)
            else let mine = (\<lambda>m. ma_mailbox m = mb \<and> ma_rule m = rid \<and> in_scope scope m);
                     p = (\<lambda>m. mine m \<and> ruleMatchIsOfferableSuggestion d m);
                     d' = approve_rows p d;
                     n = count_where p (matches d)
                 in (Inr (Some \<lparr>approvedCount = n, alreadyResolvedCount = 0,
                        skippedProtectedCount =
                          count_where (\<lambda>m. mine m \<and> ruleMatchIsPendingSuggestion d' m \<and>
                                           ruleMatchSenderIsProtected d' m) (matches d'),
                        executionEnqueued = (0 < n)\<rparr>), d'))"

definition pauseAll :: "ident \<Rightarrow> db \<Rightarrow> nat \<times> db" where
  "pauseAll mb d =
     (let p = (\<lambda>r. ru_mailbox r = mb \<and> ru_retired r = None \<and> ru_mode r \<noteq> Paused)
      in (count_where p (rules d),
          d\<lparr>rules := update_where p
              (\<lambda>r. r\<lparr>ru_mode := Paused, ru_mode_changed := db_now d, ru_version := ru_version r + 1\<rparr>)
              (rules d)\<rparr>))"

subsection \<open>Downgrade\<close>

definition workspace_mailboxes :: "db \<Rightarrow> ident \<Rightarrow> ident list" where
  "workspace_mailboxes d ws = map mb_id (filter (\<lambda>m. mb_workspace m = ws) (mailboxes d))"

definition neutralizable :: "db \<Rightarrow> ident \<Rightarrow> match_row \<Rightarrow> bool" where
  \<comment> \<open>an approved unattended match whose claim never advanced\<close>
  "neutralizable d ws m \<longleftrightarrow>
     ma_mode m = MatchedActive \<and> ma_resolution m = Approved \<and> \<not> ma_applied m \<and>
     ma_mailbox m \<in> set (workspace_mailboxes d ws) \<and>
     \<not> list_ex (\<lambda>j. jo_key j \<in> set (claim_key_forms (ma_id m)) \<and>
                    (jo_status j \<noteq> Queued \<or> jo_ids j \<noteq> [])) (jobs d)"

definition demoteUnattendedRules :: "ident \<Rightarrow> db \<Rightarrow> (nat \<times> nat) \<times> db" where
  "demoteUnattendedRules ws d =
     (case List.find (\<lambda>w. ws_id w = ws) (workspaces d) of
        None \<Rightarrow> ((0, 0), d)
      | Some w \<Rightarrow>
          if hasCapability (ws_tier w) AutopilotActive then ((0, 0), d)
          else let pr = (\<lambda>r. ru_mode r = Active \<and> ru_mailbox r \<in> set (workspace_mailboxes d ws));
                   keys = concat (map (claim_key_forms \<circ> ma_id) (filter (neutralizable d ws) (matches d)))
               in ((count_where pr (rules d), count_where (neutralizable d ws) (matches d)),
                   d\<lparr>rules := update_where pr (\<lambda>r. r\<lparr>ru_mode := Observe, ru_mode_changed := db_now d\<rparr>) (rules d),
                     matches := update_where (neutralizable d ws)
                        (\<lambda>m. m\<lparr>ma_resolution := Dismissed, ma_resolved_at := Some (db_now d),
                               ma_dismiss := Some DismissEntitlement\<rparr>) (matches d),
                     jobs := update_where (\<lambda>j. jo_key j \<in> set keys \<and> claim_untouched j)
                        (\<lambda>j. j\<lparr>jo_status := JobFailed, jo_error := Some ''ENTITLEMENT_DEMOTED''\<rparr>) (jobs d)\<rparr>))"

definition unentitled_workspaces :: "db \<Rightarrow> ident list" where
  "unentitled_workspaces d =
     (let unentitled = (\<lambda>ws. list_ex (\<lambda>w. ws_id w = ws \<and> \<not> hasCapability (ws_tier w) AutopilotActive) (workspaces d));
          ruleWs = map mb_workspace (filter (\<lambda>m. unentitled (mb_workspace m) \<and>
             list_ex (\<lambda>r. ru_mailbox r = mb_id m \<and> ru_mode r = Active) (rules d)) (mailboxes d));
          matchWs = map mb_workspace (filter (\<lambda>m. unentitled (mb_workspace m) \<and>
             list_ex (\<lambda>a. ma_mailbox a = mb_id m \<and> ma_mode a = MatchedActive \<and>
                ma_resolution a = Approved \<and> \<not> ma_applied a) (matches d)) (mailboxes d))
      in remdups (ruleWs @ matchWs))"

definition demoteUnattendedRulesForUnentitledTiers :: "db \<Rightarrow> (nat \<times> nat \<times> nat) \<times> db" where
  \<comment> \<open>one transaction per workspace\<close>
  "demoteUnattendedRulesForUnentitledTiers d =
     foldl (\<lambda>((rs, ms, n), d) ws.
              case demoteUnattendedRules ws d of ((r, m), d') \<Rightarrow> ((rs + r, ms + m, n), d'))
       ((0, 0, length (unentitled_workspaces d)), d) (unentitled_workspaces d)"

subsection \<open>Sender-index teardown\<close>

definition label_claimed :: "db \<Rightarrow> match_row \<Rightarrow> bool" where
  "label_claimed d m \<longleftrightarrow> list_ex (\<lambda>j. jo_key j = ruleMatchLabelClaimKey m) (jobs d)"

definition unexecuted_unclaimed :: "db \<Rightarrow> match_row \<Rightarrow> bool" where
  "unexecuted_unclaimed d m \<longleftrightarrow>
     \<not> ma_applied m \<and> ma_resolution m \<in> {Pending, Approved} \<and> \<not> label_claimed d m"

definition rebuildSenderIndex :: "ident \<Rightarrow> sender_row list \<Rightarrow> timeseries_row list \<Rightarrow> db \<Rightarrow> db" where
  \<comment> \<open>the rebuild transaction: teardown, match cleanup, re-insert; a new row's
      \<open>created_at\<close> is the transaction's \<open>now()\<close>\<close>
  "rebuildSenderIndex mb fresh ts d =
     d\<lparr>timeseries := filter (\<lambda>t. ts_mailbox t \<noteq> mb) (timeseries d) @ map (\<lambda>t. t\<lparr>ts_mailbox := mb\<rparr>) ts,
       senders := filter (\<lambda>s. se_mailbox s \<noteq> mb) (senders d)
         @ map (\<lambda>s. s\<lparr>se_mailbox := mb, se_created := db_now d\<rparr>) fresh,
       matches := filter (\<lambda>m. \<not> (ma_mailbox m = mb \<and> unexecuted_unclaimed d m)) (matches d)\<rparr>"

definition purgePhantomSenders :: "ident \<Rightarrow> string list \<Rightarrow> db \<Rightarrow> db" where
  \<comment> \<open>\<open>fedKeys\<close>: the senders the purged rows fed; those left with no inbound mail go\<close>
  "purgePhantomSenders mb fedKeys d =
     (let phantom = (\<lambda>s. se_mailbox s = mb \<and> se_key s \<in> set fedKeys \<and>
             \<not> list_ex (\<lambda>m. mm_mailbox m = mb \<and> mm_key m = Some (se_key s) \<and> \<not> mm_outbound m) (mail d));
          keys = map se_key (filter phantom (senders d));
          auto = (\<lambda>p. po_mailbox p = mb \<and> po_key p \<in> set keys \<and> po_protected p \<and>
                      po_reason p \<in> {Some Replied, Some Starred, Some GmailImportant})
      in if keys = [] then d
         else d\<lparr>senders := filter (\<lambda>s. \<not> phantom s) (senders d),
                timeseries := filter (\<lambda>t. \<not> (ts_mailbox t = mb \<and> ts_key t \<in> set keys)) (timeseries d),
                matches := filter (\<lambda>m. \<not> (ma_mailbox m = mb \<and> ma_key m \<in> set keys \<and>
                                            unexecuted_unclaimed d m)) (matches d),
                policies := update_where auto
                  (\<lambda>p. p\<lparr>po_protected := False, po_reason := None, po_protected_at := None\<rparr>)
                  (policies d)\<rparr>)"

subsection \<open>The sweep's environment\<close>

record sender_patch =
  pa_policy :: "policy_type option"
  pa_protected :: "bool option"

definition patch_row :: "sender_patch \<Rightarrow> bool \<Rightarrow> bool \<Rightarrow> millis \<Rightarrow> policy_row \<Rightarrow> policy_row" where
  \<comment> \<open>the conflict \<open>SET\<close>: only the changed fields; unprotecting leaves the reason in place\<close>
  "patch_row pa keepChange protectChange now p =
     (let p1 = (if keepChange then p\<lparr>po_type := pa_policy pa\<rparr> else p)
      in if \<not> protectChange then p1
         else if pa_protected pa = Some True
           then p1\<lparr>po_protected := True, po_reason := Some UserDefined, po_protected_at := Some now\<rparr>
         else p1\<lparr>po_protected := False, po_protected_at := None\<rparr>)"

definition new_policy :: "ident \<Rightarrow> string \<Rightarrow> sender_patch \<Rightarrow> millis \<Rightarrow> policy_row" where
  \<comment> \<open>unspecified fields take their column defaults\<close>
  "new_policy mb k pa now =
     (let prot = (pa_protected pa = Some True)
      in \<lparr>po_mailbox = mb, po_key = k,
          po_type = (case pa_policy pa of None \<Rightarrow> Some PolKeep | Some t \<Rightarrow> Some t),
          po_protected = prot, po_reason = (if prot then Some UserDefined else None),
          po_protected_at = (if prot then Some now else None),
          po_snoozed_until = None, po_snoozed_at = None, po_snooze_note = None,
          po_wake_attempt = None, po_wake_failed = None, po_wake_failures = 0, po_wake_kind = None, po_unsub = None\<rparr>)"

definition policy_audit :: "ident \<Rightarrow> ident \<Rightarrow> string \<Rightarrow> string \<Rightarrow> millis \<Rightarrow> activity_row" where
  "policy_audit aid mb k action now =
     \<lparr>ac_id = aid, ac_mailbox = mb, ac_key = k, ac_source = ''manual'', ac_action = action, ac_affected = 0,
      ac_undo = None, ac_rule = None, ac_at = now, ac_job = None, ac_reverted = None\<rparr>"

definition policy_keep_change :: "sender_patch \<Rightarrow> policy_row option \<Rightarrow> bool" where
  "policy_keep_change pa ex \<longleftrightarrow>
     (case pa_policy pa of None \<Rightarrow> False | Some t \<Rightarrow> Option.bind ex po_type \<noteq> Some t)"

definition policy_protect_change :: "sender_patch \<Rightarrow> policy_row option \<Rightarrow> bool" where
  "policy_protect_change pa ex \<longleftrightarrow>
     (case pa_protected pa of None \<Rightarrow> False
      | Some b \<Rightarrow> b \<noteq> (case ex of None \<Rightarrow> False | Some p \<Rightarrow> po_protected p))"

definition setPolicyTx :: "ident \<Rightarrow> ident \<Rightarrow> ident \<Rightarrow> string \<Rightarrow> sender_patch \<Rightarrow> db \<Rightarrow> db" where
  \<comment> \<open>the transaction of \<open>setPolicy\<close>, on the sender's key\<close>
  "setPolicyTx a1 a2 mb k pa d =
     (let ex = policy_of d mb k; kc = policy_keep_change pa ex; pc = policy_protect_change pa ex
      in if \<not> kc \<and> \<not> pc then d
         else d\<lparr>policies := (if ex = None then policies d @ [new_policy mb k pa (db_now d)]
                             else update_where (\<lambda>p. po_mailbox p = mb \<and> po_key p = k)
                                    (patch_row pa kc pc (db_now d)) (policies d)),
                activity := activity d
                  @ (if kc then [policy_audit a1 mb k ''keep'' (db_now d)] else [])
                  @ (if pc then [policy_audit a2 mb k
                       (if pa_protected pa = Some True then ''marked_protected'' else ''unmarked_protected'')
                       (db_now d)] else [])\<rparr>)"

definition setPolicy :: "ident \<Rightarrow> ident \<Rightarrow> ident \<Rightarrow> ident \<Rightarrow> sender_patch \<Rightarrow> db \<Rightarrow> db option" where
  \<comment> \<open>\<open>None\<close>: no such sender in this mailbox\<close>
  "setPolicy a1 a2 mb sid pa d =
     map_option (\<lambda>s. setPolicyTx a1 a2 mb (se_key s) pa d)
       (List.find (\<lambda>s. se_id s = sid \<and> se_mailbox s = mb) (senders d))"

inductive review_step :: "db \<Rightarrow> db \<Rightarrow> bool" where
  dismiss: "review_step d (snd (dismissMatch mb mid d))"
| approve: "review_step d (snd (approveMatches q mb ids d))"
| approve_all: "review_step d (snd (approveAllForRule q mb rid scope d))"
| pause: "review_step d (snd (pauseAll mb d))"
| demote: "review_step d (snd (demoteUnattendedRules ws d))"
| rebuild: "review_step d (rebuildSenderIndex mb fresh ts d)"
| purge: "review_step d (purgePhantomSenders mb ks d)"
| policy: "review_step d (setPolicyTx a1 a2 mb k pa d)"
| sync: "review_step d (d\<lparr>mail := ms\<rparr>)"
| tick: "db_now d \<le> t \<Longrightarrow> review_step d (d\<lparr>db_now := t\<rparr>)"

inductive_cases review_stepE: "review_step d d'"

text \<open>Any number of environment steps, by any mix of writers.\<close>

definition review_steps :: "db \<Rightarrow> db \<Rightarrow> bool" where
  "review_steps = review_step\<^sup>*\<^sup>*"

subsection \<open>Stages of a match\<close>

text \<open>
  Every approved, unapplied match is exactly one of queued and stale, what the Quiet
  screen counts as held is queued, never Protected and never an unsubscribe already done,
  and a suggestion offered for approval is pending, from a rule's observe pass, about a
  sender indexed when it was made and not Protected.
\<close>

theorem match_stages:
  "((ma_resolution m = Approved \<and> \<not> ma_applied m) \<longleftrightarrow>
      ruleMatchIsQueuedAction d m \<noteq> ruleMatchIsStaleAction d m) \<and>
   (ruleMatchIsHeldAction d m \<longrightarrow>
      ruleMatchIsQueuedAction d m \<and> \<not> protectedSender d (ma_mailbox m) (ma_key m) \<and>
      \<not> ruleMatchUnsubscribeAlreadyDone d m) \<and>
   (ruleMatchIsOfferableSuggestion d m \<longrightarrow>
      ma_resolution m = Pending \<and> ma_mode m = MatchedObserve \<and>
      \<not> protectedSender d (ma_mailbox m) (ma_key m) \<and> senderIndexedAtMatchTime d m \<and>
      \<not> ruleMatchIsQueuedAction d m)"
  by (auto simp: ruleMatchIsQueuedAction_def ruleMatchIsStaleAction_def ruleMatchIsHeldAction_def
      ruleMatchIsOfferableSuggestion_def ruleMatchIsPendingSuggestion_def ruleMatchSenderIsProtected_def)

lemmas match_predicate_defs =
  ruleMatchIsQueuedAction_def ruleMatchIsStaleAction_def ruleMatchIsHeldAction_def
  ruleMatchIsOfferableSuggestion_def ruleMatchIsPendingSuggestion_def

subsection \<open>A concrete mailbox\<close>

definition demo_rule :: rule_row where
  "demo_rule =
     \<lparr>ru_id = ''r'', ru_mailbox = ''m'', ru_preset_key = Some ''newsletter_graveyard'', ru_is_preset = True,
      ru_enabled = True, ru_mode = Observe, ru_mode_changed = 0, ru_threshold = None,
      ru_conditions = JObj [], ru_action = ActLater, ru_payload = JObj [], ru_scope = ''account'', ru_version = 1,
      ru_retired = None, ru_last_run = None, ru_last_actions = 0, ru_last_senders = 0\<rparr>"

definition demo_match :: match_row where
  "demo_match =
     \<lparr>ma_id = ''x'', ma_rule = ''r'', ma_mailbox = ''m'', ma_key = ''k'', ma_matched_at = 10,
      ma_mode = MatchedObserve, ma_confidence = ''1'', ma_reason = '''', ma_applied = False, ma_token = None,
      ma_resolution = Approved, ma_resolved_at = None, ma_dismiss = None\<rparr>"

definition demo_mail :: "ident \<Rightarrow> mail_row" where
  "demo_mail i = \<lparr>mm_id = i, mm_mailbox = ''m'', mm_key = Some ''k'', mm_labels = [''INBOX''], mm_outbound = False, mm_date = 3, mm_row = i, mm_one_click = False, mm_unsub_url = None, mm_mailto = None\<rparr>"

definition demo_db :: db where
  "demo_db =
     \<lparr>workspaces = [\<lparr>ws_id = ''w'', ws_tier = Plus\<rparr>],
      mailboxes = [\<lparr>mb_id = ''m'', mb_workspace = ''w'', mb_quiet = JNull, mb_active = True, mb_user = ''u'', mb_connected = None\<rparr>],
      rules = [demo_rule],
      senders = [\<lparr>se_id = ''s'', se_mailbox = ''m'', se_key = ''k'', se_created = 5, se_first_seen = 1,
                  se_last_seen = 2, se_unsub = Some Mailto, se_name = '''', se_email = ''n@example.com'', se_unsub_url = None\<rparr>],
      policies = [], matches = [demo_match], jobs = [], activity = [], undos = [],
      mail = [demo_mail ''a'', demo_mail ''b''], timeseries = [], decisions = [], outbox = [],
      inbox_reports = [], sync_states = [], cron_runs = [], db_now = 100\<rparr>"

theorem match_stages_witness:
  "ruleMatchIsHeldAction demo_db demo_match \<and> ruleMatchIsQueuedAction demo_db demo_match \<and>
   \<not> protectedSender demo_db ''m'' ''k''"
proof -
  have "ruleMatchIsHeldAction demo_db demo_match" "ma_mailbox demo_match = ''m''" "ma_key demo_match = ''k''"
    by code_simp+
  then show ?thesis using match_stages [of demo_match demo_db] by simp
qed

subsection \<open>Approval\<close>

lemma protectedSender_approve_rows [simp]:
  "protectedSender (approve_rows p d) mb k = protectedSender d mb k"
  by (simp add: approve_rows_def protectedSender_def)

lemma approve_rows_members:
  "m' \<in> set (matches (approve_rows p d)) \<Longrightarrow>
     \<exists>m \<in> set (matches d). (p m \<and> m' = m\<lparr>ma_resolution := Approved, ma_resolved_at := Some (db_now d)\<rparr>) \<or>
       (\<not> p m \<and> m' = m)"
  by (auto simp: approve_rows_def set_update_where)


definition offered_db :: db where
  "offered_db = demo_db\<lparr>matches := [demo_match\<lparr>ma_resolution := Pending\<rparr>]\<rparr>"


subsection \<open>What the environment leaves alone\<close>

text \<open>
  The rely condition of the sweep. Another writer may dismiss, approve, protect, rebuild the
  sender index and run the user's own jobs; it leaves the claims of Autopilot as they are,
  keeps every approved match that has a label claim, and keeps what an undo token covers and
  what an Activity row counts. \<open>verbs_ok vb\<close> says which verb
  each approved, unapplied match runs: \<open>patchRule\<close> refuses to change the verb of a rule that
  has one.
\<close>

definition in_flight_for :: "db \<Rightarrow> match_row \<Rightarrow> bool" where
  \<comment> \<open>the match's label claim advanced past creation (in flight, or done)\<close>
  "in_flight_for d m \<longleftrightarrow>
     list_ex (\<lambda>j. jo_key j = ruleMatchLabelClaimKey m \<and> \<not> claim_untouched j) (jobs d)"

definition is_claim_key :: "string \<Rightarrow> bool" where
  "is_claim_key k \<longleftrightarrow> take 10 k = ''autopilot-''"

definition rule_verb :: "db \<Rightarrow> ident \<Rightarrow> autopilot_action option" where
  "rule_verb d rid = map_option ru_action (List.find (\<lambda>r. ru_id r = rid) (rules d))"

definition verbs_ok :: "(ident \<Rightarrow> autopilot_action) \<Rightarrow> db \<Rightarrow> bool" where
  "verbs_ok vb d \<longleftrightarrow>
     (\<forall>m \<in> set (matches d). ma_resolution m = Approved \<longrightarrow> \<not> ma_applied m \<longrightarrow>
        (\<forall>a. rule_verb d (ma_rule m) = Some a \<longrightarrow> a = vb (ma_id m)))"

definition unique_jobs :: "db \<Rightarrow> bool" where
  \<comment> \<open>the primary key and the unique index on \<open>idempotency_key\<close>\<close>
  "unique_jobs d \<longleftrightarrow>
     (\<forall>j \<in> set (jobs d). \<forall>j' \<in> set (jobs d). jo_id j = jo_id j' \<or> jo_key j = jo_key j' \<longrightarrow> j = j')"

definition claim_jobs :: "db \<Rightarrow> job_row set" where
  "claim_jobs d = {j \<in> set (jobs d). is_claim_key (jo_key j)}"

definition undo_facts :: "db \<Rightarrow> (ident \<times> ident list) set" where
  "undo_facts d = (\<lambda>u. (un_token u, un_ids u)) ` set (undos d)"

definition activity_facts :: "db \<Rightarrow> (ident option \<times> string \<times> nat) set" where
  "activity_facts d = (\<lambda>a. (ac_undo a, ac_source a, ac_affected a)) ` set (activity d)"

definition respects_claims :: "(ident \<Rightarrow> autopilot_action) \<Rightarrow> db \<Rightarrow> db \<Rightarrow> bool" where
  "respects_claims vb d d' \<longleftrightarrow>
     claim_jobs d' = claim_jobs d \<and> (unique_jobs d \<longrightarrow> unique_jobs d') \<and>
     {m \<in> set (matches d). ma_resolution m = Approved \<and> label_claimed d m} \<subseteq> set (matches d') \<and>
     (verbs_ok vb d \<longrightarrow> verbs_ok vb d') \<and>
     undo_facts d \<subseteq> undo_facts d' \<and> activity_facts d \<subseteq> activity_facts d'"

lemma respects_claims_refl [simp]: "respects_claims vb d d"
  by (simp add: respects_claims_def)

lemma label_claimed_cong:
  assumes "claim_jobs d' = claim_jobs d"
  shows "label_claimed d' m = label_claimed d m"
proof -
  have "is_claim_key (ruleMatchLabelClaimKey m)"
    by (simp add: ruleMatchLabelClaimKey_def is_claim_key_def claim_key_prefix_label_def)
  then have "label_claimed x m \<longleftrightarrow> (\<exists>j \<in> claim_jobs x. jo_key j = ruleMatchLabelClaimKey m)" for x
    by (auto simp: label_claimed_def claim_jobs_def list_ex_iff)
  with assms show ?thesis by simp
qed

lemma respects_claims_trans:
  assumes "respects_claims vb d d'" "respects_claims vb d' d''"
  shows "respects_claims vb d d''"
proof -
  have "label_claimed d' m = label_claimed d m" for m
    by (rule label_claimed_cong) (use assms(1) in \<open>simp add: respects_claims_def\<close>)
  then have "m \<in> set (matches d'')" if "m \<in> set (matches d)" "ma_resolution m = Approved" "label_claimed d m" for m
    using assms that unfolding respects_claims_def by blast
  with assms show ?thesis unfolding respects_claims_def by (elim conjE, intro conjI) (simp, blast+)
qed

text \<open>Writers that leave the job table alone.\<close>

lemma respects_claims_sameI:
  assumes "jobs d' = jobs d" "verbs_ok vb d'"
    and "\<And>m. m \<in> set (matches d) \<Longrightarrow> ma_resolution m = Approved \<Longrightarrow> label_claimed d m \<Longrightarrow> m \<in> set (matches d')"
    and "undos d' = undos d" "activity d' = activity d"
  shows "respects_claims vb d d'"
  using assms by (auto simp: respects_claims_def unique_jobs_def claim_jobs_def undo_facts_def activity_facts_def)

lemma update_where_keeps: "x \<in> set xs \<Longrightarrow> \<not> p x \<Longrightarrow> x \<in> set (update_where p f xs)"
  by (force simp: set_update_where)

lemma dismiss_respects:
  "verbs_ok vb (snd (dismissMatch mb mid d)) \<Longrightarrow> respects_claims vb d (snd (dismissMatch mb mid d))"
  by (rule respects_claims_sameI) (auto simp: dismissMatch_def Let_def intro!: update_where_keeps)

lemma approve_rows_respects:
  "(\<And>m. p m \<Longrightarrow> ruleMatchIsOfferableSuggestion d m) \<Longrightarrow> verbs_ok vb (approve_rows p d) \<Longrightarrow>
     respects_claims vb d (approve_rows p d)"
  by (rule respects_claims_sameI)
    (auto simp: approve_rows_def match_predicate_defs intro!: update_where_keeps)

lemma approve_respects:
  "verbs_ok vb (snd (approveMatches q mb ids d)) \<Longrightarrow> respects_claims vb d (snd (approveMatches q mb ids d))"
  by (auto simp: approveMatches_def Let_def intro!: approve_rows_respects split: if_splits)

lemma approve_all_respects:
  "verbs_ok vb (snd (approveAllForRule q mb rid scope d)) \<Longrightarrow>
     respects_claims vb d (snd (approveAllForRule q mb rid scope d))"
  by (auto simp: approveAllForRule_def Let_def intro!: approve_rows_respects split: option.splits if_splits)

lemma pause_respects:
  "verbs_ok vb (snd (pauseAll mb d)) \<Longrightarrow> respects_claims vb d (snd (pauseAll mb d))"
  by (rule respects_claims_sameI) (simp_all add: pauseAll_def Let_def)

lemma rebuild_respects:
  "verbs_ok vb (rebuildSenderIndex mb fresh ts d) \<Longrightarrow> respects_claims vb d (rebuildSenderIndex mb fresh ts d)"
  by (rule respects_claims_sameI) (auto simp: rebuildSenderIndex_def unexecuted_unclaimed_def)

lemma purge_respects:
  "verbs_ok vb (purgePhantomSenders mb ks d) \<Longrightarrow> respects_claims vb d (purgePhantomSenders mb ks d)"
  by (rule respects_claims_sameI) (auto simp: purgePhantomSenders_def Let_def unexecuted_unclaimed_def)

lemma setPolicyTx_frame [simp]:
  "jobs (setPolicyTx a1 a2 mb k pa d) = jobs d" "matches (setPolicyTx a1 a2 mb k pa d) = matches d"
  "undos (setPolicyTx a1 a2 mb k pa d) = undos d" "rules (setPolicyTx a1 a2 mb k pa d) = rules d"
  "set (activity d) \<subseteq> set (activity (setPolicyTx a1 a2 mb k pa d))"
  by (auto simp: setPolicyTx_def Let_def)

lemma policy_respects: "respects_claims vb d (setPolicyTx a1 a2 mb k pa d)"
proof -
  have "set (activity d) \<subseteq> set (activity (setPolicyTx a1 a2 mb k pa d))" by simp
  then have "activity_facts d \<subseteq> activity_facts (setPolicyTx a1 a2 mb k pa d)"
    unfolding activity_facts_def by (rule image_mono)
  then show ?thesis
    by (simp add: respects_claims_def unique_jobs_def verbs_ok_def rule_verb_def claim_jobs_def undo_facts_def)
qed

lemma neutralizable_not_in_flight: "neutralizable d ws m \<Longrightarrow> \<not> in_flight_for d m"
  by (auto simp: neutralizable_def in_flight_for_def list_ex_iff claim_key_forms_def
      ruleMatchLabelClaimKey_def claim_untouched_def)

text \<open>
  A downgrade respects the sweep's claims when it finds none to retire. One that does
  retire a claim is what \<open>markClaimExecuting\<close> checks for.
\<close>

definition retires_claim :: "db \<Rightarrow> ident \<Rightarrow> bool" where
  "retires_claim d ws \<longleftrightarrow>
     list_ex (\<lambda>m. neutralizable d ws m \<and> list_ex (\<lambda>j. jo_key j \<in> set (claim_key_forms (ma_id m))) (jobs d))
       (matches d)"

lemma demote_respects:
  assumes "\<not> retires_claim d ws" "verbs_ok vb (snd (demoteUnattendedRules ws d))"
  shows "respects_claims vb d (snd (demoteUnattendedRules ws d))"
proof -
  have free: "jo_key j \<notin> set (claim_key_forms (ma_id m))"
    if "j \<in> set (jobs d)" "m \<in> set (matches d)" "neutralizable d ws m" for j m
    using assms(1) that by (auto simp: retires_claim_def list_ex_iff)
  have same: "update_where (\<lambda>j. jo_key j \<in> set (concat (map (claim_key_forms \<circ> ma_id)
        (filter (neutralizable d ws) (matches d)))) \<and> claim_untouched j) f (jobs d) = jobs d" for f
    by (rule update_where_id) (use free in fastforce)
  have "\<not> neutralizable d ws m" if "m \<in> set (matches d)" "label_claimed d m" for m
    using free [of _ m] that by (auto simp: label_claimed_def list_ex_iff claim_key_forms_def ruleMatchLabelClaimKey_def)
  with assms(2) same show ?thesis
    by (intro respects_claims_sameI)
      (auto simp: demoteUnattendedRules_def Let_def intro!: update_where_keeps split: option.splits)
qed

lemma review_step_respects:
  "review_step d d' \<Longrightarrow> (\<And>ws. d' = snd (demoteUnattendedRules ws d) \<Longrightarrow> \<not> retires_claim d ws) \<Longrightarrow>
     verbs_ok vb d' \<Longrightarrow> respects_claims vb d d'"
  by (induction rule: review_step.induct)
    (simp_all add: dismiss_respects approve_respects approve_all_respects pause_respects demote_respects
      rebuild_respects purge_respects policy_respects respects_claims_sameI)

subsection \<open>Rebuild and downgrade\<close>

lemma evidence_after_rebuild:
  assumes "m \<in> set (matches (rebuildSenderIndex mb fresh ts d))" "ma_mailbox m = mb"
    "ma_resolution m = Approved" "\<not> ma_applied m"
  shows "ruleMatchEvidenceIsCurrent (rebuildSenderIndex mb fresh ts d) m"
proof -
  have "label_claimed d m"
    using assms by (auto simp: rebuildSenderIndex_def unexecuted_unclaimed_def)
  then show ?thesis
    by (simp add: ruleMatchEvidenceIsCurrent_def label_claimed_def rebuildSenderIndex_def)
qed

text \<open>
  C27: a sender-index rebuild leaves no action on deleted evidence and strands none. After
  it, the mailbox has no stale action: whatever is still approved and unapplied is
  claimed and will be loaded by the sweep. It deletes only unexecuted matches without a
  claim: every claimed, applied or dismissed match survives unchanged, and so does every
  match of another mailbox.
\<close>

theorem rebuild_settles_matches:
  "filter (\<lambda>m. ma_mailbox m = mb \<and> ruleMatchIsStaleAction (rebuildSenderIndex mb fresh ts d) m)
     (matches (rebuildSenderIndex mb fresh ts d)) = [] \<and>
   set (matches (rebuildSenderIndex mb fresh ts d)) =
     set (matches d) - {m. ma_mailbox m = mb \<and> \<not> ma_applied m \<and> ma_resolution m \<noteq> Dismissed \<and>
       \<not> label_claimed d m}"
proof (intro conjI)
  show "filter (\<lambda>m. ma_mailbox m = mb \<and> ruleMatchIsStaleAction (rebuildSenderIndex mb fresh ts d) m)
      (matches (rebuildSenderIndex mb fresh ts d)) = []"
    using evidence_after_rebuild [of _ mb fresh ts d]
    by (auto simp: filter_empty_conv ruleMatchIsStaleAction_def)
  have "ma_resolution m \<in> {Pending, Approved} \<longleftrightarrow> ma_resolution m \<noteq> Dismissed" for m
    by (cases "ma_resolution m") auto
  then show "set (matches (rebuildSenderIndex mb fresh ts d)) =
     set (matches d) - {m. ma_mailbox m = mb \<and> \<not> ma_applied m \<and> ma_resolution m \<noteq> Dismissed \<and>
       \<not> label_claimed d m}"
    by (auto simp: rebuildSenderIndex_def unexecuted_unclaimed_def)
qed

lemma demote_result:
  assumes "List.find (\<lambda>w. ws_id w = ws) (workspaces d) = Some w"
    "\<not> hasCapability (ws_tier w) AutopilotActive"
  shows "matches (snd (demoteUnattendedRules ws d)) =
      update_where (neutralizable d ws)
        (\<lambda>m. m\<lparr>ma_resolution := Dismissed, ma_resolved_at := Some (db_now d),
               ma_dismiss := Some DismissEntitlement\<rparr>) (matches d)"
    and "rules (snd (demoteUnattendedRules ws d)) =
      update_where (\<lambda>r. ru_mode r = Active \<and> ru_mailbox r \<in> set (workspace_mailboxes d ws))
        (\<lambda>r. r\<lparr>ru_mode := Observe, ru_mode_changed := db_now d\<rparr>) (rules d)"
    and "mailboxes (snd (demoteUnattendedRules ws d)) = mailboxes d"
  using assms by (simp_all add: demoteUnattendedRules_def Let_def)



definition lapsed_db :: db where
  \<comment> \<open>the workspace has just dropped to the free tier; an unattended match waits\<close>
  "lapsed_db = demo_db\<lparr>workspaces := [\<lparr>ws_id = ''w'', ws_tier = Free\<rparr>],
     rules := [demo_rule\<lparr>ru_mode := Active\<rparr>], matches := [demo_match\<lparr>ma_mode := MatchedActive\<rparr>]\<rparr>"


subsection \<open>Protect and Keep\<close>

lemma find_update_where:
  assumes "\<And>x. p (f x) = p x"
  shows "List.find p (update_where p f xs) = map_option f (List.find p xs)"
  by (induction xs) (auto simp: assms)

lemma find_append_new: "List.find p xs = None \<Longrightarrow> p y \<Longrightarrow> List.find p (xs @ [y]) = Some y"
  by (induction xs) (auto split: if_splits)

lemma policy_after:
  assumes "policy_keep_change pa (policy_of d mb k) \<or> policy_protect_change pa (policy_of d mb k)"
  shows "policy_of (setPolicyTx a1 a2 mb k pa d) mb k =
     Some (case policy_of d mb k of
             None \<Rightarrow> new_policy mb k pa (db_now d)
           | Some p \<Rightarrow> patch_row pa (policy_keep_change pa (Some p)) (policy_protect_change pa (Some p)) (db_now d) p)"
proof -
  have id: "po_mailbox (patch_row pa a b t p) = po_mailbox p \<and> po_key (patch_row pa a b t p) = po_key p" for a b t p
    by (simp add: patch_row_def Let_def)
  show ?thesis
  proof (cases "policy_of d mb k")
    case None
    with assms show ?thesis
      by (auto simp: setPolicyTx_def Let_def policy_of_def new_policy_def intro!: find_append_new)
  next
    case (Some p)
    with assms show ?thesis
      unfolding setPolicyTx_def Let_def policy_of_def by (auto simp: find_update_where id)
  qed
qed

text \<open>
  A policy patch is a state diff. Applying it twice is applying it once, audit rows
  included; afterwards the sender is Protected exactly when the patch says so; a patch that
  leaves protection out keeps it with its provenance; and unprotecting keeps the reason on
  record, which is what stops an automatic rule from protecting the sender again.
\<close>

theorem set_policy_diff:
  "setPolicyTx b1 b2 mb k pa (setPolicyTx a1 a2 mb k pa d) = setPolicyTx a1 a2 mb k pa d \<and>
   (case pa_protected pa of
      Some b \<Rightarrow> (case policy_of (setPolicyTx a1 a2 mb k pa d) mb k of None \<Rightarrow> \<not> b | Some p \<Rightarrow> po_protected p = b)
    | None \<Rightarrow> (case policy_of d mb k of None \<Rightarrow> True | Some p \<Rightarrow>
        map_option po_protected (policy_of (setPolicyTx a1 a2 mb k pa d) mb k) = Some (po_protected p) \<and>
        map_option po_reason (policy_of (setPolicyTx a1 a2 mb k pa d) mb k) = Some (po_reason p))) \<and>
   (case (pa_protected pa, policy_of d mb k) of
      (Some False, Some p) \<Rightarrow>
        map_option po_reason (policy_of (setPolicyTx a1 a2 mb k pa d) mb k) = Some (po_reason p)
    | _ \<Rightarrow> True)"
proof (cases "policy_keep_change pa (policy_of d mb k) \<or> policy_protect_change pa (policy_of d mb k)")
  case True
  note after = policy_after [OF True, of a1 a2]
  have still: "\<not> policy_keep_change pa (policy_of (setPolicyTx a1 a2 mb k pa d) mb k)"
    "\<not> policy_protect_change pa (policy_of (setPolicyTx a1 a2 mb k pa d) mb k)"
    unfolding after
    by (auto simp: policy_keep_change_def policy_protect_change_def patch_row_def new_policy_def Let_def
        split: option.splits)
  then have "setPolicyTx b1 b2 mb k pa (setPolicyTx a1 a2 mb k pa d) = setPolicyTx a1 a2 mb k pa d"
    by (simp add: setPolicyTx_def [of b1] Let_def)
  moreover have "case pa_protected pa of
      Some b \<Rightarrow> (case policy_of (setPolicyTx a1 a2 mb k pa d) mb k of None \<Rightarrow> \<not> b | Some p \<Rightarrow> po_protected p = b)
    | None \<Rightarrow> (case policy_of d mb k of None \<Rightarrow> True | Some p \<Rightarrow>
        map_option po_protected (policy_of (setPolicyTx a1 a2 mb k pa d) mb k) = Some (po_protected p) \<and>
        map_option po_reason (policy_of (setPolicyTx a1 a2 mb k pa d) mb k) = Some (po_reason p))"
    using still(2) unfolding after
    by (auto simp: policy_protect_change_def patch_row_def Let_def split: option.splits)
  moreover have "case (pa_protected pa, policy_of d mb k) of
      (Some False, Some p) \<Rightarrow>
        map_option po_reason (policy_of (setPolicyTx a1 a2 mb k pa d) mb k) = Some (po_reason p)
    | _ \<Rightarrow> True"
    unfolding after by (auto simp: patch_row_def Let_def split: option.splits bool.splits)
  ultimately show ?thesis by blast
next
  case False
  then have "setPolicyTx c1 c2 mb k pa d = d" for c1 c2 by (simp add: setPolicyTx_def Let_def)
  with False show ?thesis by (auto simp: policy_protect_change_def split: option.splits bool.splits)
qed

end
