(* ===== verification/Worker.thy ===== *)
theory Worker
  imports Match_Review
begin

text \<open>
  How a worker body runs. A body is a function from the world to a result and a new world:
  it may return, throw one of the errors of
  \<^verbatim>\<open>packages/workers/src/worker-errors.ts\<close>, or die with its process. The world holds the
  store and, for everything the body does not decide itself, a script:

  \<^item> \<open>ticks\<close>: before each database statement the other writers of the mailbox may run, and
    the statement may succeed, fail, commit while its reply is lost, or the process may
    die before or after it. A transaction is one statement: it commits whole or not at all.
  \<^item> \<open>sends\<close>: how the mail provider answers each \<open>batchModify\<close>
    (\<^verbatim>\<open>packages/workers/src/gmail-mutation-client.ts\<close>).
  \<^item> \<open>calls\<close>: how the other ports answer (lock, client lookup, label lookup, queue).

  An exhausted script answers with success. \<open>requests\<close> is a ghost: the requests that left
  for the mail provider, each with whether it was applied and whether the sender was
  Protected when the hook in front of it finished.

  \<open>spec J A m Q E\<close> is the program logic over it: from any world where \<open>A\<close> holds, \<open>m\<close> ends with
  \<open>Q\<close> on return, \<open>E\<close> on a throw and \<open>J\<close> if the process dies.
\<close>

subsection \<open>Errors\<close>

datatype worker_error =
    ValidationError | PermanentError | InvalidGrantError | AuthExpiredError | RateLimitError
  | TransientError | SenderProtectedAtSend | ClaimRetired
  | PlainError | CustomAutopilotBlocked string | CustomAutopilotQuiet int
  | HttpError nat string \<comment> \<open>what an API handler that shares the store answers: status and code\<close>

fun isNonRetryable :: "worker_error \<Rightarrow> bool" where
  "isNonRetryable e = (e \<in> {InvalidGrantError, ValidationError, PermanentError})"

fun isRefusedBeforeApply :: "worker_error \<Rightarrow> bool" where
  "isRefusedBeforeApply e = (e \<in> {RateLimitError, AuthExpiredError, PermanentError, InvalidGrantError})"

subsection \<open>The world\<close>

datatype stmt_fate = StmtOk | StmtFails | StmtReplyLost | DiesBefore | DiesAfter

datatype tick = Tick (tick_env: "db \<Rightarrow> db") (tick_fate: stmt_fate)

datatype send_reply =
    SendApplied
  | FailsBeforeHook worker_error \<comment> \<open>quota wait, token refresh\<close>
  | SendRefused worker_error \<comment> \<open>the provider answered with a refusal\<close>
  | SendUnknown bool \<comment> \<open>network error, timeout or 5xx; applied or not\<close>
  | SendDies bool
  | SendSkipsHook \<comment> \<open>a client that breaks the port's contract\<close>

datatype call_reply = CallOk | CallThrows worker_error bool | CallDies
  \<comment> \<open>the flag: whether a queue add had landed when it threw\<close>

record gmail_request =
  gr_job :: ident
  gr_ids :: "ident list"
  gr_change :: label_change
  gr_applied :: bool
  gr_protected :: bool

datatype http_reply =
    HttpStatus nat
  | HttpFails bool \<comment> \<open>timeout, reset, refused: whether the request had arrived\<close>
  | HttpDies bool

record one_click_post =
  \<comment> \<open>an unsubscribe request that left\<close>
  oc_job :: ident
  oc_url :: string
  oc_address :: string
  oc_family :: nat
  oc_status :: "nat option"
  oc_protected :: bool

record wake_data =
  \<comment> \<open>a targeted return of one sender's Later mail\<close>
  wk_mailbox :: ident
  wk_key :: string
  wk_until :: string
  wk_at :: "string option"
  wk_attempt :: string
  wk_minute :: string

record world =
  wdb :: db
  ticks :: "tick list"
  sends :: "send_reply list"
  calls :: "call_reply list"
  uuid_of :: "nat \<Rightarrow> ident"
  uuid_next :: nat
  ensure_label :: "string \<Rightarrow> string"
  requests :: "gmail_request list"
  enqueued :: "ident list" \<comment> \<open>unsubscribe execution jobs handed to their queue\<close>
  resumes :: "millis option list" \<comment> \<open>quiet-resume hooks fired\<close>
  chained :: "ident list" \<comment> \<open>mailboxes an action sweep was requested for\<close>
  requeued :: "(ident \<times> millis) list" \<comment> \<open>actions put off to the end of the quiet hours\<close>
  label_queue :: "(string \<times> ident \<times> bool) list" \<comment> \<open>the action queue: queue id, action, confirmed\<close>
  wake_queue :: "(string \<times> wake_data) list"
  label_map :: "(ident \<times> string \<times> millis) list" \<comment> \<open>Redis: the Later label of a mailbox, with its deadline\<close>
  https :: "http_reply list"
  posted :: "one_click_post list"

datatype 'a res = Ok 'a | Err worker_error | Crash

type_synonym 'a wm = "world \<Rightarrow> 'a res \<times> world"

subsection \<open>Combinators\<close>

definition returnw :: "'a \<Rightarrow> 'a wm" where
  "returnw a w = (Ok a, w)"

definition throww :: "worker_error \<Rightarrow> 'a wm" where
  "throww e w = (Err e, w)"

definition bindw :: "'a wm \<Rightarrow> ('a \<Rightarrow> 'b wm) \<Rightarrow> 'b wm" where
  "bindw m f w =
     (case m w of (Ok a, w') \<Rightarrow> f a w' | (Err e, w') \<Rightarrow> (Err e, w') | (Crash, w') \<Rightarrow> (Crash, w'))"

definition catchw :: "'a wm \<Rightarrow> (worker_error \<Rightarrow> 'a wm) \<Rightarrow> 'a wm" where
  "catchw m h w = (case m w of (Err e, w') \<Rightarrow> h e w' | r \<Rightarrow> r)"

fun foreachw :: "('a \<Rightarrow> 's \<Rightarrow> 's wm) \<Rightarrow> 'a list \<Rightarrow> 's \<Rightarrow> 's wm" where
  \<comment> \<open>a \<open>for\<close> loop whose body updates a state\<close>
  "foreachw f [] s = returnw s"
| "foreachw f (x # xs) s = bindw (f x s) (foreachw f xs)"

text \<open>A statement computes on the store; \<open>Inl\<close> throws and rolls back.\<close>

definition stmt :: "(db \<Rightarrow> worker_error + ('a \<times> db)) \<Rightarrow> 'a wm" where
  "stmt f w =
     (let (g, fate, rest) = (case ticks w of [] \<Rightarrow> (id, StmtOk, []) | t # ts \<Rightarrow> (tick_env t, tick_fate t, ts));
          d = g (wdb w);
          after = (\<lambda>d'. w\<lparr>wdb := d', ticks := rest\<rparr>)
      in case fate of
           StmtFails \<Rightarrow> (Err TransientError, after d)
         | DiesBefore \<Rightarrow> (Crash, after d)
         | _ \<Rightarrow>
             (case f d of
                Inl e \<Rightarrow> (Err e, after d)
              | Inr (a, d') \<Rightarrow>
                  (case fate of
                     StmtReplyLost \<Rightarrow> (Err TransientError, after d')
                   | DiesAfter \<Rightarrow> (Crash, after d')
                   | _ \<Rightarrow> (Ok a, after d'))))"

definition query :: "(db \<Rightarrow> 'a) \<Rightarrow> 'a wm" where
  "query f = stmt (\<lambda>d. Inr (f d, d))"

definition exec :: "(db \<Rightarrow> db) \<Rightarrow> unit wm" where
  "exec f = stmt (\<lambda>d. Inr ((), f d))"

definition clock :: "millis wm" where
  "clock w = (Ok (db_now (wdb w)), w)"

definition fresh_id :: "ident wm" where
  "fresh_id w = (Ok (uuid_of w (uuid_next w)), w\<lparr>uuid_next := uuid_next w + 1\<rparr>)"

definition port_call :: "(bool \<Rightarrow> world \<Rightarrow> world) \<Rightarrow> unit wm" where
  \<comment> \<open>the effect sees whether the call took place\<close>
  "port_call eff w =
     (case calls w of
        [] \<Rightarrow> (Ok (), eff True w)
      | CallOk # cs \<Rightarrow> (Ok (), eff True (w\<lparr>calls := cs\<rparr>))
      | CallThrows e landed # cs \<Rightarrow> (Err e, eff landed (w\<lparr>calls := cs\<rparr>))
      | CallDies # cs \<Rightarrow> (Crash, w\<lparr>calls := cs\<rparr>))"

definition send_request :: "ident \<Rightarrow> (db \<Rightarrow> bool) \<Rightarrow> ident list \<Rightarrow> label_change \<Rightarrow> bool \<Rightarrow> world \<Rightarrow> world" where
  "send_request j prot ids ch applied w =
     w\<lparr>requests := requests w @ [\<lparr>gr_job = j, gr_ids = ids, gr_change = ch, gr_applied = applied,
                                   gr_protected = prot (wdb w)\<rparr>]\<rparr>"

fun after_hook :: "send_reply \<Rightarrow> 'h \<Rightarrow> (bool \<Rightarrow> world \<Rightarrow> world) \<Rightarrow> world \<Rightarrow> 'h option res \<times> world" where
  \<comment> \<open>the request leaves; \<open>send applied\<close> records it\<close>
  "after_hook (SendRefused e) h send w = (Err e, send False w)"
| "after_hook (SendUnknown b) h send w = (Err TransientError, send b w)"
| "after_hook (SendDies b) h send w = (Crash, send b w)"
| "after_hook _ h send w = (Ok (Some h), send True w)"

fun answer :: "send_reply \<Rightarrow> (bool \<Rightarrow> world \<Rightarrow> world) \<Rightarrow> 'h wm \<Rightarrow> 'h option wm" where
  "answer (FailsBeforeHook e) send hook w = (Err e, w)"
| "answer SendSkipsHook send hook w = (Ok None, send True w)"
| "answer r send hook w =
     (case hook w of
        (Ok h, w') \<Rightarrow> after_hook r h send w'
      | (Err e, w') \<Rightarrow> (Err e, w')
      | (Crash, w') \<Rightarrow> (Crash, w'))"

definition batchModify ::
  "ident \<Rightarrow> (db \<Rightarrow> bool) \<Rightarrow> ident list \<Rightarrow> label_change \<Rightarrow> 'h wm \<Rightarrow> 'h option wm" where
  \<comment> \<open>one chunk, hence one request; returns what the hook left behind, if it ran\<close>
  "batchModify j prot ids ch hook w =
     (case sends w of
        [] \<Rightarrow> answer SendApplied (send_request j prot ids ch) hook w
      | r # rs \<Rightarrow> answer r (send_request j prot ids ch) hook (w\<lparr>sends := rs\<rparr>))"

subsection \<open>Scripts\<close>

fun port_error :: "worker_error \<Rightarrow> bool" where
  \<comment> \<open>the two classes \<^verbatim>\<open>label-action.worker.ts\<close> keeps to itself are thrown by no port\<close>
  "port_error (CustomAutopilotBlocked _) = False"
| "port_error (CustomAutopilotQuiet _) = False"
| "port_error _ = True"

fun ok_send :: "send_reply \<Rightarrow> bool" where
  \<comment> \<open>the port's contract: the hook runs before the request leaves\<close>
  "ok_send SendSkipsHook = False"
| "ok_send (FailsBeforeHook e) = port_error e"
| "ok_send (SendRefused e) = port_error e"
| "ok_send _ = True"

fun ok_call :: "call_reply \<Rightarrow> bool" where
  "ok_call (CallThrows e _) = port_error e"
| "ok_call _ = True"

definition ok_tick :: "(db \<Rightarrow> db \<Rightarrow> bool) \<Rightarrow> tick \<Rightarrow> bool" where
  "ok_tick N t \<longleftrightarrow> (\<forall>d. N d (tick_env t d))"

definition script_ok :: "(db \<Rightarrow> db \<Rightarrow> bool) \<Rightarrow> world \<Rightarrow> bool" where
  "script_ok N w \<longleftrightarrow> (\<forall>t \<in> set (ticks w). ok_tick N t) \<and> (\<forall>r \<in> set (sends w). ok_send r) \<and>
     (\<forall>c \<in> set (calls w). ok_call c)"

subsection \<open>The program logic\<close>

type_synonym assertion = "db \<Rightarrow> gmail_request list \<Rightarrow> bool"

fun ends :: "(db \<Rightarrow> db \<Rightarrow> bool) \<Rightarrow> assertion \<Rightarrow> ('a \<Rightarrow> assertion) \<Rightarrow> (worker_error \<Rightarrow> assertion) \<Rightarrow> 'a res \<times> world \<Rightarrow> bool" where
  "ends N J Q E (Ok a, w) = (script_ok N w \<and> Q a (wdb w) (requests w))"
| "ends N J Q E (Err e, w) = (script_ok N w \<and> E e (wdb w) (requests w))"
| "ends N J Q E (Crash, w) = (script_ok N w \<and> J (wdb w) (requests w))"

definition spec :: "(db \<Rightarrow> db \<Rightarrow> bool) \<Rightarrow> assertion \<Rightarrow> assertion \<Rightarrow> 'a wm \<Rightarrow> ('a \<Rightarrow> assertion) \<Rightarrow> (worker_error \<Rightarrow> assertion) \<Rightarrow> bool"
where
  "spec N J A m Q E \<longleftrightarrow> (\<forall>w. script_ok N w \<longrightarrow> A (wdb w) (requests w) \<longrightarrow> ends N J Q E (m w))"

definition stable :: "(db \<Rightarrow> db \<Rightarrow> bool) \<Rightarrow> assertion \<Rightarrow> bool" where
  "stable N A \<longleftrightarrow> (\<forall>d d' l. N d d' \<longrightarrow> A d l \<longrightarrow> A d' l)"

lemma specI: "(\<And>w. script_ok N w \<Longrightarrow> A (wdb w) (requests w) \<Longrightarrow> ends N J Q E (m w)) \<Longrightarrow> spec N J A m Q E"
  by (simp add: spec_def)

lemma specD: "spec N J A m Q E \<Longrightarrow> script_ok N w \<Longrightarrow> A (wdb w) (requests w) \<Longrightarrow> ends N J Q E (m w)"
  by (simp add: spec_def)

lemma ends_weaken:
  assumes "ends N J Q E rw" "\<And>a d l. Q a d l \<Longrightarrow> Q' a d l" "\<And>e d l. E e d l \<Longrightarrow> E' e d l"
  shows "ends N J Q' E' rw"
  using assms by (cases rw; cases "fst rw") auto

lemma spec_weaken:
  assumes "spec N J A m Q E" "\<And>d l. A' d l \<Longrightarrow> A d l" "\<And>a d l. Q a d l \<Longrightarrow> Q' a d l"
    "\<And>e d l. E e d l \<Longrightarrow> E' e d l"
  shows "spec N J A' m Q' E'"
  using assms ends_weaken [OF specD [OF assms(1)]] by (intro specI) blast

lemma spec_return: "(\<And>d l. A d l \<Longrightarrow> Q a d l) \<Longrightarrow> spec N J A (returnw a) Q E"
  by (simp add: spec_def returnw_def)

lemma spec_throw: "(\<And>d l. A d l \<Longrightarrow> E e d l) \<Longrightarrow> spec N J A (throww e) Q E"
  by (simp add: spec_def throww_def)

lemma spec_bind:
  assumes "spec N J A m Q E" "\<And>a. spec N J (Q a) (f a) R E"
  shows "spec N J A (bindw m f) R E"
proof (rule specI)
  fix w assume w: "script_ok N w" "A (wdb w) (requests w)"
  obtain r w' where m: "m w = (r, w')" by (cases "m w")
  note 1 = specD [OF assms(1) w, unfolded m]
  show "ends N J R E (bindw m f w)"
  proof (cases r)
    case (Ok a)
    with 1 have "script_ok N w'" "Q a (wdb w') (requests w')" by simp_all
    from specD [OF assms(2) this] Ok show ?thesis by (simp add: bindw_def m)
  qed (use 1 in \<open>simp_all add: bindw_def m\<close>)
qed

lemma spec_catch:
  assumes "spec N J A m Q E" "\<And>e. spec N J (E e) (h e) Q E'"
  shows "spec N J A (catchw m h) Q E'"
proof (rule specI)
  fix w assume w: "script_ok N w" "A (wdb w) (requests w)"
  obtain r w' where m: "m w = (r, w')" by (cases "m w")
  note 1 = specD [OF assms(1) w, unfolded m]
  show "ends N J Q E' (catchw m h w)"
  proof (cases r)
    case (Err e)
    with 1 have "script_ok N w'" "E e (wdb w') (requests w')" by simp_all
    from specD [OF assms(2) this] Err show ?thesis by (simp add: catchw_def m)
  qed (use 1 in \<open>simp_all add: catchw_def m\<close>)
qed

lemma spec_if:
  "(b \<Longrightarrow> spec N J A m Q E) \<Longrightarrow> (\<not> b \<Longrightarrow> spec N J A m' Q E) \<Longrightarrow> spec N J A (if b then m else m') Q E"
  by simp

lemma spec_foreach:
  assumes "\<And>x s. x \<in> set xs \<Longrightarrow> spec N J (I s) (f x s) I E"
  shows "spec N J (I s) (foreachw f xs s) I E"
  using assms
proof (induction xs arbitrary: s)
  case (Cons x xs)
  show ?case
    unfolding foreachw.simps
    by (rule spec_bind [where Q = I]) (use Cons in auto)
qed (simp add: spec_return)

lemma spec_stmt:
  assumes "stable N A" "\<And>d l. A d l \<Longrightarrow> J d l"  "\<And>d l. A d l \<Longrightarrow> E TransientError d l"
    and "\<And>d l e. A d l \<Longrightarrow> f d = Inl e \<Longrightarrow> E e d l"
    and "\<And>d l a d'. A d l \<Longrightarrow> f d = Inr (a, d') \<Longrightarrow> Q a d' l \<and> J d' l \<and> E TransientError d' l"
  shows "spec N J A (stmt f) Q E"
proof (rule specI)
  fix w assume w: "script_ok N w" "A (wdb w) (requests w)"
  show "ends N J Q E (stmt f w)"
  proof (cases "ticks w")
    case Nil
    with w show ?thesis
      using assms(4,5) [OF w(2)] by (auto simp: stmt_def Let_def script_ok_def split: sum.splits)
  next
    case (Cons t ts)
    have ok: "script_ok N (w\<lparr>wdb := d', ticks := ts\<rparr>)" for d'
      using w(1) Cons by (simp add: script_ok_def)
    have A: "A (tick_env t (wdb w)) (requests w)"
      using w assms(1) Cons by (auto simp: script_ok_def ok_tick_def stable_def)
    show ?thesis
      using ok A assms(2,3) [OF A] assms(4,5) [OF A] Cons
      by (cases "tick_fate t"; cases "f (tick_env t (wdb w))") (auto simp: stmt_def)
  qed
qed

lemma spec_query:
  assumes "stable N A" "\<And>d l. A d l \<Longrightarrow> J d l" "\<And>d l. A d l \<Longrightarrow> E TransientError d l"
    and "\<And>d l. A d l \<Longrightarrow> Q (f d) d l"
  shows "spec N J A (query f) Q E"
  unfolding query_def by (rule spec_stmt) (use assms in auto)

lemma spec_exec:
  assumes "stable N A" "\<And>d l. A d l \<Longrightarrow> J d l" "\<And>d l. A d l \<Longrightarrow> E TransientError d l"
    and "\<And>d l. A d l \<Longrightarrow> Q (f d) l \<and> J (f d) l \<and> E TransientError (f d) l"
  shows "spec N J A (exec f) (\<lambda>_. Q) E"
  unfolding exec_def by (rule spec_stmt) (use assms in auto)

lemma spec_clock: "(\<And>d l. A d l \<Longrightarrow> Q (db_now d) d l) \<Longrightarrow> spec N J A clock Q E"
  by (simp add: spec_def clock_def)

lemma spec_fresh: "(\<And>a d l. A d l \<Longrightarrow> Q a d l) \<Longrightarrow> spec N J A fresh_id Q E"
  by (simp add: spec_def fresh_id_def script_ok_def)

lemma spec_port:
  assumes "\<And>b w. wdb (eff b w) = wdb w \<and> requests (eff b w) = requests w \<and> ticks (eff b w) = ticks w \<and>
      sends (eff b w) = sends w \<and> calls (eff b w) = calls w"
    and "\<And>d l. A d l \<Longrightarrow> J d l" "\<And>e d l. port_error e \<Longrightarrow> A d l \<Longrightarrow> E e d l" "\<And>d l. A d l \<Longrightarrow> Q d l"
  shows "spec N J A (port_call eff) (\<lambda>_. Q) E"
  using assms
  by (intro specI) (auto simp: port_call_def script_ok_def split: list.splits call_reply.splits)

definition tryw :: "'a wm \<Rightarrow> (worker_error + 'a) wm" where
  \<comment> \<open>\<open>try { \<dots> } catch\<close> as a value; a dead process is not caught\<close>
  "tryw m = catchw (bindw m (\<lambda>a. returnw (Inr a))) (\<lambda>e. returnw (Inl e))"

definition ask_label :: "(string \<Rightarrow> string) wm" where
  "ask_label w = (Ok (ensure_label w), w)"

definition no_effect :: "bool \<Rightarrow> world \<Rightarrow> world" where
  "no_effect b w = w"

lemma spec_try:
  assumes "spec N J A m Q E"
  shows "spec N J A (tryw m) (\<lambda>r. case r of Inl e \<Rightarrow> E e | Inr a \<Rightarrow> Q a) E'"
  unfolding tryw_def
  by (rule spec_catch [where E = E], rule spec_bind [OF assms]) (rule spec_return, simp)+

lemma spec_ask: "(\<And>a d l. A d l \<Longrightarrow> Q a d l) \<Longrightarrow> spec N J A ask_label Q E"
  by (simp add: spec_def ask_label_def)

lemma spec_call:
  assumes "\<And>d l. A d l \<Longrightarrow> J d l" "\<And>e d l. port_error e \<Longrightarrow> A d l \<Longrightarrow> E e d l" "\<And>d l. A d l \<Longrightarrow> Q d l"
  shows "spec N J A (port_call no_effect) (\<lambda>_. Q) E"
  by (rule spec_port) (use assms in \<open>simp_all add: no_effect_def\<close>)

text \<open>A request: what the hook establishes must survive the request, applied or not.\<close>

definition request_entry :: "ident \<Rightarrow> (db \<Rightarrow> bool) \<Rightarrow> ident list \<Rightarrow> label_change \<Rightarrow> db \<Rightarrow> bool \<Rightarrow> gmail_request" where
  "request_entry j prot ids ch d applied =
     \<lparr>gr_job = j, gr_ids = ids, gr_change = ch, gr_applied = applied, gr_protected = prot d\<rparr>"

lemma spec_batch:
  assumes hook: "spec N J A hook H E"
    and before: "\<And>e d l. port_error e \<Longrightarrow> A d l \<Longrightarrow> E e d l"
    and sent: "\<And>h d l. H h d l \<Longrightarrow> Q (Some h) d (l @ [request_entry j prot ids ch d True])"
    and refused: "\<And>h e d l. port_error e \<Longrightarrow> H h d l \<Longrightarrow> E e d (l @ [request_entry j prot ids ch d False])"
    and lost: "\<And>h b d l. H h d l \<Longrightarrow> E TransientError d (l @ [request_entry j prot ids ch d b])"
    and dies: "\<And>h b d l. H h d l \<Longrightarrow> J d (l @ [request_entry j prot ids ch d b])"
  shows "spec N J A (batchModify j prot ids ch hook) Q E"
proof (rule specI)
  fix w assume w: "script_ok N w" "A (wdb w) (requests w)"
  have sr: "wdb (send_request j prot ids ch b w1) = wdb w1"
    "requests (send_request j prot ids ch b w1) = requests w1 @ [request_entry j prot ids ch (wdb w1) b]"
    "script_ok N (send_request j prot ids ch b w1) = script_ok N w1" for b w1
    by (simp_all add: send_request_def request_entry_def script_ok_def)
  have run: "ends N J Q E (answer r (send_request j prot ids ch) hook w0)"
    if w0: "script_ok N w0" "A (wdb w0) (requests w0)" and r: "ok_send r" for r w0
  proof -
    obtain x w1 where h: "hook w0 = (x, w1)" by (cases "hook w0")
    show ?thesis
      using specD [OF hook w0] r w0 before [OF _ w0(2)]
      by (cases r; cases x) (auto simp: h sr intro: sent refused lost dies)
  qed
  show "ends N J Q E (batchModify j prot ids ch hook w)"
  proof (cases "sends w")
    case Nil
    with run [OF w, of SendApplied] show ?thesis by (simp add: batchModify_def del: answer.simps)
  next
    case (Cons r rs)
    moreover have "script_ok N (w\<lparr>sends := rs\<rparr>)" "ok_send r"
      using w(1) Cons by (simp_all add: script_ok_def)
    ultimately show ?thesis using run [of "w\<lparr>sends := rs\<rparr>" r] w(2)
      by (simp add: batchModify_def del: answer.simps)
  qed
qed

end
