(* ===== verification/Autopilot_Action.thy ===== *)
theory Autopilot_Action
  imports Worker Quiet_Hours "HOL-Library.List_Lexorder" "HOL-Library.Char_ord"
    "HOL-Library.Product_Lexorder"
begin

text \<open>
  The consumer of Autopilot matches
  (\<^verbatim>\<open>packages/workers/src/autopilot-action.worker.ts\<close>): one sweep over a mailbox's approved,
  unapplied matches, each decided and executed in one hold of the mailbox lock. Archive and
  Later go through a durable claim, a request to the mail provider and one terminal
  transaction; Unsubscribe records an intent and, for one-click senders only, a queued
  execution job.

  Log lines, metrics and error capture are not modelled. \<open>sweep_result\<close> has the counters of
  \<open>AutopilotActionResult\<close> except the wall-clock duration.
\<close>

subsection \<open>Matches as a sweep sees them\<close>

record eligible_match =
  em_id :: ident
  em_rule :: ident
  em_mailbox :: ident
  em_key :: string
  em_preset :: "string option"
  em_action :: autopilot_action
  em_enabled :: bool
  em_mode :: rule_mode
  em_mode_at :: match_mode
  em_sender :: "ident option"
  em_unsub :: "unsub_channel option"

definition sender_of_match :: "db \<Rightarrow> match_row \<Rightarrow> sender_row option" where
  "sender_of_match d m = List.find (\<lambda>s. se_mailbox s = ma_mailbox m \<and> se_key s = ma_key m) (senders d)"

definition eligible_of :: "db \<Rightarrow> match_row \<Rightarrow> eligible_match option" where
  \<comment> \<open>\<open>MATCH_COLUMNS\<close>: inner join with the rule, left join with the sender\<close>
  "eligible_of d m =
     (case List.find (\<lambda>r. ru_id r = ma_rule m) (rules d) of
        None \<Rightarrow> None
      | Some r \<Rightarrow>
          Some \<lparr>em_id = ma_id m, em_rule = ma_rule m, em_mailbox = ma_mailbox m, em_key = ma_key m,
                em_preset = ru_preset_key r, em_action = ru_action r, em_enabled = ru_enabled r,
                em_mode = ru_mode r, em_mode_at = ma_mode m,
                em_sender = map_option se_id (sender_of_match d m),
                em_unsub = Option.bind (sender_of_match d m) se_unsub\<rparr>)"

definition claimKey :: "eligible_match \<Rightarrow> string" where
  "claimKey m =
     (if em_action m = ActUnsubscribe then claim_key_prefix_unsub @ em_id m
      else claim_key_prefix_label @ em_id m)"

definition claim_lookup_chunk :: nat where
  "claim_lookup_chunk = 500"

definition daily_cap_window_ms :: int where
  "daily_cap_window_ms = 24 * 60 * 60 * 1000"

definition gmail_batch_modify_max_ids :: nat where
  "gmail_batch_modify_max_ids = 1000"

definition ruleActionsInWindow :: "autopilot_action \<Rightarrow> millis \<Rightarrow> ident \<Rightarrow> db \<Rightarrow> nat" where
  "ruleActionsInWindow a windowStart rid d =
     count_where (\<lambda>al. ac_rule al = Some rid \<and> ac_source al = ''autopilot'' \<and> windowStart \<le> ac_at al \<and>
        (if a = ActUnsubscribe then ac_action al = ''unsubscribe'' else 0 < ac_affected al)) (activity d)"

definition isPresetKey :: "string option \<Rightarrow> preset_key option" where
  "isPresetKey k = Option.bind k preset_key_of_name"

record fresh_match =
  fm_match :: eligible_match
  fm_in_flight :: bool
  fm_current :: bool
  fm_protected :: bool
  fm_unsubscribed :: bool
  fm_executed :: nat

definition job_by_key :: "db \<Rightarrow> string \<Rightarrow> job_row option" where
  "job_by_key d k = List.find (\<lambda>j. jo_key j = k) (jobs d)"

definition reload_row :: "eligible_match \<Rightarrow> millis \<Rightarrow> db \<Rightarrow> fresh_match option" where
  "reload_row snap now d =
     (case List.find (\<lambda>m. ma_id m = em_id snap \<and> ma_resolution m = Approved \<and> \<not> ma_applied m \<and>
                          eligible_of d m \<noteq> None) (matches d) of
        None \<Rightarrow> None
      | Some m \<Rightarrow>
          (case eligible_of d m of
             None \<Rightarrow> None
           | Some em \<Rightarrow>
               Some \<lparr>fm_match = em,
                     fm_in_flight = (case job_by_key d (claimKey snap) of
                                       None \<Rightarrow> False | Some j \<Rightarrow> claimIsInFlight j),
                     fm_current = ruleMatchEvidenceIsCurrent d m,
                     fm_protected = (case policy_of d (ma_mailbox m) (ma_key m) of
                                       None \<Rightarrow> False | Some p \<Rightarrow> po_protected p),
                     fm_unsubscribed = (case policy_of d (ma_mailbox m) (ma_key m) of
                                       None \<Rightarrow> False | Some p \<Rightarrow> po_type p = Some PolUnsubscribe),
                     fm_executed = ruleActionsInWindow (em_action snap) (now - daily_cap_window_ms)
                                     (ma_rule m) d\<rparr>))"

definition reloadMatch :: "eligible_match \<Rightarrow> millis \<Rightarrow> fresh_match option wm" where
  "reloadMatch snap now = query (reload_row snap now)"

subsection \<open>Statements over one match\<close>

definition update_match :: "ident \<Rightarrow> (match_row \<Rightarrow> match_row) \<Rightarrow> db \<Rightarrow> db" where
  \<comment> \<open>\<open>where id = mid and intent_applied = false\<close>\<close>
  "update_match mid f d =
     d\<lparr>matches := update_where (\<lambda>m. ma_id m = mid \<and> \<not> ma_applied m) f (matches d)\<rparr>"

definition update_job :: "ident \<Rightarrow> (job_row \<Rightarrow> job_row) \<Rightarrow> db \<Rightarrow> db" where
  "update_job jid f d = d\<lparr>jobs := update_where (\<lambda>j. jo_id j = jid) f (jobs d)\<rparr>"

definition flipMatchApplied :: "ident \<Rightarrow> ident option \<Rightarrow> millis \<Rightarrow> unit wm" where
  "flipMatchApplied mid token now =
     exec (update_match mid (\<lambda>m. m\<lparr>ma_applied := True, ma_token := token, ma_resolved_at := Some now\<rparr>))"

definition dismissShieldedMatch :: "ident \<Rightarrow> millis \<Rightarrow> unit wm" where
  "dismissShieldedMatch mid now =
     exec (update_match mid
       (\<lambda>m. m\<lparr>ma_resolution := Dismissed, ma_resolved_at := Some now, ma_dismiss := Some DismissProtected\<rparr>))"

definition dismissSuperseded :: "ident \<Rightarrow> millis \<Rightarrow> unit wm" where
  "dismissSuperseded mid now =
     exec (update_match mid
       (\<lambda>m. m\<lparr>ma_resolution := Dismissed, ma_resolved_at := Some now, ma_dismiss := Some DismissSuperseded\<rparr>))"

definition matchStillCurrent :: "ident \<Rightarrow> db \<Rightarrow> bool" where
  "matchStillCurrent mid d \<longleftrightarrow> list_ex (\<lambda>m. ma_id m = mid \<and> ruleMatchIsQueuedAction d m) (matches d)"

definition senderIndexRebuiltSince :: "ident \<Rightarrow> ident \<Rightarrow> db \<Rightarrow> bool" where
  "senderIndexRebuiltSince mb mid d =
     (case List.find (\<lambda>m. ma_id m = mid) (matches d) of
        None \<Rightarrow> False
      | Some m \<Rightarrow>
          (let created = map se_created (filter (\<lambda>s. se_mailbox s = mb) (senders d))
           in if created = [] then True else ma_matched_at m < Min (set created)))"

definition abandonStaleClaim :: "eligible_match \<Rightarrow> millis \<Rightarrow> unit wm" where
  "abandonStaleClaim m now =
     bindw (query (\<lambda>d. job_by_key d (claimKey m)))
       (\<lambda>claim.
          if (case claim of None \<Rightarrow> False | Some j \<Rightarrow> jo_status j \<noteq> Queued \<or> jo_ids j \<noteq> [])
          then throww ValidationError
          else exec (\<lambda>d. update_match (em_id m)
                 (\<lambda>x. x\<lparr>ma_applied := True, ma_resolved_at := Some now\<rparr>)
                 (d\<lparr>jobs := update_where (\<lambda>j. jo_key j = claimKey m \<and> jo_status j \<noteq> JobDone)
                     (\<lambda>j. j\<lparr>jo_status := JobFailed, jo_error := Some ''SENDER_INDEX_REBUILT''\<rparr>) (jobs d)\<rparr>)))"

subsection \<open>The send guard\<close>

definition mark_executing :: "ident list option \<Rightarrow> job_row \<Rightarrow> job_row" where
  "mark_executing freshIds j =
     (case freshIds of None \<Rightarrow> j | Some ids \<Rightarrow> j\<lparr>jo_ids := ids, jo_requested := length ids\<rparr>)
       \<lparr>jo_status := Executing, jo_error := None\<rparr>"

definition markable :: "ident \<Rightarrow> ident \<Rightarrow> string \<Rightarrow> bool \<Rightarrow> db \<Rightarrow> job_row \<Rightarrow> bool" where
  "markable jid mb k inFlight d j \<longleftrightarrow>
     jo_id j = jid \<and> \<not> protectedSender d mb k \<and> (inFlight \<or> jo_status j = Queued)"

definition mark_stmt ::
  "ident \<Rightarrow> ident \<Rightarrow> string \<Rightarrow> ident list option \<Rightarrow> bool \<Rightarrow> db \<Rightarrow> worker_error + (bool \<times> db)" where
  "mark_stmt jid mb k freshIds inFlight d =
     Inr (list_ex (markable jid mb k inFlight d) (jobs d),
          d\<lparr>jobs := update_where (markable jid mb k inFlight d) (mark_executing freshIds) (jobs d)\<rparr>)"

definition markClaimExecuting :: "ident \<Rightarrow> ident \<Rightarrow> string \<Rightarrow> ident list option \<Rightarrow> bool \<Rightarrow> unit wm" where
  "markClaimExecuting jid mb k freshIds inFlight =
     bindw (stmt (mark_stmt jid mb k freshIds inFlight))
       (\<lambda>marked.
          if marked then returnw ()
          else bindw (query (\<lambda>d. map_option jo_status (List.find (\<lambda>j. jo_id j = jid) (jobs d))))
            (\<lambda>row. case row of
                None \<Rightarrow> throww ValidationError
              | Some st \<Rightarrow>
                  if (if inFlight then st = JobDone \<or> st = JobFailed else st \<noteq> Queued)
                  then throww ClaimRetired
                  else throww SenderProtectedAtSend))"

definition assertSenderNotProtected :: "ident \<Rightarrow> string \<Rightarrow> unit wm" where
  "assertSenderNotProtected mb k =
     bindw (query (\<lambda>d. protectedSender d mb k))
       (\<lambda>p. if p then throww SenderProtectedAtSend else returnw ())"

definition recordClaimHookSkipped :: "ident \<Rightarrow> ident list option \<Rightarrow> unit wm" where
  "recordClaimHookSkipped jid freshIds = exec (update_job jid (mark_executing freshIds))"

definition scheduleLaterReturn :: "ident \<Rightarrow> string \<Rightarrow> millis \<Rightarrow> millis \<Rightarrow> bool \<Rightarrow> db \<Rightarrow> db" where
  "scheduleLaterReturn mb k wakeAt setAt keepExisting d =
     (if list_ex (\<lambda>p. po_mailbox p = mb \<and> po_key p = k) (policies d)
      then d\<lparr>policies := update_where
               (\<lambda>p. po_mailbox p = mb \<and> po_key p = k \<and> (keepExisting \<longrightarrow> po_snoozed_until p = None))
               (\<lambda>p. p\<lparr>po_snoozed_until := Some wakeAt, po_snoozed_at := Some setAt, po_snooze_note := None,
                       po_wake_attempt := None, po_wake_failed := None, po_wake_failures := 0, po_wake_kind := None\<rparr>)
               (policies d)\<rparr>
      else d\<lparr>policies := policies d @
               [\<lparr>po_mailbox = mb, po_key = k, po_type = None, po_protected = False,
                 po_reason = None, po_protected_at = None, po_snoozed_until = Some wakeAt, po_snoozed_at = Some setAt,
                 po_snooze_note = None, po_wake_attempt = None, po_wake_failed = None, po_wake_failures = 0,
                 po_wake_kind = None, po_unsub = None\<rparr>]\<rparr>)"

subsection \<open>Executing a label action\<close>

text \<open>
  \<open>executeLabelAction\<close> in the order of the code: find or create the claim, resolve the durable
  execution set, send it chunk by chunk, then the terminal transaction.
\<close>

datatype label_outcome = LExecuted | LStale | LProtected | LRetired

definition label_verb :: "autopilot_action \<Rightarrow> verb" where
  \<comment> \<open>the cast \<open>match.actionKind as 'archive' | 'later'\<close>\<close>
  "label_verb a = (if a = ActLater then VLater else VArchive)"

fun verb_name :: "verb \<Rightarrow> string" where
  "verb_name VKeep = ''keep''"
| "verb_name VArchive = ''archive''"
| "verb_name VLater = ''later''"
| "verb_name VUnsubscribe = ''unsubscribe''"
| "verb_name VUnarchive = ''unarchive''"
| "verb_name VDelete = ''delete''"

definition default_later_wake_days :: int where
  "default_later_wake_days = 7"

definition defaultLaterWakeAt :: "millis \<Rightarrow> millis" where
  "defaultLaterWakeAt now = now + default_later_wake_days * 24 * 60 * 60 * 1000"

definition new_claim :: "ident \<Rightarrow> ident \<Rightarrow> ident \<Rightarrow> eligible_match \<Rightarrow> millis \<Rightarrow> job_row" where
  "new_claim jid mb sid m now =
     \<lparr>jo_id = jid, jo_mailbox = mb, jo_verb = label_verb (em_action m), jo_sender_id = sid,
      jo_sender_key = em_key m, jo_ids = [], jo_requested = 0, jo_affected = 0, jo_status = Queued,
      jo_key = claimKey m, jo_undo = None, jo_error = None,
      jo_wake = (if label_verb (em_action m) = VLater then Some (defaultLaterWakeAt now) else None),
      jo_direction = Forward, jo_selector = BySender, jo_custom = None, jo_delete_undo = None, jo_quiet_until = None,
      jo_composite = None, jo_root = None, jo_attempt = 0, jo_older = None, jo_reach = InboxOnly, jo_quota = 0,
      jo_created = now\<rparr>"

definition insert_job :: "job_row \<Rightarrow> db \<Rightarrow> worker_error + db" where
  \<comment> \<open>\<open>insert \<dots> on conflict (idempotency_key) do nothing\<close>; a taken primary key throws\<close>
  "insert_job j d =
     (if list_ex (\<lambda>j'. jo_key j' = jo_key j) (jobs d) then Inr d
      else if list_ex (\<lambda>j'. jo_id j' = jo_id j) (jobs d) then Inl TransientError
      else Inr (d\<lparr>jobs := jobs d @ [j]\<rparr>))"

definition claim_tx :: "ident \<Rightarrow> job_row \<Rightarrow> db \<Rightarrow> worker_error + (bool \<times> db)" where
  "claim_tx mid j d =
     (if \<not> matchStillCurrent mid d then Inr (False, d)
      else case insert_job j d of Inl e \<Rightarrow> Inl e | Inr d' \<Rightarrow> Inr (True, d'))"

definition find_claim :: "string \<Rightarrow> job_row option wm" where
  "find_claim k = query (\<lambda>d. job_by_key d k)"

definition claim_job :: "ident \<Rightarrow> eligible_match \<Rightarrow> millis \<Rightarrow> job_row option wm" where
  \<comment> \<open>\<open>None\<close>: the match is no longer current\<close>
  "claim_job mb m now =
     (case em_sender m of
        None \<Rightarrow> throww ValidationError
      | Some sid \<Rightarrow>
          bindw fresh_id (\<lambda>jid.
          bindw (stmt (claim_tx (em_id m) (new_claim jid mb sid m now))) (\<lambda>claimed.
            if \<not> claimed then returnw None
            else bindw (find_claim (claimKey m)) (\<lambda>job.
                   case job of None \<Rightarrow> throww ValidationError | Some j \<Rightarrow> returnw (Some j)))))"

definition resolveSenderInboxIds :: "ident \<Rightarrow> string \<Rightarrow> ident list wm" where
  "resolveSenderInboxIds mb k =
     query (\<lambda>d. map mm_id (filter (senderInboxActionWhere mb [k]) (mail d)))"

definition activity_entry ::
  "ident \<Rightarrow> ident \<Rightarrow> eligible_match \<Rightarrow> string \<Rightarrow> nat \<Rightarrow> ident option \<Rightarrow> millis \<Rightarrow> activity_row" where
  "activity_entry aid mb m action n undo t =
     \<lparr>ac_id = aid, ac_mailbox = mb, ac_key = em_key m, ac_source = ''autopilot'', ac_action = action,
      ac_affected = n, ac_undo = undo, ac_rule = Some (em_rule m), ac_at = t, ac_job = None, ac_reverted = None\<rparr>"

definition zero_tx :: "ident \<Rightarrow> ident \<Rightarrow> eligible_match \<Rightarrow> ident \<Rightarrow> millis \<Rightarrow> db \<Rightarrow> db" where
  \<comment> \<open>nothing to move: the decision is audited, no undo\<close>
  "zero_tx aid jid m mb now d =
     update_match (em_id m) (\<lambda>x. x\<lparr>ma_applied := True, ma_resolved_at := Some now\<rparr>)
       (update_job jid (\<lambda>j. j\<lparr>jo_status := JobDone, jo_affected := 0\<rparr>)
         (d\<lparr>activity := activity d @
              [activity_entry aid mb m (verb_name (label_verb (em_action m))) 0 None (db_now d)]\<rparr>))"

definition finish_nothing :: "ident \<Rightarrow> job_row \<Rightarrow> eligible_match \<Rightarrow> millis \<Rightarrow> unit wm" where
  "finish_nothing mb j m now =
     bindw fresh_id (\<lambda>aid. exec (zero_tx aid (jo_id j) m mb now))"

record send_ctx =
  sc_mailbox :: ident
  sc_key :: string
  sc_job :: job_row
  sc_verb :: verb
  sc_ids :: "ident list"
  sc_fresh :: "ident list option"
  sc_in_flight :: bool
  sc_change :: label_change

definition later_due :: "send_ctx \<Rightarrow> millis option" where
  \<comment> \<open>\<open>verb === 'later' && job.wakeAt !== null\<close>\<close>
  "later_due c = (if sc_verb c = VLater then jo_wake (sc_job c) else None)"

definition chunk_hook :: "send_ctx \<Rightarrow> bool \<Rightarrow> unit wm" where
  "chunk_hook c first =
     (if first
      then markClaimExecuting (jo_id (sc_job c)) (sc_mailbox c) (sc_key c) (sc_fresh c) (sc_in_flight c)
      else assertSenderNotProtected (sc_mailbox c) (sc_key c))"

definition send_chunk :: "send_ctx \<Rightarrow> bool \<Rightarrow> ident list \<Rightarrow> unit wm" where
  "send_chunk c first ids =
     bindw (batchModify (jo_id (sc_job c)) (\<lambda>d. protectedSender d (sc_mailbox c) (sc_key c)) ids
              (sc_change c) (chunk_hook c first))
       (\<lambda>hookRan. if first \<and> hookRan = None then recordClaimHookSkipped (jo_id (sc_job c)) (sc_fresh c)
                  else returnw ())"

definition first_landed :: "send_ctx \<Rightarrow> unit wm" where
  "first_landed c =
     (case later_due c of
        None \<Rightarrow> returnw ()
      | Some wakeAt \<Rightarrow>
          bindw clock (\<lambda>t. exec (scheduleLaterReturn (sc_mailbox c) (sc_key c) wakeAt t True)))"

fun send_chunks :: "send_ctx \<Rightarrow> ident list list \<Rightarrow> nat \<Rightarrow> (worker_error option \<times> nat) wm" where
  \<comment> \<open>the loop inside the \<open>try\<close>: the error that left it, and how many requests landed\<close>
  "send_chunks c [] landed = returnw (None, landed)"
| "send_chunks c (ids # rest) landed =
     bindw (tryw (send_chunk c (landed = 0) ids)) (\<lambda>r.
       case r of
         Inl e \<Rightarrow> returnw (Some e, landed)
       | Inr _ \<Rightarrow>
           bindw (if landed = 0 then tryw (first_landed c) else returnw (Inr ())) (\<lambda>r'.
             case r' of
               Inl e \<Rightarrow> returnw (Some e, landed + 1)
             | Inr _ \<Rightarrow> send_chunks c rest (landed + 1)))"

definition put_back :: "ident \<Rightarrow> db \<Rightarrow> db" where
  \<comment> \<open>a refused first request: the claim is untouched again\<close>
  "put_back jid d =
     d\<lparr>jobs := update_where (\<lambda>j. jo_id j = jid \<and> jo_status j = Executing)
        (\<lambda>j. j\<lparr>jo_status := Queued, jo_ids := [], jo_requested := 0\<rparr>) (jobs d)\<rparr>"

definition send_failed :: "send_ctx \<Rightarrow> ident \<Rightarrow> millis \<Rightarrow> nat \<Rightarrow> worker_error \<Rightarrow> label_outcome wm" where
  \<comment> \<open>the \<open>catch\<close>\<close>
  "send_failed c mid now landed e =
     (if e = SenderProtectedAtSend then
        bindw (if \<not> sc_in_flight c \<and> landed = 0 then dismissShieldedMatch mid now else returnw ())
          (\<lambda>_. returnw LProtected)
      else if e = ClaimRetired then returnw LRetired
      else bindw (if \<not> sc_in_flight c \<and> landed = 0 \<and> isRefusedBeforeApply e
                  then exec (put_back (jo_id (sc_job c))) else returnw ())
          (\<lambda>_. throww e))"

definition undoExpiresAt :: "ident \<Rightarrow> millis wm" where
  "undoExpiresAt mb =
     bindw (query (\<lambda>d. Option.bind (List.find (\<lambda>m. mb_id m = mb) (mailboxes d))
                     (\<lambda>m. List.find (\<lambda>w. ws_id w = mb_workspace m) (workspaces d))))
       (\<lambda>row. bindw clock (\<lambda>t.
          returnw (t + int (undoWindowDaysFor (case row of None \<Rightarrow> Free | Some w \<Rightarrow> ws_tier w)) * day_ms)))"

definition finish_job :: "ident \<Rightarrow> ident list \<Rightarrow> job_row \<Rightarrow> job_row" where
  "finish_job token ids j =
     j\<lparr>jo_status := JobDone, jo_affected := length ids, jo_undo := Some token, jo_ids := ids\<rparr>"

definition mirror_mail :: "ident \<Rightarrow> ident list \<Rightarrow> label_change \<Rightarrow> db \<Rightarrow> db" where
  "mirror_mail mb ids ch d =
     d\<lparr>mail := update_where (\<lambda>x. mm_mailbox x = mb \<and> mm_id x \<in> set ids)
        (\<lambda>x. x\<lparr>mm_labels := label_mirror ch (mm_labels x)\<rparr>) (mail d)\<rparr>"

definition invalidateInboxReportCache :: "ident \<Rightarrow> db \<Rightarrow> db" where
  "invalidateInboxReportCache mb d = d\<lparr>inbox_reports := filter (\<lambda>x. x \<noteq> mb) (inbox_reports d)\<rparr>"

definition terminal_tx ::
  "ident \<Rightarrow> ident \<Rightarrow> millis \<Rightarrow> millis \<Rightarrow> send_ctx \<Rightarrow> eligible_match \<Rightarrow> millis \<Rightarrow> db \<Rightarrow> db" where
  \<comment> \<open>undo row, audit row, label mirror, Later timer, two events, job and match\<close>
  "terminal_tx token aid expiresAt appliedAt c m now d =
     (let mb = sc_mailbox c; ids = sc_ids c; verb = sc_verb c;
          d1 = d\<lparr>undos := undos d @ [\<lparr>un_token = token, un_mailbox = mb, un_kind = verb, un_ids = ids,
                                       un_expires = expiresAt, un_inbox = None, un_unknown = False,
                                       un_all_mail = False, un_created = db_now d, un_executed = None,
                                       un_reverted = None\<rparr>],
                 activity := activity d @
                   [activity_entry aid mb m (verb_name verb) (length ids) (Some token) (db_now d)]\<rparr>;
          d2 = mirror_mail mb ids (sc_change c) d1;
          d3 = (case later_due c of None \<Rightarrow> d2
                | Some wakeAt \<Rightarrow> scheduleLaterReturn mb (em_key m) wakeAt appliedAt True d2);
          d4 = d3\<lparr>outbox := outbox d3 @
                 [ActionIntentEmitted mb (em_rule m) (em_id m) (em_key m) verb token,
                  LabelApplied mb (jo_id (sc_job c)) verb (Some (em_key m)) (Some token) (length ids) None (later_due c) appliedAt]\<rparr>;
          d5 = update_job (jo_id (sc_job c)) (finish_job token ids) d4;
          d6 = update_match (em_id m)
                 (\<lambda>x. x\<lparr>ma_applied := True, ma_token := Some token, ma_resolved_at := Some now\<rparr>) d5
      in if ids \<noteq> [] then invalidateInboxReportCache mb d6 else d6)"

definition ensure_labels :: "label_change \<Rightarrow> (string \<Rightarrow> string) wm" where
  \<comment> \<open>one provider call per label that is not a system label\<close>
  "ensure_labels ch =
     bindw (foreachw (\<lambda>l _. if l \<in> set system_label_ids then returnw () else port_call no_effect)
              (addLabels ch @ removeLabels ch) ())
       (\<lambda>_. ask_label)"

definition send_and_finish :: "send_ctx \<Rightarrow> eligible_match \<Rightarrow> millis \<Rightarrow> label_outcome wm" where
  "send_and_finish c m now =
     bindw (send_chunks c (chunks gmail_batch_modify_max_ids (sc_ids c)) 0) (\<lambda>r.
       case r of
         (Some e, landed) \<Rightarrow> send_failed c (em_id m) now landed e
       | (None, _) \<Rightarrow>
           bindw clock (\<lambda>appliedAt.
           bindw (undoExpiresAt (sc_mailbox c)) (\<lambda>expiresAt.
           bindw fresh_id (\<lambda>token.
           bindw fresh_id (\<lambda>aid.
           bindw (exec (terminal_tx token aid expiresAt appliedAt c m now)) (\<lambda>_.
           returnw LExecuted))))))"

definition run_claim :: "ident \<Rightarrow> job_row \<Rightarrow> eligible_match \<Rightarrow> millis \<Rightarrow> label_outcome wm" where
  \<comment> \<open>from the execution set on\<close>
  "run_claim mb j m now =
     bindw (if jo_ids j \<noteq> [] then returnw (jo_ids j) else resolveSenderInboxIds mb (em_key m)) (\<lambda>ids.
       if ids = [] then bindw (finish_nothing mb j m now) (\<lambda>_. returnw LExecuted)
       else
         bindw (port_call no_effect) (\<lambda>_.
         case labelChangeForVerb (label_verb (em_action m)) of
           None \<Rightarrow> throww ValidationError
         | Some p \<Rightarrow>
             bindw (ensure_labels (forwardChange p)) (\<lambda>ensure.
               send_and_finish
                 \<lparr>sc_mailbox = mb, sc_key = em_key m, sc_job = j, sc_verb = label_verb (em_action m),
                  sc_ids = ids, sc_fresh = (if jo_ids j = [] then Some ids else None),
                  sc_in_flight = claimIsInFlight j,
                  sc_change = resolveLabelChange ensure (forwardChange p)\<rparr> m now)))"

definition executeLabelAction :: "ident \<Rightarrow> eligible_match \<Rightarrow> millis \<Rightarrow> label_outcome wm" where
  "executeLabelAction mb m now =
     bindw (find_claim (claimKey m)) (\<lambda>found.
       case found of
         Some j \<Rightarrow>
           if jo_status j = JobDone
           then bindw (flipMatchApplied (em_id m) (jo_undo j) now) (\<lambda>_. returnw LExecuted)
           else run_claim mb j m now
       | None \<Rightarrow>
           bindw (claim_job mb m now) (\<lambda>job.
             case job of None \<Rightarrow> returnw LStale | Some j \<Rightarrow> run_claim mb j m now))"

subsection \<open>Executing an unsubscribe\<close>

datatype unsub_outcome = UExecuted bool | UStale | USendDisabled

definition event_method :: "unsub_channel option \<Rightarrow> unsub_channel option" where
  \<comment> \<open>the capability the event carries; an unknown one is left out\<close>
  "event_method m =
     (case unsubscribeCapabilityOf m of
        CapOneClick \<Rightarrow> Some OneClick | CapMailto \<Rightarrow> Some Mailto | CapNone \<Rightarrow> Some NoChannel
      | CapUnknown \<Rightarrow> None)"

definition new_execution :: "ident \<Rightarrow> ident \<Rightarrow> ident \<Rightarrow> eligible_match \<Rightarrow> millis \<Rightarrow> job_row" where
  "new_execution jid mb sid m now =
     \<lparr>jo_id = jid, jo_mailbox = mb, jo_verb = VUnsubscribe, jo_sender_id = sid, jo_sender_key = em_key m,
      jo_ids = [], jo_requested = 1, jo_affected = 0, jo_status = Queued, jo_key = claimKey m,
      jo_undo = None, jo_error = None, jo_wake = None,
      jo_direction = Forward, jo_selector = BySender, jo_custom = None, jo_delete_undo = None, jo_quiet_until = None,
      jo_composite = None, jo_root = None, jo_attempt = 0, jo_older = None, jo_reach = InboxOnly, jo_quota = 0,
      jo_created = now\<rparr>"

definition outcome_rows :: "ident \<Rightarrow> ident \<Rightarrow> eligible_match \<Rightarrow> millis \<Rightarrow> activity_row list" where
  \<comment> \<open>written only when the capability is known\<close>
  "outcome_rows aid mb m t =
     (case unsubscribeCapabilityOf (em_unsub m) of
        CapMailto \<Rightarrow> [activity_entry aid mb m ''unsubscribe_action_required'' 0 None t]
      | CapNone \<Rightarrow> [activity_entry aid mb m ''unsubscribe_unavailable'' 0 None t]
      | _ \<Rightarrow> [])"

definition execution_row :: "ident \<Rightarrow> ident \<Rightarrow> eligible_match \<Rightarrow> db \<Rightarrow> worker_error + (ident option \<times> db)" where
  "execution_row jid mb m d =
     (if unsubscribeCapabilityOf (em_unsub m) \<noteq> CapOneClick then Inr (None, d)
      else case em_sender m of
          None \<Rightarrow> Inl ValidationError
        | Some sid \<Rightarrow>
            (case insert_job (new_execution jid mb sid m (db_now d)) d of
               Inl e \<Rightarrow> Inl e
             | Inr d' \<Rightarrow> Inr (map_option jo_id (job_by_key d' (claimKey m)), d')))"

definition intent_tx ::
  "ident \<Rightarrow> ident \<Rightarrow> ident \<Rightarrow> ident \<Rightarrow> eligible_match \<Rightarrow> millis \<Rightarrow> db \<Rightarrow> worker_error + (ident option option \<times> db)" where
  \<comment> \<open>decision row, outcome row, event, execution row, its link and the match, in one
      transaction; \<open>None\<close> when the match is no longer current\<close>
  "intent_tx aid oid jid mb m now d =
     (if \<not> matchStillCurrent (em_id m) d then Inr (None, d)
      else let decision = activity_entry aid mb m ''unsubscribe'' 0 None (db_now d);
               event = UnsubscribeIntentRecorded mb (em_key m) aid (ac_at decision) (event_method (em_unsub m))
           in case execution_row jid mb m d of
                Inl e \<Rightarrow> Inl e
              | Inr (action, d') \<Rightarrow>
                  Inr (Some action,
                    update_match (em_id m) (\<lambda>x. x\<lparr>ma_applied := True, ma_resolved_at := Some now\<rparr>)
                      (d'\<lparr>activity := activity d' @ (decision\<lparr>ac_job := action\<rparr> # outcome_rows oid mb m (db_now d)),
                         outbox := outbox d' @ [event]\<rparr>)))"

definition enqueue_failed_tx :: "ident \<Rightarrow> ident \<Rightarrow> ident \<Rightarrow> eligible_match \<Rightarrow> millis \<Rightarrow> db \<Rightarrow> db" where
  \<comment> \<open>only a job still queued fails: the add can throw after the job landed\<close>
  "enqueue_failed_tx aid jid mb m failedAt d =
     (let p = (\<lambda>j. jo_id j = jid \<and> jo_status j = Queued)
      in if list_ex p (jobs d)
         then d\<lparr>jobs := update_where p
                  (\<lambda>j. j\<lparr>jo_status := JobFailed, jo_error := Some ''ENQUEUE_FAILED''\<rparr>) (jobs d),
                activity := activity d @ [activity_entry aid mb m ''unsubscribe_failed'' 0 None (db_now d)],
                outbox := outbox d @ [UnsubscribeExecuted mb (em_key m) jid ExecFailed None failedAt]\<rparr>
         else d)"

definition enqueue_unsub :: "ident \<Rightarrow> bool \<Rightarrow> world \<Rightarrow> world" where
  "enqueue_unsub jid landed w = (if landed then w\<lparr>enqueued := enqueued w @ [jid]\<rparr> else w)"

definition enqueue_execution :: "ident \<Rightarrow> eligible_match \<Rightarrow> ident \<Rightarrow> unsub_outcome wm" where
  "enqueue_execution mb m jid =
     bindw (tryw (port_call (enqueue_unsub jid))) (\<lambda>r.
       case r of
         Inr _ \<Rightarrow> returnw (UExecuted True)
       | Inl _ \<Rightarrow>
           bindw clock (\<lambda>failedAt.
           bindw fresh_id (\<lambda>aid.
           bindw (exec (enqueue_failed_tx aid jid mb m failedAt)) (\<lambda>_. returnw (UExecuted False)))))"

definition executeUnsubscribeIntent ::
  "bool \<Rightarrow> ident \<Rightarrow> eligible_match \<Rightarrow> millis \<Rightarrow> bool \<Rightarrow> unsub_outcome wm" where
  "executeUnsubscribeIntent canSend mb m now inFlight =
     (if unsubscribeCapabilityOf (em_unsub m) = CapOneClick \<and> \<not> canSend \<and> \<not> inFlight
      then returnw USendDisabled
      else
        bindw fresh_id (\<lambda>aid. bindw fresh_id (\<lambda>oid. bindw fresh_id (\<lambda>jid.
        bindw (stmt (intent_tx aid oid jid mb m now)) (\<lambda>r.
          case r of
            None \<Rightarrow> returnw UStale
          | Some None \<Rightarrow> returnw (UExecuted False)
          | Some (Some action) \<Rightarrow> enqueue_execution mb m action)))))"

subsection \<open>One match\<close>

datatype gate = GateEntitlement | GateQuiet

record sweep_ctx =
  sw_mailbox :: ident
  sw_now :: millis
  sw_gated :: "gate option"
  sw_unattended :: bool
  sw_can_send :: bool

record sweep_result =
  matchesConsidered :: nat
  staleEvidenceExcluded :: nat
  labelActionsExecuted :: nat
  unsubscribeIntentsRecorded :: nat
  unsubscribeExecutionsEnqueued :: nat
  skippedProtected :: nat
  skippedAlreadyUnsubscribed :: nat
  skippedCapped :: nat
  skippedUnsubSendDisabled :: nat
  skippedRuleInactive :: nat
  skippedMissingSender :: nat
  abandonedStaleClaim :: nat
  skippedIndexRebuilt :: nat
  skippedNoLongerPending :: nat
  deferredQuiet :: bool

definition empty_result :: sweep_result where
  "empty_result =
     \<lparr>matchesConsidered = 0, staleEvidenceExcluded = 0, labelActionsExecuted = 0,
      unsubscribeIntentsRecorded = 0, unsubscribeExecutionsEnqueued = 0, skippedProtected = 0,
      skippedAlreadyUnsubscribed = 0, skippedCapped = 0, skippedUnsubSendDisabled = 0,
      skippedRuleInactive = 0, skippedMissingSender = 0, abandonedStaleClaim = 0,
      skippedIndexRebuilt = 0, skippedNoLongerPending = 0, deferredQuiet = False\<rparr>"

record sweep_state =
  ss_result :: sweep_result
  ss_remaining :: "ident \<Rightarrow> int option" \<comment> \<open>per-rule running daily budget\<close>

definition count_result :: "(sweep_result \<Rightarrow> sweep_result) \<Rightarrow> sweep_state \<Rightarrow> sweep_state" where
  "count_result f s = s\<lparr>ss_result := f (ss_result s)\<rparr>"

definition skip_protected :: "sweep_state \<Rightarrow> sweep_state" where
  "skip_protected = count_result (\<lambda>r. r\<lparr>skippedProtected := skippedProtected r + 1\<rparr>)"

definition skip_inactive :: "sweep_state \<Rightarrow> sweep_state" where
  "skip_inactive = count_result (\<lambda>r. r\<lparr>skippedRuleInactive := skippedRuleInactive r + 1\<rparr>)"

definition skip_capped :: "sweep_state \<Rightarrow> sweep_state" where
  "skip_capped = count_result (\<lambda>r. r\<lparr>skippedCapped := skippedCapped r + 1\<rparr>)"

definition skip_gone :: "sweep_state \<Rightarrow> sweep_state" where
  "skip_gone = count_result (\<lambda>r. r\<lparr>skippedNoLongerPending := skippedNoLongerPending r + 1\<rparr>)"

definition skip_rebuilt :: "sweep_state \<Rightarrow> sweep_state" where
  "skip_rebuilt = count_result (\<lambda>r. r\<lparr>skippedIndexRebuilt := skippedIndexRebuilt r + 1\<rparr>)"

definition skip_missing :: "sweep_state \<Rightarrow> sweep_state" where
  "skip_missing = count_result (\<lambda>r. r\<lparr>skippedMissingSender := skippedMissingSender r + 1\<rparr>)"

definition match_cap :: "autopilot_action \<Rightarrow> preset_key \<Rightarrow> int" where
  "match_cap a p =
     (let presetCap = int (dailyActionCap (autopilot_presets p))
      in if a = ActUnsubscribe then min 25 presetCap else presetCap)"

definition remaining_budget :: "fresh_match \<Rightarrow> preset_key \<Rightarrow> sweep_state \<Rightarrow> int" where
  "remaining_budget f p s =
     (let left = match_cap (em_action (fm_match f)) p - int (fm_executed f)
      in case ss_remaining s (em_rule (fm_match f)) of None \<Rightarrow> left | Some r \<Rightarrow> min r left)"

definition set_remaining :: "ident \<Rightarrow> int \<Rightarrow> sweep_state \<Rightarrow> sweep_state" where
  "set_remaining rid n s = s\<lparr>ss_remaining := (ss_remaining s)(rid := Some n)\<rparr>"

definition label_result :: "label_outcome \<Rightarrow> ident \<Rightarrow> int \<Rightarrow> sweep_state \<Rightarrow> sweep_state" where
  "label_result out rid n s =
     (case out of
        LStale \<Rightarrow> skip_rebuilt s
      | LProtected \<Rightarrow> skip_protected s
      | LRetired \<Rightarrow> skip_gone s
      | LExecuted \<Rightarrow>
          set_remaining rid (n - 1)
            (count_result (\<lambda>r. r\<lparr>labelActionsExecuted := labelActionsExecuted r + 1\<rparr>) s))"

definition unsub_result :: "unsub_outcome \<Rightarrow> ident \<Rightarrow> int \<Rightarrow> sweep_state \<Rightarrow> sweep_state" where
  "unsub_result out rid n s =
     (case out of
        UStale \<Rightarrow> skip_rebuilt s
      | USendDisabled \<Rightarrow>
          count_result (\<lambda>r. r\<lparr>skippedUnsubSendDisabled := skippedUnsubSendDisabled r + 1\<rparr>) s
      | UExecuted sent \<Rightarrow>
          set_remaining rid (n - 1)
            (count_result
              (\<lambda>r. r\<lparr>unsubscribeIntentsRecorded := unsubscribeIntentsRecorded r + 1,
                     unsubscribeExecutionsEnqueued :=
                       unsubscribeExecutionsEnqueued r + (if sent then 1 else 0)\<rparr>) s))"

definition execute_match :: "sweep_ctx \<Rightarrow> fresh_match \<Rightarrow> int \<Rightarrow> sweep_state \<Rightarrow> sweep_state wm" where
  \<comment> \<open>the \<open>try\<close> at the end of \<open>processMatch\<close>: one match's failure does not end the sweep\<close>
  "execute_match c f n s =
     (let m = fm_match f
      in if em_action m = ActArchive \<or> em_action m = ActLater then
           bindw (tryw (executeLabelAction (sw_mailbox c) m (sw_now c)))
             (\<lambda>r. returnw (case r of Inl _ \<Rightarrow> s | Inr out \<Rightarrow> label_result out (em_rule m) n s))
         else if em_action m = ActUnsubscribe then
           bindw (tryw (executeUnsubscribeIntent (sw_can_send c) (sw_mailbox c) m (sw_now c) (fm_in_flight f)))
             (\<lambda>r. returnw (case r of Inl _ \<Rightarrow> s | Inr out \<Rightarrow> unsub_result out (em_rule m) n s))
         else returnw s)"

definition missing_sender :: "sweep_ctx \<Rightarrow> eligible_match \<Rightarrow> sweep_state \<Rightarrow> sweep_state wm" where
  "missing_sender c m s =
     bindw (query (senderIndexRebuiltSince (sw_mailbox c) (em_id m))) (\<lambda>rebuilt.
       if rebuilt
       then bindw (abandonStaleClaim m (sw_now c))
              (\<lambda>_. returnw (count_result (\<lambda>r. r\<lparr>abandonedStaleClaim := abandonedStaleClaim r + 1\<rparr>) s))
       else returnw (skip_missing s))"

definition within_budget :: "sweep_ctx \<Rightarrow> fresh_match \<Rightarrow> preset_key \<Rightarrow> sweep_state \<Rightarrow> sweep_state wm" where
  \<comment> \<open>guard 6, then the action\<close>
  "within_budget c f p s =
     (let n = remaining_budget f p s; s' = set_remaining (em_rule (fm_match f)) n s
      in if \<not> fm_in_flight f \<and> n \<le> 0 then returnw (skip_capped s') else execute_match c f n s')"

definition review_mandatory :: "preset_key \<Rightarrow> bool" where
  "review_mandatory p \<longleftrightarrow> p \<in> {AutoScreenNewSenders, AutoArchiveLowEngagement}"

definition decide_match :: "sweep_ctx \<Rightarrow> fresh_match \<Rightarrow> sweep_state \<Rightarrow> sweep_state wm" where
  "decide_match c f s =
     (let m = fm_match f; inFlight = fm_in_flight f
      in if \<not> inFlight \<and> (sw_gated c \<noteq> None \<or> (\<not> sw_unattended c \<and> em_mode_at m \<noteq> MatchedObserve))
           then returnw (skip_gone s)
         else if \<not> inFlight \<and> (\<not> em_enabled m \<or> em_mode m = Paused) then returnw (skip_inactive s)
         else
           (case isPresetKey (em_preset m) of
              None \<Rightarrow> returnw (skip_inactive s)
            | Some p \<Rightarrow>
                if \<not> inFlight \<and> review_mandatory p \<and> em_mode_at m = MatchedActive
                  then bindw (dismissSuperseded (em_id m) (sw_now c)) (\<lambda>_. returnw (skip_inactive s))
                else if \<not> inFlight \<and> fm_protected f
                  then bindw (dismissShieldedMatch (em_id m) (sw_now c)) (\<lambda>_. returnw (skip_protected s))
                else if fm_protected f \<and> em_action m \<noteq> ActUnsubscribe then returnw (skip_protected s)
                else if em_sender m = None \<and> \<not> inFlight then missing_sender c m s
                else if \<not> inFlight \<and> \<not> fm_current f then returnw (skip_rebuilt s)
                else if em_action m = ActUnsubscribe \<and> fm_unsubscribed f
                  then bindw (flipMatchApplied (em_id m) None (sw_now c))
                    (\<lambda>_. returnw (count_result
                      (\<lambda>r. r\<lparr>skippedAlreadyUnsubscribed := skippedAlreadyUnsubscribed r + 1\<rparr>) s))
                else within_budget c f p s))"

definition processMatch :: "sweep_ctx \<Rightarrow> eligible_match \<Rightarrow> sweep_state \<Rightarrow> sweep_state wm" where
  "processMatch c snap s =
     bindw (reloadMatch snap (sw_now c)) (\<lambda>fresh.
       case fresh of
         None \<Rightarrow> returnw (skip_gone s)
       | Some f \<Rightarrow>
           if em_action (fm_match f) \<noteq> em_action snap then returnw s else decide_match c f s)"

subsection \<open>The sweep\<close>

definition load_eligible :: "ident \<Rightarrow> db \<Rightarrow> eligible_match list" where
  "load_eligible mb d =
     List.map_filter (eligible_of d)
       (sort_key (\<lambda>m. (ma_matched_at m, ma_id m))
         (filter (\<lambda>m. ma_mailbox m = mb \<and> ruleMatchIsQueuedAction d m) (matches d)))"

definition loadEligibleMatches :: "ident \<Rightarrow> eligible_match list wm" where
  "loadEligibleMatches mb = query (load_eligible mb)"

definition countStaleMatches :: "ident \<Rightarrow> nat wm" where
  "countStaleMatches mb =
     query (\<lambda>d. count_where (\<lambda>m. ma_mailbox m = mb \<and> ruleMatchIsStaleAction d m) (matches d))"

definition set_flags :: "(string \<Rightarrow> ident option) \<Rightarrow> job_row list \<Rightarrow> (ident \<Rightarrow> bool) \<Rightarrow> ident \<Rightarrow> bool" where
  "set_flags byKey rows flags =
     fold (\<lambda>j fl. case byKey (jo_key j) of None \<Rightarrow> fl | Some mid \<Rightarrow> fl(mid := claimIsInFlight j)) rows flags"

definition loadInFlightFlags :: "eligible_match list \<Rightarrow> (ident \<Rightarrow> bool) wm" where
  "loadInFlightFlags ms =
     (let byKey = map_of (rev (map (\<lambda>m. (claimKey m, em_id m)) ms));
          keys = rev (remdups (rev (map claimKey ms)))
      in foreachw
           (\<lambda>ks flags. bindw (query (\<lambda>d. filter (\<lambda>j. jo_key j \<in> set ks) (jobs d)))
                         (\<lambda>rows. returnw (set_flags byKey rows flags)))
           (chunks claim_lookup_chunk keys) (\<lambda>_. False))"

definition label_claim_keys :: "eligible_match list \<Rightarrow> string list" where
  "label_claim_keys ms = map claimKey (filter (\<lambda>m. em_action m \<noteq> ActUnsubscribe) ms)"

definition releasable :: "ident \<Rightarrow> string list \<Rightarrow> job_row \<Rightarrow> bool" where
  "releasable mb ks j \<longleftrightarrow> jo_mailbox j = mb \<and> jo_key j \<in> set ks \<and> claim_untouched j"

definition release_tx :: "ident \<Rightarrow> string list \<Rightarrow> db \<Rightarrow> db" where
  "release_tx mb ks d =
     (let released = filter (releasable mb ks) (jobs d);
          ids = map (\<lambda>j. drop (length claim_key_prefix_label) (jo_key j)) released;
          d' = d\<lparr>jobs := filter (\<lambda>j. \<not> releasable mb ks j) (jobs d)\<rparr>
      in if released = [] then d
         else d'\<lparr>matches := filter (\<lambda>m. \<not> (ma_mailbox m = mb \<and> ma_id m \<in> set ids \<and> \<not> ma_applied m \<and>
                ma_resolution m \<in> {Pending, Approved} \<and> \<not> ruleMatchEvidenceIsCurrent d' m)) (matches d')\<rparr>)"

definition releaseUntouchedClaims :: "ident \<Rightarrow> eligible_match list \<Rightarrow> unit wm" where
  "releaseUntouchedClaims mb ms =
     foreachw (\<lambda>ks _. exec (release_tx mb ks)) (chunks claim_lookup_chunk (label_claim_keys ms)) ()"

definition locked :: "'a wm \<Rightarrow> 'a wm" where
  \<comment> \<open>\<open>lock.run\<close>: the acquisition may fail; the body runs in the hold\<close>
  "locked m = bindw (port_call no_effect) (\<lambda>_. m)"

definition releaseClaimsLeftUntouched :: "ident \<Rightarrow> eligible_match list \<Rightarrow> unit wm" where
  "releaseClaimsLeftUntouched mb ms =
     bindw (foreachw
              (\<lambda>ks found. if found then returnw found
                          else query (\<lambda>d. list_ex (releasable mb ks) (jobs d)))
              (chunks claim_lookup_chunk (label_claim_keys ms)) False)
       (\<lambda>found. if \<not> found then returnw () else locked (releaseUntouchedClaims mb ms))"

record sweep_config =
  cf_host :: host
  cf_can_send :: bool \<comment> \<open>\<open>unsubSendsEnabled()\<close>\<close>
  cf_resume_hook :: bool \<comment> \<open>\<open>onQuietDeferred\<close> is wired\<close>

definition fire_resume :: "millis option \<Rightarrow> bool \<Rightarrow> world \<Rightarrow> world" where
  "fire_resume after landed w = (if landed then w\<lparr>resumes := resumes w @ [after]\<rparr> else w)"

definition sweep_gate :: "sweep_config \<Rightarrow> jsval \<Rightarrow> tier \<Rightarrow> millis \<Rightarrow> gate option wm" where
  \<comment> \<open>guards 1 and 2; formatting an invalid date throws out of the sweep, a failing hook
      does not\<close>
  "sweep_gate cf quiet t now =
     (if \<not> hasCapability t Autopilot then returnw (Some GateEntitlement)
      else if \<not> isQuietActive (cf_host cf) quiet now then returnw None
      else case msUntilQuietEnds (cf_host cf) quiet now of
          Throws \<Rightarrow> throww TransientError
        | Returns after \<Rightarrow>
            bindw (if cf_resume_hook cf then tryw (port_call (fire_resume after)) else returnw (Inr ()))
              (\<lambda>_. returnw (Some GateQuiet)))"

definition mailbox_row_of :: "ident \<Rightarrow> db \<Rightarrow> (jsval \<times> tier) option" where
  "mailbox_row_of mb d =
     Option.bind (List.find (\<lambda>m. mb_id m = mb) (mailboxes d)) (\<lambda>m.
       map_option (\<lambda>w. (mb_quiet m, ws_tier w)) (List.find (\<lambda>w. ws_id w = mb_workspace m) (workspaces d)))"

definition sweep_selection :: "gate option \<Rightarrow> bool \<Rightarrow> (ident \<Rightarrow> bool) \<Rightarrow> eligible_match list \<Rightarrow> eligible_match list"
where
  "sweep_selection g unattended inFlight loaded =
     (let entitled = (if unattended then loaded
                      else filter (\<lambda>m. em_mode_at m = MatchedObserve \<or> inFlight (em_id m)) loaded)
      in if g \<noteq> None then filter (\<lambda>m. inFlight (em_id m)) entitled else entitled)"

definition sweep_one :: "sweep_ctx \<Rightarrow> (ident \<Rightarrow> bool) \<Rightarrow> eligible_match \<Rightarrow> sweep_state \<Rightarrow> sweep_state wm" where
  \<comment> \<open>the loop body: the snapshot only skips\<close>
  "sweep_one c inFlight m s =
     (if \<not> inFlight (em_id m) \<and> (\<not> em_enabled m \<or> em_mode m = Paused \<or> isPresetKey (em_preset m) = None)
        then returnw (skip_inactive s)
      else if \<not> inFlight (em_id m) \<and>
              (case ss_remaining s (em_rule m) of None \<Rightarrow> False | Some n \<Rightarrow> n \<le> 0)
        then returnw (skip_capped s)
      else locked (processMatch c m s))"

definition sweep_matches ::
  "sweep_ctx \<Rightarrow> (ident \<Rightarrow> bool) \<Rightarrow> eligible_match list \<Rightarrow> eligible_match list \<Rightarrow> sweep_state \<Rightarrow> sweep_state wm" where
  "sweep_matches c inFlight loaded ms s =
     bindw
       (catchw (foreachw (sweep_one c inFlight) ms s)
         (\<lambda>e. bindw (tryw (releaseClaimsLeftUntouched (sw_mailbox c) loaded)) (\<lambda>_. throww e)))
       (\<lambda>s'. bindw (releaseClaimsLeftUntouched (sw_mailbox c) loaded) (\<lambda>_. returnw s'))"

definition sweep_loaded ::
  "sweep_ctx \<Rightarrow> sweep_result \<Rightarrow> eligible_match list \<Rightarrow> (ident \<Rightarrow> bool) \<Rightarrow> sweep_result wm" where
  "sweep_loaded c r loaded inFlight =
     (let ms = sweep_selection (sw_gated c) (sw_unattended c) inFlight loaded;
          r' = r\<lparr>matchesConsidered := length ms\<rparr>
      in if ms = [] then
           bindw (releaseClaimsLeftUntouched (sw_mailbox c) loaded) (\<lambda>_. returnw r')
         else
           bindw (sweep_matches c inFlight loaded ms \<lparr>ss_result = r', ss_remaining = (\<lambda>_. None)\<rparr>)
             (\<lambda>s. returnw (ss_result s)))"

definition sweep :: "sweep_config \<Rightarrow> ident \<Rightarrow> sweep_result wm" where
  "sweep cf mb =
     bindw clock (\<lambda>now.
     bindw (query (mailbox_row_of mb)) (\<lambda>row.
     case row of
       None \<Rightarrow> throww ValidationError
     | Some (quiet, t) \<Rightarrow>
         bindw (sweep_gate cf quiet t now) (\<lambda>g.
         bindw (loadEligibleMatches mb) (\<lambda>loaded.
         bindw (countStaleMatches mb) (\<lambda>stale.
         bindw (loadInFlightFlags loaded) (\<lambda>inFlight.
           sweep_loaded
             \<lparr>sw_mailbox = mb, sw_now = now, sw_gated = g,
              sw_unattended = hasCapability t AutopilotActive, sw_can_send = cf_can_send cf\<rparr>
             (empty_result\<lparr>staleEvidenceExcluded := stale, deferredQuiet := (g = Some GateQuiet)\<rparr>)
             loaded inFlight))))))"

definition processJob :: "sweep_config \<Rightarrow> ident \<Rightarrow> sweep_result wm" where
  "processJob cf mb = (if mb = '''' then throww ValidationError else sweep cf mb)"

end
