(* ===== verification/Autopilot_Safety.thy ===== *)
theory Autopilot_Safety
  imports Autopilot_Action
begin

text \<open>
  No Gmail change is stranded and no Protected sender is touched: the invariant \<open>safe\<close> of the
  store and of the requests that left for the mail provider, proved for every way a sweep of
  \<open>Autopilot_Action\<close> can run: any database failure, lost reply or process death at any
  statement, any answer of the provider, and any other writer in between that respects
  the claims.
\<close>

subsection \<open>The invariant\<close>

definition recorded :: "db \<Rightarrow> job_row \<Rightarrow> bool" where
  \<comment> \<open>the action has its undo token and its Activity row\<close>
  "recorded d j \<longleftrightarrow>
     (\<exists>u \<in> set (undos d). jo_undo j = Some (un_token u) \<and> un_ids u = jo_ids j) \<and>
     (\<exists>a \<in> set (activity d). ac_undo a = jo_undo j \<and> ac_source a = ''autopilot'' \<and>
        ac_affected a = length (jo_ids j))"

definition live_match :: "(ident \<Rightarrow> autopilot_action) \<Rightarrow> db \<Rightarrow> string \<Rightarrow> bool" where
  \<comment> \<open>the match of the claim will be loaded by the next sweep\<close>
  "live_match vb d k \<longleftrightarrow>
     (\<exists>m \<in> set (matches d). ruleMatchLabelClaimKey m = k \<and> ma_resolution m = Approved \<and>
        \<not> ma_applied m \<and> vb (ma_id m) \<noteq> ActUnsubscribe)"

lemma recorded_facts:
  "recorded d j \<longleftrightarrow>
     (\<exists>t. jo_undo j = Some t \<and> (t, jo_ids j) \<in> undo_facts d) \<and>
     (jo_undo j, ''autopilot'', length (jo_ids j)) \<in> activity_facts d"
  unfolding recorded_def undo_facts_def activity_facts_def image_iff by (auto; metis)

definition claim_accounts :: "(ident \<Rightarrow> autopilot_action) \<Rightarrow> db \<Rightarrow> job_row \<Rightarrow> bool" where
  "claim_accounts vb d j \<longleftrightarrow>
     jo_ids j \<noteq> [] \<and> (if jo_status j = JobDone then recorded d j else live_match vb d (jo_key j))"

definition accounted :: "(ident \<Rightarrow> autopilot_action) \<Rightarrow> db \<Rightarrow> gmail_request \<Rightarrow> bool" where
  "accounted vb d g \<longleftrightarrow>
     (\<exists>j \<in> claim_jobs d. jo_id j = gr_job g \<and> set (gr_ids g) \<subseteq> set (jo_ids j) \<and> claim_accounts vb d j)"

definition safe :: "(ident \<Rightarrow> autopilot_action) \<Rightarrow> db \<Rightarrow> gmail_request list \<Rightarrow> bool" where
  "safe vb d l \<longleftrightarrow>
     unique_jobs d \<and> verbs_ok vb d \<and>
     (\<forall>g \<in> set l. \<not> gr_protected g \<and> (gr_applied g \<longrightarrow> accounted vb d g))"

lemma safe_unique: "safe vb d l \<Longrightarrow> j \<in> set (jobs d) \<Longrightarrow> j' \<in> set (jobs d) \<Longrightarrow>
    jo_id j = jo_id j' \<or> jo_key j = jo_key j' \<Longrightarrow> j = j'"
  unfolding safe_def unique_jobs_def by blast

lemma safe_accounted:
  assumes "safe vb d l" "g \<in> set l" "gr_applied g" "j \<in> set (jobs d)" "jo_id j = gr_job g"
  shows "claim_accounts vb d j" "set (gr_ids g) \<subseteq> set (jo_ids j)"
proof -
  obtain j' where j': "j' \<in> set (jobs d)" "jo_id j' = gr_job g" "set (gr_ids g) \<subseteq> set (jo_ids j')"
    "claim_accounts vb d j'"
    using assms(1,2,3) unfolding safe_def accounted_def claim_jobs_def by blast
  with safe_unique [OF assms(1) j'(1) assms(4)] assms(5) have "j' = j" by simp
  with j' show "claim_accounts vb d j" "set (gr_ids g) \<subseteq> set (jo_ids j)" by simp_all
qed

definition same_claim :: "job_row \<Rightarrow> job_row \<Rightarrow> bool" where
  "same_claim j j' \<longleftrightarrow>
     jo_id j' = jo_id j \<and> jo_key j' = jo_key j \<and> jo_ids j' = jo_ids j \<and> jo_undo j' = jo_undo j \<and>
     (jo_status j' = JobDone) = (jo_status j = JobDone)"

lemma same_claim_refl [simp]: "same_claim j j"
  by (simp add: same_claim_def)

lemma recorded_mono:
  "undo_facts d \<subseteq> undo_facts d' \<Longrightarrow> activity_facts d \<subseteq> activity_facts d' \<Longrightarrow> jo_ids j' = jo_ids j \<Longrightarrow>
     jo_undo j' = jo_undo j \<Longrightarrow> recorded d j \<Longrightarrow> recorded d' j'"
  unfolding recorded_facts by auto

lemma facts_mono:
  "set (undos d) \<subseteq> set (undos d') \<Longrightarrow> undo_facts d \<subseteq> undo_facts d'"
  "set (activity d) \<subseteq> set (activity d') \<Longrightarrow> activity_facts d \<subseteq> activity_facts d'"
  unfolding undo_facts_def activity_facts_def by (rule image_mono; assumption)+

lemma claim_accounts_step:
  assumes "claim_accounts vb d j" "same_claim j j'"
    and "undo_facts d \<subseteq> undo_facts d'" "activity_facts d \<subseteq> activity_facts d'"
    and "\<And>m. m \<in> set (matches d) \<Longrightarrow> ruleMatchLabelClaimKey m = jo_key j \<Longrightarrow> ma_resolution m = Approved \<Longrightarrow>
      \<not> ma_applied m \<Longrightarrow> jo_status j \<noteq> JobDone \<Longrightarrow> m \<in> set (matches d')"
  shows "claim_accounts vb d' j'"
  using assms recorded_mono [of d d' j' j]
  by (auto simp: claim_accounts_def same_claim_def live_match_def split: if_splits)

text \<open>What a statement must keep for \<open>safe\<close> to survive it.\<close>

lemma safe_step:
  assumes "safe vb d l" "unique_jobs d'" "rules d' = rules d"
    and jobs: "\<And>j g. g \<in> set l \<Longrightarrow> gr_applied g \<Longrightarrow> j \<in> set (jobs d) \<Longrightarrow> jo_id j = gr_job g \<Longrightarrow>
      jo_ids j \<noteq> [] \<Longrightarrow> \<exists>j' \<in> set (jobs d'). same_claim j j'"
    and new: "\<And>m. m \<in> set (matches d') \<Longrightarrow> ma_resolution m = Approved \<Longrightarrow> \<not> ma_applied m \<Longrightarrow> m \<in> set (matches d)"
    and live: "\<And>j g m. g \<in> set l \<Longrightarrow> gr_applied g \<Longrightarrow> j \<in> set (jobs d) \<Longrightarrow> jo_id j = gr_job g \<Longrightarrow>
      jo_ids j \<noteq> [] \<Longrightarrow> jo_status j \<noteq> JobDone \<Longrightarrow> m \<in> set (matches d) \<Longrightarrow> jo_key j = ruleMatchLabelClaimKey m \<Longrightarrow>
      ma_resolution m = Approved \<Longrightarrow> \<not> ma_applied m \<Longrightarrow> m \<in> set (matches d')"
    and "set (undos d) \<subseteq> set (undos d')" "set (activity d) \<subseteq> set (activity d')"
  shows "safe vb d' l"
proof -
  have "accounted vb d' g" if g: "g \<in> set l" "gr_applied g" for g
  proof -
    obtain j where j: "j \<in> set (jobs d)" "jo_id j = gr_job g" "set (gr_ids g) \<subseteq> set (jo_ids j)"
      "claim_accounts vb d j" and key: "is_claim_key (jo_key j)"
      using assms(1) g unfolding safe_def accounted_def claim_jobs_def by blast
    then have "jo_ids j \<noteq> []" by (simp add: claim_accounts_def)
    from jobs [OF g j(1,2) this] obtain j' where j': "j' \<in> set (jobs d')" "same_claim j j'" by blast
    have "claim_accounts vb d' j'"
      using claim_accounts_step [OF j(4) j'(2) facts_mono(1) [OF assms(7)] facts_mono(2) [OF assms(8)]] live [OF g j(1,2) \<open>jo_ids j \<noteq> []\<close>] by metis
    with j j' key show ?thesis
      unfolding accounted_def by (intro bexI [of _ j']) (simp_all add: same_claim_def claim_jobs_def)
  qed
  moreover have "verbs_ok vb d'"
    using assms(1,3) new by (auto simp: safe_def verbs_ok_def rule_verb_def)
  ultimately show ?thesis using assms(1,2) by (auto simp: safe_def)
qed

lemma unique_jobs_cong: "jobs d' = jobs d \<Longrightarrow> unique_jobs d' = unique_jobs d"
  by (simp add: unique_jobs_def)

lemma safe_unique_jobs: "safe vb d l \<Longrightarrow> unique_jobs d"
  by (simp add: safe_def)

lemma safe_frame:
  assumes "safe vb d l" "jobs d' = jobs d" "matches d' = matches d" "rules d' = rules d"
    "set (undos d) \<subseteq> set (undos d')" "set (activity d) \<subseteq> set (activity d')"
  shows "safe vb d' l"
proof (rule safe_step [OF assms(1)])
  show "unique_jobs d'" using safe_unique_jobs [OF assms(1)] unique_jobs_cong [OF assms(2)] by simp
  show "\<exists>j' \<in> set (jobs d'). same_claim j j'" if "j \<in> set (jobs d)" for j
    using that same_claim_refl unfolding assms(2) by blast
qed (simp_all add: assms)

lemma stable_safe [simp]: "stable (respects_claims vb) (safe vb)"
  unfolding stable_def
proof (intro allI impI)
  fix d d' l assume r: "respects_claims vb d d'" and s: "safe vb d l"
  have "accounted vb d' g" if g: "g \<in> set l" "gr_applied g" for g
  proof -
    obtain j where j: "j \<in> claim_jobs d" "jo_id j = gr_job g" "set (gr_ids g) \<subseteq> set (jo_ids j)"
      "claim_accounts vb d j"
      using s g unfolding safe_def accounted_def by blast
    have keep: "m \<in> set (matches d')" if "m \<in> set (matches d)" "ruleMatchLabelClaimKey m = jo_key j"
      "ma_resolution m = Approved" for m
    proof -
      have "label_claimed d m" using that j(1) by (auto simp: label_claimed_def list_ex_iff claim_jobs_def)
      with r that show ?thesis by (auto simp: respects_claims_def)
    qed
    have "claim_accounts vb d' j"
      by (rule claim_accounts_step [OF j(4)]) (use r keep in \<open>auto simp: respects_claims_def\<close>)
    moreover have "j \<in> claim_jobs d'" using r j(1) by (simp add: respects_claims_def)
    ultimately show ?thesis using j unfolding accounted_def by blast
  qed
  with r s show "safe vb d' l" by (auto simp: safe_def respects_claims_def)
qed

lemma stable_conj: "stable (respects_claims vb) A \<Longrightarrow> stable (respects_claims vb) B \<Longrightarrow> stable (respects_claims vb) (\<lambda>d l. A d l \<and> B d l)"
  unfolding stable_def by blast

lemma stable_pure [simp]: "stable (respects_claims vb) (\<lambda>d l. P l)"
  by (simp add: stable_def)

subsection \<open>Assertions about one match\<close>

definition label_key :: "ident \<Rightarrow> string" where
  "label_key mid = claim_key_prefix_label @ mid"

lemma ruleMatchLabelClaimKey_label: "ruleMatchLabelClaimKey m = label_key (ma_id m)"
  by (simp add: ruleMatchLabelClaimKey_def label_key_def)

lemma label_key_inj [simp]: "label_key a = label_key b \<longleftrightarrow> a = b"
  by (simp add: label_key_def)

lemma label_key_claim [simp]: "is_claim_key (label_key mid)"
  by (simp add: label_key_def claim_key_prefix_label_def is_claim_key_def)

definition unsent :: "ident \<Rightarrow> gmail_request list \<Rightarrow> bool" where
  "unsent jid l \<longleftrightarrow> (\<forall>g \<in> set l. gr_applied g \<longrightarrow> gr_job g \<noteq> jid)"

definition settled :: "string \<Rightarrow> db \<Rightarrow> gmail_request list \<Rightarrow> bool" where
  \<comment> \<open>no unfinished claim with this key has moved mail\<close>
  "settled k d l \<longleftrightarrow>
     (\<forall>g \<in> set l. gr_applied g \<longrightarrow>
        (\<forall>j \<in> set (jobs d). jo_id j = gr_job g \<longrightarrow> jo_key j = k \<longrightarrow> jo_status j = JobDone))"

definition pending :: "ident \<Rightarrow> db \<Rightarrow> bool" where
  "pending mid d \<longleftrightarrow>
     (\<exists>m \<in> set (matches d). ma_id m = mid \<and> ma_resolution m = Approved \<and> \<not> ma_applied m)"

definition claimed :: "string \<Rightarrow> db \<Rightarrow> bool" where
  "claimed k d \<longleftrightarrow> (\<exists>j \<in> set (jobs d). jo_key j = k)"

definition ready :: "(ident \<Rightarrow> autopilot_action) \<Rightarrow> ident \<Rightarrow> bool \<Rightarrow> db \<Rightarrow> gmail_request list \<Rightarrow> bool" where
  \<comment> \<open>what the re-read at the top of the hold establishes\<close>
  "ready vb mid inFlight d l \<longleftrightarrow>
     safe vb d l \<and> (claimed (label_key mid) d \<longrightarrow> pending mid d) \<and>
     (\<not> inFlight \<longrightarrow> settled (label_key mid) d l)"

definition held :: "(ident \<Rightarrow> autopilot_action) \<Rightarrow> ident \<Rightarrow> job_row \<Rightarrow> db \<Rightarrow> gmail_request list \<Rightarrow> bool" where
  \<comment> \<open>the sweep holds this claim\<close>
  "held vb mid j d l \<longleftrightarrow>
     safe vb d l \<and> j \<in> set (jobs d) \<and> jo_key j = label_key mid \<and> pending mid d"

definition sending ::
  "(ident \<Rightarrow> autopilot_action) \<Rightarrow> ident \<Rightarrow> ident \<Rightarrow> ident list \<Rightarrow> db \<Rightarrow> gmail_request list \<Rightarrow> bool" where
  \<comment> \<open>the claim is durable: its ids are stored and it is not done\<close>
  "sending vb mid jid ids d l \<longleftrightarrow>
     safe vb d l \<and> pending mid d \<and>
     (\<exists>j \<in> set (jobs d). jo_id j = jid \<and> jo_key j = label_key mid \<and> jo_ids j = ids \<and> jo_status j \<noteq> JobDone)"

definition present :: "ident \<Rightarrow> string \<Rightarrow> db \<Rightarrow> bool" where
  "present jid k d \<longleftrightarrow> (\<exists>j \<in> set (jobs d). jo_id j = jid \<and> jo_key j = k)"

lemma respects_jobs:
  assumes "respects_claims vb d d'" "j \<in> set (jobs d)" "is_claim_key (jo_key j)"
  shows "j \<in> set (jobs d')"
proof -
  have "j \<in> claim_jobs d'" using assms by (simp add: respects_claims_def claim_jobs_def)
  then show ?thesis by (simp add: claim_jobs_def)
qed

lemma respects_claimed:
  assumes "respects_claims vb d d'" "is_claim_key k"
  shows "claimed k d' = claimed k d"
proof -
  have "claimed k x \<longleftrightarrow> k \<in> jo_key ` claim_jobs x" for x
    using assms(2) by (auto simp: claimed_def claim_jobs_def)
  with assms(1) show ?thesis by (simp add: respects_claims_def)
qed

lemma respects_pending:
  assumes "respects_claims vb d d'" "pending mid d" "claimed (label_key mid) d"
  shows "pending mid d'"
proof -
  obtain m where m: "m \<in> set (matches d)" "ma_id m = mid" "ma_resolution m = Approved" "\<not> ma_applied m"
    using assms(2) by (auto simp: pending_def)
  then have "label_claimed d m"
    using assms(3) by (auto simp: claimed_def label_claimed_def list_ex_iff ruleMatchLabelClaimKey_label)
  with assms(1) m have "m \<in> set (matches d')" by (auto simp: respects_claims_def)
  with m show ?thesis by (auto simp: pending_def)
qed

lemma respects_safe: "respects_claims vb d d' \<Longrightarrow> safe vb d l \<Longrightarrow> safe vb d' l"
  using stable_safe [of vb] unfolding stable_def by blast

lemma settled_stable:
  assumes "respects_claims vb d d'" "safe vb d l" "settled k d l"
  shows "settled k d' l"
  unfolding settled_def
proof (intro ballI impI)
  fix g j assume g: "g \<in> set l" "gr_applied g" and j: "j \<in> set (jobs d')" "jo_id j = gr_job g" "jo_key j = k"
  obtain j0 where j0: "j0 \<in> set (jobs d)" "jo_id j0 = gr_job g" "is_claim_key (jo_key j0)"
    using assms(2) g unfolding safe_def accounted_def claim_jobs_def by blast
  have "j0 = j"
    using safe_unique [OF respects_safe [OF assms(1,2)] respects_jobs [OF assms(1) j0(1,3)] j(1)] j0(2) j(2)
    by simp
  with assms(3) g j0 j show "jo_status j = JobDone" unfolding settled_def by blast
qed

lemma stable_ready [simp]: "stable (respects_claims vb) (ready vb mid fl)"
  unfolding stable_def ready_def
  using respects_safe respects_pending respects_claimed [OF _ label_key_claim] settled_stable by blast

lemma held_claimed: "held vb mid j d l \<Longrightarrow> claimed (label_key mid) d"
  unfolding held_def claimed_def by blast

lemma stable_held [simp]: "stable (respects_claims vb) (held vb mid j)"
  unfolding stable_def
proof (intro allI impI)
  fix d d' l assume "respects_claims vb d d'" "held vb mid j d l"
  moreover from this have "is_claim_key (jo_key j)" by (simp add: held_def)
  ultimately show "held vb mid j d' l"
    using held_claimed respects_safe respects_pending respects_jobs unfolding held_def by blast
qed

lemma stable_sending [simp]: "stable (respects_claims vb) (sending vb mid jid ids)"
  unfolding stable_def
proof (intro allI impI)
  fix d d' l assume r: "respects_claims vb d d'" and s: "sending vb mid jid ids d l"
  then have c: "claimed (label_key mid) d" by (auto simp: sending_def claimed_def)
  obtain j where j: "j \<in> set (jobs d)" "jo_id j = jid" "jo_key j = label_key mid" "jo_ids j = ids" "jo_status j \<noteq> JobDone"
    using s by (auto simp: sending_def)
  have "j \<in> set (jobs d')" by (rule respects_jobs [OF r j(1)]) (simp add: j(3))
  with j show "sending vb mid jid ids d' l"
    using r s c respects_safe respects_pending unfolding sending_def by blast
qed

lemma stable_present: "is_claim_key k \<Longrightarrow> stable (respects_claims vb) (\<lambda>d l. present jid k d)"
  unfolding stable_def present_def using respects_jobs by blast

lemma stable_free: "is_claim_key k \<Longrightarrow> stable (respects_claims vb) (\<lambda>d l. \<not> claimed k d)"
  unfolding stable_def using respects_claimed by blast

lemma sending_pending: "sending vb mid jid ids d l \<Longrightarrow> pending mid d"
  by (simp add: sending_def)

lemma safe_if_ready: "ready vb mid fl d l \<Longrightarrow> safe vb d l"
  and safe_if_held: "held vb mid j d l \<Longrightarrow> safe vb d l"
  and safe_if_sending: "sending vb mid jid ids d l \<Longrightarrow> safe vb d l"
  by (simp_all add: ready_def held_def sending_def)

subsection \<open>Statements\<close>

definition retiring :: "(match_row \<Rightarrow> match_row) \<Rightarrow> bool" where
  "retiring f \<longleftrightarrow> (\<forall>x. ma_applied (f x) \<or> ma_resolution (f x) \<noteq> Approved)"

lemma unique_jobs_update:
  assumes "unique_jobs d" "jobs d' = update_where p f (jobs d)"
    and "\<And>j. jo_id (f j) = jo_id j \<and> jo_key (f j) = jo_key j"
  shows "unique_jobs d'"
  using assms(1) unfolding unique_jobs_def assms(2) set_update_where
  by (auto simp: assms(3))

lemma same_claim_update:
  assumes "jobs d' = update_where p f (jobs d)" "j \<in> set (jobs d)" "p j \<Longrightarrow> same_claim j (f j)"
  shows "\<exists>j' \<in> set (jobs d'). same_claim j j'"
  using update_where_member [OF assms(2), of p f] assms(1,3) same_claim_refl by (metis (full_types))

lemma safe_retire:
  assumes "safe vb d l" "settled (label_key mid) d l" "retiring f"
    and "matches d' = update_where (\<lambda>m. ma_id m = mid \<and> \<not> ma_applied m) f (matches d)"
    and "unique_jobs d'" "rules d' = rules d"
    and "\<And>j g. g \<in> set l \<Longrightarrow> gr_applied g \<Longrightarrow> j \<in> set (jobs d) \<Longrightarrow> jo_id j = gr_job g \<Longrightarrow>
      jo_ids j \<noteq> [] \<Longrightarrow> \<exists>j' \<in> set (jobs d'). same_claim j j'"
    and "set (undos d) \<subseteq> set (undos d')" "set (activity d) \<subseteq> set (activity d')"
  shows "safe vb d' l"
proof (rule safe_step [OF assms(1,5,6,7) _ _ assms(8,9)])
  fix m assume "m \<in> set (matches d')" "ma_resolution m = Approved" "\<not> ma_applied m"
  with assms(3) show "m \<in> set (matches d)"
    unfolding assms(4) set_update_where retiring_def by (auto split: if_splits)
next
  fix j g m
  assume g: "g \<in> set l" "gr_applied g" "j \<in> set (jobs d)" "jo_id j = gr_job g" "jo_status j \<noteq> JobDone"
    and m: "m \<in> set (matches d)" "jo_key j = ruleMatchLabelClaimKey m"
  then have "ma_id m \<noteq> mid"
    using assms(2) by (auto simp: settled_def ruleMatchLabelClaimKey_label)
  with m(1) show "m \<in> set (matches d')" unfolding assms(4) by (intro update_where_keeps) auto
qed

lemma safe_update_match:
  assumes "safe vb d l" "settled (label_key mid) d l" "retiring f"
  shows "safe vb (update_match mid f d) l"
proof (rule safe_retire [OF assms])
  show "unique_jobs (update_match mid f d)"
    using safe_unique_jobs [OF assms(1)] by (simp add: unique_jobs_def update_match_def)
qed (auto simp: update_match_def intro: bexI [of _ _] same_claim_refl)

lemma unsent_settled:
  assumes "safe vb d l" "present jid k d" "unsent jid l"
  shows "settled k d l"
  unfolding settled_def
proof (intro ballI impI)
  fix g j assume "g \<in> set l" "gr_applied g" and j: "j \<in> set (jobs d)" "jo_id j = gr_job g" "jo_key j = k"
  moreover obtain j' where "j' \<in> set (jobs d)" "jo_id j' = jid" "jo_key j' = k"
    using assms(2) by (auto simp: present_def)
  ultimately have "gr_job g = jid" using safe_unique [OF assms(1) j(1)] by metis
  with assms(3) \<open>g \<in> set l\<close> \<open>gr_applied g\<close> show "jo_status j = JobDone" by (auto simp: unsent_def)
qed

lemma empty_ids_unsent:
  assumes "safe vb d l" "j \<in> set (jobs d)" "jo_ids j = []"
  shows "unsent (jo_id j) l"
  unfolding unsent_def
proof (intro ballI impI notI)
  fix g assume "g \<in> set l" "gr_applied g" "gr_job g = jo_id j"
  from safe_accounted(1) [OF assms(1) this(1,2) assms(2)] this(3) assms(3) show False
    by (simp add: claim_accounts_def)
qed

lemma held_present: "held vb mid j d l \<Longrightarrow> present (jo_id j) (label_key mid) d"
  by (auto simp: held_def present_def)

lemma held_empty_settled: "held vb mid j d l \<Longrightarrow> jo_ids j = [] \<Longrightarrow> settled (label_key mid) d l"
  using unsent_settled [OF safe_if_held held_present] empty_ids_unsent unfolding held_def by blast

lemma done_settled:
  assumes "safe vb d l" "j \<in> set (jobs d)" "jo_key j = k" "jo_status j = JobDone"
  shows "settled k d l"
  using safe_unique [OF assms(1,2)] assms by (metis settled_def)

subsection \<open>The send guard\<close>

definition id_set_ok :: "job_row \<Rightarrow> ident list option \<Rightarrow> ident list \<Rightarrow> bool" where
  \<comment> \<open>persisted ids are reused, a fresh set is stored\<close>
  "id_set_ok j freshIds ids \<longleftrightarrow>
     ids \<noteq> [] \<and> (if jo_ids j = [] then freshIds = Some ids else freshIds = None \<and> ids = jo_ids j)"

definition first_error :: "(ident \<Rightarrow> autopilot_action) \<Rightarrow> ident \<Rightarrow> ident \<Rightarrow> bool \<Rightarrow> worker_error \<Rightarrow> assertion" where
  \<comment> \<open>what holds when the first request failed\<close>
  "first_error vb mid jid inFlight e d l \<longleftrightarrow>
     safe vb d l \<and> present jid (label_key mid) d \<and> (\<not> inFlight \<longrightarrow> e \<noteq> TransientError \<longrightarrow> unsent jid l)"

lemma mark_executing_fields [simp]:
  "jo_id (mark_executing i j) = jo_id j" "jo_key (mark_executing i j) = jo_key j"
  "jo_status (mark_executing i j) = Executing" "jo_undo (mark_executing i j) = jo_undo j"
  "jo_ids (mark_executing i j) = (case i of None \<Rightarrow> jo_ids j | Some ids \<Rightarrow> ids)"
  by (cases i; simp add: mark_executing_def)+

lemma live_of_pending:
  "pending mid d \<Longrightarrow> vb mid \<noteq> ActUnsubscribe \<Longrightarrow> live_match vb d (label_key mid)"
  by (auto simp: pending_def live_match_def ruleMatchLabelClaimKey_label)

lemma mark_unmarked: "mark_stmt jid mb k i fl d = Inr (False, d') \<Longrightarrow> d' = d"
  using update_where_id [of "jobs d" "markable jid mb k fl d" "mark_executing i"]
  by (auto simp: mark_stmt_def list_ex_iff)

lemma mark_marked:
  assumes held: "held vb mid j d l" and "jo_status j \<noteq> JobDone" "id_set_ok j i ids"
    and m: "mark_stmt (jo_id j) mb k i fl d = Inr (True, d')"
  shows "sending vb mid (jo_id j) ids d' l \<and> \<not> protectedSender d' mb k"
proof -
  let ?p = "markable (jo_id j) mb k fl d" and ?f = "mark_executing i"
  have safe: "safe vb d l" and j: "j \<in> set (jobs d)" "jo_key j = label_key mid"
    using held by (auto simp: held_def)
  have only: "j' = j" if "?p j'" "j' \<in> set (jobs d)" for j'
    using safe_unique [OF safe that(2) j(1)] that(1) by (simp add: markable_def)
  have d': "d' = d\<lparr>jobs := update_where ?p ?f (jobs d)\<rparr>" and ex: "list_ex ?p (jobs d)"
    using m by (auto simp: mark_stmt_def)
  then have pj: "?p j" using only by (auto simp: list_ex_iff)
  have "safe vb d' l"
  proof (rule safe_step [OF safe])
    show "unique_jobs d'"
      by (rule unique_jobs_update [OF safe_unique_jobs [OF safe], where p = ?p and f = ?f]) (simp_all add: d')
    show "\<exists>j' \<in> set (jobs d'). same_claim j0 j'" if "j0 \<in> set (jobs d)" "jo_ids j0 \<noteq> []" for j0
    proof (rule same_claim_update [where p = ?p and f = ?f, OF _ that(1)])
      assume "?p j0"
      with only that have "j0 = j" by blast
      with that assms(2,3) show "same_claim j0 (mark_executing i j0)"
        by (auto simp: same_claim_def id_set_ok_def)
    qed (simp add: d')
  qed (auto simp: d')
  moreover have "mark_executing i j \<in> set (jobs d')"
    using update_where_member [OF j(1), of ?p ?f] pj by (simp add: d')
  moreover have "jo_ids (mark_executing i j) = ids"
    using assms(3) by (auto simp: id_set_ok_def split: if_splits)
  moreover have "pending mid d'" using held by (simp add: held_def pending_def d')
  moreover have "\<not> protectedSender d' mb k"
    using pj by (simp add: markable_def protectedSender_def d')
  ultimately show ?thesis
    unfolding sending_def using j(2) by (auto intro!: bexI [of _ "mark_executing i j"])
qed

lemma held_first_error:
  "held vb mid j d l \<Longrightarrow> (\<not> fl \<longrightarrow> unsent (jo_id j) l) \<Longrightarrow> first_error vb mid (jo_id j) fl e d l"
  by (simp add: first_error_def safe_if_held held_present)

lemma spec_mark:
  assumes "jo_status j \<noteq> JobDone" "id_set_ok j i ids"
  shows "spec (respects_claims vb) (safe vb) (\<lambda>d l. held vb mid j d l \<and> (\<not> fl \<longrightarrow> unsent (jo_id j) l))
           (markClaimExecuting (jo_id j) mb k i fl)
           (\<lambda>_ d l. (sending vb mid (jo_id j) ids d l \<and> \<not> protectedSender d mb k) \<and>
                    (\<not> fl \<longrightarrow> unsent (jo_id j) l))
           (first_error vb mid (jo_id j) fl)"
  (is "spec (respects_claims vb) _ ?A _ ?Q ?E")
proof -
  have stA: "stable (respects_claims vb) ?A" by (intro stable_conj) simp_all
  have A: "safe vb d l \<and> ?E e d l" if "?A d l" for d l e
    using that safe_if_held held_present by (auto simp: first_error_def)
  show ?thesis
    unfolding markClaimExecuting_def
  proof (rule spec_bind [where Q = "\<lambda>b. if b then ?Q () else ?A"])
    show "spec (respects_claims vb) (safe vb) ?A (stmt (mark_stmt (jo_id j) mb k i fl)) (\<lambda>b. if b then ?Q () else ?A) ?E"
    proof (rule spec_stmt [OF stA])
      fix d l b d' assume a: "?A d l" and m: "mark_stmt (jo_id j) mb k i fl d = Inr (b, d')"
      show "(if b then ?Q () else ?A) d' l \<and> safe vb d' l \<and> ?E TransientError d' l"
      proof (cases b)
        case True
        with mark_marked [OF _ assms, of vb mid d l mb k fl d'] a m
        have q: "?Q () d' l" by simp
        then have "safe vb d' l" "present (jo_id j) (label_key mid) d'"
          by (auto simp: sending_def present_def)
        with q True show ?thesis by (simp add: first_error_def)
      next
        case False
        with mark_unmarked [of "jo_id j" mb k i fl d d'] m have "d' = d" by simp
        with a A [OF a] False show ?thesis by auto
      qed
    qed (use A in \<open>auto simp: mark_stmt_def\<close>)
    fix b
    show "spec (respects_claims vb) (safe vb) ((if b then ?Q () else ?A)) (if b then returnw ()
        else bindw (query (\<lambda>d. map_option jo_status (List.find (\<lambda>x. jo_id x = jo_id j) (jobs d))))
          (\<lambda>row. case row of None \<Rightarrow> throww ValidationError
             | Some st \<Rightarrow> if (if fl then st = JobDone \<or> st = JobFailed else st \<noteq> Queued)
                 then throww ClaimRetired else throww SenderProtectedAtSend)) ?Q ?E"
    proof (cases b)
      case True
      then show ?thesis by (auto intro: spec_return)
    next
      case False
      then show ?thesis
        by (auto intro!: spec_bind [where Q = "\<lambda>_. ?A"] spec_query stA spec_throw held_first_error
            simp: safe_if_held split: option.split)
    qed
  qed
qed

subsection \<open>Sending\<close>

definition ctx_ok :: "(ident \<Rightarrow> autopilot_action) \<Rightarrow> ident \<Rightarrow> send_ctx \<Rightarrow> bool" where
  "ctx_ok vb mid c \<longleftrightarrow>
     id_set_ok (sc_job c) (sc_fresh c) (sc_ids c) \<and> jo_status (sc_job c) \<noteq> JobDone \<and>
     vb mid \<noteq> ActUnsubscribe"

lemma safe_request:
  "safe vb d l \<Longrightarrow> \<not> gr_protected g \<Longrightarrow> (gr_applied g \<longrightarrow> accounted vb d g) \<Longrightarrow> safe vb d (l @ [g])"
  by (auto simp: safe_def)

lemma sending_accounts:
  assumes "sending vb mid jid ids d l" "vb mid \<noteq> ActUnsubscribe" "ids \<noteq> []" "set part \<subseteq> set ids"
  shows "accounted vb d (request_entry jid prot part ch d b)"
proof -
  obtain j where j: "j \<in> set (jobs d)" "jo_id j = jid" "jo_key j = label_key mid" "jo_ids j = ids"
    "jo_status j \<noteq> JobDone"
    using assms(1) by (auto simp: sending_def)
  moreover have "claim_accounts vb d j"
    using j assms(3) live_of_pending [where vb = vb, OF sending_pending [OF assms(1)] assms(2)]
    by (simp add: claim_accounts_def)
  ultimately show ?thesis
    unfolding accounted_def using assms(4) by (intro bexI [of _ j]) (simp_all add: request_entry_def claim_jobs_def)
qed

lemma sending_request:
  assumes "sending vb mid jid ids d l" "\<not> prot d" "vb mid \<noteq> ActUnsubscribe" "ids \<noteq> []" "set part \<subseteq> set ids"
  shows "sending vb mid jid ids d (l @ [request_entry jid prot part ch d b])"
proof -
  have "safe vb d (l @ [request_entry jid prot part ch d b])"
  proof (rule safe_request [OF safe_if_sending [OF assms(1)]])
    show "\<not> gr_protected (request_entry jid prot part ch d b)"
      using assms(2) by (simp add: request_entry_def)
  qed (use sending_accounts [OF assms(1,3,4,5)] in blast)
  with assms(1) show ?thesis by (simp add: sending_def)
qed

lemma sending_present: "sending vb mid jid ids d l \<Longrightarrow> present jid (label_key mid) d"
  by (auto simp: sending_def present_def)

lemma unsent_refused: "unsent jid l \<Longrightarrow> unsent jid (l @ [request_entry jid prot part ch d False])"
  by (auto simp: unsent_def request_entry_def)

lemma spec_first_chunk:
  assumes c: "ctx_ok vb mid c" and part: "set part \<subseteq> set (sc_ids c)"
  shows "spec (respects_claims vb) (safe vb)
      (\<lambda>d l. held vb mid (sc_job c) d l \<and> (\<not> sc_in_flight c \<longrightarrow> unsent (jo_id (sc_job c)) l))
      (send_chunk c True part)
      (\<lambda>_. sending vb mid (jo_id (sc_job c)) (sc_ids c))
      (first_error vb mid (jo_id (sc_job c)) (sc_in_flight c))"
    (is "spec (respects_claims vb) _ ?A _ ?Q ?E")
proof -
  let ?jid = "jo_id (sc_job c)" and ?prot = "\<lambda>d. protectedSender d (sc_mailbox c) (sc_key c)"
  let ?H = "\<lambda>d l. (sending vb mid ?jid (sc_ids c) d l \<and> \<not> ?prot d) \<and> (\<not> sc_in_flight c \<longrightarrow> unsent ?jid l)"
  have ne: "sc_ids c \<noteq> []" and vb: "vb mid \<noteq> ActUnsubscribe"
    using c by (auto simp: ctx_ok_def id_set_ok_def)
  have req: "sending vb mid ?jid (sc_ids c) d (l @ [request_entry ?jid ?prot part (sc_change c) d b])"
    if "?H d l" for d l b
    using sending_request [where prot = ?prot and part = part] vb ne part that by blast
  have hook: "spec (respects_claims vb) (safe vb) ?A (chunk_hook c True) (\<lambda>_. ?H) ?E"
    using spec_mark [of "sc_job c" "sc_fresh c" "sc_ids c" vb mid "sc_in_flight c" "sc_mailbox c" "sc_key c"] c
    by (simp add: ctx_ok_def chunk_hook_def)
  have "spec (respects_claims vb) (safe vb) ?A (batchModify ?jid ?prot part (sc_change c) (chunk_hook c True))
      (\<lambda>ran d l. ran \<noteq> None \<and> sending vb mid ?jid (sc_ids c) d l) ?E"
  proof (rule spec_batch [OF hook])
    fix e d l assume "?A d l" then show "?E e d l" using held_first_error by blast
  next
    fix h d l assume "?H d l"
    from req [OF this] show "Some h \<noteq> None \<and> sending vb mid ?jid (sc_ids c) d
        (l @ [request_entry ?jid ?prot part (sc_change c) d True])" by simp
  next
    fix h e d l assume "?H d l"
    with req [OF this, of False] unsent_refused show "?E e d
        (l @ [request_entry ?jid ?prot part (sc_change c) d False])"
      by (simp add: first_error_def safe_if_sending sending_present)
  next
    fix h b d l assume "?H d l"
    from req [OF this, of b] show "?E TransientError d (l @ [request_entry ?jid ?prot part (sc_change c) d b])"
      "safe vb d (l @ [request_entry ?jid ?prot part (sc_change c) d b])"
      by (simp_all add: first_error_def safe_if_sending sending_present)
  qed
  then show ?thesis
    unfolding send_chunk_def
    by (rule spec_bind) (simp add: spec_def returnw_def)
qed

lemma spec_later_chunk:
  assumes c: "ctx_ok vb mid c" and part: "set part \<subseteq> set (sc_ids c)"
  shows "spec (respects_claims vb) (safe vb) (sending vb mid (jo_id (sc_job c)) (sc_ids c)) (send_chunk c False part)
      (\<lambda>_. sending vb mid (jo_id (sc_job c)) (sc_ids c)) (\<lambda>_. safe vb)"
    (is "spec (respects_claims vb) _ ?A _ ?Q ?E")
proof -
  let ?jid = "jo_id (sc_job c)" and ?prot = "\<lambda>d. protectedSender d (sc_mailbox c) (sc_key c)"
  have ne: "sc_ids c \<noteq> []" and vb: "vb mid \<noteq> ActUnsubscribe"
    using c by (auto simp: ctx_ok_def id_set_ok_def)
  have req: "?A d (l @ [request_entry ?jid ?prot part (sc_change c) d b])" if "?A d l \<and> \<not> ?prot d" for d l b
    using sending_request [where prot = ?prot and part = part] vb ne part that by blast
  have hook: "spec (respects_claims vb) (safe vb) ?A (chunk_hook c False) (\<lambda>_ d l. ?A d l \<and> \<not> ?prot d) ?E"
    unfolding chunk_hook_def assertSenderNotProtected_def
    by (simp, rule spec_bind [where Q = "\<lambda>p d l. ?A d l \<and> p = ?prot d"])
      (auto intro!: spec_query spec_throw spec_return simp: safe_if_sending)
  have "spec (respects_claims vb) (safe vb) ?A (batchModify ?jid ?prot part (sc_change c) (chunk_hook c False)) (\<lambda>_. ?A) ?E"
    by (rule spec_batch [OF hook]) (use req safe_if_sending in blast)+
  then show ?thesis
    unfolding send_chunk_def by (rule spec_bind) (simp add: spec_return)
qed

subsection \<open>The terminal transaction\<close>

lemma scheduleLaterReturn_frame [simp]:
  "jobs (scheduleLaterReturn mb k w t b d) = jobs d" "matches (scheduleLaterReturn mb k w t b d) = matches d"
  "rules (scheduleLaterReturn mb k w t b d) = rules d" "undos (scheduleLaterReturn mb k w t b d) = undos d"
  "activity (scheduleLaterReturn mb k w t b d) = activity d"
  by (simp_all add: scheduleLaterReturn_def)

lemma terminal_fields:
  "jobs (terminal_tx token aid ex t c m now d) =
     update_where (\<lambda>j. jo_id j = jo_id (sc_job c)) (finish_job token (sc_ids c)) (jobs d)"
  "matches (terminal_tx token aid ex t c m now d) =
     update_where (\<lambda>x. ma_id x = em_id m \<and> \<not> ma_applied x)
       (\<lambda>x. x\<lparr>ma_applied := True, ma_token := Some token, ma_resolved_at := Some now\<rparr>) (matches d)"
  "rules (terminal_tx token aid ex t c m now d) = rules d"
  "undos (terminal_tx token aid ex t c m now d) =
     undos d @ [\<lparr>un_token = token, un_mailbox = sc_mailbox c, un_kind = sc_verb c, un_ids = sc_ids c,
                 un_expires = ex, un_inbox = None, un_unknown = False, un_all_mail = False, un_created = db_now d,
                 un_executed = None, un_reverted = None\<rparr>]"
  "activity (terminal_tx token aid ex t c m now d) =
     activity d @ [activity_entry aid (sc_mailbox c) m (verb_name (sc_verb c)) (length (sc_ids c))
                    (Some token) (db_now d)]"
  by (simp_all add: terminal_tx_def Let_def mirror_mail_def update_job_def update_match_def
      invalidateInboxReportCache_def split: option.split)

lemma finish_job_fields [simp]:
  "jo_id (finish_job t ids j) = jo_id j" "jo_key (finish_job t ids j) = jo_key j"
  "jo_status (finish_job t ids j) = JobDone" "jo_ids (finish_job t ids j) = ids"
  "jo_undo (finish_job t ids j) = Some t"
  by (simp_all add: finish_job_def)

lemma terminal_safe:
  assumes "sending vb (em_id m) (jo_id (sc_job c)) (sc_ids c) d l" "sc_ids c \<noteq> []"
  shows "safe vb (terminal_tx token aid ex t c m now d) l"
proof -
  let ?d' = "terminal_tx token aid ex t c m now d" and ?jid = "jo_id (sc_job c)"
  let ?p = "\<lambda>j. jo_id j = ?jid" and ?f = "finish_job token (sc_ids c)"
  note safe = safe_if_sending [OF assms(1)]
  obtain own where own: "own \<in> set (jobs d)" "jo_id own = ?jid" "jo_key own = label_key (em_id m)"
    "jo_ids own = sc_ids c"
    using assms(1) by (auto simp: sending_def)
  have "accounted vb ?d' g" if g: "g \<in> set l" "gr_applied g" for g
  proof -
    obtain j where j: "j \<in> set (jobs d)" "jo_id j = gr_job g" "set (gr_ids g) \<subseteq> set (jo_ids j)"
      "claim_accounts vb d j" and key: "is_claim_key (jo_key j)"
      using safe g unfolding safe_def accounted_def claim_jobs_def by blast
    let ?j' = "if ?p j then ?f j else j"
    have mem: "?j' \<in> set (jobs ?d')" unfolding terminal_fields by (rule update_where_member [OF j(1)])
    have "claim_accounts vb ?d' ?j'"
    proof (cases "?p j")
      case True
      then show ?thesis
        using assms(2) by (simp add: claim_accounts_def recorded_def terminal_fields activity_entry_def)
    next
      case False
      have "jo_key j \<noteq> label_key (em_id m)"
        using safe_unique [OF safe j(1) own(1)] own False by metis
      then have keep: "x \<in> set (matches ?d')" if "x \<in> set (matches d)" "ruleMatchLabelClaimKey x = jo_key j" for x
        using that by (auto simp: terminal_fields ruleMatchLabelClaimKey_label intro!: update_where_keeps)
      have "claim_accounts vb ?d' j"
        by (rule claim_accounts_step [OF j(4) _ facts_mono(1) facts_mono(2)])
          (simp_all add: keep, simp_all add: terminal_fields subset_iff)
      with False show ?thesis by simp
    qed
    moreover have "jo_ids ?j' = jo_ids j"
      using safe_unique [OF safe j(1) own(1)] own by (cases "?p j") auto
    moreover have "?j' \<in> claim_jobs ?d'" using mem key by (simp add: claim_jobs_def)
    ultimately show ?thesis
      using j unfolding accounted_def by (intro bexI [of _ ?j']) auto
  qed
  moreover have "unique_jobs ?d'"
    by (rule unique_jobs_update [OF safe_unique_jobs [OF safe], where p = ?p and f = ?f])
      (simp_all add: terminal_fields)
  moreover have "verbs_ok vb ?d'"
    using safe by (auto simp: safe_def verbs_ok_def rule_verb_def terminal_fields set_update_where)
  ultimately show ?thesis using safe by (auto simp: safe_def)
qed

subsection \<open>Executing a label action\<close>

lemma sending_frame:
  assumes "sending vb mid jid ids d l" "jobs d' = jobs d" "matches d' = matches d" "rules d' = rules d"
    "undos d' = undos d" "activity d' = activity d"
  shows "sending vb mid jid ids d' l"
  using assms(1) safe_frame [OF safe_if_sending [OF assms(1)] assms(2,3,4)] assms(2-)
  by (simp add: sending_def pending_def)

lemma spec_first_landed:
  "spec (respects_claims vb) (safe vb) (sending vb mid jid ids) (first_landed c) (\<lambda>_. sending vb mid jid ids) (\<lambda>_. safe vb)"
  unfolding first_landed_def
  by (auto intro!: spec_return spec_bind [where Q = "\<lambda>_. sending vb mid jid ids"] spec_clock spec_exec
      elim: sending_frame simp: safe_if_sending intro: sending_frame [THEN safe_if_sending] split: option.split)

definition chunks_post :: "(ident \<Rightarrow> autopilot_action) \<Rightarrow> ident \<Rightarrow> send_ctx \<Rightarrow> worker_error option \<times> nat \<Rightarrow> assertion"
where
  "chunks_post vb mid c r d l \<longleftrightarrow>
     (case fst r of
        None \<Rightarrow> sending vb mid (jo_id (sc_job c)) (sc_ids c) d l
      | Some e \<Rightarrow> safe vb d l \<and> (snd r = 0 \<longrightarrow> first_error vb mid (jo_id (sc_job c)) (sc_in_flight c) e d l))"

lemma chunks_post_late: "safe vb d l \<Longrightarrow> 0 < n \<Longrightarrow> chunks_post vb mid c (Some e, n) d l"
  by (simp add: chunks_post_def)

lemma spec_tail_chunks:
  assumes "ctx_ok vb mid c" "\<And>x. x \<in> set xs \<Longrightarrow> set x \<subseteq> set (sc_ids c)" "0 < n"
  shows "spec (respects_claims vb) (safe vb) (sending vb mid (jo_id (sc_job c)) (sc_ids c)) (send_chunks c xs n)
           (chunks_post vb mid c) (\<lambda>_. safe vb)"
  using assms
proof (induction xs arbitrary: n)
  case Nil
  then show ?case by (auto intro!: spec_return simp: chunks_post_def)
next
  case (Cons x xs)
  let ?A = "sending vb mid (jo_id (sc_job c)) (sc_ids c)"
  have first: "spec (respects_claims vb) (safe vb) ?A (tryw (send_chunk c False x))
      (\<lambda>r. case r of Inl e \<Rightarrow> safe vb | Inr a \<Rightarrow> ?A) (\<lambda>_. safe vb)"
    by (rule spec_try) (rule spec_later_chunk, use Cons.prems in auto)
  have rest: "spec (respects_claims vb) (safe vb) ?A (send_chunks c xs (Suc n)) (chunks_post vb mid c) (\<lambda>_. safe vb)"
    using Cons by auto
  show ?case
    unfolding send_chunks.simps using Cons.prems(3)
    by (auto intro!: spec_bind [OF first] spec_return chunks_post_late rest
        spec_bind [where Q = "\<lambda>r d l. r = Inr () \<and> ?A d l"] split: sum.split)
qed

lemma spec_chunks:
  assumes c: "ctx_ok vb mid c"
  shows "spec (respects_claims vb) (safe vb)
      (\<lambda>d l. held vb mid (sc_job c) d l \<and> (\<not> sc_in_flight c \<longrightarrow> unsent (jo_id (sc_job c)) l))
      (send_chunks c (chunks gmail_batch_modify_max_ids (sc_ids c)) 0) (chunks_post vb mid c) (\<lambda>_. safe vb)"
    (is "spec (respects_claims vb) _ ?A _ _ _")
proof -
  let ?S = "sending vb mid (jo_id (sc_job c)) (sc_ids c)"
  let ?F = "first_error vb mid (jo_id (sc_job c)) (sc_in_flight c)"
  have pos: "0 < gmail_batch_modify_max_ids" by (simp add: gmail_batch_modify_max_ids_def)
  have "sc_ids c \<noteq> []" using c by (auto simp: ctx_ok_def id_set_ok_def)
  then obtain x xs where xs: "chunks gmail_batch_modify_max_ids (sc_ids c) = x # xs"
    using pos by (simp add: chunks.simps)
  have part: "set y \<subseteq> set (sc_ids c)" if "y \<in> set (x # xs)" for y
    using chunks_subset [OF pos, of y "sc_ids c"] that by (simp add: xs)
  have first: "spec (respects_claims vb) (safe vb) ?A (tryw (send_chunk c True x))
      (\<lambda>r. case r of Inl e \<Rightarrow> ?F e | Inr a \<Rightarrow> ?S) (\<lambda>_. safe vb)"
    by (rule spec_try) (rule spec_first_chunk [OF c part], simp)
  have landed: "spec (respects_claims vb) (safe vb) ?S (tryw (first_landed c))
      (\<lambda>r. case r of Inl e \<Rightarrow> safe vb | Inr a \<Rightarrow> ?S) (\<lambda>_. safe vb)"
    by (rule spec_try) (rule spec_first_landed)
  have rest: "spec (respects_claims vb) (safe vb) ?S (send_chunks c xs (Suc 0)) (chunks_post vb mid c) (\<lambda>_. safe vb)"
    by (rule spec_tail_chunks [OF c]) (use part in auto)
  have post: "chunks_post vb mid c (Some e, 0) d l" if "?F e d l" for e d l
    using that by (simp add: chunks_post_def first_error_def)
  show ?thesis
    unfolding xs send_chunks.simps
    by (auto intro!: spec_bind [OF first] spec_bind [OF landed] spec_return chunks_post_late post rest
        split: sum.split)
qed

lemma retiring_dismiss:
  "retiring (\<lambda>m. m\<lparr>ma_resolution := Dismissed, ma_resolved_at := t, ma_dismiss := r\<rparr>)"
  by (simp add: retiring_def)

lemma retiring_apply: "retiring (\<lambda>m. m\<lparr>ma_applied := True, ma_token := t, ma_resolved_at := r\<rparr>)"
  "retiring (\<lambda>m. m\<lparr>ma_applied := True, ma_resolved_at := r\<rparr>)"
  by (simp_all add: retiring_def)

lemmas retiring_intros = retiring_dismiss retiring_apply

lemma stable_settled: "stable (respects_claims vb) (\<lambda>d l. safe vb d l \<and> settled k d l)"
  unfolding stable_def using respects_safe settled_stable by blast

lemma spec_update_match:
  assumes "retiring f"
  shows "spec (respects_claims vb) (safe vb) (\<lambda>d l. safe vb d l \<and> settled (label_key mid) d l) (exec (update_match mid f))
           (\<lambda>_. safe vb) (\<lambda>_. safe vb)"
  by (rule spec_exec [OF stable_settled]) (use safe_update_match [OF _ _ assms] in auto)

lemma put_back_safe:
  assumes "safe vb d l" "unsent jid l"
  shows "safe vb (put_back jid d) l"
proof (rule safe_step [OF assms(1)])
  let ?p = "\<lambda>j. jo_id j = jid \<and> jo_status j = Executing"
  let ?f = "\<lambda>j. j\<lparr>jo_status := Queued, jo_ids := [], jo_requested := 0\<rparr>"
  have js: "jobs (put_back jid d) = update_where ?p ?f (jobs d)" by (simp add: put_back_def)
  show "unique_jobs (put_back jid d)"
    by (rule unique_jobs_update [OF safe_unique_jobs [OF assms(1)] js]) simp
  show "\<exists>j' \<in> set (jobs (put_back jid d)). same_claim j j'"
    if "g \<in> set l" "gr_applied g" "j \<in> set (jobs d)" "jo_id j = gr_job g" for j g
    using that assms(2) by (intro same_claim_update [OF js]) (auto simp: unsent_def)
qed (simp_all add: put_back_def)

lemma stable_unsent: "is_claim_key k \<Longrightarrow> stable (respects_claims vb) (\<lambda>d l. safe vb d l \<and> present jid k d \<and> unsent jid l)"
  by (intro stable_conj stable_safe stable_present stable_pure)

lemma spec_send_failed:
  "spec (respects_claims vb) (safe vb) (chunks_post vb mid c (Some e, n)) (send_failed c mid now n e) (\<lambda>_. safe vb) (\<lambda>_. safe vb)"
proof -
  let ?jid = "jo_id (sc_job c)"
  have start: "safe vb d l \<and> present ?jid (label_key mid) d \<and> unsent ?jid l"
    if "chunks_post vb mid c (Some e, 0) d l" "\<not> sc_in_flight c" "e \<noteq> TransientError" for d l e
    using that by (simp add: chunks_post_def first_error_def)
  have safe: "safe vb d l" if "chunks_post vb mid c (Some e, k) d l" for d l e k
    using that by (simp add: chunks_post_def)
  have dismiss: "spec (respects_claims vb) (safe vb) (chunks_post vb mid c (Some e, 0)) (dismissShieldedMatch mid now)
      (\<lambda>_. safe vb) (\<lambda>_. safe vb)" if "\<not> sc_in_flight c" "e \<noteq> TransientError" for e
    unfolding dismissShieldedMatch_def
    by (rule spec_weaken [OF spec_update_match [OF retiring_dismiss]])
      (use start that unsent_settled in blast)+
  have reset: "spec (respects_claims vb) (safe vb) (chunks_post vb mid c (Some e, 0)) (exec (put_back ?jid))
      (\<lambda>_. safe vb) (\<lambda>_. safe vb)" if "\<not> sc_in_flight c" "e \<noteq> TransientError" for e
    by (rule spec_weaken [where A = "\<lambda>d l. safe vb d l \<and> present ?jid (label_key mid) d \<and> unsent ?jid l"])
      (auto intro!: spec_exec stable_unsent put_back_safe dest: start simp: that)
  show ?thesis
    unfolding send_failed_def
    by (auto intro!: spec_bind [where Q = "\<lambda>_. safe vb"] spec_return spec_throw dismiss reset
        elim: safe simp: safe)
qed

lemma spec_undoExpiresAt:
  assumes "stable (respects_claims vb) A" "\<And>d l. A d l \<Longrightarrow> safe vb d l"
  shows "spec (respects_claims vb) (safe vb) A (undoExpiresAt mb) (\<lambda>_. A) (\<lambda>_. safe vb)"
  unfolding undoExpiresAt_def
  by (auto intro!: spec_bind [where Q = "\<lambda>_. A"] spec_query spec_clock spec_return simp: assms)

lemma spec_send_and_finish:
  assumes c: "ctx_ok vb (em_id m) c"
  shows "spec (respects_claims vb) (safe vb)
      (\<lambda>d l. held vb (em_id m) (sc_job c) d l \<and> (\<not> sc_in_flight c \<longrightarrow> unsent (jo_id (sc_job c)) l))
      (send_and_finish c m now) (\<lambda>_. safe vb) (\<lambda>_. safe vb)"
proof -
  let ?S = "sending vb (em_id m) (jo_id (sc_job c)) (sc_ids c)"
  have ne: "sc_ids c \<noteq> []" using c by (auto simp: ctx_ok_def id_set_ok_def)
  have none: "?S d l" if "chunks_post vb (em_id m) c (None, n) d l" for d l n
    using that by (simp add: chunks_post_def)
  have finish: "spec (respects_claims vb) (safe vb) ?S
      (bindw clock (\<lambda>t. bindw (undoExpiresAt (sc_mailbox c)) (\<lambda>ex. bindw fresh_id (\<lambda>token. bindw fresh_id (\<lambda>aid.
         bindw (exec (terminal_tx token aid ex t c m now)) (\<lambda>_. returnw LExecuted))))))
      (\<lambda>_. safe vb) (\<lambda>_. safe vb)"
    by (intro spec_bind [where Q = "\<lambda>_. ?S"] spec_clock spec_undoExpiresAt spec_fresh
        spec_bind [where Q = "\<lambda>_. safe vb"] spec_exec spec_return)
      (simp_all add: safe_if_sending terminal_safe ne)
  have rest: "spec (respects_claims vb) (safe vb) (chunks_post vb (em_id m) c r)
      (case r of (Some e, landed) \<Rightarrow> send_failed c (em_id m) now landed e
       | (None, _) \<Rightarrow>
           bindw clock (\<lambda>t. bindw (undoExpiresAt (sc_mailbox c)) (\<lambda>ex. bindw fresh_id (\<lambda>token. bindw fresh_id (\<lambda>aid.
             bindw (exec (terminal_tx token aid ex t c m now)) (\<lambda>_. returnw LExecuted))))))
      (\<lambda>_. safe vb) (\<lambda>_. safe vb)" for r
  proof (cases r)
    case (Pair x n)
    show ?thesis
    proof (cases x)
      case None
      show ?thesis unfolding Pair None prod.case option.case by (rule spec_weaken [OF finish none])
    next
      case (Some e)
      show ?thesis unfolding Pair Some prod.case option.case by (rule spec_send_failed)
    qed
  qed
  show ?thesis
    unfolding send_and_finish_def by (rule spec_bind [OF spec_chunks [OF c] rest])
qed

lemma zero_safe:
  assumes "held vb (em_id m) j d l" "jo_ids j = []"
  shows "safe vb (zero_tx aid (jo_id j) m mb now d) l"
proof (rule safe_retire [where mid = "em_id m"
      and f = "\<lambda>x. x\<lparr>ma_applied := True, ma_resolved_at := Some now\<rparr>"])
  let ?d' = "zero_tx aid (jo_id j) m mb now d"
  let ?p = "\<lambda>x. jo_id x = jo_id j" and ?f = "\<lambda>x. x\<lparr>jo_status := JobDone, jo_affected := 0\<rparr>"
  show safe: "safe vb d l" using assms(1) by (rule safe_if_held)
  show "settled (label_key (em_id m)) d l" using held_empty_settled [OF assms] .
  have js: "jobs ?d' = update_where ?p ?f (jobs d)"
    by (simp add: zero_tx_def update_match_def update_job_def)
  show "unique_jobs ?d'" by (rule unique_jobs_update [OF safe_unique_jobs [OF safe] js]) simp
  show "\<exists>j' \<in> set (jobs ?d'). same_claim j0 j'"
    if "j0 \<in> set (jobs d)" "jo_ids j0 \<noteq> []" for j0
  proof (rule same_claim_update [OF js that(1)])
    assume "jo_id j0 = jo_id j"
    then have "j0 = j" using safe_unique [OF safe that(1)] assms(1) by (auto simp: held_def)
    with that assms(2) show "same_claim j0 (?f j0)" by simp
  qed
qed (simp_all add: zero_tx_def update_match_def update_job_def retiring_intros subset_iff)

lemma spec_ensure_labels:
  assumes "\<And>d l. A d l \<Longrightarrow> safe vb d l"
  shows "spec (respects_claims vb) (safe vb) A (ensure_labels ch) (\<lambda>_. A) (\<lambda>_. safe vb)"
  unfolding ensure_labels_def
  by (rule spec_bind [where Q = "\<lambda>_. A"], rule spec_foreach [where I = "\<lambda>_. A"])
    (auto intro!: spec_ask spec_call spec_return assms)

lemma not_in_flight_empty: "\<not> claimIsInFlight j \<Longrightarrow> jo_status j \<noteq> JobDone \<Longrightarrow> jo_ids j = []"
  by (auto simp: claimIsInFlight_def)

lemma spec_run_claim:
  assumes st: "jo_status j \<noteq> JobDone" and vb: "vb (em_id m) \<noteq> ActUnsubscribe"
  shows "spec (respects_claims vb) (safe vb) (held vb (em_id m) j) (run_claim mb j m now) (\<lambda>_. safe vb) (\<lambda>_. safe vb)"
proof -
  let ?H = "held vb (em_id m) j"
  let ?Q = "\<lambda>ids d l. ?H d l \<and> (jo_ids j \<noteq> [] \<longrightarrow> ids = jo_ids j)"
  have unsent: "unsent (jo_id j) l" if "?H d l" "\<not> claimIsInFlight j" for d l
    using that empty_ids_unsent [of vb d l j] not_in_flight_empty [OF that(2) st] by (simp add: held_def)
  have ids: "spec (respects_claims vb) (safe vb) ?H (if jo_ids j \<noteq> [] then returnw (jo_ids j) else resolveSenderInboxIds mb (em_key m))
      ?Q (\<lambda>_. safe vb)"
    by (auto intro!: spec_return spec_query simp: resolveSenderInboxIds_def safe_if_held)
  have empty: "spec (respects_claims vb) (safe vb) ?H (finish_nothing mb j m now) (\<lambda>_. safe vb) (\<lambda>_. safe vb)" if "jo_ids j = []"
    unfolding finish_nothing_def
    by (intro spec_bind [where Q = "\<lambda>_. ?H"] spec_fresh spec_exec) (simp_all add: safe_if_held zero_safe that)
  have send: "spec (respects_claims vb) (safe vb) ?H
      (send_and_finish
         \<lparr>sc_mailbox = mb, sc_key = em_key m, sc_job = j, sc_verb = v, sc_ids = is,
          sc_fresh = (if jo_ids j = [] then Some is else None), sc_in_flight = claimIsInFlight j,
          sc_change = ch\<rparr> m now)
      (\<lambda>_. safe vb) (\<lambda>_. safe vb)" if "is \<noteq> []" "jo_ids j \<noteq> [] \<longrightarrow> is = jo_ids j" for v "is" ch
    by (rule spec_weaken [OF spec_send_and_finish])
      (use that st vb unsent in \<open>auto simp: ctx_ok_def id_set_ok_def\<close>)
  show ?thesis
    unfolding run_claim_def
  proof (rule spec_bind [OF ids])
    fix "is"
    show "spec (respects_claims vb) (safe vb) (?Q is)
       (if is = [] then bindw (finish_nothing mb j m now) (\<lambda>_. returnw LExecuted)
       else bindw (port_call no_effect) (\<lambda>_.
         case labelChangeForVerb (label_verb (em_action m)) of
           None \<Rightarrow> throww ValidationError
         | Some p \<Rightarrow> bindw (ensure_labels (forwardChange p)) (\<lambda>ensure.
               send_and_finish
                 \<lparr>sc_mailbox = mb, sc_key = em_key m, sc_job = j, sc_verb = label_verb (em_action m),
                  sc_ids = is, sc_fresh = (if jo_ids j = [] then Some is else None),
                  sc_in_flight = claimIsInFlight j,
                  sc_change = resolveLabelChange ensure (forwardChange p)\<rparr> m now)))
       (\<lambda>_. safe vb) (\<lambda>_. safe vb)"
    proof (cases "jo_ids j \<noteq> [] \<longrightarrow> is = jo_ids j")
      case True
      show ?thesis
      proof (cases "is = []")
        case isn: True
        with True have e: "jo_ids j = []" by auto
        have "spec (respects_claims vb) (safe vb) ?H (bindw (finish_nothing mb j m now) (\<lambda>_. returnw LExecuted))
            (\<lambda>_. safe vb) (\<lambda>_. safe vb)"
          by (rule spec_bind [where Q = "\<lambda>_. safe vb"]) (rule empty [OF e], simp add: spec_return)
        with isn True show ?thesis by simp
      next
        case False
        show ?thesis
          using False True send [OF False True]
          by (auto intro!: spec_bind [where Q = "\<lambda>_. ?H"] spec_call spec_ensure_labels spec_throw
              simp: safe_if_held split: option.split)
      qed
    qed (simp add: spec_def)
  qed
qed

lemma job_by_key_Some: "job_by_key d k = Some j \<Longrightarrow> j \<in> set (jobs d) \<and> jo_key j = k"
  unfolding job_by_key_def by (drule find_SomeD) simp

lemma job_by_key_None: "job_by_key d k = None \<longleftrightarrow> \<not> claimed k d"
  unfolding job_by_key_def claimed_def by (auto simp: find_None_iff)

definition unclaimed :: "(ident \<Rightarrow> autopilot_action) \<Rightarrow> ident \<Rightarrow> assertion" where
  "unclaimed vb mid d l \<longleftrightarrow> safe vb d l \<and> \<not> claimed (label_key mid) d"

lemma stable_unclaimed: "stable (respects_claims vb) (unclaimed vb mid)"
  unfolding unclaimed_def [abs_def] by (intro stable_conj stable_safe stable_free label_key_claim)

lemma matchStillCurrent_pending: "matchStillCurrent mid d \<Longrightarrow> pending mid d"
  by (auto simp: matchStillCurrent_def pending_def list_ex_iff ruleMatchIsQueuedAction_def)

lemma insert_job_new:
  assumes "insert_job j d = Inr d'" "\<not> claimed (jo_key j) d" "unique_jobs d"
  shows "d' = d\<lparr>jobs := jobs d @ [j]\<rparr> \<and> unique_jobs d'"
proof -
  have "d' = d\<lparr>jobs := jobs d @ [j]\<rparr>" and id: "\<And>x. x \<in> set (jobs d) \<Longrightarrow> jo_id x \<noteq> jo_id j"
    using assms(1,2) by (auto simp: insert_job_def claimed_def list_ex_iff split: if_splits)
  moreover have "jo_key x \<noteq> jo_key j" if "x \<in> set (jobs d)" for x
    using assms(2) that by (auto simp: claimed_def)
  ultimately show ?thesis using assms(3) unfolding unique_jobs_def by (auto dest: id [symmetric]) metis+
qed

lemma claim_tx_held:
  assumes "unclaimed vb mid d l" "claim_tx mid j d = Inr (True, d')" "jo_key j = label_key mid"
  shows "held vb mid j d' l"
proof -
  have safe: "safe vb d l" using assms(1) by (simp add: unclaimed_def)
  have cur: "matchStillCurrent mid d" and ins: "insert_job j d = Inr d'"
    using assms(2) by (auto simp: claim_tx_def split: if_splits sum.splits)
  have d': "d' = d\<lparr>jobs := jobs d @ [j]\<rparr>" and u: "unique_jobs d'"
    using insert_job_new [OF ins] assms(1,3) safe_unique_jobs [OF safe] by (auto simp: unclaimed_def)
  have "safe vb d' l"
    by (rule safe_step [OF safe u]) (auto simp: d' intro: same_claim_refl)
  moreover have "pending mid d'" using matchStillCurrent_pending [OF cur] by (simp add: pending_def d')
  ultimately show ?thesis using assms(3) by (simp add: held_def d')
qed

lemma claim_tx_stale: "claim_tx mid j d = Inr (False, d') \<Longrightarrow> d' = d"
  by (auto simp: claim_tx_def split: if_splits sum.splits)

definition fresh_claim :: "(ident \<Rightarrow> autopilot_action) \<Rightarrow> ident \<Rightarrow> job_row option \<Rightarrow> assertion" where
  "fresh_claim vb mid job d l \<longleftrightarrow>
     safe vb d l \<and> (\<forall>j. job = Some j \<longrightarrow> held vb mid j d l \<and> jo_status j \<noteq> JobDone)"

lemma spec_claim_job:
  assumes key: "claimKey m = label_key (em_id m)"
  shows "spec (respects_claims vb) (safe vb) (unclaimed vb (em_id m)) (claim_job mb m now) (fresh_claim vb (em_id m)) (\<lambda>_. safe vb)"
proof (cases "em_sender m")
  case None
  then show ?thesis by (auto intro!: spec_throw simp: claim_job_def unclaimed_def)
next
  case (Some sid)
  let ?U = "unclaimed vb (em_id m)"
  have un: "safe vb d l" if "?U d l" for d l using that by (simp add: unclaimed_def)
  have tx: "spec (respects_claims vb) (safe vb) ?U (stmt (claim_tx (em_id m) (new_claim jid mb sid m now)))
      (\<lambda>c. if c then held vb (em_id m) (new_claim jid mb sid m now) else safe vb) (\<lambda>_. safe vb)" for jid
  proof (rule spec_stmt [OF stable_unclaimed])
    fix d l c d' assume u: "?U d l" and tx: "claim_tx (em_id m) (new_claim jid mb sid m now) d = Inr (c, d')"
    have "jo_key (new_claim jid mb sid m now) = label_key (em_id m)" by (simp add: new_claim_def key)
    with claim_tx_held [OF u] claim_tx_stale [of "em_id m" "new_claim jid mb sid m now" d d'] tx un [OF u]
    show "(if c then held vb (em_id m) (new_claim jid mb sid m now) else safe vb) d' l \<and> safe vb d' l \<and> safe vb d' l"
      by (cases c) (auto dest: safe_if_held)
  qed (use un in auto)
  have found: "spec (respects_claims vb) (safe vb) (held vb (em_id m) (new_claim jid mb sid m now)) (find_claim (claimKey m))
      (\<lambda>job d l. held vb (em_id m) (new_claim jid mb sid m now) d l \<and>
         (\<forall>j. job = Some j \<longrightarrow> j = new_claim jid mb sid m now)) (\<lambda>_. safe vb)" for jid
    unfolding find_claim_def
  proof (rule spec_query)
    fix d l assume h: "held vb (em_id m) (new_claim jid mb sid m now) d l"
    then show "held vb (em_id m) (new_claim jid mb sid m now) d l \<and>
        (\<forall>j. job_by_key d (claimKey m) = Some j \<longrightarrow> j = new_claim jid mb sid m now)"
      using safe_unique [OF safe_if_held [OF h]] job_by_key_Some [of d "claimKey m"]
      by (auto simp: held_def key)
  qed (simp_all add: safe_if_held)
  have pick: "spec (respects_claims vb) (safe vb)
      (\<lambda>d l. held vb (em_id m) (new_claim jid mb sid m now) d l \<and>
         (\<forall>j. job = Some j \<longrightarrow> j = new_claim jid mb sid m now))
      (case job of None \<Rightarrow> throww ValidationError | Some j \<Rightarrow> returnw (Some j))
      (fresh_claim vb (em_id m)) (\<lambda>_. safe vb)" for job jid
    by (cases job) (auto intro!: spec_throw spec_return simp: fresh_claim_def safe_if_held new_claim_def)
  show ?thesis
    unfolding claim_job_def Some option.case
    by (rule spec_bind [where Q = "\<lambda>_. ?U"], rule spec_fresh, assumption, rule spec_bind [OF tx])
      (auto intro!: spec_return spec_bind [OF found pick] simp: fresh_claim_def)
qed

lemma spec_executeLabelAction:
  assumes key: "claimKey m = label_key (em_id m)" and vb: "vb (em_id m) \<noteq> ActUnsubscribe"
  shows "spec (respects_claims vb) (safe vb) (ready vb (em_id m) fl) (executeLabelAction mb m now) (\<lambda>_. safe vb) (\<lambda>_. safe vb)"
proof -
  let ?mid = "em_id m"
  let ?Q = "\<lambda>found. case found of None \<Rightarrow> unclaimed vb ?mid | Some j \<Rightarrow> held vb ?mid j"
  have find: "spec (respects_claims vb) (safe vb) (ready vb ?mid fl) (find_claim (claimKey m)) ?Q (\<lambda>_. safe vb)"
    unfolding find_claim_def
  proof (rule spec_query)
    fix d l assume r: "ready vb ?mid fl d l"
    show "?Q (job_by_key d (claimKey m)) d l"
    proof (cases "job_by_key d (claimKey m)")
      case None
      then have "\<not> claimed (label_key ?mid) d" by (simp add: job_by_key_None key)
      with r None show ?thesis by (simp add: unclaimed_def ready_def)
    next
      case (Some j)
      then have "j \<in> set (jobs d)" "jo_key j = label_key ?mid" using job_by_key_Some key by force+
      moreover from this have "claimed (label_key ?mid) d" by (auto simp: claimed_def)
      ultimately show ?thesis using r Some by (simp add: held_def ready_def)
    qed
  qed (simp_all add: safe_if_ready)
  have flip: "spec (respects_claims vb) (safe vb) (held vb ?mid j) (flipMatchApplied ?mid u now) (\<lambda>_. safe vb) (\<lambda>_. safe vb)"
    if "jo_status j = JobDone" for j u
    unfolding flipMatchApplied_def
    by (rule spec_weaken [OF spec_update_match [OF retiring_apply(1)]])
      (use that in \<open>auto simp: held_def intro: done_settled\<close>)
  have claim: "spec (respects_claims vb) (safe vb) (fresh_claim vb ?mid job)
      (case job of None \<Rightarrow> returnw LStale | Some j \<Rightarrow> run_claim mb j m now) (\<lambda>_. safe vb) (\<lambda>_. safe vb)" for job
  proof (cases job)
    case None then show ?thesis by (auto intro!: spec_return simp: fresh_claim_def)
  next
    case (Some j)
    show ?thesis
    proof (cases "jo_status j = JobDone")
      case True with Some show ?thesis by (simp add: spec_def fresh_claim_def)
    next
      case False
      show ?thesis unfolding Some option.case
        by (rule spec_weaken [OF spec_run_claim [where vb = vb, OF False vb]]) (simp_all add: fresh_claim_def)
    qed
  qed
  have rest: "spec (respects_claims vb) (safe vb) (?Q found)
      (case found of
         Some j \<Rightarrow> if jo_status j = JobDone
           then bindw (flipMatchApplied ?mid (jo_undo j) now) (\<lambda>_. returnw LExecuted)
           else run_claim mb j m now
       | None \<Rightarrow> bindw (claim_job mb m now) (\<lambda>job.
             case job of None \<Rightarrow> returnw LStale | Some j \<Rightarrow> run_claim mb j m now)) (\<lambda>_. safe vb) (\<lambda>_. safe vb)"
    for found
  proof (cases found)
    case None
    then show ?thesis using spec_bind [OF spec_claim_job [OF key] claim] by simp
  next
    case (Some j)
    then show ?thesis
      by (auto intro!: spec_bind [OF flip] spec_return spec_run_claim vb)
  qed
  show ?thesis
    unfolding executeLabelAction_def by (rule spec_bind [OF find rest])
qed

end
