(* ===== verification/Autopilot_Sweep.thy ===== *)
theory Autopilot_Sweep
  imports Autopilot_Safety
begin

text \<open>
  The invariant \<open>safe\<close> of \<open>Autopilot_Safety\<close> carried through everything else a sweep does: the
  unsubscribe intent, the guards in front of one match, the release of untouched claims and
  the sweep itself; and what the gates and the daily budget guarantee.
\<close>

subsection \<open>Unsubscribe\<close>

definition keeps :: "(ident \<Rightarrow> autopilot_action) \<Rightarrow> assertion \<Rightarrow> 'a wm \<Rightarrow> bool" where
  \<comment> \<open>from \<open>A\<close>, however it ends, \<open>safe\<close> holds\<close>
  "keeps vb A m \<longleftrightarrow> spec (respects_claims vb) (safe vb) A m (\<lambda>_. safe vb) (\<lambda>_. safe vb)"

lemma keeps_return [keeps_intros]: "(\<And>d l. A d l \<Longrightarrow> safe vb d l) \<Longrightarrow> keeps vb A (returnw a)"
  by (simp add: keeps_def spec_return)

lemma keeps_throw [keeps_intros]: "(\<And>d l. A d l \<Longrightarrow> safe vb d l) \<Longrightarrow> keeps vb A (throww e)"
  by (simp add: keeps_def spec_throw)

lemma keeps_bind:
  "keeps vb A m \<Longrightarrow> (\<And>a. keeps vb (safe vb) (f a)) \<Longrightarrow> keeps vb A (bindw m f)"
  unfolding keeps_def by (rule spec_bind)

lemma keeps_try:
  assumes "keeps vb A m"
  shows "keeps vb A (tryw m)"
proof -
  have "spec (respects_claims vb) (safe vb) A (tryw m) (\<lambda>r. case r of Inl e \<Rightarrow> safe vb | Inr a \<Rightarrow> safe vb) (\<lambda>_. safe vb)"
    by (rule spec_try) (use assms in \<open>simp add: keeps_def\<close>)
  then show ?thesis
    unfolding keeps_def by (rule spec_weaken) (auto split: sum.splits)
qed

lemma keeps_weaken: "keeps vb A m \<Longrightarrow> (\<And>d l. A' d l \<Longrightarrow> A d l) \<Longrightarrow> keeps vb A' m"
  unfolding keeps_def by (rule spec_weaken)

lemma keeps_if [keeps_intros]:
  "(b \<Longrightarrow> keeps vb A m) \<Longrightarrow> (\<not> b \<Longrightarrow> keeps vb A m') \<Longrightarrow> keeps vb A (if b then m else m')"
  by simp

lemma keeps_option [keeps_intros]:
  "(x = None \<Longrightarrow> keeps vb A m) \<Longrightarrow> (\<And>a. x = Some a \<Longrightarrow> keeps vb A (f a)) \<Longrightarrow>
     keeps vb A (case x of None \<Rightarrow> m | Some a \<Rightarrow> f a)"
  by (simp split: option.split)

lemma keeps_query: "keeps vb (safe vb) (query f)"
  unfolding keeps_def by (rule spec_query) simp_all

lemma keeps_clock: "keeps vb (safe vb) clock"
  unfolding keeps_def by (rule spec_clock)

lemma keeps_call: "keeps vb (safe vb) (port_call no_effect)"
  unfolding keeps_def by (rule spec_call) simp_all

lemma keeps_foreach: "(\<And>x s. x \<in> set xs \<Longrightarrow> keeps vb (safe vb) (f x s)) \<Longrightarrow> keeps vb (safe vb) (foreachw f xs s)"
  unfolding keeps_def by (rule spec_foreach [where I = "\<lambda>_. safe vb"])

lemma keeps_catch: "keeps vb A m \<Longrightarrow> (\<And>e. keeps vb (safe vb) (h e)) \<Longrightarrow> keeps vb A (catchw m h)"
  unfolding keeps_def by (rule spec_catch)

definition quiet :: "(ident \<Rightarrow> autopilot_action) \<Rightarrow> ident \<Rightarrow> assertion" where
  \<comment> \<open>no unfinished label claim of this match has moved mail\<close>
  "quiet vb mid d l \<longleftrightarrow> safe vb d l \<and> settled (label_key mid) d l"

lemma stable_quiet [simp]: "stable (respects_claims vb) (quiet vb mid)"
  unfolding quiet_def [abs_def] by (rule stable_settled)

lemma quiet_safe: "quiet vb mid d l \<Longrightarrow> safe vb d l"
  by (simp add: quiet_def)

lemma keeps_update_match: "retiring f \<Longrightarrow> keeps vb (quiet vb mid) (exec (update_match mid f))"
  unfolding keeps_def quiet_def [abs_def] by (rule spec_update_match)

lemma insert_job_frame:
  assumes "insert_job j d = Inr d'"
  shows "set (jobs d) \<subseteq> set (jobs d')" "unique_jobs d \<Longrightarrow> unique_jobs d'"
    "matches d' = matches d" "rules d' = rules d" "undos d' = undos d" "activity d' = activity d"
proof -
  show "unique_jobs d'" if "unique_jobs d"
  proof (cases "claimed (jo_key j) d")
    case True
    then have "d' = d" using assms by (auto simp: insert_job_def claimed_def list_ex_iff)
    with that show ?thesis by simp
  qed (use insert_job_new [OF assms _ that] in blast)
qed (use assms in \<open>auto simp: insert_job_def split: if_splits\<close>)

lemma execution_row_frame:
  assumes "execution_row jid mb m d = Inr (a, d')"
  shows "set (jobs d) \<subseteq> set (jobs d')" "unique_jobs d \<Longrightarrow> unique_jobs d'"
    "matches d' = matches d" "rules d' = rules d" "undos d' = undos d" "activity d' = activity d"
  using assms insert_job_frame [of _ d d']
  by (auto simp: execution_row_def split: if_splits option.splits sum.splits)

lemma intent_tx_safe:
  assumes "quiet vb (em_id m) d l" "intent_tx aid oid jid mb m now d = Inr (r, d')"
  shows "safe vb d' l"
proof (cases "matchStillCurrent (em_id m) d")
  case True
  have safe: "safe vb d l" and st: "settled (label_key (em_id m)) d l"
    using assms(1) by (auto simp: quiet_def)
  obtain a d1 where e: "execution_row jid mb m d = Inr (a, d1)"
    using assms(2) True by (auto simp: intent_tx_def Let_def split: sum.splits)
  note f = execution_row_frame [OF e]
  let ?f = "\<lambda>x. x\<lparr>ma_applied := True, ma_resolved_at := Some now\<rparr>"
  have d': "jobs d' = jobs d1"
    "matches d' = update_where (\<lambda>x. ma_id x = em_id m \<and> \<not> ma_applied x) ?f (matches d)"
    "rules d' = rules d" "undos d' = undos d" "set (activity d) \<subseteq> set (activity d')"
    using assms(2) True e f by (auto simp: intent_tx_def Let_def update_match_def)
  show ?thesis
  proof (rule safe_retire [OF safe st, where f = ?f])
    show "unique_jobs d'" using f(2) [OF safe_unique_jobs [OF safe]] unique_jobs_cong [OF d'(1)] by simp
    show "\<exists>j' \<in> set (jobs d'). same_claim j j'" if "j \<in> set (jobs d)" for j
      using f(1) that same_claim_refl [of j] unfolding d'(1) by blast
  qed (simp_all add: d' retiring_intros)
qed (use assms in \<open>simp add: intent_tx_def quiet_safe\<close>)

lemma enqueue_failed_safe:
  assumes "safe vb d l"
  shows "safe vb (enqueue_failed_tx aid jid mb m t d) l"
proof (cases "list_ex (\<lambda>j. jo_id j = jid \<and> jo_status j = Queued) (jobs d)")
  case True
  let ?p = "\<lambda>j. jo_id j = jid \<and> jo_status j = Queued"
  let ?f = "\<lambda>j. j\<lparr>jo_status := JobFailed, jo_error := Some ''ENQUEUE_FAILED''\<rparr>"
  let ?d' = "enqueue_failed_tx aid jid mb m t d"
  have js: "jobs ?d' = update_where ?p ?f (jobs d)"
    using True by (simp add: enqueue_failed_tx_def Let_def)
  show ?thesis
  proof (rule safe_step [OF assms])
    show "unique_jobs ?d'" by (rule unique_jobs_update [OF safe_unique_jobs [OF assms] js]) simp
    show "\<exists>j' \<in> set (jobs ?d'). same_claim j j'" if "j \<in> set (jobs d)" for j
      by (rule same_claim_update [OF js that]) (simp add: same_claim_def)
  qed (use True in \<open>simp_all add: enqueue_failed_tx_def Let_def subset_iff\<close>)
qed (use assms in \<open>simp add: enqueue_failed_tx_def Let_def\<close>)

lemma keeps_enqueue: "keeps vb (safe vb) (enqueue_execution mb m jid)"
proof -
  have call: "keeps vb (safe vb) (port_call (enqueue_unsub jid))"
    unfolding keeps_def by (rule spec_port) (simp_all add: enqueue_unsub_def)
  have failed: "keeps vb (safe vb) (exec (enqueue_failed_tx aid jid mb m t))" for aid t
    unfolding keeps_def by (rule spec_exec) (simp_all add: enqueue_failed_safe)
  have fresh: "keeps vb (safe vb) fresh_id" unfolding keeps_def by (rule spec_fresh)
  show ?thesis
    unfolding enqueue_execution_def
    by (auto intro!: keeps_bind keeps_try call failed fresh keeps_clock keeps_return split: sum.split)
qed

lemma keeps_unsubscribe: "keeps vb (quiet vb (em_id m)) (executeUnsubscribeIntent cs mb m now fl)"
proof -
  have tx: "keeps vb (quiet vb (em_id m)) (stmt (intent_tx aid oid jid mb m now))" for aid oid jid
    unfolding keeps_def by (rule spec_stmt) (auto intro: quiet_safe intent_tx_safe)
  have rest: "keeps vb (quiet vb (em_id m)) (bindw (stmt (intent_tx aid oid jid mb m now)) (\<lambda>r.
      case r of None \<Rightarrow> returnw UStale | Some None \<Rightarrow> returnw (UExecuted False)
      | Some (Some action) \<Rightarrow> enqueue_execution mb m action))" for aid oid jid
    by (auto intro!: keeps_bind [OF tx] keeps_return keeps_enqueue split: option.split)
  have fresh: "keeps vb (quiet vb (em_id m)) (bindw fresh_id f)"
    if "\<And>a. keeps vb (quiet vb (em_id m)) (f a)" for f :: "ident \<Rightarrow> unsub_outcome wm"
    unfolding keeps_def
    by (rule spec_bind [where Q = "\<lambda>_. quiet vb (em_id m)"]) (use that in \<open>simp_all add: spec_fresh keeps_def\<close>)
  show ?thesis
    unfolding executeUnsubscribeIntent_def
    by (auto intro!: keeps_return fresh rest quiet_safe)
qed

subsection \<open>The re-read and the guards\<close>

definition label_in_flight :: "fresh_match \<Rightarrow> bool" where
  "label_in_flight f \<longleftrightarrow> fm_in_flight f \<and> em_action (fm_match f) \<noteq> ActUnsubscribe"

definition fresh_at :: "(ident \<Rightarrow> autopilot_action) \<Rightarrow> fresh_match \<Rightarrow> assertion" where
  "fresh_at vb f = ready vb (em_id (fm_match f)) (label_in_flight f)"

definition fresh_ok :: "(ident \<Rightarrow> autopilot_action) \<Rightarrow> fresh_match \<Rightarrow> bool" where
  "fresh_ok vb f \<longleftrightarrow> vb (em_id (fm_match f)) = em_action (fm_match f)"

lemma claimKey_label: "em_action m \<noteq> ActUnsubscribe \<Longrightarrow> claimKey m = label_key (em_id m)"
  by (simp add: claimKey_def label_key_def)

lemma reload_rowD:
  assumes "reload_row snap now d = Some f"
  obtains m where "m \<in> set (matches d)" "ma_id m = em_id snap" "ma_resolution m = Approved" "\<not> ma_applied m"
    "em_id (fm_match f) = em_id snap" "rule_verb d (ma_rule m) = Some (em_action (fm_match f))"
    "fm_in_flight f = (case job_by_key d (claimKey snap) of None \<Rightarrow> False | Some j \<Rightarrow> claimIsInFlight j)"
proof -
  let ?p = "\<lambda>m. ma_id m = em_id snap \<and> ma_resolution m = Approved \<and> \<not> ma_applied m \<and> eligible_of d m \<noteq> None"
  obtain m em where m: "List.find ?p (matches d) = Some m" "eligible_of d m = Some em"
    "fm_match f = em" "fm_in_flight f = (case job_by_key d (claimKey snap) of None \<Rightarrow> False | Some j \<Rightarrow> claimIsInFlight j)"
    using assms by (auto simp: reload_row_def split: option.splits)
  from find_SomeD [OF m(1)] have "m \<in> set (matches d)" "?p m" by auto
  moreover have "em_id em = ma_id m" "rule_verb d (ma_rule m) = Some (em_action em)"
    using m(2) by (auto simp: eligible_of_def rule_verb_def split: option.splits)
  ultimately show ?thesis using that [of m] m by auto
qed

lemma not_in_flight_settled:
  assumes "safe vb d l" "case job_by_key d k of None \<Rightarrow> True | Some j \<Rightarrow> \<not> claimIsInFlight j"
  shows "settled k d l"
  unfolding settled_def
proof (intro ballI impI)
  fix g j assume g: "g \<in> set l" "gr_applied g" and j: "j \<in> set (jobs d)" "jo_id j = gr_job g" "jo_key j = k"
  have "jo_ids j \<noteq> []" using safe_accounted(1) [OF assms(1) g j(1,2)] by (simp add: claim_accounts_def)
  moreover have "job_by_key d k = Some j"
  proof (cases "job_by_key d k")
    case None then show ?thesis using j by (auto simp: job_by_key_None claimed_def)
  next
    case (Some j') with job_by_key_Some [OF this] safe_unique [OF assms(1) _ j(1)] j(3) show ?thesis by simp
  qed
  ultimately show "jo_status j = JobDone" using assms(2) by (auto simp: claimIsInFlight_def)
qed

lemma unsub_settled:
  assumes "safe vb d l" "vb mid = ActUnsubscribe"
  shows "settled (label_key mid) d l"
  unfolding settled_def
proof (intro ballI impI)
  fix g j assume g: "g \<in> set l" "gr_applied g"
    and j: "j \<in> set (jobs d)" "jo_id j = gr_job g" "jo_key j = label_key mid"
  show "jo_status j = JobDone"
    using safe_accounted(1) [OF assms(1) g j(1,2)] j(3) assms(2)
    by (auto simp: claim_accounts_def live_match_def ruleMatchLabelClaimKey_label split: if_splits)
qed

lemma reload_fresh:
  assumes "safe vb d l" "reload_row snap now d = Some f" "em_action (fm_match f) = em_action snap"
  shows "fresh_ok vb f \<and> fresh_at vb f d l"
proof -
  obtain m where m: "m \<in> set (matches d)" "ma_id m = em_id snap" "ma_resolution m = Approved" "\<not> ma_applied m"
    "em_id (fm_match f) = em_id snap" "rule_verb d (ma_rule m) = Some (em_action (fm_match f))"
    "fm_in_flight f = (case job_by_key d (claimKey snap) of None \<Rightarrow> False | Some j \<Rightarrow> claimIsInFlight j)"
    using reload_rowD [OF assms(2)] .
  have ok: "fresh_ok vb f"
    using assms(1) m by (auto simp: safe_def verbs_ok_def fresh_ok_def)
  have "pending (em_id (fm_match f)) d" using m by (auto simp: pending_def)
  moreover have "settled (label_key (em_id (fm_match f))) d l" if "\<not> label_in_flight f"
  proof (cases "em_action (fm_match f) = ActUnsubscribe")
    case True
    with ok show ?thesis using unsub_settled [OF assms(1)] by (simp add: fresh_ok_def)
  next
    case False
    then have key: "claimKey snap = label_key (em_id (fm_match f))"
      using claimKey_label [of snap] assms(3) m(5) by simp
    have "\<not> fm_in_flight f" using that False by (simp add: label_in_flight_def)
    with m(7) have "case job_by_key d (claimKey snap) of None \<Rightarrow> True | Some j \<Rightarrow> \<not> claimIsInFlight j"
      by (simp split: option.splits)
    then show ?thesis unfolding key by (rule not_in_flight_settled [OF assms(1)])
  qed
  ultimately show ?thesis using ok assms(1) by (simp add: fresh_at_def ready_def)
qed

lemma fresh_at_safe: "fresh_at vb f d l \<Longrightarrow> safe vb d l"
  by (simp add: fresh_at_def safe_if_ready)

lemma fresh_at_quiet: "fresh_at vb f d l \<Longrightarrow> \<not> label_in_flight f \<Longrightarrow> quiet vb (em_id (fm_match f)) d l"
  by (simp add: fresh_at_def ready_def quiet_def)

lemma abandon_safe:
  assumes "quiet vb (em_id m) d l"
  shows "safe vb (update_match (em_id m) (\<lambda>x. x\<lparr>ma_applied := True, ma_resolved_at := Some now\<rparr>)
      (d\<lparr>jobs := update_where (\<lambda>j. jo_key j = k \<and> jo_status j \<noteq> JobDone)
          (\<lambda>j. j\<lparr>jo_status := JobFailed, jo_error := e\<rparr>) (jobs d)\<rparr>)) l"
    (is "safe vb ?d' l")
proof -
  let ?p = "\<lambda>j. jo_key j = k \<and> jo_status j \<noteq> JobDone" and ?f = "\<lambda>j. j\<lparr>jo_status := JobFailed, jo_error := e\<rparr>"
  have safe: "safe vb d l" and st: "settled (label_key (em_id m)) d l" using assms by (auto simp: quiet_def)
  have js: "jobs ?d' = update_where ?p ?f (jobs d)" by (simp add: update_match_def)
  show ?thesis
  proof (rule safe_retire [OF safe st, where f = "\<lambda>x. x\<lparr>ma_applied := True, ma_resolved_at := Some now\<rparr>"])
    show "unique_jobs ?d'" by (rule unique_jobs_update [OF safe_unique_jobs [OF safe] js]) simp
    show "\<exists>j' \<in> set (jobs ?d'). same_claim j j'" if "j \<in> set (jobs d)" for j
      by (rule same_claim_update [OF js that]) (simp add: same_claim_def)
  qed (simp_all add: update_match_def retiring_intros)
qed

lemma keeps_abandon: "keeps vb (quiet vb (em_id m)) (abandonStaleClaim m now)"
proof -
  let ?Q = "quiet vb (em_id m)"
  have q: "spec (respects_claims vb) (safe vb) ?Q (query (\<lambda>d. job_by_key d (claimKey m))) (\<lambda>_. ?Q) (\<lambda>_. safe vb)"
    by (rule spec_query) (auto intro: quiet_safe)
  show ?thesis
    unfolding keeps_def abandonStaleClaim_def
    by (rule spec_bind [OF q]) (auto intro!: spec_throw spec_exec intro: quiet_safe abandon_safe)
qed

lemma keeps_execute:
  assumes "fresh_ok vb f"
  shows "keeps vb (fresh_at vb f) (execute_match c f n s)"
proof -
  let ?m = "fm_match f"
  have label: "keeps vb (fresh_at vb f) (executeLabelAction mb ?m now)" if "em_action ?m \<noteq> ActUnsubscribe" for mb now
    unfolding keeps_def fresh_at_def
    by (rule spec_executeLabelAction) (use that assms in \<open>simp_all add: claimKey_label fresh_ok_def\<close>)
  have unsub: "keeps vb (fresh_at vb f) (executeUnsubscribeIntent cs mb ?m now fl)"
    if "em_action ?m = ActUnsubscribe" for cs mb now fl
    by (rule keeps_weaken [OF keeps_unsubscribe]) (simp add: fresh_at_quiet label_in_flight_def that)
  show ?thesis
    unfolding execute_match_def Let_def
    by (auto intro!: keeps_bind keeps_try keeps_return label unsub simp: fresh_at_safe)
qed

lemma keeps_missing:
  assumes "\<not> label_in_flight f"
  shows "keeps vb (fresh_at vb f) (missing_sender c (fm_match f) s)"
proof -
  let ?Q = "quiet vb (em_id (fm_match f))"
  have q: "spec (respects_claims vb) (safe vb) ?Q (query (senderIndexRebuiltSince mb (em_id (fm_match f)))) (\<lambda>_. ?Q) (\<lambda>_. safe vb)"
    for mb by (rule spec_query) (auto intro: quiet_safe)
  have "keeps vb ?Q (missing_sender c (fm_match f) s)"
    unfolding keeps_def missing_sender_def
    by (rule spec_bind [OF q])
      (auto intro!: spec_return quiet_safe keeps_bind [OF keeps_abandon, unfolded keeps_def])
  then show ?thesis by (rule keeps_weaken) (rule fresh_at_quiet, assumption, rule assms)
qed

lemma keeps_decide:
  assumes "fresh_ok vb f"
  shows "keeps vb (fresh_at vb f) (decide_match c f s)"
proof -
  let ?m = "fm_match f"
  have upd: "keeps vb (fresh_at vb f) (exec (update_match (em_id ?m) g))"
    if "retiring g" "\<not> label_in_flight f" for g
    by (rule keeps_weaken [OF keeps_update_match [OF that(1)]]) (rule fresh_at_quiet, assumption, rule that(2))
  have gone: "keeps vb (fresh_at vb f) (dismissSuperseded (em_id ?m) now)"
    "keeps vb (fresh_at vb f) (dismissShieldedMatch (em_id ?m) now)" if "\<not> fm_in_flight f" for now
    unfolding dismissSuperseded_def dismissShieldedMatch_def
    using that by (auto intro!: upd retiring_dismiss simp: label_in_flight_def)
  have flip: "keeps vb (fresh_at vb f) (flipMatchApplied (em_id ?m) u now)" if "em_action ?m = ActUnsubscribe" for u now
    unfolding flipMatchApplied_def
    using that by (auto intro!: upd retiring_apply simp: label_in_flight_def)
  have miss: "keeps vb (fresh_at vb f) (missing_sender c ?m s)" if "\<not> fm_in_flight f"
    using that by (intro keeps_missing) (simp add: label_in_flight_def)
  have budget: "keeps vb (fresh_at vb f) (within_budget c f p s)" for p
    unfolding within_budget_def Let_def by (auto intro!: keeps_return keeps_execute assms fresh_at_safe)
  show ?thesis
    unfolding decide_match_def Let_def
    by (intro keeps_intros keeps_bind gone flip miss budget) (blast intro: fresh_at_safe | simp)+
qed

lemma keeps_process: "keeps vb (safe vb) (processMatch c snap s)"
proof -
  let ?Q = "\<lambda>fresh d l. safe vb d l \<and>
      (\<forall>f. fresh = Some f \<longrightarrow> em_action (fm_match f) = em_action snap \<longrightarrow> fresh_ok vb f \<and> fresh_at vb f d l)"
  have reload: "spec (respects_claims vb) (safe vb) (safe vb) (reloadMatch snap now) ?Q (\<lambda>_. safe vb)" for now
    unfolding reloadMatch_def by (rule spec_query) (auto dest: reload_fresh)
  have rest: "spec (respects_claims vb) (safe vb) (?Q fresh)
      (case fresh of None \<Rightarrow> returnw (skip_gone s)
       | Some f \<Rightarrow> if em_action (fm_match f) \<noteq> em_action snap then returnw s else decide_match c f s)
      (\<lambda>_. safe vb) (\<lambda>_. safe vb)" for fresh
  proof (cases fresh)
    case None
    then show ?thesis by (auto intro!: spec_return)
  next
    case (Some f)
    have "spec (respects_claims vb) (safe vb) (?Q (Some f)) (decide_match c f s) (\<lambda>_. safe vb) (\<lambda>_. safe vb)"
      if same: "em_action (fm_match f) = em_action snap"
    proof (cases "fresh_ok vb f")
      case True
      show ?thesis
        by (rule spec_weaken [OF keeps_decide [OF True, unfolded keeps_def]]) (use same in auto)
    qed (use same in \<open>simp add: spec_def\<close>)
    then show ?thesis unfolding Some by (auto intro!: spec_return)
  qed
  show ?thesis unfolding keeps_def processMatch_def by (rule spec_bind [OF reload rest])
qed

subsection \<open>Releasing claims\<close>

lemma release_safe:
  assumes safe: "safe vb d l" and ks: "\<And>k. k \<in> set ks \<Longrightarrow> \<exists>mid. k = label_key mid"
  shows "safe vb (release_tx mb ks d) l"
proof -
  let ?d' = "release_tx mb ks d"
  have sub: "set (jobs ?d') \<subseteq> set (jobs d)" by (auto simp: release_tx_def Let_def)
  show ?thesis
  proof (rule safe_step [OF safe])
    show "unique_jobs ?d'"
      using safe_unique_jobs [OF safe] sub unfolding unique_jobs_def by blast
    show "\<exists>j' \<in> set (jobs ?d'). same_claim j j'" if "j \<in> set (jobs d)" "jo_ids j \<noteq> []" for j
      using that by (intro bexI [of _ j]) (auto simp: release_tx_def Let_def releasable_def claim_untouched_def)
    fix j g m
    assume j: "j \<in> set (jobs d)" "jo_ids j \<noteq> []" and m: "m \<in> set (matches d)" "jo_key j = ruleMatchLabelClaimKey m"
    have "ma_id m \<noteq> drop (length claim_key_prefix_label) (jo_key r)"
      if r: "r \<in> set (jobs d)" "releasable mb ks r" for r
    proof
      assume eq: "ma_id m = drop (length claim_key_prefix_label) (jo_key r)"
      from r(2) ks obtain mid where "jo_key r = label_key mid" by (auto simp: releasable_def)
      with eq m(2) have "jo_key r = jo_key j" by (simp add: label_key_def ruleMatchLabelClaimKey_label)
      with safe_unique [OF safe r(1) j(1)] have "r = j" by simp
      with r(2) j(2) show False by (simp add: releasable_def claim_untouched_def)
    qed
    with m(1) show "m \<in> set (matches ?d')" by (auto simp: release_tx_def Let_def)
  qed (auto simp: release_tx_def Let_def split: if_splits)
qed

lemma label_claim_keys_label: "k \<in> set (label_claim_keys ms) \<Longrightarrow> \<exists>mid. k = label_key mid"
  by (auto simp: label_claim_keys_def claimKey_label)

lemma keeps_release: "keeps vb (safe vb) (releaseClaimsLeftUntouched mb ms)"
proof -
  have pos: "0 < claim_lookup_chunk" by (simp add: claim_lookup_chunk_def)
  have tx: "keeps vb (safe vb) (exec (release_tx mb ks))"
    if "ks \<in> set (chunks claim_lookup_chunk (label_claim_keys ms))" for ks
  proof -
    have label: "\<exists>mid. k = label_key mid" if "k \<in> set ks" for k
      using that chunks_subset [OF pos \<open>ks \<in> _\<close>] label_claim_keys_label by blast
    show ?thesis
      unfolding keeps_def by (rule spec_exec) (simp_all add: release_safe [OF _ label])
  qed
  have all: "keeps vb (safe vb) (releaseUntouchedClaims mb ms)"
    unfolding releaseUntouchedClaims_def by (rule keeps_foreach) (rule tx)
  show ?thesis
    unfolding releaseClaimsLeftUntouched_def locked_def
    by (auto intro!: keeps_bind keeps_foreach keeps_return keeps_query keeps_call all)
qed

subsection \<open>The sweep\<close>

lemma keeps_sweep_one: "keeps vb (safe vb) (sweep_one c fl m s)"
  unfolding sweep_one_def locked_def
  by (intro keeps_intros keeps_bind keeps_call keeps_process)

lemma keeps_sweep_loaded: "keeps vb (safe vb) (sweep_loaded c r loaded fl)"
  unfolding sweep_loaded_def sweep_matches_def Let_def
  by (intro keeps_intros keeps_bind keeps_catch keeps_try keeps_foreach keeps_release keeps_sweep_one)

lemma keeps_gate: "keeps vb (safe vb) (sweep_gate cf q t now)"
proof -
  have hook: "keeps vb (safe vb) (port_call (fire_resume a))" for a
    unfolding keeps_def by (rule spec_port) (simp_all add: fire_resume_def)
  show ?thesis
    unfolding sweep_gate_def
    by (auto intro!: keeps_intros keeps_bind keeps_try hook split: outcome.split)
qed

lemma keeps_flags: "keeps vb (safe vb) (loadInFlightFlags ms)"
  unfolding loadInFlightFlags_def Let_def
  by (intro keeps_foreach keeps_bind keeps_query keeps_intros)

lemma keeps_processJob: "keeps vb (safe vb) (processJob cf mb)"
  unfolding processJob_def sweep_def loadEligibleMatches_def countStaleMatches_def
  by (auto intro!: keeps_intros keeps_bind keeps_clock keeps_query keeps_gate keeps_flags keeps_sweep_loaded
      split: option.split prod.split)

lemma safe_after_sweep:
  assumes "script_ok (respects_claims vb) w" "safe vb (wdb w) (requests w)" "processJob cf mb w = (r, w')"
  shows "safe vb (wdb w') (requests w')"
  using specD [OF keeps_processJob [unfolded keeps_def] assms(1,2), of cf mb] assms(3)
  by (cases r) simp_all

lemma live_match_queued:
  assumes "live_match vb d (jo_key j)" "j \<in> set (jobs d)"
  shows "\<exists>m \<in> set (matches d). ruleMatchLabelClaimKey m = jo_key j \<and> ruleMatchIsQueuedAction d m"
proof -
  obtain m where "m \<in> set (matches d)" "ruleMatchLabelClaimKey m = jo_key j" "ma_resolution m = Approved"
    "\<not> ma_applied m"
    using assms(1) by (auto simp: live_match_def)
  with assms(2) show ?thesis
    by (intro bexI [of _ m])
      (auto simp: ruleMatchIsQueuedAction_def ruleMatchEvidenceIsCurrent_def list_ex_iff)
qed

text \<open>
  C1: no Gmail change is stranded. However a sweep ends (returning, throwing or with its
  process dead at any point, whatever the database and the provider answered and whatever
  other writers that respect claims did in between) every request that changed mail
  belongs to a durable claim holding its message ids, and that claim is either done, with
  an undo token for exactly those ids and an Activity row naming it, or in flight on an
  approved, unapplied match, which the next sweep loads and completes.
\<close>

theorem sweep_never_strands:
  assumes "script_ok (respects_claims vb) w" "safe vb (wdb w) (requests w)" "processJob cf mb w = (r, w')"
    and "g \<in> set (requests w')" "gr_applied g"
  shows "\<exists>j \<in> set (jobs (wdb w')). jo_id j = gr_job g \<and> set (gr_ids g) \<subseteq> set (jo_ids j) \<and>
    (if jo_status j = JobDone
     then (\<exists>u \<in> set (undos (wdb w')). jo_undo j = Some (un_token u) \<and> un_ids u = jo_ids j) \<and>
          (\<exists>a \<in> set (activity (wdb w')). ac_undo a = jo_undo j \<and> ac_source a = ''autopilot'' \<and>
             ac_affected a = length (jo_ids j))
     else claimIsInFlight j \<and>
          (\<exists>m \<in> set (matches (wdb w')). ruleMatchLabelClaimKey m = jo_key j \<and>
             ruleMatchIsQueuedAction (wdb w') m))"
proof -
  have "accounted vb (wdb w') g"
    using safe_after_sweep [OF assms(1-3)] assms(4,5) by (auto simp: safe_def)
  then obtain j where "j \<in> set (jobs (wdb w'))" "jo_id j = gr_job g" "set (gr_ids g) \<subseteq> set (jo_ids j)"
    "claim_accounts vb (wdb w') j"
    by (auto simp: accounted_def claim_jobs_def)
  then show ?thesis
    by (intro bexI [of _ j])
      (auto simp: claim_accounts_def recorded_def claimIsInFlight_def dest: live_match_queued)
qed


subsection \<open>A concrete mailbox\<close>

definition demo_world :: "tick list \<Rightarrow> send_reply list \<Rightarrow> world" where
  "demo_world ts ss =
     \<lparr>wdb = demo_db, ticks = ts, sends = ss, calls = [], uuid_of = (\<lambda>n. replicate n CHR ''i''), uuid_next = 1,
      ensure_label = (\<lambda>l. ''Label_7''), requests = [], enqueued = [], resumes = [], chained = [], requeued = [],
      label_queue = [], wake_queue = [], label_map = [], https = [], posted = []\<rparr>"

definition demo_config :: sweep_config where
  "demo_config = \<lparr>cf_host = utc_host, cf_can_send = False, cf_resume_hook = True\<rparr>"

text \<open>The provider applies the request and the process dies before it hears so.\<close>

theorem sweep_never_strands_witness:
  "let w' = snd (processJob demo_config ''m'' (demo_world [] [SendDies True]))
   in map gr_applied (requests w') = [True] \<and> map jo_status (jobs (wdb w')) = [Executing] \<and>
      (\<forall>g \<in> set (requests w'). \<exists>m \<in> set (matches (wdb w')). ruleMatchIsQueuedAction (wdb w') m)"
proof -
  let ?w = "demo_world [] [SendDies True]"
  obtain r w' where p: "processJob demo_config ''m'' ?w = (r, w')" by (cases "processJob demo_config ''m'' ?w")
  have "map gr_applied (requests (snd (processJob demo_config ''m'' ?w))) = [True]"
    "map jo_status (jobs (wdb (snd (processJob demo_config ''m'' ?w)))) = [Executing]"
    by code_simp+
  then have run: "map gr_applied (requests w') = [True]" "map jo_status (jobs (wdb w')) = [Executing]"
    by (simp_all add: p)
  have script: "script_ok (respects_claims (\<lambda>_. ActLater)) ?w"
    by (simp add: script_ok_def demo_world_def)
  have start: "safe (\<lambda>_. ActLater) (wdb ?w) (requests ?w)"
    by (simp add: safe_def demo_world_def demo_db_def unique_jobs_def verbs_ok_def rule_verb_def demo_rule_def)
  have "\<exists>m \<in> set (matches (wdb w')). ruleMatchIsQueuedAction (wdb w') m"
    if g: "g \<in> set (requests w')" for g
  proof -
    have "gr_applied g" using run(1) g by auto
    then obtain j where j: "j \<in> set (jobs (wdb w'))"
      and live: "if jo_status j = JobDone
        then (\<exists>u \<in> set (undos (wdb w')). jo_undo j = Some (un_token u) \<and> un_ids u = jo_ids j) \<and>
          (\<exists>a \<in> set (activity (wdb w')). ac_undo a = jo_undo j \<and> ac_source a = ''autopilot'' \<and>
             ac_affected a = length (jo_ids j))
        else claimIsInFlight j \<and> (\<exists>m \<in> set (matches (wdb w')). ruleMatchLabelClaimKey m = jo_key j \<and>
             ruleMatchIsQueuedAction (wdb w') m)"
      using sweep_never_strands [OF script start p g] by blast
    have "jo_status j = Executing" using run(2) j by auto
    with live show ?thesis by auto
  qed
  with run show ?thesis unfolding p Let_def snd_conv by blast
qed

text \<open>The sender becomes Protected just before the first request leaves.\<close>

definition protect_tick :: tick where
  "protect_tick =
     Tick (setPolicyTx ''1'' ''2'' ''m'' ''k'' \<lparr>pa_policy = None, pa_protected = Some True\<rparr>) StmtOk"


lemma protect_stops_the_send:
  "let w' = snd (processJob demo_config ''m'' (demo_world (replicate 9 (Tick id StmtOk) @ [protect_tick]) []))
   in requests w' = [] \<and> map ma_resolution (matches (wdb w')) = [Dismissed] \<and> jobs (wdb w') = []"
  by code_simp

subsection \<open>A downgrade in the middle\<close>

definition downgrade_tick :: tick where
  "downgrade_tick =
     Tick (\<lambda>d. snd (demoteUnattendedRules ''w''
             (d\<lparr>workspaces := map (\<lambda>x. x\<lparr>ws_tier := Free\<rparr>) (workspaces d)\<rparr>))) StmtOk"

definition unattended_world :: world where
  "unattended_world =
     (demo_world (replicate 7 (Tick id StmtOk) @ [downgrade_tick]) [SendDies True])
       \<lparr>wdb := demo_db\<lparr>matches := [demo_match\<lparr>ma_mode := MatchedActive\<rparr>],
                       rules := [demo_rule\<lparr>ru_mode := Active\<rparr>]\<rparr>\<rparr>"


subsection \<open>A stored quiet time that is not a time\<close>

definition broken_quiet :: jsval where
  "broken_quiet =
     JObj [(''quiet_hours'', JObj [(''enabled'', JBool True), (''start_local'', JStr ''00:00''),
             (''end_local'', JStr ''24h''), (''timezone'', JStr ''UTC'')])]"


end
