(* ===== verification/Autopilot_Apply.thy ===== *)
theory Autopilot_Apply
  imports Autopilot_Action
begin

text \<open>
  The Autopilot apply pass (\<^verbatim>\<open>packages/workers/src/autopilot-apply.worker.ts\<close>): which rules of a
  mailbox run, the signals they run on (\<^verbatim>\<open>autopilot-signals.ts\<close>), the candidates of a rule, and
  the guarded insert of its matches, as one worker body over the scripted world of \<open>Worker\<close>.
  What it inserts is what the action sweep of \<open>Autopilot_Action\<close> consumes.

  A rule that throws keeps the counters it had reached, so every fallible step of its body is
  tried on its own and the counters are passed along.
\<close>

subsection \<open>Signals\<close>

record signal_row =
  sg_key :: string
  sg_signals :: preset_signals
  sg_decision :: "(triage_verdict \<times> rat) option"
  sg_inbox :: nat
  sg_unsubscribed :: bool

definition map_last :: "('a \<times> 'b) list \<Rightarrow> 'a \<Rightarrow> 'b option" where
  \<comment> \<open>\<open>new Map(entries).get(k)\<close>: the last entry of a key counts\<close>
  "map_last xs = map_of (rev xs)"

definition policy_rows_of :: "ident \<Rightarrow> string list \<Rightarrow> db \<Rightarrow> policy_row list" where
  "policy_rows_of mb ks d = filter (\<lambda>p. po_mailbox p = mb \<and> po_key p \<in> set ks) (policies d)"

definition decisions_of :: "ident \<Rightarrow> string list \<Rightarrow> db \<Rightarrow> (string \<times> triage_verdict \<times> rat) list" where
  \<comment> \<open>without the decisions awaiting a re-score and those whose confidence does not parse\<close>
  "decisions_of mb ks d =
     concat (map (\<lambda>r.
       if de_expires r = de_produced r then []
       else case parse_float (de_confidence r) of
              None \<Rightarrow> [] | Some c \<Rightarrow> [(de_key r, de_verdict r, c)])
       (filter (\<lambda>r. de_mailbox r = mb \<and> de_key r \<in> set ks) (decisions d)))"

definition timeseries_of :: "ident \<Rightarrow> string list \<Rightarrow> db \<Rightarrow> timeseries_row list" where
  "timeseries_of mb ks d = filter (\<lambda>r. ts_mailbox r = mb \<and> ts_key r \<in> set ks) (timeseries d)"

definition volume_reads :: "timeseries_row list \<Rightarrow> string \<Rightarrow> nat \<times> nat" where
  "volume_reads ts k =
     (let rs = filter (\<lambda>r. ts_key r = k) ts in (sum_list (map ts_volume rs), sum_list (map ts_reads rs)))"

definition mail_counts :: "ident \<Rightarrow> string list \<Rightarrow> db \<Rightarrow> string \<Rightarrow> nat \<times> nat" where
  \<comment> \<open>inbound messages of a sender, and those in the inbox\<close>
  "mail_counts mb ks d k =
     (let ms = filter (\<lambda>m. mm_mailbox m = mb \<and> mm_key m = Some k \<and> k \<in> set ks \<and> \<not> mm_outbound m) (mail d)
      in (length ms, count_where (\<lambda>m. ''INBOX'' \<in> set (mm_labels m)) ms))"

definition signal_row_of ::
  "millis \<Rightarrow> policy_row list \<Rightarrow> (string \<times> triage_verdict \<times> rat) list \<Rightarrow> timeseries_row list \<Rightarrow>
     (string \<Rightarrow> nat \<times> nat) \<Rightarrow> sender_row \<Rightarrow> signal_row"
where
  "signal_row_of now pols decs ts counts s =
     (let k = se_key s;
          (volume, reads) = volume_reads ts k;
          (total, inbox) = counts k
      in \<lparr>sg_key = k,
          sg_signals =
            \<lparr>psProtected = (case map_last (map (\<lambda>p. (po_key p, po_protected p)) pols) k of
                              Some b \<Rightarrow> b | None \<Rightarrow> False),
             psFirstSeenDaysAgo = js_floor_div (now - se_first_seen s) day_ms,
             psTotalMessages = int total,
             psReadRateLifetime = (if 0 < volume then Some (of_nat reads / of_nat volume) else None),
             psLastSeenDaysAgo = js_floor_div (now - se_last_seen s) day_ms\<rparr>,
          sg_decision = map_last decs k,
          sg_inbox = inbox,
          sg_unsubscribed = (case map_last (map (\<lambda>p. (po_key p, po_type p = Some PolUnsubscribe)) pols) k of
                               Some b \<Rightarrow> b | None \<Rightarrow> False)\<rparr>)"

definition materializeAutopilotSignals :: "ident \<Rightarrow> millis \<Rightarrow> signal_row list wm" where
  "materializeAutopilotSignals mb now =
     bindw (query (\<lambda>d. filter (\<lambda>s. se_mailbox s = mb) (senders d))) (\<lambda>ss.
     if ss = [] then returnw []
     else
       (let ks = map se_key ss in
        bindw (query (policy_rows_of mb ks)) (\<lambda>pols.
        bindw (query (decisions_of mb ks)) (\<lambda>decs.
        bindw (query (timeseries_of mb ks)) (\<lambda>ts.
        bindw (query (mail_counts mb ks)) (\<lambda>counts.
          returnw (map (signal_row_of now pols decs ts counts) ss)))))))"

subsection \<open>Rules\<close>

definition loadEnabledRules :: "ident \<Rightarrow> rule_row list wm" where
  "loadEnabledRules mb =
     bindw (query (mailbox_row_of mb)) (\<lambda>row.
     case row of
       None \<Rightarrow> returnw []
     | Some (_, t) \<Rightarrow>
         if \<not> hasCapability t Autopilot then returnw []
         else query (\<lambda>d. filter (\<lambda>r.
           ru_mailbox r = mb \<and> ru_enabled r \<and> ru_mode r \<noteq> Paused \<and>
           (hasCapability t AutopilotActive \<or> ru_mode r \<noteq> Active \<or>
            ru_preset_key r = Some ''auto_screen_new_senders'' \<or>
            ru_preset_key r = Some ''auto_archive_low_engagement'') \<and>
           ru_is_preset r) (rules d)))"

definition senderIndexStamp :: "ident \<Rightarrow> db \<Rightarrow> millis option" where
  \<comment> \<open>\<open>min(created_at)\<close>; \<open>None\<close> is the text \<open>empty\<close>\<close>
  "senderIndexStamp mb d =
     (case map se_created (filter (\<lambda>s. se_mailbox s = mb) (senders d)) of
        [] \<Rightarrow> None | t # ts \<Rightarrow> Some (foldl min t ts))"

definition rule_mode_at_match :: "rule_row \<Rightarrow> preset_key \<Rightarrow> match_mode" where
  "rule_mode_at_match rule p =
     (if ru_mode rule = Active \<and> p \<noteq> AutoScreenNewSenders \<and> p \<noteq> AutoArchiveLowEngagement
      then MatchedActive else MatchedObserve)"

record candidate =
  cd_key :: string
  cd_confidence :: rat
  cd_reason :: string

definition rule_matches :: "rule_row \<Rightarrow> preset_key \<Rightarrow> rat option \<Rightarrow> signal_row \<Rightarrow> match_result" where
  "rule_matches rule p threshold sg =
     matchConfiguredPreset p \<lparr>piSignals = sg_signals sg, piDecision = sg_decision sg\<rparr> threshold
       (ru_conditions rule)"

definition actionable :: "rule_row \<Rightarrow> signal_row \<Rightarrow> bool" where
  "actionable rule sg \<longleftrightarrow>
     (if ru_action rule = ActUnsubscribe then \<not> sg_unsubscribed sg else 0 < sg_inbox sg)"

definition candidate_of :: "rule_row \<Rightarrow> preset_key \<Rightarrow> rat option \<Rightarrow> signal_row \<Rightarrow> candidate" where
  "candidate_of rule p threshold sg =
     \<lparr>cd_key = sg_key sg,
      cd_confidence =
        (case sg_decision sg of
           Some (_, c) \<Rightarrow> c
         | None \<Rightarrow> (case threshold of Some t \<Rightarrow> t
                    | None \<Rightarrow> (case defaultThreshold (autopilot_presets p) of Some t \<Rightarrow> t | None \<Rightarrow> 0))),
      cd_reason = reason (rule_matches rule p threshold sg)\<rparr>"

definition rule_candidates :: "rule_row \<Rightarrow> preset_key \<Rightarrow> rat option \<Rightarrow> signal_row list \<Rightarrow> candidate list" where
  "rule_candidates rule p threshold sgs =
     map (candidate_of rule p threshold)
       (filter (\<lambda>sg. matched (rule_matches rule p threshold sg) \<and> actionable rule sg) sgs)"

definition rule_unactionable :: "rule_row \<Rightarrow> preset_key \<Rightarrow> rat option \<Rightarrow> signal_row list \<Rightarrow> nat" where
  "rule_unactionable rule p threshold sgs =
     count_where (\<lambda>sg. matched (rule_matches rule p threshold sg) \<and> \<not> actionable rule sg) sgs"

subsection \<open>Statements\<close>

definition queued_keys :: "rule_row \<Rightarrow> candidate list \<Rightarrow> db \<Rightarrow> string list" where
  "queued_keys rule cs d =
     map ma_key (filter (\<lambda>m. ma_rule m = ru_id rule \<and> ruleMatchIsQueuedAction d m \<and>
                             ma_key m \<in> set (map cd_key cs)) (matches d))"

definition new_match :: "rule_row \<Rightarrow> match_mode \<Rightarrow> ident \<Rightarrow> millis \<Rightarrow> ident \<Rightarrow> candidate \<Rightarrow> match_row" where
  "new_match rule mode mb now mid c =
     \<lparr>ma_id = mid, ma_rule = ru_id rule, ma_mailbox = mb, ma_key = cd_key c, ma_matched_at = now,
      ma_mode = mode, ma_confidence = to_fixed2 (cd_confidence c), ma_reason = cd_reason c,
      ma_applied = False, ma_token = None,
      ma_resolution = (if mode = MatchedActive then Approved else Pending),
      ma_resolved_at = None, ma_dismiss = None\<rparr>"

definition pending_conflict :: "match_row \<Rightarrow> match_row list \<Rightarrow> bool" where
  \<comment> \<open>the partial unique index on the pending rows of (rule, sender)\<close>
  "pending_conflict m ms \<longleftrightarrow>
     ma_resolution m = Pending \<and>
     list_ex (\<lambda>x. ma_rule x = ma_rule m \<and> ma_key x = ma_key m \<and> ma_resolution x = Pending) ms"

fun insert_matches :: "match_row list \<Rightarrow> match_row list \<Rightarrow> ident list \<times> match_row list" where
  \<comment> \<open>\<open>on conflict do nothing returning id\<close>\<close>
  "insert_matches [] ms = ([], ms)"
| "insert_matches (m # rows) ms =
     (if pending_conflict m ms then insert_matches rows ms
      else (case insert_matches rows (ms @ [m]) of (ids, ms') \<Rightarrow> (ma_id m # ids, ms')))"

definition insert_tx ::
  "ident \<Rightarrow> millis option \<Rightarrow> rule_row \<Rightarrow> match_row list \<Rightarrow> db \<Rightarrow> worker_error + (ident list option \<times> db)"
where
  \<comment> \<open>under the sender-index lock: the fingerprint, the rule as it is now, the insert\<close>
  "insert_tx mb stamp rule rows d =
     (if senderIndexStamp mb d \<noteq> stamp then Inr (None, d)
      else case List.find (\<lambda>r. ru_id r = ru_id rule) (rules d) of
             None \<Rightarrow> Inr (Some [], d)
           | Some current \<Rightarrow>
               if ru_version current \<noteq> ru_version rule \<or> \<not> ru_enabled current \<or> ru_mode current \<noteq> ru_mode rule
               then Inr (Some [], d)
               else (case insert_matches rows (matches d) of
                       (ids, ms) \<Rightarrow> Inr (Some ids, d\<lparr>matches := ms\<rparr>)))"

definition rule_ran :: "rule_row \<Rightarrow> millis \<Rightarrow> candidate list \<Rightarrow> db \<Rightarrow> db" where
  \<comment> \<open>the inline summary of the rule\<close>
  "rule_ran rule now cs d =
     d\<lparr>rules := update_where (\<lambda>r. ru_id r = ru_id rule \<and> ru_version r = ru_version rule)
         (\<lambda>r. r\<lparr>ru_last_run := Some now, ru_last_actions := length cs,
                ru_last_senders := length (remdups (map cd_key cs))\<rparr>) (rules d)\<rparr>"

subsection \<open>The pass\<close>

record apply_result =
  rulesEvaluated :: nat
  rulesFailed :: nat
  rulesSkippedMalformed :: nat
  matchesWritten :: nat
  observeMatches :: nat
  activeMatches :: nat
  activeSkippedNotActionable :: nat
  observeSkippedNotActionable :: nat
  activeSkippedAlreadyQueued :: nat
  sendersConsidered :: nat
  abortedIndexRebuilt :: bool

definition empty_apply_result :: apply_result where
  "empty_apply_result =
     \<lparr>rulesEvaluated = 0, rulesFailed = 0, rulesSkippedMalformed = 0, matchesWritten = 0,
      observeMatches = 0, activeMatches = 0, activeSkippedNotActionable = 0,
      observeSkippedNotActionable = 0, activeSkippedAlreadyQueued = 0, sendersConsidered = 0,
      abortedIndexRebuilt = False\<rparr>"

definition rule_failed :: "apply_result \<Rightarrow> apply_result" where
  "rule_failed s = s\<lparr>rulesFailed := rulesFailed s + 1\<rparr>"

definition count_written :: "match_mode \<Rightarrow> nat \<Rightarrow> apply_result \<Rightarrow> apply_result" where
  "count_written mode n s =
     (let s' = s\<lparr>matchesWritten := matchesWritten s + n\<rparr>
      in if mode = MatchedObserve then s'\<lparr>observeMatches := observeMatches s' + n\<rparr>
         else s'\<lparr>activeMatches := activeMatches s' + n\<rparr>)"

definition count_unactionable :: "match_mode \<Rightarrow> nat \<Rightarrow> apply_result \<Rightarrow> apply_result" where
  "count_unactionable mode n s =
     (if mode = MatchedActive
      then s\<lparr>activeSkippedNotActionable := activeSkippedNotActionable s + n\<rparr>
      else s\<lparr>observeSkippedNotActionable := observeSkippedNotActionable s + n\<rparr>)"

record apply_ctx =
  ax_mailbox :: ident
  ax_now :: millis
  ax_stamp :: "millis option"
  ax_eligible :: "signal_row list"

fun fresh_ids :: "nat \<Rightarrow> ident list wm" where
  "fresh_ids 0 = returnw []"
| "fresh_ids (Suc n) = bindw fresh_id (\<lambda>i. bindw (fresh_ids n) (\<lambda>is. returnw (i # is)))"

definition write_matches ::
  "apply_ctx \<Rightarrow> rule_row \<Rightarrow> match_mode \<Rightarrow> candidate list \<Rightarrow> ident list option wm" where
  "write_matches c rule mode cs =
     (if cs = [] then returnw (Some [])
      else bindw (fresh_ids (length cs)) (\<lambda>ids.
        stmt (insert_tx (ax_mailbox c) (ax_stamp c) rule
          (map2 (new_match rule mode (ax_mailbox c) (ax_now c)) ids cs))))"

definition drop_queued :: "rule_row \<Rightarrow> match_mode \<Rightarrow> candidate list \<Rightarrow> candidate list wm" where
  "drop_queued rule mode cs =
     (if mode = MatchedActive \<and> cs \<noteq> []
      then bindw (query (queued_keys rule cs))
        (\<lambda>ks. returnw (filter (\<lambda>c. cd_key c \<notin> set ks) cs))
      else returnw cs)"

definition rule_body ::
  "apply_ctx \<Rightarrow> rule_row \<Rightarrow> preset_key \<Rightarrow> rat option \<Rightarrow> apply_result \<Rightarrow> apply_result wm" where
  \<comment> \<open>the \<open>try\<close> of one rule\<close>
  "rule_body c rule p threshold s =
     (let mode = rule_mode_at_match rule p;
          s1 = count_unactionable mode (rule_unactionable rule p threshold (ax_eligible c))
                 (s\<lparr>rulesEvaluated := rulesEvaluated s + 1\<rparr>);
          found = rule_candidates rule p threshold (ax_eligible c)
      in bindw (tryw (drop_queued rule mode found)) (\<lambda>r.
         case r of
           Inl _ \<Rightarrow> returnw (rule_failed s1)
         | Inr kept \<Rightarrow>
             (let s2 = s1\<lparr>activeSkippedAlreadyQueued := activeSkippedAlreadyQueued s1 + (length found - length kept)\<rparr>
              in bindw (tryw (write_matches c rule mode kept)) (\<lambda>r.
                 case r of
                   Inl _ \<Rightarrow> returnw (rule_failed s2)
                 | Inr None \<Rightarrow> returnw (s2\<lparr>abortedIndexRebuilt := True\<rparr>)
                 | Inr (Some ids) \<Rightarrow>
                     (let s3 = count_written mode (length ids) s2
                      in bindw (tryw (exec (rule_ran rule (ax_now c) kept))) (\<lambda>r.
                         case r of Inl _ \<Rightarrow> returnw (rule_failed s3) | Inr _ \<Rightarrow> returnw s3))))))"

definition apply_rule :: "apply_ctx \<Rightarrow> rule_row \<Rightarrow> apply_result \<Rightarrow> apply_result wm" where
  \<comment> \<open>the loop body; a pass that found the index rebuilt does nothing more\<close>
  "apply_rule c rule s =
     (if abortedIndexRebuilt s then returnw s
      else case isPresetKey (ru_preset_key rule) of
        None \<Rightarrow> returnw s
      | Some p \<Rightarrow>
          if ru_action rule = ActDelete then returnw s
          else (case ru_threshold rule of
                  None \<Rightarrow> rule_body c rule p None s
                | Some t \<Rightarrow>
                    (case parse_float t of
                       None \<Rightarrow> returnw (s\<lparr>rulesSkippedMalformed := rulesSkippedMalformed s + 1\<rparr>)
                     | Some x \<Rightarrow> rule_body c rule p (Some x) s)))"

definition chain_sweep :: "ident \<Rightarrow> bool \<Rightarrow> world \<Rightarrow> world" where
  "chain_sweep mb landed w = (if landed then w\<lparr>chained := chained w @ [mb]\<rparr> else w)"

definition applyJob :: "bool \<Rightarrow> ident \<Rightarrow> apply_result wm" where
  \<comment> \<open>\<open>processJob\<close>; the flag: \<open>onActiveMatchesPending\<close> is wired\<close>
  "applyJob hook mb =
     (if mb = '''' then throww ValidationError
      else bindw clock (\<lambda>now.
        bindw (loadEnabledRules mb) (\<lambda>rs.
        if rs = [] then returnw empty_apply_result
        else bindw (query (senderIndexStamp mb)) (\<lambda>stamp.
          bindw (materializeAutopilotSignals mb now) (\<lambda>sgs.
          (let eligible = filter (\<lambda>sg. \<not> psProtected (sg_signals sg)) sgs;
               c = \<lparr>ax_mailbox = mb, ax_now = now, ax_stamp = stamp, ax_eligible = eligible\<rparr>
           in bindw (foreachw (apply_rule c) rs (empty_apply_result\<lparr>sendersConsidered := length eligible\<rparr>))
                (\<lambda>s. if \<not> abortedIndexRebuilt s \<and> (0 < activeMatches s \<or> 0 < activeSkippedAlreadyQueued s) \<and> hook
                     then bindw (tryw (port_call (chain_sweep mb))) (\<lambda>_. returnw s)
                     else returnw s)))))))"

end
