(* ===== verification/Worker_Steps.thy ===== *)
theory Worker_Steps
  imports Worker
begin

text \<open>
  Two further ways to reason about a worker body. In a calm world no other writer runs and no
  statement fails, so a body is a function of the store. Among other writers, \<open>steps R m Q\<close> says
  that however \<open>m\<close> ends, the store went through steps of \<open>R\<close> only (its own and those of the
  others), and that it returns only values in \<open>Q\<close>. An invariant of \<open>R\<close> is then an invariant of the body.
\<close>

subsection \<open>A calm world\<close>

lemma world_same: "ticks w = [] \<Longrightarrow> w\<lparr>wdb := wdb w, ticks := []\<rparr> = w"
  by (cases w) simp

lemma world_same_ticks: "ticks w = [] \<Longrightarrow> w\<lparr>wdb := d, ticks := []\<rparr> = w\<lparr>wdb := d\<rparr>"
  by (cases w) simp

lemma calm_stmt:
  "ticks w = [] \<Longrightarrow>
     stmt f w = (case f (wdb w) of Inl e \<Rightarrow> (Err e, w) | Inr (a, d) \<Rightarrow> (Ok a, w\<lparr>wdb := d\<rparr>))"
  by (simp add: stmt_def world_same world_same_ticks split: sum.splits)

lemma calm_query: "ticks w = [] \<Longrightarrow> query f w = (Ok (f (wdb w)), w)"
  by (simp add: query_def calm_stmt)

lemma calm_exec: "ticks w = [] \<Longrightarrow> exec f w = (Ok (), w\<lparr>wdb := f (wdb w)\<rparr>)"
  by (simp add: exec_def calm_stmt)

lemmas calm = calm_stmt calm_query calm_exec bindw_def returnw_def clock_def

lemma try_ok: "m w = (Ok a, w') \<Longrightarrow> tryw m w = (Ok (Inr a), w')"
  by (simp add: tryw_def catchw_def bindw_def returnw_def)

subsection \<open>Steps\<close>

definition others_in :: "(db \<Rightarrow> db \<Rightarrow> bool) \<Rightarrow> world \<Rightarrow> bool" where
  "others_in R w \<longleftrightarrow> (\<forall>t \<in> set (ticks w). \<forall>d. R d (tick_env t d))"

fun yields :: "('a \<Rightarrow> bool) \<Rightarrow> 'a res \<Rightarrow> bool" where
  "yields Q (Ok a) = Q a"
| "yields Q _ = True"

definition steps :: "(db \<Rightarrow> db \<Rightarrow> bool) \<Rightarrow> 'a wm \<Rightarrow> ('a \<Rightarrow> bool) \<Rightarrow> bool" where
  "steps R m Q \<longleftrightarrow>
     (\<forall>w r w'. others_in R w \<longrightarrow> m w = (r, w') \<longrightarrow> R\<^sup>*\<^sup>* (wdb w) (wdb w') \<and> others_in R w' \<and> yields Q r)"

lemma stepsD: "steps R m Q \<Longrightarrow> others_in R w \<Longrightarrow> m w = (r, w') \<Longrightarrow> R\<^sup>*\<^sup>* (wdb w) (wdb w') \<and> others_in R w' \<and> yields Q r"
  by (simp add: steps_def)

lemma steps_weaken: "steps R m Q \<Longrightarrow> (\<And>a. Q a \<Longrightarrow> Q' a) \<Longrightarrow> steps R m Q'"
  unfolding steps_def by (metis yields.elims(2) yields.simps)

lemma steps_return: "Q a \<Longrightarrow> steps R (returnw a) Q"
  by (simp add: steps_def returnw_def)

lemma steps_throw: "steps R (throww e) Q"
  by (auto simp: steps_def throww_def)

lemma steps_bind:
  assumes "steps R m P" "\<And>a. P a \<Longrightarrow> steps R (f a) Q"
  shows "steps R (bindw m f) Q"
  unfolding steps_def
proof (intro allI impI)
  fix w r w' assume w: "others_in R w" "bindw m f w = (r, w')"
  obtain x w1 where m: "m w = (x, w1)" by (cases "m w")
  note 1 = stepsD [OF assms(1) w(1) m]
  show "R\<^sup>*\<^sup>* (wdb w) (wdb w') \<and> others_in R w' \<and> yields Q r"
  proof (cases x)
    case (Ok a)
    with 1 w(2) m stepsD [OF assms(2), of a w1 r w'] show ?thesis by (auto simp: bindw_def)
  qed (use 1 w(2) m in \<open>auto simp: bindw_def\<close>)
qed

lemma steps_catch:
  assumes "steps R m Q" "\<And>e. steps R (h e) Q"
  shows "steps R (catchw m h) Q"
  unfolding steps_def
proof (intro allI impI)
  fix w r w' assume w: "others_in R w" "catchw m h w = (r, w')"
  obtain x w1 where m: "m w = (x, w1)" by (cases "m w")
  note 1 = stepsD [OF assms(1) w(1) m]
  show "R\<^sup>*\<^sup>* (wdb w) (wdb w') \<and> others_in R w' \<and> yields Q r"
  proof (cases x)
    case (Err e)
    with 1 w(2) m stepsD [OF assms(2), of w1 e r w'] show ?thesis by (auto simp: catchw_def)
  qed (use 1 w(2) m in \<open>auto simp: catchw_def\<close>)
qed

lemma steps_try: "steps R m Q \<Longrightarrow> steps R (tryw m) (\<lambda>r. case r of Inl _ \<Rightarrow> True | Inr a \<Rightarrow> Q a)"
  unfolding tryw_def by (intro steps_catch steps_bind steps_return) auto

lemma steps_foreach:
  assumes "\<And>x s. x \<in> set xs \<Longrightarrow> I s \<Longrightarrow> steps R (f x s) I" "I s"
  shows "steps R (foreachw f xs s) I"
  using assms
proof (induction xs arbitrary: s)
  case (Cons x xs)
  show ?case unfolding foreachw.simps by (rule steps_bind [where P = I]) (use Cons in auto)
qed (simp add: steps_return)

lemma steps_stmt:
  assumes "\<And>d a d'. f d = Inr (a, d') \<Longrightarrow> R\<^sup>*\<^sup>* d d' \<and> Q a"
  shows "steps R (stmt f) Q"
  unfolding steps_def
proof (intro allI impI)
  fix w r w' assume w: "others_in R w" "stmt f w = (r, w')"
  show "R\<^sup>*\<^sup>* (wdb w) (wdb w') \<and> others_in R w' \<and> yields Q r"
  proof (cases "ticks w")
    case Nil
    with w assms [of "wdb w"] show ?thesis by (auto simp: calm_stmt others_in_def split: sum.splits)
  next
    case (Cons t ts)
    let ?d = "tick_env t (wdb w)"
    have d: "R\<^sup>*\<^sup>* (wdb w) ?d" and ts: "\<forall>t \<in> set ts. \<forall>d. R d (tick_env t d)"
      using w(1) Cons by (auto simp: others_in_def)
    have mine: "R\<^sup>*\<^sup>* (wdb w) d' \<and> Q a" if "f ?d = Inr (a, d')" for a d'
      using d assms [OF that] by auto
    show ?thesis
      using w(2) Cons d ts mine by (cases "tick_fate t"; cases "f ?d") (auto simp: stmt_def others_in_def)
  qed
qed

lemma steps_query: "(\<And>d. Q (f d)) \<Longrightarrow> steps R (query f) Q"
  unfolding query_def by (rule steps_stmt) auto

lemma steps_exec: "(\<And>d. R\<^sup>*\<^sup>* d (f d)) \<Longrightarrow> steps R (exec f) (\<lambda>_. True)"
  unfolding exec_def by (rule steps_stmt) auto

lemma steps_clock: "steps R clock (\<lambda>_. True)"
  by (auto simp: steps_def clock_def)

lemma steps_fresh: "steps R fresh_id (\<lambda>_. True)"
  by (auto simp: steps_def fresh_id_def others_in_def)

lemma steps_port:
  assumes "\<And>b w. wdb (eff b w) = wdb w \<and> ticks (eff b w) = ticks w"
  shows "steps R (port_call eff) (\<lambda>_. True)"
  unfolding steps_def
  using assms by (auto simp: port_call_def others_in_def split: list.splits call_reply.splits)

text \<open>A parameter of the steps that the body reads on its way.\<close>

definition some_steps :: "(db \<Rightarrow> db \<Rightarrow> bool) \<Rightarrow> ('x \<Rightarrow> db \<Rightarrow> db \<Rightarrow> bool) \<Rightarrow> 'a wm \<Rightarrow> bool" where
  "some_steps N R m \<longleftrightarrow>
     (\<forall>w r w'. others_in N w \<longrightarrow> m w = (r, w') \<longrightarrow> (\<exists>x. (R x)\<^sup>*\<^sup>* (wdb w) (wdb w')))"

lemma some_steps_if: "steps (R x) m Q \<Longrightarrow> (\<And>x. N \<le> R x) \<Longrightarrow> some_steps N R m"
  unfolding some_steps_def steps_def others_in_def by (metis predicate2D)

lemma some_steps_bind:
  assumes "steps N m P" "\<And>a. P a \<Longrightarrow> some_steps N R (f a)" "\<And>x. N \<le> R x"
  shows "some_steps N R (bindw m f)"
  unfolding some_steps_def
proof (intro allI impI)
  fix w r w' assume w: "others_in N w" "bindw m f w = (r, w')"
  obtain x w1 where m: "m w = (x, w1)" by (cases "m w")
  note 1 = stepsD [OF assms(1) w(1) m]
  then have N: "(R y)\<^sup>*\<^sup>* (wdb w) (wdb w1)" for y using rtranclp_mono [OF assms(3)] by blast
  show "\<exists>x. (R x)\<^sup>*\<^sup>* (wdb w) (wdb w')"
  proof (cases x)
    case (Ok a)
    then have "others_in N w1" "P a" "f a w1 = (r, w')" using 1 w(2) m by (simp_all add: bindw_def)
    then obtain y where "(R y)\<^sup>*\<^sup>* (wdb w1) (wdb w')"
      using assms(2) [of a] unfolding some_steps_def by blast
    with N show ?thesis by (meson rtranclp_trans)
  qed (use N w(2) m in \<open>auto simp: bindw_def\<close>)
qed

lemma steps_invariant:
  assumes "steps R m Q" "others_in R w" "m w = (r, w')" "I (wdb w)" "\<And>d d'. R d d' \<Longrightarrow> I d \<Longrightarrow> I d'"
  shows "I (wdb w')"
proof -
  have "R\<^sup>*\<^sup>* (wdb w) (wdb w')" using stepsD [OF assms(1-3)] by simp
  then show ?thesis by (induction rule: rtranclp_induct) (use assms(4,5) in auto)
qed

end
