(* ===== verification/Apply_Pass.thy ===== *)
theory Apply_Pass
  imports Autopilot_Apply Worker_Steps
begin

text \<open>
  What an Autopilot apply pass does. Alone on the store it writes exactly the matches that are
  due, a second pass writes nothing, and every other table stays as it was. Beside any other
  writers, and whatever fails, it only adds rows the action sweep accepts.
\<close>

lemma fresh_ids_run:
  "\<exists>is. fresh_ids n w = (Ok is, w\<lparr>uuid_next := uuid_next w + n\<rparr>) \<and> length is = n"
proof (induction n arbitrary: w)
  case 0
  show ?case by (simp add: returnw_def) 
next
  case (Suc n)
  let ?w = "w\<lparr>uuid_next := uuid_next w + 1\<rparr>"
  obtain is' where "fresh_ids n ?w = (Ok is', ?w\<lparr>uuid_next := uuid_next ?w + n\<rparr>)" "length is' = n"
    using Suc by blast
  then show ?case by (simp add: bindw_def fresh_id_def returnw_def)
qed

subsection \<open>Specification\<close>

definition signals_now :: "ident \<Rightarrow> db \<Rightarrow> signal_row list" where
  "signals_now mb d =
     (let ss = filter (\<lambda>s. se_mailbox s = mb) (senders d); ks = map se_key ss
      in map (signal_row_of (db_now d) (policy_rows_of mb ks d) (decisions_of mb ks d)
                (timeseries_of mb ks d) (mail_counts mb ks d)) ss)"

definition may_run :: "ident \<Rightarrow> tier \<Rightarrow> rule_row \<Rightarrow> bool" where
  "may_run mb t r \<longleftrightarrow>
     hasCapability t Autopilot \<and> ru_mailbox r = mb \<and> ru_enabled r \<and> ru_mode r \<noteq> Paused \<and>
     (hasCapability t AutopilotActive \<or> ru_mode r \<noteq> Active \<or>
      ru_preset_key r = Some ''auto_screen_new_senders'' \<or>
      ru_preset_key r = Some ''auto_archive_low_engagement'') \<and> ru_is_preset r"

definition runnable_rules :: "ident \<Rightarrow> db \<Rightarrow> rule_row list" where
  "runnable_rules mb d =
     (case mailbox_row_of mb d of None \<Rightarrow> [] | Some (_, t) \<Rightarrow> filter (may_run mb t) (rules d))"

definition threshold_of :: "rule_row \<Rightarrow> rat option option" where
  "threshold_of r = (case ru_threshold r of None \<Rightarrow> Some None | Some t \<Rightarrow> map_option Some (parse_float t))"

definition setting :: "rule_row \<Rightarrow> (preset_key \<times> rat option) option" where
  \<comment> \<open>the preset and threshold of a rule the pass evaluates\<close>
  "setting r =
     (case isPresetKey (ru_preset_key r) of
        None \<Rightarrow> None
      | Some p \<Rightarrow> if ru_action r = ActDelete then None else map_option (Pair p) (threshold_of r))"

definition waiting :: "db \<Rightarrow> rule_row \<Rightarrow> match_mode \<Rightarrow> string \<Rightarrow> bool" where
  \<comment> \<open>the sender already has a row of this rule that awaits the user or the sweep\<close>
  "waiting d r mode k \<longleftrightarrow>
     (\<exists>m \<in> set (matches d). ma_rule m = ru_id r \<and> ma_key m = k \<and>
        (if mode = MatchedActive then ruleMatchIsQueuedAction d m else ma_resolution m = Pending))"

definition due :: "db \<Rightarrow> ident \<Rightarrow> rule_row \<Rightarrow> match_mode \<Rightarrow> signal_row \<Rightarrow> bool" where
  "due d mb r mode sg \<longleftrightarrow>
     sg \<in> set (signals_now mb d) \<and> \<not> psProtected (sg_signals sg) \<and>
     (\<exists>p t. setting r = Some (p, t) \<and> mode = rule_mode_at_match r p \<and>
        matched (rule_matches r p t sg) \<and> actionable r sg \<and> \<not> waiting d r mode (sg_key sg))"

lemma materialize_calm:
  "ticks w = [] \<Longrightarrow> materializeAutopilotSignals mb (db_now (wdb w)) w = (Ok (signals_now mb (wdb w)), w)"
  by (simp add: materializeAutopilotSignals_def calm signals_now_def Let_def)

lemma loadEnabledRules_calm:
  "ticks w = [] \<Longrightarrow> loadEnabledRules mb w = (Ok (runnable_rules mb (wdb w)), w)"
  by (simp add: loadEnabledRules_def calm runnable_rules_def may_run_def [abs_def] split: option.splits)

subsection \<open>Inserting\<close>

lemma pending_conflict_snoc:
  "(ma_rule x, ma_key x) \<noteq> (ma_rule m, ma_key m) \<Longrightarrow> pending_conflict x (ms @ [m]) = pending_conflict x ms"
  by (auto simp: pending_conflict_def)

lemma insert_matches_exact:
  "distinct (map (\<lambda>m. (ma_rule m, ma_key m)) rows) \<Longrightarrow>
     insert_matches rows ms =
       (map ma_id (filter (\<lambda>m. \<not> pending_conflict m ms) rows), ms @ filter (\<lambda>m. \<not> pending_conflict m ms) rows)"
proof (induction rows arbitrary: ms)
  case (Cons m rows)
  have "pending_conflict x (ms @ [m]) = pending_conflict x ms" if "x \<in> set rows" for x
    using Cons.prems imageI [OF that, of "\<lambda>m. (ma_rule m, ma_key m)"]
    by (intro pending_conflict_snoc) auto
  then have "filter (\<lambda>x. \<not> pending_conflict x (ms @ [m])) rows = filter (\<lambda>x. \<not> pending_conflict x ms) rows"
    by (intro filter_cong) auto
  with Cons show ?case by auto
qed simp

lemma insert_matches_adds:
  "insert_matches rows ms = (is, ms') \<Longrightarrow>
     \<exists>new. ms' = ms @ new \<and> map ma_id new = is \<and> set new \<subseteq> set rows"
proof (induction rows arbitrary: ms "is" ms')
  case (Cons m rows)
  show ?case
  proof (cases "pending_conflict m ms")
    case True
    with Cons show ?thesis by fastforce
  next
    case False
    with Cons.prems obtain is' where "insert_matches rows (ms @ [m]) = (is', ms')" "is = ma_id m # is'"
      by (auto split: prod.splits)
    moreover from Cons.IH [OF this(1)] obtain new
      where "ms' = (ms @ [m]) @ new" "map ma_id new = is'" "set new \<subseteq> set rows" by blast
    ultimately show ?thesis by (intro exI [of _ "m # new"]) auto
  qed
qed simp

subsection \<open>One rule\<close>

definition core :: "rule_row \<Rightarrow> rule_row" where
  \<comment> \<open>a rule without the summary of its last run\<close>
  "core r = r\<lparr>ru_last_run := None, ru_last_actions := 0, ru_last_senders := 0\<rparr>"

definition grown :: "db \<Rightarrow> db \<Rightarrow> match_row list \<Rightarrow> bool" where
  \<comment> \<open>the store after a pass that appended these matches\<close>
  "grown d0 d new \<longleftrightarrow>
     (\<exists>R. map core R = map core (rules d0) \<and> d = d0\<lparr>matches := matches d0 @ new, rules := R\<rparr>)"

lemma core_select [simp]:
  "ru_id (core r) = ru_id r" "ru_mailbox (core r) = ru_mailbox r" "ru_preset_key (core r) = ru_preset_key r"
  "ru_is_preset (core r) = ru_is_preset r" "ru_enabled (core r) = ru_enabled r" "ru_mode (core r) = ru_mode r"
  "ru_threshold (core r) = ru_threshold r" "ru_conditions (core r) = ru_conditions r"
  "ru_action (core r) = ru_action r" "ru_version (core r) = ru_version r"
  by (simp_all add: core_def)

lemma core_same:
  assumes "core r = core r'"
  shows "ru_id r = ru_id r'" "ru_mailbox r = ru_mailbox r'" "ru_preset_key r = ru_preset_key r'"
    "ru_is_preset r = ru_is_preset r'" "ru_enabled r = ru_enabled r'" "ru_mode r = ru_mode r'"
    "ru_threshold r = ru_threshold r'" "ru_conditions r = ru_conditions r'"
    "ru_action r = ru_action r'" "ru_version r = ru_version r'"
  using core_select [of r, unfolded assms] by simp_all

lemma core_rule_ran: "map core (rules (rule_ran r now cs d)) = map core (rules d)"
  by (simp add: rule_ran_def, rule map_update_where, simp add: core_def)

lemma find_core:
  assumes "map core R = map core R'" "r \<in> set R'" "distinct (map ru_id R')"
  shows "\<exists>r'. List.find (\<lambda>x. ru_id x = ru_id r) R = Some r' \<and> core r' = core r"
  using assms
proof (induction R arbitrary: R')
  case (Cons x R)
  then obtain y R'' where R': "R' = y # R''" "core x = core y" "map core R = map core R''" by auto
  show ?case
  proof (cases "ru_id y = ru_id r")
    case True
    with Cons.prems(2,3) R'(1) have "r = y" by auto
    with True core_same(1) [OF R'(2)] R'(2) show ?thesis by simp
  next
    case False
    moreover from this have "r \<in> set R''" "distinct (map ru_id R'')" using Cons.prems(2,3) R'(1) by auto
    ultimately show ?thesis using core_same(1) [OF R'(2)] Cons.IH [OF R'(3)] by simp
  qed
qed simp

lemma grown_stamp: "grown d0 d new \<Longrightarrow> senderIndexStamp mb d = senderIndexStamp mb d0"
  by (auto simp: grown_def senderIndexStamp_def)

lemma grown_queued: "grown d0 d new \<Longrightarrow> ruleMatchIsQueuedAction d m = ruleMatchIsQueuedAction d0 m"
  by (auto simp: grown_def ruleMatchIsQueuedAction_def ruleMatchEvidenceIsCurrent_def)

lemma grown_matches: "grown d0 d new \<Longrightarrow> matches d = matches d0 @ new"
  by (auto simp: grown_def)

lemma grown_rule_ran:
  assumes "grown d0 d new"
  shows "grown d0 (rule_ran r now cs d) new"
proof -
  obtain R where R: "map core R = map core (rules d0)" "d = d0\<lparr>matches := matches d0 @ new, rules := R\<rparr>"
    using assms by (auto simp: grown_def)
  show ?thesis
    unfolding grown_def
    by (rule exI [of _ "rules (rule_ran r now cs d)"])
      (use R in \<open>simp add: core_rule_ran\<close>, simp add: R(2) rule_ran_def)
qed

lemma grown_insert: "grown d0 d new \<Longrightarrow> grown d0 (d\<lparr>matches := matches d @ rows\<rparr>) (new @ rows)"
  by (auto simp: grown_def)

definition wrote :: "ident \<Rightarrow> millis \<Rightarrow> rule_row \<Rightarrow> match_mode \<Rightarrow> string set \<Rightarrow> match_row list \<Rightarrow> bool" where
  \<comment> \<open>one row for each of these senders\<close>
  "wrote mb now r mode K new \<longleftrightarrow>
     distinct (map ma_key new) \<and> ma_key ` set new = K \<and>
     (\<forall>m \<in> set new. ma_rule m = ru_id r \<and> ma_mailbox m = mb \<and> ma_mode m = mode \<and> ma_matched_at m = now \<and>
        ma_resolution m = (if mode = MatchedActive then Approved else Pending) \<and> \<not> ma_applied m)"

lemma new_match_rows:
  assumes "length is = length cs" "distinct (map cd_key cs)"
  shows "wrote mb now r mode (cd_key ` {c \<in> set cs. P (cd_key c)})
           (filter (\<lambda>m. P (ma_key m)) (map2 (new_match r mode mb now) is cs))"
  using assms
proof (induction "is" cs rule: list_induct2)
  case (Cons i "is" c cs)
  then show ?case
    by (auto simp: wrote_def new_match_def)
qed (simp add: wrote_def)

lemma candidate_key [simp]: "cd_key (candidate_of r p t sg) = sg_key sg"
  by (simp add: candidate_of_def)

lemma rule_candidates_keys:
  "cd_key ` {x \<in> set (rule_candidates r p t sgs). P (cd_key x)} =
     sg_key ` {sg \<in> set sgs. matched (rule_matches r p t sg) \<and> actionable r sg \<and> P (sg_key sg)}"
  by (force simp: rule_candidates_def)

lemma rule_candidates_distinct:
  "distinct (map sg_key sgs) \<Longrightarrow> distinct (map cd_key (rule_candidates r p t sgs))"
  by (simp add: rule_candidates_def candidate_of_def comp_def distinct_map_filter)

lemma queued_keys_iff:
  "k \<in> set (queued_keys r cs d) \<longleftrightarrow> k \<in> cd_key ` set cs \<and> waiting d r MatchedActive k"
  by (force simp: queued_keys_def waiting_def)

lemma drop_queued_calm:
  assumes "ticks w = []"
  shows "drop_queued r mode cs w =
    (Ok (if mode = MatchedActive then filter (\<lambda>c. cd_key c \<notin> set (queued_keys r cs (wdb w))) cs else cs), w)"
  using assms by (auto simp: drop_queued_def calm)

lemma write_matches_calm:
  fixes c w
  defines "d \<equiv> wdb w"
  assumes w: "ticks w = []" and cs: "distinct (map cd_key cs)"
    and stamp: "senderIndexStamp (ax_mailbox c) d = ax_stamp c"
    and cur: "List.find (\<lambda>x. ru_id x = ru_id r) (rules d) = Some r'" "core r' = core r" "ru_enabled r"
  shows "\<exists>n rows. write_matches c r mode cs w =
        (Ok (Some (map ma_id rows)), w\<lparr>uuid_next := n, wdb := d\<lparr>matches := matches d @ rows\<rparr>\<rparr>) \<and>
      wrote (ax_mailbox c) (ax_now c) r mode
        (cd_key ` {x \<in> set cs. mode = MatchedActive \<or>
           \<not> (\<exists>m \<in> set (matches d). ma_rule m = ru_id r \<and> ma_key m = cd_key x \<and> ma_resolution m = Pending)}) rows"
proof (cases "cs = []")
  case True
  then show ?thesis
    by (intro exI [of _ "uuid_next w"] exI [of _ "[]"]) (simp add: write_matches_def returnw_def wrote_def d_def)
next
  case False
  let ?P = "\<lambda>k. mode = MatchedActive \<or>
    \<not> (\<exists>m \<in> set (matches d). ma_rule m = ru_id r \<and> ma_key m = k \<and> ma_resolution m = Pending)"
  obtain ids where ids: "fresh_ids (length cs) w = (Ok ids, w\<lparr>uuid_next := uuid_next w + length cs\<rparr>)"
      "length ids = length cs"
    using fresh_ids_run by blast
  define rows where "rows = map2 (new_match r mode (ax_mailbox c) (ax_now c)) ids cs"
  have facts: "\<forall>m \<in> set rows. ma_rule m = ru_id r \<and> ma_resolution m = (if mode = MatchedActive then Approved else Pending)"
    by (auto simp: rows_def new_match_def)
  have "map ma_key rows = map cd_key cs"
    using ids(2) unfolding rows_def by (induction ids cs rule: list_induct2) (simp_all add: new_match_def)
  with cs have "distinct (map ma_key rows)" by simp
  then have "distinct (map (\<lambda>m. (ma_rule m, ma_key m)) rows)"
    by (auto simp: distinct_map inj_on_def)
  moreover have "filter (\<lambda>m. \<not> pending_conflict m (matches d)) rows = filter (\<lambda>m. ?P (ma_key m)) rows"
    using facts by (intro filter_cong) (auto simp: pending_conflict_def list_ex_iff)
  ultimately have "insert_matches rows (matches d) =
      (map ma_id (filter (\<lambda>m. ?P (ma_key m)) rows), matches d @ filter (\<lambda>m. ?P (ma_key m)) rows)"
    by (simp add: insert_matches_exact)
  then have "write_matches c r mode cs w = (Ok (Some (map ma_id (filter (\<lambda>m. ?P (ma_key m)) rows))),
      w\<lparr>uuid_next := uuid_next w + length cs, wdb := d\<lparr>matches := matches d @ filter (\<lambda>m. ?P (ma_key m)) rows\<rparr>\<rparr>)"
    using False w ids stamp cur core_same(1,5,6,10) [OF cur(2)]
    by (simp add: write_matches_def bindw_def calm_stmt insert_tx_def rows_def [symmetric] d_def)
  moreover have "wrote (ax_mailbox c) (ax_now c) r mode (cd_key ` {x \<in> set cs. ?P (cd_key x)})
      (filter (\<lambda>m. ?P (ma_key m)) rows)"
    unfolding rows_def by (rule new_match_rows [where P = ?P]) (use ids cs in simp_all)
  ultimately show ?thesis by blast
qed

lemma grown_waiting:
  "grown d0 d new \<Longrightarrow> \<forall>m \<in> set new. ma_rule m \<noteq> ru_id r \<Longrightarrow> waiting d r mode k = waiting d0 r mode k"
  by (auto simp: waiting_def grown_matches grown_queued)

definition moved :: "world \<Rightarrow> world \<Rightarrow> bool" where
  \<comment> \<open>only the store and the supply of ids changed\<close>
  "moved w w' \<longleftrightarrow> (\<exists>n d. w' = w\<lparr>uuid_next := n, wdb := d\<rparr>)"

lemma moved_fields: "moved w w' \<Longrightarrow> ticks w' = ticks w \<and> calls w' = calls w \<and> chained w' = chained w"
  by (auto simp: moved_def)

lemma moved_refl [simp]: "moved w w"
  by (auto simp: moved_def intro!: exI [of _ "uuid_next w"] exI [of _ "wdb w"])

lemma moved_trans: "moved w w' \<Longrightarrow> moved w' w'' \<Longrightarrow> moved w w''"
  by (auto simp: moved_def) (rule exI, rule exI, rule refl)

definition counted :: "apply_result \<Rightarrow> match_row list \<Rightarrow> apply_result \<Rightarrow> bool" where
  \<comment> \<open>the counters after these rows were written\<close>
  "counted s rows s' \<longleftrightarrow>
     matchesWritten s' = matchesWritten s + length rows \<and> rulesFailed s' = rulesFailed s \<and>
     abortedIndexRebuilt s' = abortedIndexRebuilt s \<and>
     activeMatches s' = activeMatches s + count_where (\<lambda>m. ma_mode m = MatchedActive) rows"

lemma counted_refl [simp]: "counted s [] s"
  by (simp add: counted_def count_where_def)

lemma counted_trans: "counted s rows s' \<Longrightarrow> counted s' rows' s'' \<Longrightarrow> counted s (rows @ rows') s''"
  by (simp add: counted_def count_where_def)

definition fits :: "db \<Rightarrow> apply_ctx \<Rightarrow> bool" where
  "fits d c \<longleftrightarrow> ax_stamp c = senderIndexStamp (ax_mailbox c) d \<and> distinct (map sg_key (ax_eligible c))"

definition rule_keys :: "db \<Rightarrow> apply_ctx \<Rightarrow> rule_row \<Rightarrow> preset_key \<Rightarrow> rat option \<Rightarrow> string set" where
  "rule_keys d c r p t =
     sg_key ` {sg \<in> set (ax_eligible c). matched (rule_matches r p t sg) \<and> actionable r sg \<and>
                 \<not> waiting d r (rule_mode_at_match r p) (sg_key sg)}"

lemma rule_body_calm:
  assumes w: "ticks w = []" and g: "grown d0 (wdb w) new" and c: "fits d0 c"
    and r: "r \<in> set (rules d0)" "distinct (map ru_id (rules d0))" "ru_enabled r"
    and other: "\<forall>m \<in> set new. ma_rule m \<noteq> ru_id r"
  shows "\<exists>w' s' rows. rule_body c r p t s w = (Ok s', w') \<and> moved w w' \<and> grown d0 (wdb w') (new @ rows) \<and>
      counted s rows s' \<and>
      wrote (ax_mailbox c) (ax_now c) r (rule_mode_at_match r p) (rule_keys d0 c r p t) rows"
proof -
  let ?mode = "rule_mode_at_match r p" and ?d = "wdb w" and ?found = "rule_candidates r p t (ax_eligible c)"
  define kept where "kept = (if ?mode = MatchedActive
    then filter (\<lambda>x. cd_key x \<notin> set (queued_keys r ?found ?d)) ?found else ?found)"
  have dist: "distinct (map cd_key ?found)"
    using c by (simp add: fits_def rule_candidates_distinct)
  then have "distinct (map cd_key kept)" by (simp add: kept_def distinct_map_filter)
  moreover obtain r' where "List.find (\<lambda>x. ru_id x = ru_id r) (rules ?d) = Some r'" "core r' = core r"
    using find_core [OF _ r(1,2), of "rules ?d"] g by (auto simp: grown_def)
  moreover have "senderIndexStamp (ax_mailbox c) ?d = ax_stamp c"
    using c grown_stamp [OF g] by (simp add: fits_def)
  ultimately obtain n rows where wr: "write_matches c r ?mode kept w =
        (Ok (Some (map ma_id rows)), w\<lparr>uuid_next := n, wdb := ?d\<lparr>matches := matches ?d @ rows\<rparr>\<rparr>)"
      "wrote (ax_mailbox c) (ax_now c) r ?mode
        (cd_key ` {x \<in> set kept. ?mode = MatchedActive \<or>
           \<not> (\<exists>m \<in> set (matches ?d). ma_rule m = ru_id r \<and> ma_key m = cd_key x \<and> ma_resolution m = Pending)}) rows"
    using write_matches_calm [OF w, of kept c r r' ?mode] r(3) by blast
  have keys: "cd_key ` {x \<in> set kept. ?mode = MatchedActive \<or>
        \<not> (\<exists>m \<in> set (matches ?d). ma_rule m = ru_id r \<and> ma_key m = cd_key x \<and> ma_resolution m = Pending)}
      = cd_key ` {x \<in> set ?found. \<not> waiting ?d r ?mode (cd_key x)}"
    by (rule arg_cong [where f = "image cd_key"]) (auto simp: kept_def queued_keys_iff, auto simp: waiting_def)
  also have "\<dots> = rule_keys d0 c r p t"
    using grown_waiting [OF g other] by (simp add: rule_keys_def rule_candidates_keys [where P = "\<lambda>k. \<not> waiting d0 r (rule_mode_at_match r p) k"])
  finally have K: "wrote (ax_mailbox c) (ax_now c) r ?mode (rule_keys d0 c r p t) rows" using wr(2) by simp
  have modes: "count_where (\<lambda>m. ma_mode m = MatchedActive) rows = (if ?mode = MatchedActive then length rows else 0)"
    using K by (auto simp: wrote_def count_where_def filter_empty_conv)
  let ?w = "w\<lparr>uuid_next := n, wdb := rule_ran r (ax_now c) kept (?d\<lparr>matches := matches ?d @ rows\<rparr>)\<rparr>"
  obtain s' where s': "rule_body c r p t s w = (Ok s', ?w)" "counted s rows s'"
    using w wr(1) modes drop_queued_calm [OF w, of r ?mode ?found]
    by (cases ?mode)
      (auto simp: rule_body_def Let_def bindw_def try_ok calm_exec returnw_def kept_def counted_def
        count_written_def count_unactionable_def split: if_splits)
  have "moved w ?w" by (auto simp: moved_def)
  moreover have "grown d0 (wdb ?w) (new @ rows)" using grown_rule_ran [OF grown_insert [OF g]] by simp
  ultimately show ?thesis using s' K by blast
qed

subsection \<open>The loop over the rules\<close>

definition pass_keys :: "db \<Rightarrow> apply_ctx \<Rightarrow> rule_row \<Rightarrow> string set" where
  "pass_keys d c r = (case setting r of None \<Rightarrow> {} | Some (p, t) \<Rightarrow> rule_keys d c r p t)"

definition pass_mode :: "rule_row \<Rightarrow> match_mode" where
  "pass_mode r = (case setting r of None \<Rightarrow> MatchedObserve | Some (p, t) \<Rightarrow> rule_mode_at_match r p)"

lemma apply_rule_calm:
  assumes w: "ticks w = []" "\<not> abortedIndexRebuilt s" and g: "grown d0 (wdb w) new" and c: "fits d0 c"
    and r: "r \<in> set (rules d0)" "distinct (map ru_id (rules d0))" "ru_enabled r"
    and other: "\<forall>m \<in> set new. ma_rule m \<noteq> ru_id r"
  shows "\<exists>w' s' rows. apply_rule c r s w = (Ok s', w') \<and> moved w w' \<and> grown d0 (wdb w') (new @ rows) \<and>
      counted s rows s' \<and> wrote (ax_mailbox c) (ax_now c) r (pass_mode r) (pass_keys d0 c r) rows"
proof (cases "setting r")
  case None
  then have "\<exists>s'. apply_rule c r s w = (Ok s', w) \<and> counted s [] s'"
    using w
    by (auto simp: setting_def threshold_of_def apply_rule_def returnw_def counted_def count_where_def
        split: option.splits if_splits)
  moreover have "wrote (ax_mailbox c) (ax_now c) r (pass_mode r) (pass_keys d0 c r) []"
    using None by (simp add: pass_keys_def wrote_def)
  ultimately show ?thesis using g by (metis moved_refl append_Nil2)
next
  case (Some pt)
  obtain p t where pt: "pt = (p, t)" by force
  then have "apply_rule c r s w = rule_body c r p t s w"
    using Some w(2)
    by (auto simp: setting_def threshold_of_def apply_rule_def split: option.splits if_splits)
  moreover have "pass_keys d0 c r = rule_keys d0 c r p t" "pass_mode r = rule_mode_at_match r p"
    using Some pt by (simp_all add: pass_keys_def pass_mode_def)
  ultimately show ?thesis
    using rule_body_calm [OF w(1) g c r other, of p t s] by simp
qed

definition written_for :: "db \<Rightarrow> apply_ctx \<Rightarrow> rule_row list \<Rightarrow> match_row list \<Rightarrow> bool" where
  \<comment> \<open>the rows of a pass, rule by rule\<close>
  "written_for d c rs new \<longleftrightarrow>
     (\<exists>rows. new = concat (map rows rs) \<and>
        (\<forall>r \<in> set rs. wrote (ax_mailbox c) (ax_now c) r (pass_mode r) (pass_keys d c r) (rows r)))"

lemma written_for_Nil [simp]: "written_for d c [] new \<longleftrightarrow> new = []"
  by (simp add: written_for_def)

lemma written_for_Cons:
  assumes "wrote (ax_mailbox c) (ax_now c) r (pass_mode r) (pass_keys d c r) rows" "written_for d c rs new" "r \<notin> set rs"
  shows "written_for d c (r # rs) (rows @ new)"
proof -
  obtain f where "new = concat (map f rs)"
    "\<forall>r \<in> set rs. wrote (ax_mailbox c) (ax_now c) r (pass_mode r) (pass_keys d c r) (f r)"
    using assms(2) by (auto simp: written_for_def)
  moreover have "map (f(r := rows)) rs = map f rs" using assms(3) by simp
  ultimately show ?thesis
    unfolding written_for_def using assms(1,3)
    by (intro exI [of _ "f(r := rows)"]) (simp del: fun_upd_apply, simp)
qed

lemma apply_rules_calm:
  assumes "ticks w = []" "\<not> abortedIndexRebuilt s" "grown d0 (wdb w) new" "fits d0 c"
    and "distinct (map ru_id (rules d0))" "set rs \<subseteq> set (rules d0)" "\<forall>r \<in> set rs. ru_enabled r"
    and "distinct (map ru_id rs)" "\<forall>r \<in> set rs. \<forall>m \<in> set new. ma_rule m \<noteq> ru_id r"
  shows "\<exists>w' s' rows. foreachw (apply_rule c) rs s w = (Ok s', w') \<and> moved w w' \<and>
      grown d0 (wdb w') (new @ rows) \<and> counted s rows s' \<and> written_for d0 c rs rows"
  using assms
proof (induction rs arbitrary: s w new)
  case Nil
  then show ?case by (auto simp: returnw_def intro!: exI [of _ w] exI [of _ s] exI [of _ "[]"])
next
  case (Cons r rs)
  obtain w1 s1 rows where 1: "apply_rule c r s w = (Ok s1, w1)" "moved w w1" "grown d0 (wdb w1) (new @ rows)"
      "counted s rows s1" "wrote (ax_mailbox c) (ax_now c) r (pass_mode r) (pass_keys d0 c r) rows"
    using apply_rule_calm [OF Cons.prems(1-4), of r] Cons.prems by auto
  have "\<forall>x \<in> set rs. \<forall>m \<in> set (new @ rows). ma_rule m \<noteq> ru_id x"
    using Cons.prems(8,9) 1(5) by (auto simp: wrote_def)
  moreover have "ticks w1 = []" "\<not> abortedIndexRebuilt s1"
    using 1(2,4) Cons.prems(1,2) by (auto simp: counted_def dest: moved_fields)
  ultimately obtain w2 s2 rows2 where 2: "foreachw (apply_rule c) rs s1 w1 = (Ok s2, w2)" "moved w1 w2"
      "grown d0 (wdb w2) ((new @ rows) @ rows2)" "counted s1 rows2 s2" "written_for d0 c rs rows2"
    using Cons.IH [of w1 s1 "new @ rows"] 1(3) Cons.prems(4-8) by auto
  have "written_for d0 c (r # rs) (rows @ rows2)"
    using written_for_Cons [OF 1(5) 2(5)] Cons.prems(8) by auto
  then show ?case
    using 1 2 moved_trans counted_trans by (fastforce simp: bindw_def)
qed

subsection \<open>A pass\<close>

lemma signal_keys: "map sg_key (signals_now mb d) = map se_key (filter (\<lambda>s. se_mailbox s = mb) (senders d))"
  by (simp add: signals_now_def Let_def signal_row_of_def split: prod.splits)

lemma due_keys:
  fixes d mb n st
  defines "c \<equiv> \<lparr>ax_mailbox = mb, ax_now = n, ax_stamp = st,
                ax_eligible = filter (\<lambda>sg. \<not> psProtected (sg_signals sg)) (signals_now mb d)\<rparr>"
  shows "due d mb r mode sg \<Longrightarrow> mode = pass_mode r \<and> sg_key sg \<in> pass_keys d c r"
    and "k \<in> pass_keys d c r \<Longrightarrow> \<exists>sg. sg_key sg = k \<and> due d mb r (pass_mode r) sg"
  by (auto simp: due_def pass_mode_def pass_keys_def rule_keys_def c_def split: option.splits prod.splits)

lemma wroteD:
  "wrote mb now r mode K new \<Longrightarrow> k \<in> K \<Longrightarrow> \<exists>m \<in> set new. ma_key m = k \<and> ma_rule m = ru_id r \<and> ma_mode m = mode"
  unfolding wrote_def by blast

lemma due_set:
  fixes d mb n st
  defines "c \<equiv> \<lparr>ax_mailbox = mb, ax_now = n, ax_stamp = st,
                ax_eligible = filter (\<lambda>sg. \<not> psProtected (sg_signals sg)) (signals_now mb d)\<rparr>"
  shows "{(ru_id r, k, pass_mode r) | r k. r \<in> S \<and> k \<in> pass_keys d c r} =
         {(ru_id r, sg_key sg, mode) | r sg mode. r \<in> S \<and> due d mb r mode sg}"
  unfolding c_def using due_keys [where d = d and mb = mb and n = n and st = st] by blast

definition row_shape :: "ident \<Rightarrow> millis \<Rightarrow> match_row \<Rightarrow> bool" where
  "row_shape mb now m \<longleftrightarrow>
     ma_mailbox m = mb \<and> ma_matched_at m = now \<and> \<not> ma_applied m \<and>
     ma_resolution m = (if ma_mode m = MatchedActive then Approved else Pending)"

lemma written_for_shape:
  assumes "written_for d c rs new" "distinct (map ru_id rs)"
  shows "distinct (map (\<lambda>m. (ma_rule m, ma_key m)) new)"
    and "(\<lambda>m. (ma_rule m, ma_key m, ma_mode m)) ` set new =
           {(ru_id r, k, pass_mode r) | r k. r \<in> set rs \<and> k \<in> pass_keys d c r}"
    and "\<forall>m \<in> set new. row_shape (ax_mailbox c) (ax_now c) m"
proof -
  obtain rows where rows: "new = concat (map rows rs)"
    "\<And>r. r \<in> set rs \<Longrightarrow> wrote (ax_mailbox c) (ax_now c) r (pass_mode r) (pass_keys d c r) (rows r)"
    using assms(1) by (auto simp: written_for_def)
  show "distinct (map (\<lambda>m. (ma_rule m, ma_key m)) new)"
    using assms(2) rows(2) unfolding rows(1)
  proof (induction rs)
    case (Cons r rs)
    have "distinct (map (\<lambda>m. (ma_rule m, ma_key m)) (rows r))"
      using Cons.prems(2) [of r] by (auto simp: wrote_def distinct_map inj_on_def)
    moreover have "ma_rule m = ru_id x" if "m \<in> set (rows x)" "x = r \<or> x \<in> set rs" for m x
      using Cons.prems(2) [of x] that by (auto simp: wrote_def)
    moreover have "ru_id x \<noteq> ru_id r" if "x \<in> set rs" for x
      using Cons.prems(1) imageI [OF that, of ru_id] by auto
    ultimately show ?case using Cons by fastforce
  qed simp
  show "(\<lambda>m. (ma_rule m, ma_key m, ma_mode m)) ` set new =
           {(ru_id r, k, pass_mode r) | r k. r \<in> set rs \<and> k \<in> pass_keys d c r}"
  proof (intro equalityI subsetI)
    fix x assume "x \<in> (\<lambda>m. (ma_rule m, ma_key m, ma_mode m)) ` set new"
    then obtain r m where "r \<in> set rs" "m \<in> set (rows r)" "x = (ma_rule m, ma_key m, ma_mode m)"
      by (auto simp: rows(1))
    with rows(2) [of r] show "x \<in> {(ru_id r, k, pass_mode r) | r k. r \<in> set rs \<and> k \<in> pass_keys d c r}"
      by (auto simp: wrote_def)
  next
    fix x assume "x \<in> {(ru_id r, k, pass_mode r) | r k. r \<in> set rs \<and> k \<in> pass_keys d c r}"
    then obtain r k where r: "r \<in> set rs" "k \<in> pass_keys d c r" "x = (ru_id r, k, pass_mode r)" by blast
    then obtain m where "m \<in> set (rows r)" "ma_key m = k" "ma_rule m = ru_id r" "ma_mode m = pass_mode r"
      using wroteD [OF rows(2)] by metis
    with r show "x \<in> (\<lambda>m. (ma_rule m, ma_key m, ma_mode m)) ` set new"
      by (auto simp: rows(1) intro!: rev_image_eqI [of m])
  qed
  show "\<forall>m \<in> set new. row_shape (ax_mailbox c) (ax_now c) m"
    using rows by (fastforce simp: wrote_def row_shape_def)
qed

lemma runnable_rulesD: "r \<in> set (runnable_rules mb d) \<Longrightarrow> r \<in> set (rules d) \<and> ru_enabled r"
  by (auto simp: runnable_rules_def may_run_def split: option.splits)

lemma runnable_rules_distinct:
  "distinct (map ru_id (rules d)) \<Longrightarrow> distinct (map ru_id (runnable_rules mb d))"
  by (auto simp: runnable_rules_def distinct_map_filter split: option.splits)

definition pass_wrote :: "ident \<Rightarrow> db \<Rightarrow> match_row list \<Rightarrow> bool" where
  "pass_wrote mb d new \<longleftrightarrow>
     distinct (map (\<lambda>m. (ma_rule m, ma_key m)) new) \<and>
     (\<lambda>m. (ma_rule m, ma_key m, ma_mode m)) ` set new =
       {(ru_id r, sg_key sg, mode) | r sg mode. r \<in> set (runnable_rules mb d) \<and> due d mb r mode sg} \<and>
     (\<forall>m \<in> set new. row_shape mb (db_now d) m)"

lemma applyJob_calm:
  fixes w mb
  defines "d \<equiv> wdb w"
  assumes w: "ticks w = []" "calls w = []" "mb \<noteq> ''''" and ids: "distinct (map ru_id (rules d))"
    and keys: "distinct (map se_key (filter (\<lambda>s. se_mailbox s = mb) (senders d)))"
  shows "\<exists>s w' new. applyJob hook mb w = (Ok s, w') \<and> ticks w' = [] \<and> calls w' = [] \<and> grown d (wdb w') new \<and>
      pass_wrote mb d new \<and> matchesWritten s = length new \<and> rulesFailed s = 0 \<and> \<not> abortedIndexRebuilt s \<and>
      (hook \<and> (\<exists>m \<in> set new. ma_mode m = MatchedActive) \<longrightarrow> chained w' = chained w @ [mb])"
proof (cases "runnable_rules mb d = []")
  case True
  have "grown d d []" by (cases d) (simp add: grown_def)
  with True w show ?thesis
    by (simp add: applyJob_def bindw_def clock_def loadEnabledRules_calm d_def returnw_def pass_wrote_def)
      (simp add: empty_apply_result_def)
next
  case False
  let ?c = "\<lparr>ax_mailbox = mb, ax_now = db_now d, ax_stamp = senderIndexStamp mb d,
             ax_eligible = filter (\<lambda>sg. \<not> psProtected (sg_signals sg)) (signals_now mb d)\<rparr>"
  let ?s = "empty_apply_result\<lparr>sendersConsidered := length (ax_eligible ?c)\<rparr>"
  have "fits d ?c"
    using keys by (simp add: fits_def distinct_map_filter signal_keys)
  moreover have "grown d (wdb w) []" by (cases d) (simp add: grown_def d_def)
  ultimately obtain w1 s rows where 1: "foreachw (apply_rule ?c) (runnable_rules mb d) ?s w = (Ok s, w1)"
      "moved w w1" "grown d (wdb w1) rows" "counted ?s rows s" "written_for d ?c (runnable_rules mb d) rows"
    using apply_rules_calm [of w ?s d "[]" ?c "runnable_rules mb d"] w(1) ids runnable_rulesD
      runnable_rules_distinct [OF ids] by (fastforce simp: empty_apply_result_def)
  have s: "matchesWritten s = length rows" "rulesFailed s = 0" "\<not> abortedIndexRebuilt s"
      "0 < activeMatches s \<longleftrightarrow> (\<exists>m \<in> set rows. ma_mode m = MatchedActive)"
    using 1(4) by (auto simp: counted_def empty_apply_result_def count_where_def filter_empty_conv)
  have "pass_wrote mb d rows"
    using written_for_shape [OF 1(5) runnable_rules_distinct [OF ids]] due_set [where d = d and mb = mb and n = "db_now d" and st = "senderIndexStamp mb d"]
    unfolding pass_wrote_def by simp
  then show ?thesis
    using 1 s False w moved_fields [OF 1(2)]
    by (auto simp: applyJob_def bindw_def clock_def loadEnabledRules_calm materialize_calm d_def calm_query
        returnw_def Let_def try_ok port_call_def chain_sweep_def)
qed

text \<open>What a pass leaves unchanged for the next one.\<close>

lemma grown_tables:
  assumes "grown d0 d new"
  shows "senders d = senders d0" "policies d = policies d0" "decisions d = decisions d0"
    "timeseries d = timeseries d0" "mail d = mail d0" "db_now d = db_now d0"
    "mailboxes d = mailboxes d0" "workspaces d = workspaces d0" "map core (rules d) = map core (rules d0)"
  using assms by (auto simp: grown_def)

lemma grown_signals: "grown d0 d new \<Longrightarrow> signals_now mb d = signals_now mb d0"
  by (simp add: signals_now_def policy_rows_of_def decisions_of_def timeseries_of_def mail_counts_def [abs_def]
      grown_tables)

lemma map_core_ids:
  assumes "map core R = map core R'"
  shows "map ru_id R = map ru_id R'"
proof -
  have "map ru_id (map core R) = map ru_id (map core R')" by (simp only: assms)
  then show ?thesis by (simp add: comp_def)
qed

lemma core_setting: "core r = core r' \<Longrightarrow> setting r = setting r'"
  unfolding setting_def threshold_of_def by (simp only: core_same [of r r'])

lemma core_matches: "core r = core r' \<Longrightarrow> rule_matches r p t sg = rule_matches r' p t sg \<and>
    actionable r sg = actionable r' sg \<and> rule_mode_at_match r p = rule_mode_at_match r' p"
  unfolding rule_matches_def actionable_def rule_mode_at_match_def by (simp only: core_same [of r r'])

lemma core_may_run: "core r = core r' \<Longrightarrow> may_run mb t r = may_run mb t r'"
  unfolding may_run_def by (simp only: core_same [of r r'])

lemma runnable_core:
  assumes "r \<in> set (runnable_rules mb d)" "grown d0 d new"
  shows "\<exists>r0 \<in> set (runnable_rules mb d0). core r0 = core r"
proof -
  obtain q t where t: "mailbox_row_of mb d = Some (q, t)" "r \<in> set (rules d)" "may_run mb t r"
    using assms(1) by (cases "mailbox_row_of mb d") (auto simp: runnable_rules_def)
  have "core r \<in> set (map core (rules d))" using t(2) by simp
  then have "core r \<in> core ` set (rules d0)" using grown_tables(9) [OF assms(2)] by simp
  then obtain r0 where r0: "r0 \<in> set (rules d0)" "core r0 = core r" by auto
  moreover have "mailbox_row_of mb d0 = Some (q, t)"
    using t(1) grown_tables(7,8) [OF assms(2)] by (simp add: mailbox_row_of_def)
  ultimately show ?thesis
    using t(3) core_may_run [OF r0(2)] by (auto simp: runnable_rules_def)
qed

lemma nothing_due_twice:
  assumes g: "grown d0 d new" and p: "pass_wrote mb d0 new"
    and fresh: "\<forall>s \<in> set (senders d0). se_mailbox s = mb \<longrightarrow> se_created s \<le> db_now d0"
    and r: "r \<in> set (runnable_rules mb d)" "due d mb r mode sg"
  shows False
proof -
  obtain r0 where r0: "r0 \<in> set (runnable_rules mb d0)" "core r0 = core r"
    using runnable_core [OF r(1) g] by blast
  have id: "ru_id r0 = ru_id r" using core_same(1) [OF r0(2)] by simp
  have "waiting d0 r0 mode (sg_key sg) \<Longrightarrow> waiting d r mode (sg_key sg)"
    using id grown_queued [OF g] grown_matches [OF g] by (auto simp: waiting_def)
  with r(2) r0 core_setting [OF r0(2)] core_matches [OF r0(2)] grown_signals [OF g]
  have "due d0 mb r0 mode sg" by (auto simp: due_def)
  then have "(ru_id r0, sg_key sg, mode) \<in> (\<lambda>m. (ma_rule m, ma_key m, ma_mode m)) ` set new"
    using p r0(1) unfolding pass_wrote_def by blast
  then obtain m where m: "m \<in> set new" "ma_rule m = ru_id r" "ma_key m = sg_key sg" "ma_mode m = mode"
    using id by auto
  then have "row_shape mb (db_now d0) m" using p by (simp add: pass_wrote_def)
  then have "if mode = MatchedActive then ruleMatchIsQueuedAction d m else ma_resolution m = Pending"
    using m(4) fresh grown_tables(1) [OF g]
    by (fastforce simp: row_shape_def ruleMatchIsQueuedAction_def ruleMatchEvidenceIsCurrent_def list_ex_iff)
  then have "waiting d r mode (sg_key sg)"
    using m grown_matches [OF g] by (auto simp: waiting_def)
  with r(2) show False by (auto simp: due_def)
qed

subsection \<open>Properties\<close>


text \<open>
  Apply passes are idempotent. When every sender was indexed before the pass ran, a second
  pass over the store the first one left writes no match: the pending rows are still
  waiting for the user and the approved ones for the sweep.
\<close>

theorem apply_idempotent:
  assumes "ticks w = []" "calls w = []" "mb \<noteq> ''''" "distinct (map ru_id (rules (wdb w)))"
    and "distinct (map se_key (filter (\<lambda>s. se_mailbox s = mb) (senders (wdb w))))"
    and "\<forall>s \<in> set (senders (wdb w)). se_mailbox s = mb \<longrightarrow> se_created s \<le> db_now (wdb w)"
  shows "\<exists>s w' s2 w2. applyJob hook mb w = (Ok s, w') \<and> applyJob hook mb w' = (Ok s2, w2) \<and>
     matches (wdb w2) = matches (wdb w') \<and> matchesWritten s2 = 0"
proof -
  obtain s w' new where 1: "applyJob hook mb w = (Ok s, w')" "grown (wdb w) (wdb w') new" "pass_wrote mb (wdb w) new"
      "ticks w' = []" "calls w' = []"
    using applyJob_calm [OF assms(1-5), of hook] by blast
  have ids: "distinct (map ru_id (rules (wdb w')))"
    using assms(4) map_core_ids [OF grown_tables(9) [OF 1(2)]] by simp
  have keys: "distinct (map se_key (filter (\<lambda>s. se_mailbox s = mb) (senders (wdb w'))))"
    using assms(5) grown_tables(1) [OF 1(2)] by simp
  obtain s2 w2 new2 where 2: "applyJob hook mb w' = (Ok s2, w2)" "grown (wdb w') (wdb w2) new2"
      "pass_wrote mb (wdb w') new2" "matchesWritten s2 = length new2"
    using applyJob_calm [OF 1(4,5) assms(3) ids keys, of hook] by metis
  have "(\<lambda>m. (ma_rule m, ma_key m, ma_mode m)) ` set new2 =
      {(ru_id r, sg_key sg, mode) | r sg mode. r \<in> set (runnable_rules mb (wdb w')) \<and> due (wdb w') mb r mode sg}"
    using 2(3) unfolding pass_wrote_def by (elim conjE)
  also have "\<dots> = {}" using nothing_due_twice [OF 1(2,3) assms(6)] by blast
  finally have "new2 = []" by simp
  then have "matches (wdb w2) = matches (wdb w')" "matchesWritten s2 = 0"
    using grown_matches [OF 2(2)] 2(4) by simp_all
  with 1(1) 2(1) show ?thesis by blast
qed

subsection \<open>A pass among other writers\<close>

definition none_pending :: "ident \<Rightarrow> string \<Rightarrow> match_row list \<Rightarrow> bool" where
  "none_pending rid k ms \<longleftrightarrow>
     \<not> (\<exists>x \<in> set ms. ma_rule x = rid \<and> ma_key x = k \<and> ma_resolution x = Pending)"

definition insertable :: "ident \<Rightarrow> millis option \<Rightarrow> rule_row \<Rightarrow> match_row list \<Rightarrow> db \<Rightarrow> bool" where
  \<comment> \<open>rows the pass may add for a rule as it is now, on the index the pass has read\<close>
  "insertable mb st r new d \<longleftrightarrow>
     senderIndexStamp mb d = st \<and> ru_enabled r \<and> ru_mode r \<noteq> Paused \<and>
     distinct (map ma_key (filter (\<lambda>m. ma_resolution m = Pending) new)) \<and>
     (\<forall>m \<in> set new. ma_rule m = ru_id r \<and> ma_mailbox m = mb \<and> \<not> ma_applied m \<and>
        (case ma_resolution m of
           Approved \<Rightarrow> ma_mode m = MatchedActive \<and> ru_mode r = Active
         | Pending \<Rightarrow> ma_mode m = MatchedObserve \<and> none_pending (ru_id r) (ma_key m) (matches d)
         | Dismissed \<Rightarrow> False))"

inductive pass_step :: "ident \<Rightarrow> millis option \<Rightarrow> db \<Rightarrow> db \<Rightarrow> bool" for mb st where
  summary: "pass_step mb st d (rule_ran r now cs d)"
| insert: "List.find (\<lambda>r'. ru_id r' = ru_id r) (rules d) = Some r \<Longrightarrow> insertable mb st r new d \<Longrightarrow>
    pass_step mb st d (d\<lparr>matches := matches d @ new\<rparr>)"

inductive_cases pass_stepE: "pass_step mb st d d'"

lemma none_pending_snoc [simp]:
  "none_pending rid k (ms @ [m]) \<longleftrightarrow>
     none_pending rid k ms \<and> \<not> (ma_rule m = rid \<and> ma_key m = k \<and> ma_resolution m = Pending)"
  by (auto simp: none_pending_def)

lemma insert_matches_fresh:
  assumes "insert_matches rows ms = (is, ms')" "\<forall>m \<in> set rows. ma_rule m = rid"
  shows "\<exists>new. ms' = ms @ new \<and> set new \<subseteq> set rows \<and>
    distinct (map ma_key (filter (\<lambda>m. ma_resolution m = Pending) new)) \<and>
    (\<forall>m \<in> set new. ma_resolution m = Pending \<longrightarrow> none_pending rid (ma_key m) ms)"
  using assms
proof (induction rows arbitrary: ms "is" ms')
  case (Cons m rows)
  show ?case
  proof (cases "pending_conflict m ms")
    case True
    with Cons show ?thesis by fastforce
  next
    case False
    with Cons.prems obtain is' where run: "insert_matches rows (ms @ [m]) = (is', ms')"
      by (auto split: prod.splits)
    obtain new where new: "ms' = (ms @ [m]) @ new" "set new \<subseteq> set rows"
        "distinct (map ma_key (filter (\<lambda>m. ma_resolution m = Pending) new))"
        "\<forall>x \<in> set new. ma_resolution x = Pending \<longrightarrow> none_pending rid (ma_key x) (ms @ [m])"
      using Cons.IH [OF run] Cons.prems(2) by auto
    have m: "ma_resolution m = Pending \<Longrightarrow> none_pending rid (ma_key m) ms"
      using False Cons.prems(2) by (auto simp: pending_conflict_def list_ex_iff none_pending_def)
    have "ma_key m \<notin> ma_key ` {x \<in> set new. ma_resolution x = Pending}" if p: "ma_resolution m = Pending"
    proof
      assume "ma_key m \<in> ma_key ` {x \<in> set new. ma_resolution x = Pending}"
      then obtain x where x: "x \<in> set new" "ma_resolution x = Pending" "ma_key m = ma_key x" by blast
      have "ma_rule m = rid" using Cons.prems(2) by simp
      with bspec [OF new(4) x(1)] x(2,3) p show False by simp
    qed
    then have "distinct (map ma_key (filter (\<lambda>m. ma_resolution m = Pending) (m # new)))"
      using new(3) by simp
    moreover have "\<forall>x \<in> set (m # new). ma_resolution x = Pending \<longrightarrow> none_pending rid (ma_key x) ms"
      using new(4) m by simp
    ultimately show ?thesis
      using new(1,2) by (intro exI [of _ "m # new"]) auto
  qed
qed simp

definition legal_rows :: "ident \<Rightarrow> rule_row \<Rightarrow> match_mode \<Rightarrow> match_row list \<Rightarrow> bool" where
  "legal_rows mb r mode rows \<longleftrightarrow>
     (\<forall>m \<in> set rows. ma_rule m = ru_id r \<and> ma_mailbox m = mb \<and> \<not> ma_applied m \<and> ma_mode m = mode \<and>
        ma_resolution m = (if mode = MatchedActive then Approved else Pending))"

lemma insert_tx_step:
  assumes "insert_tx mb st r rows d = Inr (x, d')" "legal_rows mb r mode rows"
    and "mode = MatchedActive \<Longrightarrow> ru_mode r = Active" "ru_mode r \<noteq> Paused"
  shows "d' = d \<or> pass_step mb st d d'"
proof (cases "d' = d")
  case False
  then obtain cur is' ms where cur: "senderIndexStamp mb d = st" "List.find (\<lambda>y. ru_id y = ru_id r) (rules d) = Some cur"
      "ru_enabled cur" "ru_mode cur = ru_mode r" "insert_matches rows (matches d) = (is', ms)" "d' = d\<lparr>matches := ms\<rparr>"
    using assms(1) by (auto simp: insert_tx_def split: if_splits option.splits prod.splits)
  have id: "ru_id cur = ru_id r" using find_SomeD [OF cur(2)] by simp
  have "\<forall>m \<in> set rows. ma_rule m = ru_id r" using assms(2) by (simp add: legal_rows_def)
  with cur(5) obtain new where new: "ms = matches d @ new" "set new \<subseteq> set rows"
      "distinct (map ma_key (filter (\<lambda>m. ma_resolution m = Pending) new))"
      "\<forall>m \<in> set new. ma_resolution m = Pending \<longrightarrow> none_pending (ru_id r) (ma_key m) (matches d)"
    using insert_matches_fresh by blast
  have "insertable mb st cur new d"
    using cur(1,3,4) new assms(2-4) id by (cases mode) (auto simp: insertable_def legal_rows_def)
  moreover have "List.find (\<lambda>y. ru_id y = ru_id cur) (rules d) = Some cur"
    using cur(2) id by simp
  ultimately have "pass_step mb st d (d\<lparr>matches := matches d @ new\<rparr>)"
    by (intro pass_step.insert)
  then show ?thesis by (simp add: cur(6) new(1))
qed simp

lemma fresh_ids_steps: "steps R (fresh_ids n) (\<lambda>_. True)"
  by (induction n) (auto intro!: steps_bind [OF steps_fresh] steps_return intro: steps_bind)

definition pass_or :: "(db \<Rightarrow> db \<Rightarrow> bool) \<Rightarrow> ident \<Rightarrow> millis option \<Rightarrow> db \<Rightarrow> db \<Rightarrow> bool" where
  \<comment> \<open>a step of the pass or of another writer\<close>
  "pass_or N mb st d d' \<longleftrightarrow> N d d' \<or> pass_step mb st d d'"

lemma pass_or_others: "N \<le> pass_or N mb st"
  by (auto simp: pass_or_def)

lemma pass_or_own: "pass_step mb st d d' \<Longrightarrow> (pass_or N mb st)\<^sup>*\<^sup>* d d'"
  by (auto simp: pass_or_def)

lemma new_rows_legal: "legal_rows mb r mode (map2 (new_match r mode mb now) is cs)"
  by (auto simp: legal_rows_def new_match_def)

lemma write_matches_steps:
  assumes "mode = MatchedActive \<Longrightarrow> ru_mode r = Active" "ru_mode r \<noteq> Paused"
  shows "steps (pass_or N (ax_mailbox c) (ax_stamp c)) (write_matches c r mode cs) (\<lambda>_. True)"
proof -
  have "(pass_or N (ax_mailbox c) (ax_stamp c))\<^sup>*\<^sup>* d d'"
    if "insert_tx (ax_mailbox c) (ax_stamp c) r (map2 (new_match r mode (ax_mailbox c) (ax_now c)) is cs) d = Inr (x, d')"
    for "is" d x d'
    using insert_tx_step [OF that new_rows_legal assms] pass_or_own by blast
  then show ?thesis
    unfolding write_matches_def
    by (auto intro!: steps_return steps_bind [OF fresh_ids_steps] steps_stmt)
qed

lemma rule_body_steps:
  assumes "ru_mode r \<noteq> Paused"
  shows "steps (pass_or N (ax_mailbox c) (ax_stamp c)) (rule_body c r p t s) (\<lambda>_. True)"
proof -
  have "rule_mode_at_match r p = MatchedActive \<Longrightarrow> ru_mode r = Active"
    by (simp add: rule_mode_at_match_def split: if_splits)
  note writes = steps_try [OF write_matches_steps [OF this assms]]
  have drop: "steps (pass_or N (ax_mailbox c) (ax_stamp c)) (drop_queued r mode cs) (\<lambda>_. True)" for mode cs
    unfolding drop_queued_def by (auto intro!: steps_return steps_bind steps_query)
  have sum: "steps (pass_or N (ax_mailbox c) (ax_stamp c)) (tryw (exec (rule_ran r (ax_now c) kept))) (\<lambda>_. True)" for kept
    by (rule steps_weaken [OF steps_try [OF steps_exec]]) (simp_all add: pass_or_own pass_step.summary)
  show ?thesis
    unfolding rule_body_def Let_def
    by (rule steps_bind [OF steps_try [OF drop]],
        auto intro!: steps_return steps_bind [OF writes] steps_bind [OF sum] split: sum.splits option.splits)
qed

lemma apply_rule_steps:
  "ru_mode r \<noteq> Paused \<Longrightarrow> steps (pass_or N (ax_mailbox c) (ax_stamp c)) (apply_rule c r s) (\<lambda>_. True)"
  unfolding apply_rule_def
  by (auto intro!: steps_return rule_body_steps split: option.splits)

lemma load_steps: "steps N (loadEnabledRules mb) (\<lambda>rs. \<forall>r \<in> set rs. ru_mode r \<noteq> Paused)"
  unfolding loadEnabledRules_def
  by (rule steps_bind [OF steps_query [where Q = "\<lambda>_. True"]])
    (auto intro!: steps_return steps_query split: option.splits)

lemma materialize_steps: "steps N (materializeAutopilotSignals mb now) (\<lambda>_. True)"
  unfolding materializeAutopilotSignals_def Let_def
  by (intro steps_bind [where P = "\<lambda>_. True"] steps_query) (auto intro!: steps_return steps_bind [where P = "\<lambda>_. True"] steps_query)

lemma applyJob_steps: "some_steps N (pass_or N mb) (applyJob hook mb)"
proof -
  have chain: "steps R (tryw (port_call (chain_sweep mb))) (\<lambda>_. True)" for R
    by (rule steps_weaken [OF steps_try [OF steps_port]]) (auto simp: chain_sweep_def)
  have rest: "some_steps N (pass_or N mb) (bindw (materializeAutopilotSignals mb now) (\<lambda>sgs.
      bindw (foreachw (apply_rule \<lparr>ax_mailbox = mb, ax_now = now, ax_stamp = st, ax_eligible = el sgs\<rparr>) rs (s0 sgs))
        (\<lambda>s. if P s then bindw (tryw (port_call (chain_sweep mb))) (\<lambda>_. returnw s) else returnw s)))"
    if "\<forall>r \<in> set rs. ru_mode r \<noteq> Paused" for now st rs el s0 P
  proof (rule some_steps_if [where x = st, OF steps_bind [OF materialize_steps]])
    fix sgs
    let ?c = "\<lparr>ax_mailbox = mb, ax_now = now, ax_stamp = st, ax_eligible = el sgs\<rparr>"
    have "steps (pass_or N mb st) (foreachw (apply_rule ?c) rs (s0 sgs)) (\<lambda>_. True)"
      by (rule steps_foreach) (use that apply_rule_steps [where c = ?c and N = N] in simp_all)
    then show "steps (pass_or N mb st) (bindw (foreachw (apply_rule ?c) rs (s0 sgs))
        (\<lambda>s. if P s then bindw (tryw (port_call (chain_sweep mb))) (\<lambda>_. returnw s) else returnw s)) (\<lambda>_. True)"
      by (rule steps_bind) (auto intro!: steps_return steps_bind [OF chain])
  qed (rule pass_or_others)
  show ?thesis
    unfolding applyJob_def Let_def
    by (auto intro!: some_steps_bind [OF steps_clock] some_steps_bind [OF load_steps] some_steps_bind [OF steps_query [where Q = "\<lambda>_. True"]]
        rest some_steps_if [OF steps_return [where Q = "\<lambda>_. True"]] some_steps_if [OF steps_throw] pass_or_others)
qed

subsection \<open>A concrete pass\<close>

definition pass_rule :: "ident \<Rightarrow> string \<Rightarrow> rule_mode \<Rightarrow> autopilot_action \<Rightarrow> rule_row" where
  "pass_rule rid preset md a =
     \<lparr>ru_id = rid, ru_mailbox = ''m'', ru_preset_key = Some preset, ru_is_preset = True, ru_enabled = True,
      ru_mode = md, ru_mode_changed = 0, ru_threshold = None, ru_conditions = JObj [], ru_action = a, ru_payload = JObj [],
      ru_scope = '''', ru_version = 1, ru_retired = None, ru_last_run = None, ru_last_actions = 0,
      ru_last_senders = 0\<rparr>"

definition pass_db :: db where
  "pass_db = demo_db\<lparr>
     rules := [pass_rule ''g'' ''newsletter_graveyard'' Active ActArchive,
               pass_rule ''n'' ''auto_screen_new_senders'' Active ActLater],
     matches := [],
     mail := map (\<lambda>i. \<lparr>mm_id = i, mm_mailbox = ''m'', mm_key = Some ''k'', mm_labels = [''INBOX''], mm_outbound = False, mm_date = 3, mm_row = i, mm_one_click = False, mm_unsub_url = None, mm_mailto = None\<rparr>)
               [''1'', ''2'', ''3'', ''4'', ''5''] @
             [\<lparr>mm_id = ''6'', mm_mailbox = ''m'', mm_key = Some ''l'', mm_labels = [''INBOX''], mm_outbound = False, mm_date = 3, mm_row = ''6'', mm_one_click = False, mm_unsub_url = None, mm_mailto = None\<rparr>],
     senders := senders demo_db @
       [\<lparr>se_id = ''t'', se_mailbox = ''m'', se_key = ''l'', se_created = 6, se_first_seen = 100 * 86400000,
         se_last_seen = 100 * 86400000, se_unsub = None, se_name = '''', se_email = ''n@example.com'', se_unsub_url = None\<rparr>],
     timeseries := [\<lparr>ts_mailbox = ''m'', ts_key = ''k'', ts_volume = 5, ts_reads = 0\<rparr>],
     db_now := 100 * 86400000 + 9\<rparr>"

definition pass_world :: "tick list \<Rightarrow> world" where
  "pass_world ts =
     \<lparr>wdb = pass_db, ticks = ts, sends = [], calls = [], uuid_of = (\<lambda>n. replicate n CHR ''i''), uuid_next = 1,
      ensure_label = id, requests = [], enqueued = [], resumes = [], chained = [], requeued = [],
      label_queue = [], wake_queue = [], label_map = [], https = [], posted = []\<rparr>"

lemma pass_demo_run:
  "map (\<lambda>m. (ma_rule m, ma_key m, ma_resolution m)) (matches (wdb (snd (applyJob True ''m'' (pass_world []))))) =
     [(''g'', ''k'', Approved), (''n'', ''l'', Pending)]"
  by code_simp

lemma pass_world_calm:
  "ticks (pass_world []) = []" "calls (pass_world ts) = []" "distinct (map ru_id (rules (wdb (pass_world ts))))"
  "distinct (map se_key (filter (\<lambda>s. se_mailbox s = ''m'') (senders (wdb (pass_world ts)))))"
  "\<forall>s \<in> set (senders (wdb (pass_world ts))). se_mailbox s = ''m'' \<longrightarrow> se_created s \<le> db_now (wdb (pass_world ts))"
  by (simp_all add: pass_world_def pass_db_def demo_db_def pass_rule_def)


theorem apply_idempotent_witness:
  "\<exists>s w' s2 w2. applyJob True ''m'' (pass_world []) = (Ok s, w') \<and> applyJob True ''m'' w' = (Ok s2, w2) \<and>
     length (matches (wdb w2)) = 2 \<and> matchesWritten s2 = 0"
proof -
  obtain s w' s2 w2 where *: "applyJob True ''m'' (pass_world []) = (Ok s, w')" "applyJob True ''m'' w' = (Ok s2, w2)"
      "matches (wdb w2) = matches (wdb w')" "matchesWritten s2 = 0"
    using apply_idempotent [OF pass_world_calm(1) pass_world_calm(2) _ pass_world_calm(3-5), of True] by auto
  moreover have "length (matches (wdb w')) = 2"
    using arg_cong [OF pass_demo_run, of length] *(1) by simp
  ultimately show ?thesis by auto
qed

subsection \<open>Properties among other writers\<close>


definition pauses_all :: "db \<Rightarrow> db" where
  "pauses_all d = snd (pauseAll ''m'' d)"


definition pending_once :: "db \<Rightarrow> bool" where
  \<comment> \<open>the partial unique index \<open>rule_match_log_pending_dedup_uniq\<close>\<close>
  "pending_once d \<longleftrightarrow> distinct (map (\<lambda>m. (ma_rule m, ma_key m)) (filter (\<lambda>m. ma_resolution m = Pending) (matches d)))"

lemma pending_once_step: "pass_step mb st d d' \<Longrightarrow> pending_once d \<Longrightarrow> pending_once d'"
proof (induction rule: pass_step.induct)
  case (insert r d new)
  have new: "m \<in> set new \<Longrightarrow> ma_resolution m = Pending \<Longrightarrow>
      ma_rule m = ru_id r \<and> none_pending (ru_id r) (ma_key m) (matches d)" for m
    using insert.hyps(2) by (auto simp: insertable_def split: match_resolution.splits)
  have "distinct (map ma_key (filter (\<lambda>m. ma_resolution m = Pending) new))"
    using insert.hyps(2) by (simp add: insertable_def)
  then have "distinct (map (\<lambda>m. (ma_rule m, ma_key m)) (filter (\<lambda>m. ma_resolution m = Pending) new))"
    by (auto simp: distinct_map inj_on_def)
  moreover have "(\<lambda>m. (ma_rule m, ma_key m)) ` {x \<in> set (matches d). ma_resolution x = Pending} \<inter>
      (\<lambda>m. (ma_rule m, ma_key m)) ` {x \<in> set new. ma_resolution x = Pending} = {}"
  proof (rule ccontr)
    assume "\<not> ?thesis"
    then obtain x m where x: "x \<in> set (matches d)" "ma_resolution x = Pending" "ma_rule x = ma_rule m"
        "ma_key x = ma_key m" and m: "m \<in> set new" "ma_resolution m = Pending" by blast
    from x new [OF m] show False by (simp add: none_pending_def)
  qed
  ultimately show ?case
    using insert.prems by (simp add: pending_once_def)
qed (simp add: pending_once_def rule_ran_def)



text \<open>A pass is a neighbour the action sweep allows.\<close>

lemma pass_step_respects:
  assumes "pass_step mb st d d'" "verbs_ok vb d'"
  shows "respects_claims vb d d'"
  using assms
proof (induction rule: pass_step.induct)
  case (summary d r now cs)
  then show ?case by (intro respects_claims_sameI) (simp_all add: rule_ran_def)
next
  case (insert r d new)
  then show ?case by (intro respects_claims_sameI) simp_all
qed

end
