(* ===== verification/Worker_Holds.thy ===== *)
theory Worker_Holds
  imports Autopilot_Action
begin

text \<open>
  A second reading of the program logic of \<open>Worker\<close>: bodies that keep one assertion through every
  statement, whatever ends them. The errors they throw are tracked, for bodies that catch some.
\<close>

subsection \<open>Bodies that keep an assertion\<close>

text \<open>\<open>holds N F I m\<close>: \<open>m\<close> keeps \<open>I\<close> however it ends, and throws only errors of \<open>F\<close>.\<close>

definition holds :: "(db \<Rightarrow> db \<Rightarrow> bool) \<Rightarrow> (worker_error \<Rightarrow> bool) \<Rightarrow> assertion \<Rightarrow> 'a wm \<Rightarrow> bool" where
  "holds N F I m \<longleftrightarrow> spec N I I m (\<lambda>_. I) (\<lambda>e d l. F e \<and> I d l)"

definition any_error :: "worker_error \<Rightarrow> bool" where
  "any_error e \<longleftrightarrow> True"

lemma any_errorI [intro!]: "any_error e"
  by (simp add: any_error_def)

definition lets_ports :: "(worker_error \<Rightarrow> bool) \<Rightarrow> bool" where
  "lets_ports F \<longleftrightarrow> (\<forall>e. port_error e \<longrightarrow> F e)"

lemma lets_portsI [intro!, simp]: "lets_ports any_error" "lets_ports port_error"
  by (simp_all add: lets_ports_def any_error_def)

lemma lets_portsD: "lets_ports F \<Longrightarrow> port_error e \<Longrightarrow> F e"
  by (simp add: lets_ports_def)

lemma holds_return: "holds N F I (returnw a)"
  and holds_throw: "F e \<Longrightarrow> holds N F I (throww e)"
  and holds_clock: "holds N F I clock"
  and holds_fresh: "holds N F I fresh_id"
  and holds_ask: "holds N F I ask_label"
  unfolding holds_def by (intro spec_return spec_throw spec_clock spec_fresh spec_ask conjI; assumption)+

lemma holds_call: "lets_ports F \<Longrightarrow> holds N F I (port_call no_effect)"
  unfolding holds_def by (rule spec_call) (auto simp: lets_ports_def)

lemma holds_bind: "holds N F I m \<Longrightarrow> (\<And>a. holds N F I (f a)) \<Longrightarrow> holds N F I (bindw m f)"
  unfolding holds_def by (rule spec_bind)

lemma holds_catch:
  assumes "holds N F I m" "\<And>e. F e \<Longrightarrow> holds N F' I (h e)"
  shows "holds N F' I (catchw m h)"
  unfolding holds_def
proof (rule spec_catch [OF assms(1) [unfolded holds_def]])
  fix e
  show "spec N I (\<lambda>d l. F e \<and> I d l) (h e) (\<lambda>_. I) (\<lambda>e d l. F' e \<and> I d l)"
    using assms(2) [of e] by (cases "F e") (simp_all add: spec_def holds_def)
qed

lemma holds_try: "holds N any_error I m \<Longrightarrow> holds N F' I (tryw m)"
  unfolding tryw_def by (erule holds_catch [OF holds_bind]) (rule holds_return)+

lemma holds_foreach: "(\<And>x s. x \<in> set xs \<Longrightarrow> holds N F I (f x s)) \<Longrightarrow> holds N F I (foreachw f xs s)"
  unfolding holds_def by (rule spec_foreach)

lemma holds_stmt:
  "stable N I \<Longrightarrow> lets_ports F \<Longrightarrow> (\<And>d e. f d = Inl e \<Longrightarrow> F e) \<Longrightarrow>
     (\<And>d l a d'. I d l \<Longrightarrow> f d = Inr (a, d') \<Longrightarrow> I d' l) \<Longrightarrow> holds N F I (stmt f)"
  unfolding holds_def by (rule spec_stmt) (auto simp: lets_ports_def)

lemma holds_query: "stable N I \<Longrightarrow> lets_ports F \<Longrightarrow> holds N F I (query f)"
  unfolding query_def by (rule holds_stmt) auto

lemma holds_exec: "stable N I \<Longrightarrow> lets_ports F \<Longrightarrow> (\<And>d l. I d l \<Longrightarrow> I (f d) l) \<Longrightarrow> holds N F I (exec f)"
  unfolding exec_def by (rule holds_stmt) auto

lemma holds_if: "(b \<Longrightarrow> holds N F I m) \<Longrightarrow> (\<not> b \<Longrightarrow> holds N F I m') \<Longrightarrow> holds N F I (if b then m else m')"
  by simp

lemma holds_option:
  "(x = None \<Longrightarrow> holds N F I m) \<Longrightarrow> (\<And>y. x = Some y \<Longrightarrow> holds N F I (f y)) \<Longrightarrow>
     holds N F I (case x of None \<Rightarrow> m | Some y \<Rightarrow> f y)"
  by (cases x) auto

lemma holds_sum:
  "(\<And>e. x = Inl e \<Longrightarrow> holds N F I (f e)) \<Longrightarrow> (\<And>y. x = Inr y \<Longrightarrow> holds N F I (g y)) \<Longrightarrow>
     holds N F I (case x of Inl e \<Rightarrow> f e | Inr y \<Rightarrow> g y)"
  by (cases x) auto

lemma holds_pair: "holds N F I (f (fst x) (snd x)) \<Longrightarrow> holds N F I (case x of (a, b) \<Rightarrow> f a b)"
  by (cases x) auto

lemmas holds_split = holds_if holds_option holds_sum holds_pair

lemma holds_ensure: "lets_ports F \<Longrightarrow> holds N F I (ensure_labels ch)"
  unfolding ensure_labels_def by (intro holds_bind holds_ask holds_foreach holds_if holds_return holds_call)

lemma holds_expiry: "stable N I \<Longrightarrow> lets_ports F \<Longrightarrow> holds N F I (undoExpiresAt mb)"
  unfolding undoExpiresAt_def by (intro holds_bind holds_query holds_clock holds_return)

lemmas holds_leaf = holds_return holds_throw holds_clock holds_fresh holds_ask holds_call holds_ensure

lemma holdsD: "holds N any_error I m \<Longrightarrow> spec N I I m (\<lambda>_. I) (\<lambda>_. I)"
  unfolding holds_def by (erule spec_weaken) auto

lemma holdsI: "spec N I I m (\<lambda>_. I) (\<lambda>_. I) \<Longrightarrow> holds N any_error I m"
  unfolding holds_def by (erule spec_weaken) auto

lemma holds_never:
  \<comment> \<open>a body that only throws returns what one likes\<close>
  "holds N any_error I m \<Longrightarrow> spec N I I (bindw m (\<lambda>_. throww e)) Q (\<lambda>_. I)"
  by (rule spec_bind [OF holdsD]) (auto intro: spec_throw)

end
