(* ===== verification/Label_Action.thy ===== *)
theory Label_Action
  imports Autopilot_Action
begin

text \<open>
  The consumer of the user's own Archive, Later and Delete actions
  (\<^verbatim>\<open>packages/workers/src/label-action.worker.ts\<close>), in both directions: a forward action moves the
  mail and issues an undo token, a reverse action is the undo. An approved custom Autopilot
  batch runs through it too, behind gates of its own.

  The row of an action is loaded once; what the code later reads from that object is the
  loaded row here. The one field it replaces in memory, the placement a Delete captured for
  its undo, is what the send hook returns.
\<close>

subsection \<open>Payload and result\<close>

record label_job_data =
  lj_action :: ident
  lj_mailbox :: ident
  lj_confirmed :: bool \<comment> \<open>the user confirmed acting on a Protected sender\<close>

record label_action_result =
  lr_affected :: nat
  lr_undo :: "ident option"
  lr_already :: bool
  lr_skipped :: bool
  lr_stopped :: bool
  lr_deferred :: bool

definition label_result_of :: "nat \<Rightarrow> ident option \<Rightarrow> label_action_result" where
  "label_result_of n undo =
     \<lparr>lr_affected = n, lr_undo = undo, lr_already = False, lr_skipped = False, lr_stopped = False,
      lr_deferred = False\<rparr>"

definition enqueue_failed_code :: string where
  "enqueue_failed_code = ''ENQUEUE_FAILED''"

definition sender_protected_code :: string where
  "sender_protected_code = ''LABEL_SENDER_PROTECTED''"

definition recovery_protected_code :: string where
  "recovery_protected_code = ''RECOVERY_SENDER_PROTECTED''"

definition settledQuotaUnits :: "nat \<Rightarrow> nat \<Rightarrow> nat" where
  "settledQuotaUnits affected units = (if affected = 0 then 0 else min units affected)"

definition neverReachedGmail :: "job_row \<Rightarrow> bool" where
  "neverReachedGmail j \<longleftrightarrow>
     jo_status j = Queued \<or> (jo_status j = JobFailed \<and> jo_error j = Some enqueue_failed_code)"

subsection \<open>Protection\<close>

datatype protection_subject = SubjectSender string | SubjectMessages "ident list"

definition protectionSubject :: "job_row \<Rightarrow> bool \<Rightarrow> protection_subject option" where
  "protectionSubject j confirmed =
     (if confirmed then None
      else case jo_selector j of
        BySender \<Rightarrow> Some (SubjectSender (jo_sender_key j))
      | ByMessages \<Rightarrow> if jo_ids j \<noteq> [] then Some (SubjectMessages (jo_ids j)) else None)"

fun protectedSubject :: "ident \<Rightarrow> protection_subject \<Rightarrow> db \<Rightarrow> bool" where
  "protectedSubject mb (SubjectSender k) d = protectedSender d mb k"
| "protectedSubject mb (SubjectMessages ids) d =
     list_ex (\<lambda>x. mm_mailbox x = mb \<and> mm_id x \<in> set ids \<and>
        (case mm_key x of None \<Rightarrow> False | Some k \<Rightarrow> protectedSender d mb k)) (mail d)"

definition subject_shields :: "ident \<Rightarrow> protection_subject option \<Rightarrow> db \<Rightarrow> bool" where
  "subject_shields mb s d = (case s of None \<Rightarrow> False | Some x \<Rightarrow> protectedSubject mb x d)"

lemma subject_shields_cong:
  "policies d' = policies d \<Longrightarrow> mail d' = mail d \<Longrightarrow> subject_shields mb s d' = subject_shields mb s d"
proof -
  assume eq: "policies d' = policies d" "mail d' = mail d"
  then have "protectedSender d' = protectedSender d" by (simp add: fun_eq_iff protectedSender_def)
  then have "protectedSubject mb x d' = protectedSubject mb x d" for x
    by (cases x) (simp_all add: eq cong: option.case_cong)
  then show ?thesis by (cases s) (simp_all add: subject_shields_def)
qed

definition assertNotProtected :: "ident \<Rightarrow> protection_subject option \<Rightarrow> unit wm" where
  "assertNotProtected mb s =
     (case s of
        None \<Rightarrow> returnw ()
      | Some x \<Rightarrow>
          bindw (query (protectedSubject mb x)) (\<lambda>p. if p then throww SenderProtectedAtSend else returnw ()))"

definition end_protected :: "bool \<Rightarrow> job_row \<Rightarrow> job_row" where
  "end_protected skip j =
     j\<lparr>jo_status := (if skip then JobDone else JobFailed), jo_affected := 0,
       jo_error := Some (if skip then sender_protected_code else recovery_protected_code),
       jo_quota := settledQuotaUnits 0 (jo_quota j)\<rparr>"

definition recordRecoveryProtected :: "job_row \<Rightarrow> label_action_result wm" where
  "recordRecoveryProtected j =
     bindw (exec (update_job (jo_id j) (end_protected False)))
       (\<lambda>_. returnw ((label_result_of 0 None)\<lparr>lr_stopped := True\<rparr>))"

definition recordProtected :: "job_row \<Rightarrow> label_action_result wm" where
  "recordProtected j =
     (if 0 < jo_attempt j then recordRecoveryProtected j
      else bindw (exec (update_job (jo_id j) (end_protected True)))
             (\<lambda>_. returnw ((label_result_of 0 None)\<lparr>lr_skipped := True\<rparr>)))"

definition stopProtected :: "job_row \<Rightarrow> nat \<Rightarrow> label_action_result wm" where
  "stopProtected j landed =
     (if landed = 0 \<and> neverReachedGmail j then recordProtected j else recordRecoveryProtected j)"

subsection \<open>What a Delete remembers\<close>

type_synonym delete_undo = "ident list \<times> ident list option"

definition storedDeleteUndo :: "delete_undo option \<Rightarrow> ident list \<Rightarrow> worker_error + delete_undo option" where
  \<comment> \<open>never wider than what was captured\<close>
  "storedDeleteUndo du ids =
     (case du of
        None \<Rightarrow> Inr None
      | Some (orig, inbox) \<Rightarrow>
          if \<not> set ids \<subseteq> set orig \<or> (case inbox of None \<Rightarrow> False | Some xs \<Rightarrow> \<not> set xs \<subseteq> set orig)
          then Inl ValidationError
          else Inr (Some (ids, map_option (filter (\<lambda>i. i \<in> set ids)) inbox)))"

definition inbox_ids :: "ident \<Rightarrow> ident list \<Rightarrow> db \<Rightarrow> ident list" where
  "inbox_ids mb ids d =
     map mm_id (filter (\<lambda>x. mm_mailbox x = mb \<and> mm_id x \<in> set ids \<and> ''INBOX'' \<in> set (mm_labels x)) (mail d))"

definition prepareDeleteUndo :: "job_row \<Rightarrow> ident list \<Rightarrow> delete_undo wm" where
  "prepareDeleteUndo j ids =
     (if 0 < jo_attempt j \<or> \<not> neverReachedGmail j
      then (case storedDeleteUndo (jo_delete_undo j) ids of
              Inl e \<Rightarrow> throww e
            | Inr (Some u) \<Rightarrow> returnw u
            | Inr None \<Rightarrow> returnw (ids, None))
      else bindw (query (inbox_ids (jo_mailbox j) ids)) (\<lambda>inbox. returnw (ids, Some inbox)))"

record undo_payload =
  up_inbox :: "ident list option"
  up_unknown :: bool
  up_all_mail :: bool

definition buildUndoPayload :: "verb \<Rightarrow> ident list option \<Rightarrow> action_reach \<Rightarrow> undo_payload" where
  "buildUndoPayload v inbox reach =
     (if v = VDelete
      then \<lparr>up_inbox = inbox, up_unknown = (inbox = None), up_all_mail = (reach = AllMail)\<rparr>
      else \<lparr>up_inbox = None, up_unknown = False, up_all_mail = False\<rparr>)"

subsection \<open>The execution set\<close>

definition old_enough :: "nat option \<Rightarrow> millis \<Rightarrow> mail_row \<Rightarrow> bool" where
  "old_enough older now x = (case older of None \<Rightarrow> True | Some n \<Rightarrow> mm_date x \<le> now - int n * day_ms)"

definition sender_action_mail :: "ident \<Rightarrow> string \<Rightarrow> nat option \<Rightarrow> action_reach \<Rightarrow> db \<Rightarrow> mail_row list" where
  "sender_action_mail mb k older reach d =
     filter (\<lambda>x. senderActionWhere mb [k] reach x \<and> old_enough older (db_now d) x) (mail d)"

definition resolveSenderActionIds :: "ident \<Rightarrow> string \<Rightarrow> nat option \<Rightarrow> action_reach \<Rightarrow> db \<Rightarrow> ident list" where
  "resolveSenderActionIds mb k older reach d = map mm_id (sender_action_mail mb k older reach d)"

definition eligibleCustomIds :: "job_row \<Rightarrow> ident list \<Rightarrow> db \<Rightarrow> ident list" where
  "eligibleCustomIds j ids d =
     (if ids = [] \<or> jo_selector j \<noteq> BySender then []
      else let rows = filter (\<lambda>x. mm_id x \<in> set ids \<and> \<not> list_ex (\<lambda>l. l \<in> set all_mail_excluded_labels) (mm_labels x))
                        (sender_action_mail (jo_mailbox j) (jo_sender_key j) (jo_older j) (jo_reach j) d)
           in filter (\<lambda>i. i \<in> set (map mm_id rows)) (rev (remdups (rev ids))))"

definition store_ids :: "ident \<Rightarrow> ident list \<Rightarrow> unit wm" where
  "store_ids jid ids = exec (update_job jid (\<lambda>j. j\<lparr>jo_ids := ids\<rparr>))"

definition eligible_ids :: "job_row \<Rightarrow> ident list \<Rightarrow> ident list wm" where
  \<comment> \<open>an empty scope asks nothing\<close>
  "eligible_ids j ids =
     (if ids = [] \<or> jo_selector j \<noteq> BySender then returnw [] else query (eligibleCustomIds j ids))"

subsection \<open>Approved custom batches\<close>

definition customAutopilot :: "job_row \<Rightarrow> worker_error + custom_run option" where
  "customAutopilot j =
     (case jo_custom j of
        None \<Rightarrow> Inr None
      | Some c \<Rightarrow>
          if jo_selector j \<noteq> BySender \<or> cu_rule c = '''' \<or> cu_version c < 1 \<or> cu_preview c = ''''
          then Inl ValidationError else Inr (Some c))"

definition is_sender_key :: "string \<Rightarrow> bool" where
  "is_sender_key s \<longleftrightarrow> length s = 64 \<and> list_all (\<lambda>c. c \<in> set ''0123456789abcdef'') s"

fun js_strings :: "jsval list \<Rightarrow> string list option" where
  "js_strings [] = Some []"
| "js_strings (JStr s # vs) = map_option (Cons s) (js_strings vs)"
| "js_strings (_ # vs) = None"

fun sender_rule_conditions_ok :: "jsval \<Rightarrow> bool" where
  \<comment> \<open>\<open>AutopilotSenderRuleConditionsSchema\<close>\<close>
  "sender_rule_conditions_ok (JObj fs) \<longleftrightarrow>
     only_keys [''kind'', ''senderKeys'', ''olderThanDays''] fs \<and>
     map_of fs ''kind'' = Some (JStr ''sender_list'') \<and>
     (case map_of fs ''senderKeys'' of
        Some (JArr vs) \<Rightarrow>
          (case js_strings vs of
             None \<Rightarrow> False
           | Some ks \<Rightarrow> list_all is_sender_key ks \<and> 1 \<le> length ks \<and> length ks \<le> 100 \<and> distinct ks)
      | _ \<Rightarrow> False) \<and>
     map_of fs ''olderThanDays'' \<in> {Some JNull, Some (JNum 30), Some (JNum 90), Some (JNum 180)}"
| "sender_rule_conditions_ok _ = False"

fun autopilot_action_name :: "autopilot_action \<Rightarrow> string" where
  "autopilot_action_name ActArchive = ''archive''"
| "autopilot_action_name ActUnsubscribe = ''unsubscribe''"
| "autopilot_action_name ActLater = ''later''"
| "autopilot_action_name ActDelete = ''delete''"

definition approval_first :: "rule_row \<Rightarrow> bool" where
  "approval_first r = isApprovalFirstDeletePreset
     \<lparr>crIsPreset = ru_is_preset r, crPresetKey = ru_preset_key r, crScope = ru_scope r,
      crActionKind = autopilot_action_name (ru_action r), crConditions = ru_conditions r,
      crActionPayload = ru_payload r\<rparr>"

definition custom_rule_block :: "job_row \<Rightarrow> millis \<Rightarrow> rule_row option \<Rightarrow> string option" where
  \<comment> \<open>why the rule may not start the batch; the instant is the job's creation\<close>
  "custom_rule_block j created rule =
     (case rule of
        None \<Rightarrow> Some ''AUTOPILOT_RULE_INVALID''
      | Some r \<Rightarrow>
          if ru_mailbox r \<noteq> jo_mailbox j \<or>
             (if ru_is_preset r then \<not> approval_first r \<or> jo_verb j \<noteq> VDelete else ru_preset_key r \<noteq> None) \<or>
             ru_scope r \<noteq> ''account''
          then Some ''AUTOPILOT_RULE_INVALID''
          else if ru_retired r \<noteq> None \<or> \<not> ru_enabled r \<or> ru_mode r \<noteq> Observe \<or> created < ru_mode_changed r
          then Some ''AUTOPILOT_RULE_INACTIVE''
          else if \<not> sender_rule_conditions_ok (ru_conditions r) \<and> \<not> approval_first r
          then Some ''AUTOPILOT_RULE_INVALID''
          else None)"

definition custom_rule_of :: "job_row \<Rightarrow> ident \<Rightarrow> db \<Rightarrow> (rule_row \<times> millis) option" where
  \<comment> \<open>the rule joined with the job's own row\<close>
  "custom_rule_of j rid d =
     Option.bind (List.find (\<lambda>x. jo_id x = jo_id j \<and> jo_mailbox x = jo_mailbox j) (jobs d))
       (\<lambda>x. map_option (\<lambda>r. (r, jo_created x)) (List.find (\<lambda>r. ru_id r = rid) (rules d)))"

definition custom_mailbox_of :: "ident \<Rightarrow> db \<Rightarrow> (jsval \<times> tier \<times> bool) option" where
  "custom_mailbox_of mb d =
     Option.bind (List.find (\<lambda>m. mb_id m = mb) (mailboxes d)) (\<lambda>m.
       map_option (\<lambda>w. (mb_quiet m, ws_tier w, mb_active m)) (List.find (\<lambda>w. ws_id w = mb_workspace m) (workspaces d)))"

definition job_sender_exists :: "job_row \<Rightarrow> db \<Rightarrow> bool" where
  "job_sender_exists j d \<longleftrightarrow>
     list_ex (\<lambda>s. se_id s = jo_sender_id j \<and> se_mailbox s = jo_mailbox j \<and> se_key s = jo_sender_key j) (senders d)"

type_synonym start_predicate = "db \<Rightarrow> job_row \<Rightarrow> bool"

definition custom_still :: "job_row \<Rightarrow> rule_row \<Rightarrow> jsval \<Rightarrow> tier \<Rightarrow> start_predicate" where
  \<comment> \<open>the state that was evaluated, in the statement that records the send\<close>
  "custom_still j rule quiet t d x \<longleftrightarrow>
     list_ex (\<lambda>r. ru_id r = ru_id rule \<and> ru_mailbox r = jo_mailbox j \<and> ru_version r = ru_version rule \<and>
        ru_mode_changed r \<le> jo_created x \<and> ru_is_preset r = ru_is_preset rule \<and>
        ru_preset_key r = ru_preset_key rule \<and> ru_action r = ru_action rule \<and> ru_payload r = ru_payload rule \<and>
        ru_retired r = None \<and> ru_enabled r \<and> ru_mode r = Observe \<and> ru_scope r = ''account'' \<and>
        ru_conditions r = ru_conditions rule) (rules d) \<and>
     custom_mailbox_of (jo_mailbox j) d = Some (quiet, t, True) \<and> job_sender_exists j d"

definition quiet_block :: "host \<Rightarrow> jsval \<Rightarrow> millis \<Rightarrow> worker_error option" where
  "quiet_block h quiet now =
     (if \<not> isQuietActive h quiet now then None
      else case msUntilQuietEnds h quiet now of
             Returns x \<Rightarrow> Some (CustomAutopilotQuiet (max 1 (case x of None \<Rightarrow> 300000 | Some ms \<Rightarrow> ms)))
           | Throws \<Rightarrow> Some PlainError)"

definition customStartPredicate :: "host \<Rightarrow> job_row \<Rightarrow> start_predicate wm" where
  "customStartPredicate h j =
     (case customAutopilot j of
        Inl e \<Rightarrow> throww e
      | Inr None \<Rightarrow> throww ValidationError
      | Inr (Some c) \<Rightarrow>
          bindw (query (custom_rule_of j (cu_rule c))) (\<lambda>current.
          case custom_rule_block j (case current of None \<Rightarrow> 0 | Some (_, t) \<Rightarrow> t) (map_option fst current) of
            Some code \<Rightarrow> throww (CustomAutopilotBlocked code)
          | None \<Rightarrow>
              bindw (query (custom_mailbox_of (jo_mailbox j))) (\<lambda>mbx.
              case mbx of
                None \<Rightarrow> throww (CustomAutopilotBlocked ''AUTOPILOT_MAILBOX_INACTIVE'')
              | Some (quiet, t, active) \<Rightarrow>
                  if \<not> active then throww (CustomAutopilotBlocked ''AUTOPILOT_MAILBOX_INACTIVE'')
                  else if \<not> hasCapability t Autopilot
                  then throww (CustomAutopilotBlocked ''AUTOPILOT_NOT_ENTITLED'')
                  else bindw clock (\<lambda>now.
                    case quiet_block h quiet now of
                      Some e \<Rightarrow> throww e
                    | None \<Rightarrow>
                        bindw (query (job_sender_exists j)) (\<lambda>ok.
                        if \<not> ok then throww (CustomAutopilotBlocked ''AUTOPILOT_RULE_INVALID'')
                        else returnw (case current of
                               None \<Rightarrow> (\<lambda>_ _. False) | Some (r, _) \<Rightarrow> custom_still j r quiet t))))))"

subsection \<open>The send hook\<close>

definition mark_label_stmt ::
  "job_row \<Rightarrow> protection_subject option \<Rightarrow> start_predicate option \<Rightarrow> delete_undo option \<Rightarrow> db \<Rightarrow> worker_error + (bool \<times> db)"
where
  \<comment> \<open>one statement: the Protected check, the batch gate and the mark\<close>
  "mark_label_stmt j s start du d =
     (let p = (\<lambda>x. jo_id x = jo_id j \<and> \<not> subject_shields (jo_mailbox j) s d \<and>
                   (case start of None \<Rightarrow> True | Some f \<Rightarrow> f d x))
      in Inr (list_ex p (jobs d),
              d\<lparr>jobs := update_where p
                 (\<lambda>x. (case du of None \<Rightarrow> x | Some u \<Rightarrow> x\<lparr>jo_delete_undo := Some u\<rparr>)\<lparr>jo_status := Executing\<rparr>)
                 (jobs d)\<rparr>))"

definition markExecuting ::
  "host \<Rightarrow> job_row \<Rightarrow> protection_subject option \<Rightarrow> start_predicate option \<Rightarrow> ident list option \<Rightarrow> delete_undo option wm"
where
  \<comment> \<open>returns the placement the job carries from now on\<close>
  "markExecuting h j s start ids =
     bindw (case ids of
              Some xs \<Rightarrow> if jo_verb j = VDelete then bindw (prepareDeleteUndo j xs) (\<lambda>u. returnw (Some u)) else returnw None
            | None \<Rightarrow> returnw None) (\<lambda>du.
     bindw (stmt (mark_label_stmt j s start du)) (\<lambda>marked.
     if marked then returnw (case du of None \<Rightarrow> jo_delete_undo j | Some u \<Rightarrow> Some u)
     else bindw (query (\<lambda>d. list_ex (\<lambda>x. jo_id x = jo_id j) (jobs d))) (\<lambda>still.
       if still \<and> \<not> Option.is_none start
       then bindw (case s of None \<Rightarrow> returnw False | Some x \<Rightarrow> query (protectedSubject (jo_mailbox j) x)) (\<lambda>p.
              if p then throww SenderProtectedAtSend
              else bindw (customStartPredicate h j) (\<lambda>_. throww TransientError))
       else if still \<and> s \<noteq> None then throww SenderProtectedAtSend
       else throww ValidationError)))"

record label_ctx =
  la_host :: host
  la_job :: job_row
  la_ids :: "ident list"
  la_subject :: "protection_subject option"
  la_starting :: bool
  la_change :: label_change

definition first_hook :: "label_ctx \<Rightarrow> delete_undo option wm" where
  "first_hook c =
     bindw (if la_starting c then bindw (customStartPredicate (la_host c) (la_job c)) (\<lambda>f. returnw (Some f))
            else returnw None) (\<lambda>start.
     bindw (if la_starting c
            then bindw (eligible_ids (la_job c) (la_ids c)) (\<lambda>now.
                   if length now \<noteq> length (la_ids c) then throww TransientError else returnw ())
            else returnw ()) (\<lambda>_.
     markExecuting (la_host c) (la_job c) (la_subject c) start (Some (la_ids c))))"

definition recordHookSkipped :: "label_ctx \<Rightarrow> delete_undo option wm" where
  "recordHookSkipped c =
     (let j = la_job c in
      if jo_verb j = VDelete \<and> jo_attempt j = 0 \<and> neverReachedGmail j
      then bindw (stmt (\<lambda>d. Inr (list_ex (\<lambda>x. jo_id x = jo_id j) (jobs d),
                    update_job (jo_id j)
                      (\<lambda>x. x\<lparr>jo_status := Executing, jo_delete_undo := Some (la_ids c, None)\<rparr>) d)))
             (\<lambda>marked. if marked then returnw (Some (la_ids c, None)) else throww ValidationError)
      else markExecuting (la_host c) j None None None)"

subsection \<open>Sending\<close>

definition label_prot :: "label_ctx \<Rightarrow> db \<Rightarrow> bool" where
  \<comment> \<open>what the ghost records: whether the mail of the action is Protected, confirmed or not\<close>
  "label_prot c = subject_shields (jo_mailbox (la_job c)) (protectionSubject (la_job c) False)"

definition label_chunk :: "label_ctx \<Rightarrow> bool \<Rightarrow> ident list \<Rightarrow> delete_undo option \<Rightarrow> delete_undo option wm" where
  \<comment> \<open>one request; returns the placement in memory\<close>
  "label_chunk c first ids du =
     bindw (batchModify (jo_id (la_job c)) (label_prot c) ids (la_change c)
             (if first then first_hook c
              else bindw (assertNotProtected (jo_mailbox (la_job c)) (la_subject c)) (\<lambda>_. returnw du)))
       (\<lambda>ran. case ran of
                Some du' \<Rightarrow> returnw du'
              | None \<Rightarrow> if first then recordHookSkipped c else returnw du)"

definition label_landed :: "label_ctx \<Rightarrow> unit wm" where
  \<comment> \<open>the return timer, as the first request lands\<close>
  "label_landed c =
     (let j = la_job c in
      case (if jo_verb j = VLater \<and> jo_selector j = BySender then jo_wake j else None) of
        None \<Rightarrow> returnw ()
      | Some wakeAt \<Rightarrow>
          bindw clock (\<lambda>t. exec (scheduleLaterReturn (jo_mailbox j) (jo_sender_key j) wakeAt t False)))"

datatype send_end = SentAll "delete_undo option" | SendLeft worker_error nat

fun label_chunks :: "label_ctx \<Rightarrow> ident list list \<Rightarrow> nat \<Rightarrow> delete_undo option \<Rightarrow> send_end wm" where
  \<comment> \<open>the loop inside the \<open>try\<close>\<close>
  "label_chunks c [] landed du = returnw (SentAll du)"
| "label_chunks c (ids # rest) landed du =
     bindw (tryw (label_chunk c (landed = 0) ids du)) (\<lambda>r.
       case r of
         Inl e \<Rightarrow> returnw (SendLeft e landed)
       | Inr du' \<Rightarrow>
           bindw (if landed = 0 then tryw (label_landed c) else returnw (Inr ())) (\<lambda>r'.
             case r' of
               Inl e \<Rightarrow> returnw (SendLeft e (landed + 1))
             | Inr _ \<Rightarrow> label_chunks c rest (landed + 1) du'))"

definition back_to_queued :: "ident \<Rightarrow> db \<Rightarrow> db" where
  "back_to_queued jid d =
     d\<lparr>jobs := update_where (\<lambda>x. jo_id x = jid \<and> jo_status x = Executing) (\<lambda>x. x\<lparr>jo_status := Queued\<rparr>) (jobs d)\<rparr>"

definition label_send_failed :: "label_ctx \<Rightarrow> worker_error \<Rightarrow> nat \<Rightarrow> label_action_result wm" where
  \<comment> \<open>the \<open>catch\<close>\<close>
  "label_send_failed c e landed =
     (if e = SenderProtectedAtSend then stopProtected (la_job c) landed
      else bindw (if neverReachedGmail (la_job c) \<and> landed = 0 \<and> isRefusedBeforeApply e
                  then exec (back_to_queued (jo_id (la_job c))) else returnw ())
             (\<lambda>_. throww e))"

subsection \<open>Recording\<close>

definition job_sender :: "job_row \<Rightarrow> string option" where
  "job_sender j = (case jo_selector j of BySender \<Rightarrow> Some (jo_sender_key j) | ByMessages \<Rightarrow> None)"

definition label_activity :: "ident \<Rightarrow> job_row \<Rightarrow> nat \<Rightarrow> ident option \<Rightarrow> millis \<Rightarrow> activity_row" where
  \<comment> \<open>a message list has no sender; its row carries the empty key\<close>
  "label_activity aid j n undo t =
     \<lparr>ac_id = aid, ac_mailbox = jo_mailbox j, ac_key = (case job_sender j of None \<Rightarrow> '''' | Some k \<Rightarrow> k),
      ac_source = (if jo_custom j = None then ''manual'' else ''autopilot''), ac_action = verb_name (jo_verb j),
      ac_affected = n, ac_undo = undo, ac_rule = map_option cu_rule (jo_custom j), ac_at = t,
      ac_job = Some (jo_id j), ac_reverted = None\<rparr>"

definition label_event :: "job_row \<Rightarrow> nat \<Rightarrow> ident option \<Rightarrow> millis option \<Rightarrow> millis \<Rightarrow> outbox_event" where
  "label_event j n undo wake t =
     LabelApplied (jo_mailbox j) (jo_id j) (jo_verb j) (job_sender j) undo n (jo_composite j) wake t"

definition finish_label_job :: "nat \<Rightarrow> ident option \<Rightarrow> job_row \<Rightarrow> job_row" where
  "finish_label_job n undo j =
     j\<lparr>jo_status := JobDone, jo_affected := n,
       jo_undo := (case undo of None \<Rightarrow> jo_undo j | Some t \<Rightarrow> Some t),
       jo_quota := settledQuotaUnits n (jo_quota j)\<rparr>"

definition nothing_tx :: "ident \<Rightarrow> job_row \<Rightarrow> millis \<Rightarrow> db \<Rightarrow> db" where
  \<comment> \<open>no matching mail: the decision is audited and announced, no undo\<close>
  "nothing_tx aid j t d =
     (update_job (jo_id j) (finish_label_job 0 None) d)
       \<lparr>activity := activity d @ [label_activity aid j 0 None (db_now d)],
        outbox := outbox d @ [label_event j 0 None None t]\<rparr>"

definition label_undo_row :: "ident \<Rightarrow> millis \<Rightarrow> label_ctx \<Rightarrow> delete_undo option \<Rightarrow> millis \<Rightarrow> undo_row" where
  "label_undo_row token expiresAt c stored now =
     (let j = la_job c; up = buildUndoPayload (jo_verb j) (Option.bind stored snd) (jo_reach j)
      in \<lparr>un_token = token, un_mailbox = jo_mailbox j, un_kind = jo_verb j, un_ids = la_ids c,
          un_expires = expiresAt, un_inbox = up_inbox up, un_unknown = up_unknown up,
          un_all_mail = up_all_mail up, un_created = now, un_executed = None, un_reverted = None\<rparr>)"

definition label_rows :: "ident \<Rightarrow> ident \<Rightarrow> millis \<Rightarrow> label_ctx \<Rightarrow> delete_undo option \<Rightarrow> db \<Rightarrow> db" where
  "label_rows token aid expiresAt c stored d =
     d\<lparr>undos := undos d @ [label_undo_row token expiresAt c stored (db_now d)],
       activity := activity d @ [label_activity aid (la_job c) (length (la_ids c)) (Some token) (db_now d)]\<rparr>"

definition later_return :: "label_ctx \<Rightarrow> millis \<Rightarrow> db \<Rightarrow> db" where
  "later_return c appliedAt d =
     (let j = la_job c in
      case (if jo_verb j = VLater \<and> jo_selector j = BySender then jo_wake j else None) of
        None \<Rightarrow> d
      | Some wakeAt \<Rightarrow> scheduleLaterReturn (jo_mailbox j) (jo_sender_key j) wakeAt appliedAt False d)"

definition announce :: "outbox_event \<Rightarrow> db \<Rightarrow> db" where
  "announce e d = d\<lparr>outbox := outbox d @ [e]\<rparr>"

definition label_tx ::
  "ident \<Rightarrow> ident \<Rightarrow> millis \<Rightarrow> millis \<Rightarrow> label_ctx \<Rightarrow> delete_undo option \<Rightarrow> db \<Rightarrow> worker_error + (ident \<times> db)" where
  \<comment> \<open>undo row, audit row, label mirror, Later timer, event, job\<close>
  "label_tx token aid expiresAt appliedAt c du d =
     (let j = la_job c; mb = jo_mailbox j; ids = la_ids c in
      case (if jo_verb j = VDelete then storedDeleteUndo du ids else Inr None) of
        Inl e \<Rightarrow> Inl e
      | Inr stored \<Rightarrow>
          (let d1 = label_rows token aid expiresAt c stored d;
               d2 = later_return c appliedAt (mirror_mail mb ids (la_change c) d1);
               d3 = announce (label_event j (length ids) (Some token)
                      (if jo_verb j = VLater then jo_wake j else None) appliedAt) d2;
               d4 = update_job (jo_id j) (finish_label_job (length ids) (Some token)) d3
           in Inr (token, if ids \<noteq> [] then invalidateInboxReportCache mb d4 else d4)))"

definition send_label :: "label_ctx \<Rightarrow> label_action_result wm" where
  "send_label c =
     bindw (label_chunks c (chunks gmail_batch_modify_max_ids (la_ids c)) 0 (jo_delete_undo (la_job c))) (\<lambda>r.
       case r of
         SendLeft e landed \<Rightarrow> label_send_failed c e landed
       | SentAll du \<Rightarrow>
           bindw (undoExpiresAt (jo_mailbox (la_job c))) (\<lambda>expiresAt.
           bindw clock (\<lambda>appliedAt.
           bindw fresh_id (\<lambda>token.
           bindw fresh_id (\<lambda>aid.
           bindw (stmt (label_tx token aid expiresAt appliedAt c du)) (\<lambda>t.
           returnw (label_result_of (length (la_ids c)) (Some t))))))))"

subsection \<open>Forward\<close>

definition forward_ids :: "job_row \<Rightarrow> bool \<Rightarrow> bool \<Rightarrow> ident list wm" where
  \<comment> \<open>the durable execution set\<close>
  "forward_ids j custom starting =
     (if starting
      then bindw (eligible_ids j (jo_ids j)) (\<lambda>ids. bindw (store_ids (jo_id j) ids) (\<lambda>_. returnw ids))
      else if \<not> custom \<and> jo_ids j = [] \<and> jo_selector j = BySender
      then bindw (query (resolveSenderActionIds (jo_mailbox j) (jo_sender_key j) (jo_older j) (jo_reach j)))
             (\<lambda>ids. bindw (store_ids (jo_id j) ids) (\<lambda>_. returnw ids))
      else returnw (jo_ids j))"

definition run_label :: "host \<Rightarrow> job_row \<Rightarrow> label_change \<Rightarrow> protection_subject option \<Rightarrow> bool \<Rightarrow> ident list \<Rightarrow> label_action_result wm" where
  "run_label h j change subject starting ids =
     (if ids = []
      then bindw fresh_id (\<lambda>aid. bindw clock (\<lambda>t. bindw (exec (nothing_tx aid j t))
             (\<lambda>_. returnw (label_result_of 0 None))))
      else bindw (port_call no_effect) (\<lambda>_.
           bindw (ensure_labels change) (\<lambda>ensure.
             send_label \<lparr>la_host = h, la_job = j, la_ids = ids, la_subject = subject, la_starting = starting,
                         la_change = resolveLabelChange ensure change\<rparr>)))"

definition executeForward :: "host \<Rightarrow> bool \<Rightarrow> label_change \<Rightarrow> job_row \<Rightarrow> label_action_result wm" where
  "executeForward h confirmed change j =
     (case customAutopilot j of
        Inl e \<Rightarrow> throww e
      | Inr cu \<Rightarrow>
          if cu \<noteq> None \<and> jo_verb j \<noteq> VArchive \<and> jo_verb j \<noteq> VDelete then throww ValidationError
          else if jo_verb j = VLater \<and> (jo_selector j \<noteq> BySender \<or> jo_wake j = None) then throww ValidationError
          else if jo_selector j = ByMessages \<and> jo_attempt j = 0 \<and> neverReachedGmail j then throww ValidationError
          else (let subject = protectionSubject j (if cu \<noteq> None \<and> jo_attempt j = 0 then False else confirmed);
                    starting = (cu \<noteq> None \<and> jo_attempt j = 0 \<and> neverReachedGmail j)
                in bindw (case subject of None \<Rightarrow> returnw False | Some x \<Rightarrow> query (protectedSubject (jo_mailbox j) x))
                     (\<lambda>p. if p then stopProtected j 0
                          else bindw (if starting then bindw (customStartPredicate h j) (\<lambda>_. returnw ()) else returnw ())
                            (\<lambda>_. bindw (forward_ids j (cu \<noteq> None) starting)
                              (run_label h j change subject starting)))))"

subsection \<open>Undo\<close>

type_synonym change_group = "ident list \<times> label_change"

definition reverseChangeGroups :: "job_row \<Rightarrow> label_change \<Rightarrow> ident list \<Rightarrow> undo_row option \<Rightarrow> change_group list" where
  \<comment> \<open>what the journal remembers of a Delete decides; the row's reach only when it cannot be read\<close>
  "reverseChangeGroups j change ids journal =
     (let archive = change\<lparr>addLabels := []\<rparr> in
      case Option.bind journal un_inbox of
        None \<Rightarrow>
          [(ids, if (case journal of None \<Rightarrow> False | Some u \<Rightarrow> un_unknown u \<or> un_all_mail u) \<or> jo_reach j = AllMail
                 then archive else change)]
      | Some inbox \<Rightarrow>
          filter (\<lambda>(xs, _). xs \<noteq> [])
            [(filter (\<lambda>i. i \<in> set inbox) ids, change), (filter (\<lambda>i. i \<notin> set inbox) ids, archive)])"

definition reverse_groups :: "job_row \<Rightarrow> ident \<Rightarrow> label_change \<Rightarrow> ident list \<Rightarrow> change_group list wm" where
  "reverse_groups j token change ids =
     (if jo_verb j \<noteq> VDelete \<or> ids = [] then returnw [(ids, change)]
      else bindw (query (\<lambda>d. List.find (\<lambda>u. un_token u = token) (undos d)))
             (\<lambda>journal. returnw (reverseChangeGroups j change ids journal)))"

definition resolve_groups :: "change_group list \<Rightarrow> change_group list wm" where
  "resolve_groups groups =
     foreachw (\<lambda>(ids, change) done'.
         bindw (ensure_labels change) (\<lambda>ensure. returnw (done' @ [(ids, resolveLabelChange ensure change)])))
       groups []"

definition send_group :: "ident \<Rightarrow> change_group \<Rightarrow> unit wm" where
  \<comment> \<open>no hook; the client cuts the ids into requests\<close>
  "send_group jid g =
     foreachw (\<lambda>ids _. bindw (batchModify jid (\<lambda>_. False) ids (snd g) (returnw ())) (\<lambda>_. returnw ()))
       (chunks gmail_batch_modify_max_ids (fst g)) ()"

definition clear_timer :: "policy_row \<Rightarrow> policy_row" where
  "clear_timer p =
     p\<lparr>po_snoozed_until := None, po_snoozed_at := None, po_snooze_note := None, po_wake_attempt := None,
       po_wake_failed := None, po_wake_failures := 0, po_wake_kind := None\<rparr>"

definition clearLaterTimer :: "job_row \<Rightarrow> ident list \<Rightarrow> change_group list \<Rightarrow> db \<Rightarrow> db" where
  \<comment> \<open>only this action's own wake time, and only once none of the sender's mail is left in Later\<close>
  "clearLaterTimer j ids groups d =
     (if jo_verb j = VLater \<and> jo_selector j = BySender \<and> jo_wake j \<noteq> None
      then let label = List.find (\<lambda>l. l \<notin> set system_label_ids) (concat (map (removeLabels \<circ> snd) groups));
               left = (case (if ids = [] then None else label) of
                         None \<Rightarrow> False
                       | Some l \<Rightarrow> list_ex (\<lambda>x. mm_mailbox x = jo_mailbox j \<and> mm_key x = Some (jo_sender_key j) \<and>
                                             l \<in> set (mm_labels x)) (mail d))
           in d\<lparr>policies := update_where
                 (\<lambda>p. po_mailbox p = jo_mailbox j \<and> po_key p = jo_sender_key j \<and>
                      po_snoozed_until p = jo_wake j \<and> \<not> left)
                 clear_timer (policies d)\<rparr>
      else d)"

definition mirror_groups :: "ident \<Rightarrow> change_group list \<Rightarrow> db \<Rightarrow> db" where
  "mirror_groups mb groups d = fold (\<lambda>g. mirror_mail mb (fst g) (snd g)) groups d"

definition record_revert :: "ident \<Rightarrow> db \<Rightarrow> db" where
  "record_revert token d =
     d\<lparr>undos := update_where (\<lambda>u. un_token u = token \<and> un_reverted u = None)
          (\<lambda>u. u\<lparr>un_reverted := Some (db_now d)\<rparr>) (undos d),
       activity := update_where (\<lambda>a. ac_undo a = Some token \<and> ac_reverted a = None)
          (\<lambda>a. a\<lparr>ac_reverted := Some (db_now d)\<rparr>) (activity d)\<rparr>"

definition finish_reverse_job :: "nat \<Rightarrow> job_row \<Rightarrow> job_row" where
  "finish_reverse_job n x = x\<lparr>jo_status := JobDone, jo_affected := n, jo_quota := settledQuotaUnits n (jo_quota x)\<rparr>"

definition reverse_tx :: "job_row \<Rightarrow> ident \<Rightarrow> ident list \<Rightarrow> change_group list \<Rightarrow> db \<Rightarrow> db" where
  "reverse_tx j token ids groups d =
     (let d1 = record_revert token d;
          d2 = (if ids = [] then d1 else mirror_groups (jo_mailbox j) groups d1);
          d3 = clearLaterTimer j ids groups d2;
          d4 = update_job (jo_id j) (finish_reverse_job (length ids)) d3
      in if ids = [] then d4 else invalidateInboxReportCache (jo_mailbox j) d4)"

definition executeReverse :: "label_change \<Rightarrow> job_row \<Rightarrow> label_action_result wm" where
  "executeReverse change j =
     (case jo_undo j of
        None \<Rightarrow> throww ValidationError
      | Some token \<Rightarrow>
          bindw (exec (update_job (jo_id j) (\<lambda>x. x\<lparr>jo_status := Executing\<rparr>))) (\<lambda>_.
          let ids = jo_ids j in
          bindw (reverse_groups j token change ids) (\<lambda>groups0.
          bindw (if ids = [] then returnw groups0
                 else bindw (port_call no_effect) (\<lambda>_.
                      bindw (resolve_groups groups0) (\<lambda>groups.
                      bindw (foreachw (\<lambda>g _. send_group (jo_id j) g) groups ()) (\<lambda>_.
                      returnw groups)))) (\<lambda>groups.
          bindw (exec (reverse_tx j token ids groups)) (\<lambda>_.
          returnw (label_result_of (length ids) (Some token)))))))"

subsection \<open>A delivery\<close>

definition replayed :: "job_row \<Rightarrow> label_action_result" where
  "replayed j = (label_result_of (jo_affected j) (jo_undo j))\<lparr>lr_already := True\<rparr>"

definition ignored_failure :: "job_row \<Rightarrow> label_action_result" where
  \<comment> \<open>a failed action runs again only as a new attempt from its review\<close>
  "ignored_failure j =
     (if jo_error j = Some recovery_protected_code
      then (label_result_of 0 None)\<lparr>lr_already := True, lr_stopped := True\<rparr> else replayed j)"

definition fail_job :: "string \<Rightarrow> job_row \<Rightarrow> job_row" where
  "fail_job code j =
     j\<lparr>jo_status := JobFailed, jo_error := Some code, jo_affected := 0, jo_quota := settledQuotaUnits 0 (jo_quota j)\<rparr>"

definition requeue :: "ident \<Rightarrow> millis \<Rightarrow> bool \<Rightarrow> world \<Rightarrow> world" where
  "requeue jid delay landed w = (if landed then w\<lparr>requeued := requeued w @ [(jid, delay)]\<rparr> else w)"

definition put_off :: "ident \<Rightarrow> millis \<Rightarrow> db \<Rightarrow> db" where
  "put_off jid deadline d =
     d\<lparr>jobs := update_where (\<lambda>x. jo_id x = jid \<and> jo_status x = Queued \<and> jo_direction x = Forward \<and>
                                jo_attempt x = 0 \<and> jo_root x = None)
        (\<lambda>x. x\<lparr>jo_quiet_until := Some deadline\<rparr>) (jobs d)\<rparr>"

definition deferQuiet :: "bool \<Rightarrow> ident \<Rightarrow> int \<Rightarrow> label_action_result wm" where
  "deferQuiet hooked jid ms =
     (if \<not> hooked then throww PlainError
      else let delay = max 1000 ms in
        bindw clock (\<lambda>now.
        bindw (port_call (requeue jid delay)) (\<lambda>_.
        bindw (exec (put_off jid (now + delay))) (\<lambda>_.
        returnw ((label_result_of 0 None)\<lparr>lr_deferred := True\<rparr>)))))"

definition forward_caught :: "bool \<Rightarrow> job_row \<Rightarrow> worker_error \<Rightarrow> label_action_result wm" where
  "forward_caught hooked j e =
     (case e of
        CustomAutopilotBlocked code \<Rightarrow>
          bindw (exec (update_job (jo_id j) (fail_job code))) (\<lambda>_. returnw (label_result_of 0 None))
      | CustomAutopilotQuiet ms \<Rightarrow> deferQuiet hooked (jo_id j) ms
      | _ \<Rightarrow> throww e)"

definition run_action :: "host \<Rightarrow> bool \<Rightarrow> label_job_data \<Rightarrow> job_row \<Rightarrow> label_action_result wm" where
  "run_action h hooked p j =
     (if jo_mailbox j \<noteq> lj_mailbox p then throww ValidationError
      else if jo_status j = JobDone then returnw (replayed j)
      else if jo_status j = JobFailed \<and> jo_direction j = Forward \<and> jo_error j \<noteq> Some enqueue_failed_code
      then returnw (ignored_failure j)
      else case labelChangeForVerb (jo_verb j) of
             None \<Rightarrow> throww ValidationError
           | Some change \<Rightarrow>
               if jo_direction j = Reverse then executeReverse (reverseChange change) j
               else catchw (executeForward h (lj_confirmed p) (forwardChange change) j) (forward_caught hooked j))"

definition execute :: "host \<Rightarrow> bool \<Rightarrow> label_job_data \<Rightarrow> label_action_result wm" where
  \<comment> \<open>\<open>hooked\<close>: the worker was given a quiet-resume queue\<close>
  "execute h hooked p =
     bindw (query (\<lambda>d. List.find (\<lambda>j. jo_id j = lj_action p) (jobs d))) (\<lambda>job.
       case job of None \<Rightarrow> throww ValidationError | Some j \<Rightarrow> run_action h hooked p j)"

definition processLabelJob :: "host \<Rightarrow> bool \<Rightarrow> label_job_data \<Rightarrow> label_action_result wm" where
  "processLabelJob h hooked p = locked (execute h hooked p)"

fun error_name :: "worker_error \<Rightarrow> string" where
  "error_name ValidationError = ''ValidationError''"
| "error_name PermanentError = ''PermanentError''"
| "error_name InvalidGrantError = ''InvalidGrantError''"
| "error_name AuthExpiredError = ''AuthExpiredError''"
| "error_name RateLimitError = ''RateLimitError''"
| "error_name TransientError = ''TransientError''"
| "error_name SenderProtectedAtSend = ''SenderProtectedAtSend''"
| "error_name ClaimRetired = ''ClaimRetired''"
| "error_name _ = ''Error''"

definition onTerminalFailure :: "label_job_data \<Rightarrow> worker_error \<Rightarrow> unit wm" where
  \<comment> \<open>a write that fails is only logged\<close>
  "onTerminalFailure p e =
     catchw (exec (\<lambda>d. d\<lparr>jobs := update_where (\<lambda>x. jo_id x = lj_action p \<and> jo_mailbox x = lj_mailbox p)
               (\<lambda>x. x\<lparr>jo_status := JobFailed, jo_error := Some (error_name e),
                       jo_quota := settledQuotaUnits 0 (jo_quota x)\<rparr>) (jobs d)\<rparr>))
       (\<lambda>_. returnw ())"

subsection \<open>The enqueuing request\<close>

text \<open>
  The API writes the row, then adds it to the queue. An add that throws may still have landed
  (\<^verbatim>\<open>enqueueJob\<close> in \<^verbatim>\<open>apps/api/src/actions/actions.service.ts\<close>).
\<close>

definition enqueue_failed :: "job_row \<Rightarrow> job_row" where
  "enqueue_failed j = j\<lparr>jo_status := JobFailed, jo_error := Some enqueue_failed_code, jo_quota := 0\<rparr>"

definition markEnqueueFailed :: "ident \<Rightarrow> ident \<Rightarrow> db \<Rightarrow> db" where
  \<comment> \<open>only a job still queued\<close>
  "markEnqueueFailed jid mb d =
     d\<lparr>jobs := update_where (\<lambda>j. jo_id j = jid \<and> jo_mailbox j = mb \<and> jo_status j = Queued) enqueue_failed (jobs d)\<rparr>"

end
