(* ===== verification/Label_Safety.thy ===== *)
theory Label_Safety
  imports Worker_Holds Label_Action
begin

text \<open>
  What the worker of \<open>Label_Action\<close> promises however it runs: among other writers, with any
  statement failing or its process dying, and whatever the mail provider answers. It touches
  no Protected mail the user did not confirm, and what it moved is never taken for untouched.
\<close>

subsection \<open>Bodies of the label worker\<close>

lemma holds_requeue: "lets_ports F \<Longrightarrow> holds N F I (port_call (requeue jid delay))"
  unfolding holds_def by (rule spec_port) (simp_all add: requeue_def lets_ports_def)

lemmas label_leaf = holds_leaf holds_requeue

lemma holds_start: "stable N I \<Longrightarrow> holds N any_error I (customStartPredicate h j)"
  unfolding customStartPredicate_def
  by (intro holds_split holds_bind label_leaf holds_query lets_portsI any_errorI)

lemma storedDeleteUndo_error: "storedDeleteUndo du ids = Inl e \<Longrightarrow> e = ValidationError"
  by (auto simp: storedDeleteUndo_def split: option.splits if_splits)

lemma holds_prepare: "stable N I \<Longrightarrow> lets_ports F \<Longrightarrow> holds N F I (prepareDeleteUndo j ids)"
  unfolding prepareDeleteUndo_def
  by (intro holds_split holds_bind label_leaf holds_query)
    (auto dest: storedDeleteUndo_error simp: lets_ports_def)

subsection \<open>Only what is not Protected leaves\<close>

definition clean :: assertion where
  "clean d l \<longleftrightarrow> (\<forall>g \<in> set l. \<not> gr_protected g)"

definition any_step :: "db \<Rightarrow> db \<Rightarrow> bool" where
  "any_step d d' \<longleftrightarrow> True"

lemma stable_clean [simp]: "stable N clean"
  by (simp add: stable_def clean_def)

abbreviation holds_clean :: "'a wm \<Rightarrow> bool" where
  "holds_clean m \<equiv> holds any_step any_error clean m"

lemma holds_clean_stmt: "holds_clean (stmt f)"
  by (rule holds_stmt) (auto simp: clean_def)

lemma holds_clean_query: "holds_clean (query f)"
  by (simp add: holds_query)

lemma holds_clean_exec: "holds_clean (exec f)"
  by (rule holds_exec) (simp_all add: clean_def)

lemmas holds_clean_leaf = label_leaf holds_clean_stmt holds_clean_query holds_clean_exec

lemmas clean_start = holds_start [where N = any_step and I = clean, OF stable_clean]

lemmas clean_prepare = holds_prepare [where N = any_step and I = clean, OF stable_clean]

lemma mark_label_shields:
  "mark_label_stmt j s start du d = Inr (True, d') \<Longrightarrow> \<not> subject_shields (jo_mailbox j) s d'"
  using subject_shields_cong [of d' d]
  by (auto simp: mark_label_stmt_def Let_def list_ex_iff)

definition unshielded :: "job_row \<Rightarrow> protection_subject option \<Rightarrow> assertion" where
  "unshielded j s d l \<longleftrightarrow> clean d l \<and> \<not> subject_shields (jo_mailbox j) s d"

lemma clean_mark:
  "spec any_step clean clean (markExecuting h j s start ids) (\<lambda>_. unshielded j s) (\<lambda>_. clean)"
  unfolding markExecuting_def
proof (intro spec_bind)
  show "spec any_step clean clean
      (case ids of None \<Rightarrow> returnw None
       | Some xs \<Rightarrow> if jo_verb j = VDelete then bindw (prepareDeleteUndo j xs) (\<lambda>u. returnw (Some u)) else returnw None)
      (\<lambda>_. clean) (\<lambda>_. clean)"
    by (rule holdsD) (auto intro!: holds_bind holds_clean_leaf clean_prepare split: option.split)
next
  fix du
  show "spec any_step clean clean (stmt (mark_label_stmt j s start du))
      (\<lambda>b. if b then unshielded j s else clean) (\<lambda>_. clean)"
    by (rule spec_stmt) (auto simp: unshielded_def clean_def dest: mark_label_shields)
next
  fix du b
  show "spec any_step clean (if b then unshielded j s else clean)
      (if b then returnw (case du of None \<Rightarrow> jo_delete_undo j | Some u \<Rightarrow> Some u)
       else bindw (query (\<lambda>d. list_ex (\<lambda>x. jo_id x = jo_id j) (jobs d))) (\<lambda>still.
         if still \<and> \<not> Option.is_none start
         then bindw (case s of None \<Rightarrow> returnw False | Some x \<Rightarrow> query (protectedSubject (jo_mailbox j) x)) (\<lambda>p.
                if p then throww SenderProtectedAtSend
                else bindw (customStartPredicate h j) (\<lambda>_. throww TransientError))
         else if still \<and> s \<noteq> None then throww SenderProtectedAtSend
         else throww ValidationError))
      (\<lambda>_. unshielded j s) (\<lambda>_. clean)"
  proof (cases b)
    case True
    then show ?thesis by (simp add: spec_return)
  next
    case False
    have ask: "spec any_step clean clean
        (case s of None \<Rightarrow> returnw False | Some x \<Rightarrow> query (protectedSubject (jo_mailbox j) x))
        (\<lambda>_. clean) (\<lambda>_. clean)"
      by (rule holdsD) (simp add: holds_clean_leaf split: option.split)
    from False show ?thesis
      by (simp only: if_False)
        (intro spec_bind [OF holdsD [OF holds_clean_query]] spec_if spec_bind [OF ask]
          holds_never [OF clean_start] spec_throw; assumption)
  qed
qed

definition careful :: "label_ctx \<Rightarrow> bool" where
  "careful c \<longleftrightarrow> la_subject c = protectionSubject (la_job c) False"

lemma careful_prot: "careful c \<Longrightarrow> label_prot c d = subject_shields (jo_mailbox (la_job c)) (la_subject c) d"
  by (simp add: careful_def label_prot_def)

lemma clean_first_hook:
  "spec any_step clean clean (first_hook c) (\<lambda>_. unshielded (la_job c) (la_subject c)) (\<lambda>_. clean)"
  unfolding first_hook_def eligible_ids_def
  by (intro spec_bind [OF holdsD] clean_mark)
    (auto intro!: holds_bind clean_start holds_clean_leaf)

lemma clean_assert:
  "spec any_step clean clean (bindw (assertNotProtected (jo_mailbox j) s) (\<lambda>_. returnw du))
     (\<lambda>_. unshielded j s) (\<lambda>_. clean)"
proof -
  have "spec any_step clean clean (assertNotProtected (jo_mailbox j) s) (\<lambda>_. unshielded j s) (\<lambda>_. clean)"
  proof (cases s)
    case None
    then show ?thesis
      by (auto intro!: spec_return simp: assertNotProtected_def unshielded_def subject_shields_def)
  next
    case (Some x)
    have "spec any_step clean clean (query (protectedSubject (jo_mailbox j) x))
        (\<lambda>p. if p then clean else unshielded j s) (\<lambda>_. clean)"
      by (rule spec_query) (auto simp: Some unshielded_def subject_shields_def)
    then show ?thesis
      unfolding assertNotProtected_def Some
      by (simp only: option.case) (erule spec_bind, auto intro: spec_throw spec_return)
  qed
  then show ?thesis by (rule spec_bind) (rule spec_return, assumption)
qed

lemma clean_entry: "careful c \<Longrightarrow> unshielded (la_job c) (la_subject c) d l \<Longrightarrow>
    clean d (l @ [request_entry jid (label_prot c) ids ch d b])"
  by (auto simp: unshielded_def clean_def request_entry_def careful_prot)

lemma clean_chunk:
  assumes "careful c"
  shows "holds_clean (label_chunk c first ids du)"
proof -
  have skip: "holds_clean (recordHookSkipped c)"
    unfolding recordHookSkipped_def Let_def
    by (auto intro!: holds_bind holds_clean_leaf
        intro: spec_weaken [OF clean_mark] simp: holds_def [of _ _ _ "markExecuting _ _ _ _ _"] unshielded_def)
  have "holds_clean (batchModify (jo_id (la_job c)) (label_prot c) ids (la_change c)
             (if first then first_hook c
              else bindw (assertNotProtected (jo_mailbox (la_job c)) (la_subject c)) (\<lambda>_. returnw du)))"
    by (rule holdsI, rule spec_batch [where H = "\<lambda>_. unshielded (la_job c) (la_subject c)"], rule spec_if)
      (use assms in \<open>auto intro: clean_first_hook clean_assert clean_entry\<close>)
  with skip show ?thesis
    unfolding label_chunk_def by (auto intro!: holds_bind holds_clean_leaf split: option.split)
qed

lemma clean_landed: "holds_clean (label_landed c)"
  unfolding label_landed_def Let_def by (auto intro!: holds_bind holds_clean_leaf split: option.split)

lemma clean_chunks: "careful c \<Longrightarrow> holds_clean (label_chunks c cs n du)"
proof (induction cs arbitrary: n du)
  case (Cons ids cs)
  show ?case
    unfolding label_chunks.simps
    by (auto intro!: holds_bind holds_try holds_clean_leaf clean_chunk [OF Cons.prems] clean_landed
        Cons.IH [OF Cons.prems] split: sum.split)
qed (simp add: holds_return)

lemma clean_stop: "holds_clean (stopProtected j n)"
  unfolding stopProtected_def recordProtected_def recordRecoveryProtected_def
  by (auto intro!: holds_bind holds_clean_leaf)

lemma clean_send: "careful c \<Longrightarrow> holds_clean (send_label c)"
  unfolding send_label_def label_send_failed_def
  by (auto intro!: holds_bind holds_clean_leaf holds_expiry clean_chunks clean_stop split: send_end.split)

lemma clean_forward:
  assumes "\<not> confirmed"
  shows "holds_clean (executeForward h confirmed ch j)"
proof -
  have run: "holds_clean (run_label h j ch (protectionSubject j False) starting ids)" for starting ids
    unfolding run_label_def
    by (auto intro!: holds_bind holds_clean_leaf clean_send simp: careful_def)
  have subject: "protectionSubject j (if b then False else confirmed) = protectionSubject j False" for b
    using assms by simp
  have ids: "holds_clean (forward_ids j custom starting)" for custom starting
    unfolding forward_ids_def store_ids_def eligible_ids_def
    by (intro holds_split holds_bind holds_clean_leaf lets_portsI any_errorI)
  show ?thesis
    unfolding executeForward_def Let_def subject
    by (intro holds_split holds_bind holds_clean_leaf lets_portsI any_errorI clean_stop clean_start run ids)
qed

lemma clean_reverse: "holds_clean (executeReverse ch j)"
proof -
  have send: "holds_clean (send_group jid g)" for jid g
    unfolding send_group_def
    by (intro holds_foreach holds_bind holds_return, rule holdsI,
        rule spec_batch [where H = "\<lambda>_. clean"])
      (auto intro: spec_return simp: clean_def request_entry_def)
  show ?thesis
    unfolding executeReverse_def reverse_groups_def resolve_groups_def Let_def
    by (auto intro!: holds_bind holds_foreach holds_clean_leaf send split: option.split)
qed

lemma clean_caught: "holds_clean (forward_caught hooked j e)"
  unfolding forward_caught_def deferQuiet_def Let_def
  by (auto intro!: holds_bind holds_clean_leaf split: worker_error.split)

lemma clean_process: "\<not> lj_confirmed p \<Longrightarrow> holds_clean (processLabelJob h hooked p)"
  unfolding processLabelJob_def locked_def execute_def run_action_def
  by (auto intro!: holds_bind holds_catch holds_clean_leaf clean_forward clean_reverse clean_caught
      split: option.split)


subsection \<open>The action's own row\<close>

definition own :: "ident \<Rightarrow> db \<Rightarrow> job_row list" where
  "own jid d = filter (\<lambda>j. jo_id j = jid) (jobs d)"

definition action_facts :: "db \<Rightarrow> (ident option \<times> ident option \<times> nat) set" where
  "action_facts d = (\<lambda>a. (ac_undo a, ac_job a, ac_affected a)) ` set (activity d)"

definition label_recorded :: "db \<Rightarrow> job_row \<Rightarrow> bool" where
  "label_recorded d j \<longleftrightarrow>
     (\<exists>t. jo_undo j = Some t \<and> (t, jo_ids j) \<in> undo_facts d) \<and>
     (jo_undo j, Some (jo_id j), length (jo_ids j)) \<in> action_facts d"

definition label_accounts :: "db \<Rightarrow> job_row \<Rightarrow> bool" where
  "label_accounts d j \<longleftrightarrow> \<not> neverReachedGmail j \<and> (jo_status j = JobDone \<longrightarrow> label_recorded d j)"

definition untouched :: "ident \<Rightarrow> gmail_request list \<Rightarrow> bool" where
  "untouched jid l \<longleftrightarrow> (\<forall>g \<in> set l. gr_job g = jid \<longrightarrow> \<not> gr_applied g)"

definition landed_in :: "job_row \<Rightarrow> db \<Rightarrow> gmail_request list \<Rightarrow> bool" where
  "landed_in x d l \<longleftrightarrow>
     (\<forall>g \<in> set l. gr_job g = jo_id x \<longrightarrow> gr_applied g \<longrightarrow>
        gr_ids g \<noteq> [] \<and> set (gr_ids g) \<subseteq> set (jo_ids x) \<and> label_accounts d x)"

definition row_is :: "ident \<Rightarrow> (job_row \<Rightarrow> bool) \<Rightarrow> assertion" where
  "row_is jid P d l \<longleftrightarrow>
     (\<exists>x. own jid d = [x] \<and> jo_direction x = Forward \<and> P x \<and> landed_in x d l)"

abbreviation label_safe :: "ident \<Rightarrow> assertion" where
  "label_safe jid \<equiv> row_is jid (\<lambda>_. True)"

text \<open>
  The other writers: they add undo and Activity rows and leave the row of the action alone,
  but for the request that enqueued it, which may still be marking it failed when the
  worker already runs (\<open>enqueueJob\<close>).
\<close>

definition leaves_action :: "ident \<Rightarrow> db \<Rightarrow> db \<Rightarrow> bool" where
  "leaves_action jid d d' \<longleftrightarrow>
     (own jid d' = own jid d \<or> own jid d' = own jid (markEnqueueFailed jid (jo_mailbox (hd (own jid d))) d)) \<and>
     undo_facts d \<subseteq> undo_facts d' \<and> action_facts d \<subseteq> action_facts d'"

lemma own_id: "own jid d = [x] \<Longrightarrow> jo_id x = jid"
proof -
  assume "own jid d = [x]"
  then have "x \<in> set (own jid d)" by simp
  then show ?thesis by (simp add: own_def)
qed

lemma own_update:
  assumes "jobs d' = update_where p f (jobs d)" "own jid d = [x]" "\<And>j. jo_id (f j) = jo_id j"
  shows "own jid d' = [if p x then f x else x]"
proof -
  have "filter (\<lambda>j. jo_id j = jid) (update_where p f xs) = update_where p f (filter (\<lambda>j. jo_id j = jid) xs)" for xs
    by (induction xs) (auto simp: assms(3))
  with assms(1,2) show ?thesis by (simp add: own_def)
qed

lemma own_update_job:
  "own jid d = [x] \<Longrightarrow> (\<And>j. jo_id (f j) = jo_id j) \<Longrightarrow> own jid (update_job jid f d) = [f x]"
  using own_update [of "update_job jid f d" "\<lambda>j. jo_id j = jid" f d jid x] own_id [of jid d x]
  by (simp add: update_job_def)

lemma own_cong: "jobs d' = jobs d \<Longrightarrow> own jid d' = own jid d"
  by (simp add: own_def)

lemma label_recorded_mono:
  "undo_facts d \<subseteq> undo_facts d' \<Longrightarrow> action_facts d \<subseteq> action_facts d' \<Longrightarrow> label_recorded d j \<Longrightarrow> label_recorded d' j"
  unfolding label_recorded_def by blast

lemma landed_untouched: "untouched (jo_id x) l \<Longrightarrow> landed_in x d l"
  by (auto simp: landed_in_def untouched_def)

lemma untouched_if_never: "landed_in x d l \<Longrightarrow> neverReachedGmail x \<Longrightarrow> untouched (jo_id x) l"
  by (auto simp: landed_in_def untouched_def label_accounts_def)

lemma untouched_if_empty: "landed_in x d l \<Longrightarrow> jo_ids x = [] \<Longrightarrow> untouched (jo_id x) l"
  by (auto simp: landed_in_def untouched_def)

lemma landed_step:
  assumes "landed_in x d l" "jo_id y = jo_id x" "set (jo_ids x) \<subseteq> set (jo_ids y)" "label_accounts d' y"
  shows "landed_in y d' l"
  using assms unfolding landed_in_def by auto

lemma landed_mono:
  assumes "landed_in x d l" "undo_facts d \<subseteq> undo_facts d'" "action_facts d \<subseteq> action_facts d'"
  shows "landed_in x d' l"
  using assms(1) label_recorded_mono [OF assms(2,3)] unfolding landed_in_def label_accounts_def by auto

text \<open>A statement that rewrites the row.\<close>

lemma row_step:
  assumes "row_is jid P d l" "\<And>x. own jid d = [x] \<Longrightarrow> own jid d' = [f x]"
    and "\<And>x. jo_id (f x) = jo_id x \<and> jo_direction (f x) = jo_direction x"
    and "\<And>x. own jid d = [x] \<Longrightarrow> P x \<Longrightarrow> landed_in x d l \<Longrightarrow> Q (f x) \<and> landed_in (f x) d' l"
  shows "row_is jid Q d' l"
proof -
  obtain x where x: "own jid d = [x]" "jo_direction x = Forward" "P x" "landed_in x d l"
    using assms(1) unfolding row_is_def by blast
  then show ?thesis
    unfolding row_is_def using assms(2,4) [OF x(1)] assms(3) by (intro exI [of _ "f x"]) auto
qed

lemma row_frame:
  assumes "row_is jid P d l" "own jid d' = own jid d" "undo_facts d \<subseteq> undo_facts d'" "action_facts d \<subseteq> action_facts d'"
  shows "row_is jid P d' l"
  by (rule row_step [OF assms(1), where f = id]) (use assms(2-4) landed_mono in auto)

lemma row_weaken: "row_is jid P d l \<Longrightarrow> (\<And>x. P x \<Longrightarrow> Q x) \<Longrightarrow> row_is jid Q d l"
  unfolding row_is_def by blast

lemma row_safe: "row_is jid P d l \<Longrightarrow> label_safe jid d l"
  by (erule row_weaken) simp

lemma enqueue_failed_never [simp]: "neverReachedGmail (enqueue_failed j)"
  by (simp add: enqueue_failed_def neverReachedGmail_def)

lemma stable_row:
  assumes "\<And>x. P x \<Longrightarrow> jo_status x = Queued \<Longrightarrow> P (enqueue_failed x)"
  shows "stable (leaves_action jid) (row_is jid P)"
  unfolding stable_def
proof (intro allI impI)
  fix d d' l assume N: "leaves_action jid d d'" and r: "row_is jid P d l"
  note facts = conjunct2 [OF N [unfolded leaves_action_def]]
  obtain x where x: "own jid d = [x]" "jo_direction x = Forward" "P x" "landed_in x d l"
    using r unfolding row_is_def by blast
  let ?p = "\<lambda>j. jo_id j = jid \<and> jo_mailbox j = jo_mailbox x \<and> jo_status j = Queued"
  have "own jid (markEnqueueFailed jid (jo_mailbox x) d) = [if ?p x then enqueue_failed x else x]"
    by (rule own_update [where p = ?p and f = enqueue_failed, OF _ x(1)])
      (simp_all add: markEnqueueFailed_def enqueue_failed_def)
  with N x(1) consider "own jid d' = own jid d" | "own jid d' = [enqueue_failed x]" "jo_status x = Queued"
    unfolding leaves_action_def by (auto split: if_splits)
  then show "row_is jid P d' l"
  proof cases
    case 1
    with row_frame [OF r] facts show ?thesis by simp
  next
    case 2
    from 2(2) have "untouched (jo_id x) l" using untouched_if_never [OF x(4)] by (simp add: neverReachedGmail_def)
    then have "landed_in (enqueue_failed x) d' l" by (intro landed_untouched) (simp add: enqueue_failed_def)
    with 2 x(2) assms [OF x(3)] show ?thesis
      unfolding row_is_def by (intro exI [of _ "enqueue_failed x"]) (simp add: enqueue_failed_def)
  qed
qed

subsection \<open>Where a delivery stands\<close>

definition before :: "ident \<Rightarrow> ident list \<Rightarrow> bool \<Rightarrow> assertion" where
  \<comment> \<open>nothing of this delivery has left; \<open>fresh\<close>: nothing of an earlier one either\<close>
  "before jid ids fresh =
     row_is jid (\<lambda>x. jo_ids x = ids \<and> jo_status x \<noteq> JobDone \<and> neverReachedGmail x = fresh)"

definition underway :: "ident \<Rightarrow> ident list \<Rightarrow> assertion" where
  "underway jid ids = row_is jid (\<lambda>x. jo_ids x = ids \<and> jo_status x = Executing)"

definition left_by :: "ident \<Rightarrow> bool \<Rightarrow> worker_error \<Rightarrow> assertion" where
  "left_by jid fresh e d l \<longleftrightarrow>
     label_safe jid d l \<and> (\<not> port_error e \<or> (fresh \<and> e \<noteq> TransientError) \<longrightarrow> untouched jid l)"

lemma stable_before [simp]: "stable (leaves_action jid) (before jid ids fresh)"
  unfolding before_def
  by (rule stable_row) (auto simp: enqueue_failed_def neverReachedGmail_def)

lemma stable_underway [simp]: "stable (leaves_action jid) (underway jid ids)"
  unfolding underway_def by (rule stable_row) simp

lemma stable_label_safe [simp]: "stable (leaves_action jid) (label_safe jid)"
  by (rule stable_row) simp

lemma stable_with: "stable N A \<Longrightarrow> stable N (\<lambda>d l. A d l \<and> P l)"
  unfolding stable_def by blast

lemma before_safe: "before jid ids fresh d l \<Longrightarrow> label_safe jid d l"
  unfolding before_def by (rule row_safe)

lemma underway_safe: "underway jid ids d l \<Longrightarrow> label_safe jid d l"
  unfolding underway_def by (rule row_safe)

lemma before_untouched:
  assumes "before jid ids fresh d l" "fresh \<or> ids = []"
  shows "untouched jid l"
proof -
  obtain x where x: "own jid d = [x]" "jo_ids x = ids" "neverReachedGmail x = fresh" "landed_in x d l"
    using assms(1) unfolding before_def row_is_def by blast
  with assms(2) untouched_if_never [OF x(4)] untouched_if_empty [OF x(4)] own_id [OF x(1)] show ?thesis by auto
qed

lemma before_left:
  assumes "before jid ids fresh d l" "fresh' \<longrightarrow> fresh" "fresh \<or> port_error e"
  shows "left_by jid fresh' e d l"
  using assms before_safe before_untouched unfolding left_by_def by blast

lemma underway_left: "underway jid ids d l \<Longrightarrow> port_error e \<Longrightarrow> left_by jid False e d l"
  unfolding left_by_def using underway_safe by blast

lemma safe_left: "label_safe jid d l \<Longrightarrow> left_by jid fresh TransientError d l"
  by (simp add: left_by_def)

text \<open>How to enter the rules of \<open>spec\<close> from a body that keeps the assertion.\<close>

lemma holds_before:
  assumes "holds (leaves_action jid) F (before jid ids fresh) m"
    and "fresh' \<longrightarrow> fresh" "\<And>e. F e \<Longrightarrow> fresh \<or> port_error e"
  shows "spec (leaves_action jid) (label_safe jid) (before jid ids fresh) m (\<lambda>_. before jid ids fresh) (left_by jid fresh')"
proof (rule specI)
  fix w assume w: "script_ok (leaves_action jid) w" "before jid ids fresh (wdb w) (requests w)"
  have "ends (leaves_action jid) (before jid ids fresh) (\<lambda>_. before jid ids fresh)
      (\<lambda>e d l. F e \<and> before jid ids fresh d l) (m w)"
    using specD [OF assms(1) [unfolded holds_def] w] .
  then show "ends (leaves_action jid) (label_safe jid) (\<lambda>_. before jid ids fresh) (left_by jid fresh') (m w)"
    using before_left [OF _ assms(2)] assms(3) before_safe by (cases "m w"; cases "fst (m w)") auto
qed

lemma holds_underway:
  assumes "holds (leaves_action jid) port_error (underway jid ids) m"
  shows "spec (leaves_action jid) (label_safe jid) (underway jid ids) m (\<lambda>_. underway jid ids) (left_by jid False)"
proof (rule specI)
  fix w assume w: "script_ok (leaves_action jid) w" "underway jid ids (wdb w) (requests w)"
  have "ends (leaves_action jid) (underway jid ids) (\<lambda>_. underway jid ids)
      (\<lambda>e d l. port_error e \<and> underway jid ids d l) (m w)"
    using specD [OF assms(1) [unfolded holds_def] w] .
  then show "ends (leaves_action jid) (label_safe jid) (\<lambda>_. underway jid ids) (left_by jid False) (m w)"
    using underway_left underway_safe by (cases "m w"; cases "fst (m w)") auto
qed

lemma spec_never: "spec N J (\<lambda>_ _. False) m Q E"
  by (simp add: spec_def)

subsection \<open>The mark\<close>

definition marked_row :: "delete_undo option \<Rightarrow> job_row \<Rightarrow> job_row" where
  "marked_row du x = (case du of None \<Rightarrow> x | Some u \<Rightarrow> x\<lparr>jo_delete_undo := Some u\<rparr>)\<lparr>jo_status := Executing\<rparr>"

lemma marked_row_fields [simp]:
  "jo_id (marked_row du x) = jo_id x" "jo_ids (marked_row du x) = jo_ids x"
  "jo_direction (marked_row du x) = jo_direction x" "jo_status (marked_row du x) = Executing"
  by (cases du; simp add: marked_row_def)+

definition label_markable :: "job_row \<Rightarrow> protection_subject option \<Rightarrow> start_predicate option \<Rightarrow> db \<Rightarrow> job_row \<Rightarrow> bool" where
  "label_markable j s start d x \<longleftrightarrow>
     jo_id x = jo_id j \<and> \<not> subject_shields (jo_mailbox j) s d \<and> (case start of None \<Rightarrow> True | Some f \<Rightarrow> f d x)"

lemma mark_label_stmt_eq:
  "mark_label_stmt j s start du d =
     Inr (list_ex (label_markable j s start d) (jobs d),
          d\<lparr>jobs := update_where (label_markable j s start d) (marked_row du) (jobs d)\<rparr>)"
  by (simp add: mark_label_stmt_def Let_def label_markable_def [abs_def] marked_row_def [abs_def])

lemma executing_accounts: "jo_status x = Executing \<Longrightarrow> label_accounts d x"
  by (simp add: label_accounts_def neverReachedGmail_def)

lemma mark_label_marked:
  assumes "before (jo_id j) ids fresh d l" "mark_label_stmt j s start du d = Inr (True, d')"
  shows "underway (jo_id j) ids d' l"
proof -
  let ?p = "label_markable j s start d"
  have d': "d' = d\<lparr>jobs := update_where ?p (marked_row du) (jobs d)\<rparr>" and ex: "list_ex ?p (jobs d)"
    using assms(2) by (simp_all add: mark_label_stmt_eq)
  have step: "own (jo_id j) d' = [marked_row du x]" if x: "own (jo_id j) d = [x]" for x
  proof -
    obtain y where "y \<in> set (jobs d)" "?p y" using ex by (auto simp: list_ex_iff)
    moreover from this have "y \<in> set (own (jo_id j) d)" by (simp add: own_def label_markable_def)
    ultimately have "?p x" using x by simp
    then show ?thesis using own_update [OF _ x, of d' ?p "marked_row du"] by (simp add: d')
  qed
  have facts: "undo_facts d' = undo_facts d" "action_facts d' = action_facts d"
    by (simp_all add: d' undo_facts_def action_facts_def)
  show ?thesis
    unfolding underway_def
  proof (rule row_step [OF assms(1) [unfolded before_def] step])
    fix x assume "jo_ids x = ids \<and> jo_status x \<noteq> JobDone \<and> neverReachedGmail x = fresh" "landed_in x d l"
    then show "(jo_ids (marked_row du x) = ids \<and> jo_status (marked_row du x) = Executing) \<and>
        landed_in (marked_row du x) d' l"
      using landed_step [of x d l "marked_row du x" d'] by (simp add: executing_accounts)
  qed simp_all
qed

lemma mark_label_unmarked: "mark_label_stmt j s start du d = Inr (False, d') \<Longrightarrow> d' = d"
  using update_where_id [of "jobs d" "label_markable j s start d" "marked_row du"]
  by (auto simp: mark_label_stmt_eq list_ex_iff)

definition marked :: "ident \<Rightarrow> ident list \<Rightarrow> bool \<Rightarrow> assertion" where
  "marked jid ids fresh d l \<longleftrightarrow> underway jid ids d l \<and> (fresh \<longrightarrow> untouched jid l)"

lemma marked_stale: "marked jid ids False = underway jid ids"
  by (simp add: fun_eq_iff marked_def)

lemma strand_mark:
  assumes "start \<noteq> None \<Longrightarrow> fresh"
  shows "spec (leaves_action (jo_id j)) (label_safe (jo_id j)) (before (jo_id j) ids fresh)
           (markExecuting h j s start is) (\<lambda>_. marked (jo_id j) ids fresh) (left_by (jo_id j) fresh)"
  (is "spec ?N ?J ?B _ (\<lambda>_. ?M) ?E")
  unfolding markExecuting_def
proof (intro spec_bind)
  show "spec ?N ?J ?B
      (case is of None \<Rightarrow> returnw None
       | Some xs \<Rightarrow> if jo_verb j = VDelete then bindw (prepareDeleteUndo j xs) (\<lambda>u. returnw (Some u)) else returnw None)
      (\<lambda>_. ?B) ?E"
    by (rule holds_before [where F = port_error])
      (intro holds_split holds_bind label_leaf holds_prepare stable_before lets_portsI, simp_all)
next
  fix du
  show "spec ?N ?J ?B (stmt (mark_label_stmt j s start du)) (\<lambda>b. if b then ?M else ?B) ?E"
  proof (rule spec_stmt [OF stable_before])
    fix d l b d' assume b: "?B d l" and m: "mark_label_stmt j s start du d = Inr (b, d')"
    have un: "fresh \<longrightarrow> untouched (jo_id j) l" using before_untouched [OF b] by blast
    show "(if b then ?M else ?B) d' l \<and> ?J d' l \<and> ?E TransientError d' l"
    proof (cases b)
      case True
      with mark_label_marked [OF b] m have u: "underway (jo_id j) ids d' l" by simp
      with un True show ?thesis by (simp add: marked_def underway_safe safe_left)
    next
      case False
      with mark_label_unmarked [of j s start du d d'] m b before_safe [OF b] show ?thesis by (simp add: safe_left)
    qed
  qed (auto simp: mark_label_stmt_eq before_safe safe_left)
next
  fix du b
  show "spec ?N ?J (if b then ?M else ?B)
      (if b then returnw (case du of None \<Rightarrow> jo_delete_undo j | Some u \<Rightarrow> Some u)
       else bindw (query (\<lambda>d. list_ex (\<lambda>x. jo_id x = jo_id j) (jobs d))) (\<lambda>still.
         if still \<and> \<not> Option.is_none start
         then bindw (case s of None \<Rightarrow> returnw False | Some x \<Rightarrow> query (protectedSubject (jo_mailbox j) x)) (\<lambda>p.
                if p then throww SenderProtectedAtSend
                else bindw (customStartPredicate h j) (\<lambda>_. throww TransientError))
         else if still \<and> s \<noteq> None then throww SenderProtectedAtSend
         else throww ValidationError))
      (\<lambda>_. ?M) ?E"
  proof (cases b)
    case True
    then show ?thesis by (simp add: spec_return)
  next
    case False
    have q: "spec ?N ?J ?B (query f) (\<lambda>_. ?B) ?E" for f
      by (rule holds_before [where F = port_error]) (auto intro: holds_query)
    have t: "spec ?N ?J ?B (throww e) (\<lambda>_. ?M) ?E" if "port_error e" for e
      by (rule spec_throw) (use that before_left in blast)
    have s: "spec ?N ?J ?B (customStartPredicate h j) (\<lambda>_. ?B) ?E" if "\<not> Option.is_none start"
      by (rule holds_before [where F = any_error]) (use that assms in \<open>auto intro: holds_start simp: Option.is_none_def\<close>)
    have a: "spec ?N ?J ?B (case s of None \<Rightarrow> returnw False | Some x \<Rightarrow> query (protectedSubject (jo_mailbox j) x)) (\<lambda>_. ?B) ?E"
      by (cases s) (simp_all add: q spec_return)
    have last: "spec ?N ?J ?B (bindw (customStartPredicate h j) (\<lambda>_. throww TransientError)) (\<lambda>_. ?M) ?E"
      if "\<not> Option.is_none start"
      by (rule spec_bind [OF s [OF that]]) (rule t, simp)
    from False show ?thesis
      by (simp only: if_False) (intro spec_bind [OF q] spec_if spec_bind [OF a] last t; simp)
  qed
qed

subsection \<open>Sending\<close>

definition ctx_good :: "label_ctx \<Rightarrow> bool \<Rightarrow> bool" where
  "ctx_good c fresh \<longleftrightarrow> la_ids c \<noteq> [] \<and> (la_starting c \<longrightarrow> fresh) \<and> neverReachedGmail (la_job c) = fresh"

lemma bindw_return: "bindw (returnw a) f = f a"
  by (simp add: fun_eq_iff bindw_def returnw_def)

lemma strand_first_hook:
  assumes "ctx_good c fresh"
  shows "spec (leaves_action (jo_id (la_job c))) (label_safe (jo_id (la_job c)))
           (before (jo_id (la_job c)) (la_ids c) fresh) (first_hook c)
           (\<lambda>_. marked (jo_id (la_job c)) (la_ids c) fresh) (left_by (jo_id (la_job c)) fresh)"
    (is "spec ?N ?J ?B _ ?Q ?E")
proof -
  have start: "la_starting c \<Longrightarrow> fresh" using assms by (simp add: ctx_good_def)
  have check: "spec ?N ?J ?B
      (if la_starting c
       then bindw (eligible_ids (la_job c) (la_ids c)) (\<lambda>now.
              if length now \<noteq> length (la_ids c) then throww TransientError else returnw ())
       else returnw ()) (\<lambda>_. ?B) ?E"
    unfolding eligible_ids_def
    by (rule holds_before [where F = port_error])
      (intro holds_split holds_bind label_leaf holds_query stable_before lets_portsI, simp_all)
  show ?thesis
  proof (cases "la_starting c")
    case True
    have a: "spec ?N ?J ?B (bindw (customStartPredicate (la_host c) (la_job c)) (\<lambda>f. returnw (Some f))) (\<lambda>_. ?B) ?E"
      by (rule holds_before [where F = any_error], intro holds_bind holds_start holds_return stable_before)
        (use start [OF True] in simp_all)
    have b: "spec ?N ?J ?B (markExecuting (la_host c) (la_job c) (la_subject c) s (Some (la_ids c))) ?Q ?E" for s
      by (rule strand_mark) (rule start [OF True])
    show ?thesis
      unfolding first_hook_def
      by (rule spec_bind [OF _ spec_bind [OF check]]) (simp only: True if_True a, rule b)
  next
    case False
    have "spec ?N ?J ?B (markExecuting (la_host c) (la_job c) (la_subject c) None (Some (la_ids c))) ?Q ?E"
      by (rule strand_mark) simp
    with False show ?thesis by (simp add: first_hook_def bindw_return)
  qed
qed

lemma landed_entry:
  assumes "landed_in x d l" "gr_ids g \<noteq> []" "set (gr_ids g) \<subseteq> set (jo_ids x)" "label_accounts d x"
  shows "landed_in x d (l @ [g])"
  using assms by (auto simp: landed_in_def)

lemma underway_request:
  assumes "underway jid ids d l" "part \<noteq> []" "set part \<subseteq> set ids"
  shows "underway jid ids d (l @ [request_entry jid prot part ch d0 b])"
  using assms landed_entry unfolding underway_def row_is_def
  by (fastforce simp: request_entry_def executing_accounts)

lemma untouched_request: "untouched jid l \<Longrightarrow> untouched jid (l @ [request_entry jid prot part ch d b]) \<longleftrightarrow> \<not> b"
  by (auto simp: untouched_def request_entry_def)

lemma port_error_transient [simp]: "port_error TransientError" "port_error SenderProtectedAtSend"
  by simp_all

lemma strand_batch:
  assumes hook: "spec (leaves_action jid) (label_safe jid) A hook (\<lambda>_. marked jid ids fresh) (left_by jid fresh)"
    and before: "\<And>e d l. port_error e \<Longrightarrow> A d l \<Longrightarrow> left_by jid fresh e d l"
    and part: "part \<noteq> []" "set part \<subseteq> set ids"
  shows "spec (leaves_action jid) (label_safe jid) A (batchModify jid prot part ch hook)
           (\<lambda>r. case r of None \<Rightarrow> (\<lambda>_ _. False) | Some _ \<Rightarrow> underway jid ids) (left_by jid fresh)"
proof (rule spec_batch [OF hook before])
  fix h e d l b assume m: "marked jid ids fresh d l"
  note u = underway_request [OF _ part, of jid d l prot ch d]
  have s: "label_safe jid d (l @ [request_entry jid prot part ch d b'])" for b'
    using m u underway_safe unfolding marked_def by blast
  show "(case Some h of None \<Rightarrow> (\<lambda>_ _. False) | Some _ \<Rightarrow> underway jid ids) d (l @ [request_entry jid prot part ch d True])"
    using m u by (simp add: marked_def)
  show "left_by jid fresh e d (l @ [request_entry jid prot part ch d False])" if "port_error e"
    using m s that by (auto simp: left_by_def marked_def untouched_request)
  show "left_by jid fresh TransientError d (l @ [request_entry jid prot part ch d b])"
    using s by (rule safe_left)
  show "label_safe jid d (l @ [request_entry jid prot part ch d b])"
    by (rule s)
qed

lemma strand_chunk:
  assumes "ctx_good c fresh" "part \<noteq> []" "set part \<subseteq> set (la_ids c)" "jid = jo_id (la_job c)"
  shows "spec (leaves_action jid) (label_safe jid)
           (if first then before jid (la_ids c) fresh else underway jid (la_ids c))
           (label_chunk c first part du) (\<lambda>_. underway jid (la_ids c)) (left_by jid (first \<and> fresh))"
proof -
  have assert: "holds (leaves_action jid) port_error (underway jid (la_ids c))
      (bindw (assertNotProtected (jo_mailbox (la_job c)) (la_subject c)) (\<lambda>_. returnw du))"
    unfolding assertNotProtected_def
    by (intro holds_split holds_bind label_leaf holds_query stable_underway lets_portsI, simp_all)
  have "spec (leaves_action jid) (label_safe jid)
      (if first then before jid (la_ids c) fresh else underway jid (la_ids c))
      (batchModify (jo_id (la_job c)) (label_prot c) part (la_change c)
         (if first then first_hook c
          else bindw (assertNotProtected (jo_mailbox (la_job c)) (la_subject c)) (\<lambda>_. returnw du)))
      (\<lambda>r. case r of None \<Rightarrow> (\<lambda>_ _. False) | Some _ \<Rightarrow> underway jid (la_ids c)) (left_by jid (first \<and> fresh))"
    unfolding assms(4) [symmetric]
  proof (rule strand_batch [OF _ _ assms(2,3)])
    show "spec (leaves_action jid) (label_safe jid)
        (if first then before jid (la_ids c) fresh else underway jid (la_ids c))
        (if first then first_hook c
         else bindw (assertNotProtected (jo_mailbox (la_job c)) (la_subject c)) (\<lambda>_. returnw du))
        (\<lambda>_. marked jid (la_ids c) (first \<and> fresh)) (left_by jid (first \<and> fresh))"
      using strand_first_hook [OF assms(1)] holds_underway [OF assert] assms(4)
      by (simp add: marked_stale)
  qed (auto intro: before_left underway_left split: if_splits)
  then show ?thesis
    unfolding label_chunk_def
  proof (rule spec_bind)
    fix ran
    show "spec (leaves_action jid) (label_safe jid)
        ((case ran of None \<Rightarrow> (\<lambda>_ _. False) | Some _ \<Rightarrow> underway jid (la_ids c)))
        (case ran of Some du' \<Rightarrow> returnw du' | None \<Rightarrow> if first then recordHookSkipped c else returnw du)
        (\<lambda>_. underway jid (la_ids c)) (left_by jid (first \<and> fresh))"
      by (cases ran) (auto intro: spec_return spec_never)
  qed
qed

lemma row_schedule: "row_is jid P d l \<Longrightarrow> row_is jid P (scheduleLaterReturn mb k wa t keep d) l"
  by (erule row_frame) (auto simp: scheduleLaterReturn_def own_def undo_facts_def action_facts_def)

lemma strand_landed:
  "spec (leaves_action jid) (label_safe jid) (underway jid ids) (label_landed c) (\<lambda>_. underway jid ids) (left_by jid False)"
  unfolding label_landed_def Let_def
  by (rule holds_underway, intro holds_split holds_bind label_leaf holds_exec stable_underway lets_portsI)
    (simp add: underway_def row_schedule)

fun sent_post :: "ident \<Rightarrow> ident list \<Rightarrow> bool \<Rightarrow> send_end \<Rightarrow> assertion" where
  "sent_post jid ids fresh (SentAll _) = underway jid ids"
| "sent_post jid ids fresh (SendLeft e n) = left_by jid (n = 0 \<and> fresh) e"

lemma left_by_strong: "left_by jid fresh e d l \<Longrightarrow> (b \<longrightarrow> fresh) \<Longrightarrow> left_by jid b e d l"
  by (auto simp: left_by_def)

lemma left_safe: "left_by jid fresh e d l \<Longrightarrow> label_safe jid d l"
  by (simp add: left_by_def)

lemma strand_chunks:
  assumes "ctx_good c fresh" "jid = jo_id (la_job c)" "\<And>part. part \<in> set cs \<Longrightarrow> part \<noteq> [] \<and> set part \<subseteq> set (la_ids c)"
    and "n = 0 \<Longrightarrow> cs \<noteq> []"
  shows "spec (leaves_action jid) (label_safe jid)
           (if n = 0 then before jid (la_ids c) fresh else underway jid (la_ids c))
           (label_chunks c cs n du) (sent_post jid (la_ids c) fresh) E"
  using assms(3,4)
proof (induction cs arbitrary: n du)
  case Nil
  then show ?case by (auto intro: spec_return)
next
  case (Cons part cs)
  note chunk = strand_chunk [OF assms(1) _ _ assms(2), of part "n = 0" du]
  have landed: "spec (leaves_action jid) (label_safe jid) (underway jid (la_ids c))
      (if n = 0 then tryw (label_landed c) else returnw (Inr ()))
      (\<lambda>r. case r of Inl e \<Rightarrow> left_by jid False e | Inr _ \<Rightarrow> underway jid (la_ids c)) E"
    by (auto intro!: spec_if spec_try [OF strand_landed] spec_return)
  show ?case
    unfolding label_chunks.simps
  proof (rule spec_bind [OF spec_try [OF chunk]])
    show "part \<noteq> []" "set part \<subseteq> set (la_ids c)" using Cons.prems(1) [of part] by simp_all
    fix r
    show "spec (leaves_action jid) (label_safe jid)
        ((case r of Inl e \<Rightarrow> left_by jid (n = 0 \<and> fresh) e | Inr _ \<Rightarrow> underway jid (la_ids c)))
        (case r of Inl e \<Rightarrow> returnw (SendLeft e n)
         | Inr du' \<Rightarrow>
             bindw (if n = 0 then tryw (label_landed c) else returnw (Inr ())) (\<lambda>r'.
               case r' of Inl e \<Rightarrow> returnw (SendLeft e (n + 1)) | Inr _ \<Rightarrow> label_chunks c cs (n + 1) du'))
        (sent_post jid (la_ids c) fresh) E"
    proof (cases r)
      case (Inl e)
      then show ?thesis by (auto intro: spec_return)
    next
      case (Inr du')
      have rest: "spec (leaves_action jid) (label_safe jid)
          ((case r' of Inl e \<Rightarrow> left_by jid False e | Inr _ \<Rightarrow> underway jid (la_ids c)))
          (case r' of Inl e \<Rightarrow> returnw (SendLeft e (n + 1)) | Inr _ \<Rightarrow> label_chunks c cs (n + 1) du')
          (sent_post jid (la_ids c) fresh) E" for r' :: "worker_error + unit"
        using Cons.IH [of "n + 1" du'] Cons.prems(1) by (cases r') (auto intro: spec_return)
      from Inr show ?thesis by (simp only: sum.case) (rule spec_bind [OF landed rest])
    qed
  qed
qed

subsection \<open>Stopping and recording\<close>

lemma fail_accounts:
  "jo_status x = JobFailed \<Longrightarrow> jo_error x \<noteq> Some enqueue_failed_code \<Longrightarrow> label_accounts d x"
  by (simp add: label_accounts_def neverReachedGmail_def)

lemma update_job_facts [simp]:
  "undo_facts (update_job jid f d) = undo_facts d" "action_facts (update_job jid f d) = action_facts d"
  by (simp_all add: update_job_def undo_facts_def action_facts_def)

lemma row_update_job:
  assumes "row_is jid P d l" "\<And>x. jo_id (f x) = jo_id x \<and> jo_direction (f x) = jo_direction x"
    and "\<And>x. own jid d = [x] \<Longrightarrow> P x \<Longrightarrow> landed_in x d l \<Longrightarrow> Q (f x) \<and> landed_in (f x) (update_job jid f d) l"
  shows "row_is jid Q (update_job jid f d) l"
  by (rule row_step [OF assms(1), where f = f]) (use own_update_job assms(2,3) in auto)

lemma end_protected_fields [simp]:
  "jo_id (end_protected b x) = jo_id x" "jo_direction (end_protected b x) = jo_direction x"
  "jo_ids (end_protected b x) = jo_ids x"
  "jo_status (end_protected b x) = (if b then JobDone else JobFailed)"
  "jo_error (end_protected b x) = Some (if b then sender_protected_code else recovery_protected_code)"
  by (simp_all add: end_protected_def)

lemma safe_end_protected:
  assumes "label_safe jid d l" "b \<Longrightarrow> untouched jid l"
  shows "label_safe jid (update_job jid (end_protected b) d) l"
proof (rule row_update_job [OF assms(1)])
  fix x assume x: "own jid d = [x]" "landed_in x d l"
  show "True \<and> landed_in (end_protected b x) (update_job jid (end_protected b) d) l"
  proof (cases b)
    case True
    with assms(2) own_id [OF x(1)] show ?thesis by (auto intro: landed_untouched)
  next
    case False
    then show ?thesis
      using landed_step [OF x(2), of "end_protected b x"] fail_accounts [of "end_protected b x"]
      by (simp add: recovery_protected_code_def enqueue_failed_code_def)
  qed
qed simp

lemma spec_exec_safe:
  assumes "stable (leaves_action jid) A" "\<And>d l. A d l \<Longrightarrow> label_safe jid d l"
    and "\<And>d l. A d l \<Longrightarrow> label_safe jid (f d) l"
  shows "spec (leaves_action jid) (label_safe jid) A (exec f) (\<lambda>_. label_safe jid) (left_by jid fresh)"
  by (rule spec_exec) (use assms safe_left in auto)

lemma spec_done: "spec N J A (returnw a) (\<lambda>_. A) E"
  by (rule spec_return)

definition stop_pre :: "ident \<Rightarrow> bool \<Rightarrow> assertion" where
  "stop_pre jid b d l \<longleftrightarrow> label_safe jid d l \<and> (b \<longrightarrow> untouched jid l)"

lemma stable_stop [simp]: "stable (leaves_action jid) (stop_pre jid b)"
  unfolding stop_pre_def [abs_def] by (rule stable_with) simp

lemma strand_stop:
  assumes "jid = jo_id j" "n = 0 \<and> neverReachedGmail j \<Longrightarrow> b"
  shows "spec (leaves_action jid) (label_safe jid) (stop_pre jid b) (stopProtected j n)
           (\<lambda>_. label_safe jid) (left_by jid fresh)"
proof -
  have recovery: "spec (leaves_action jid) (label_safe jid) (stop_pre jid b) (recordRecoveryProtected j)
      (\<lambda>_. label_safe jid) (left_by jid fresh)"
    unfolding recordRecoveryProtected_def assms(1) [symmetric]
    by (rule spec_bind [OF spec_exec_safe spec_done]) (auto simp: stop_pre_def intro: safe_end_protected)
  have skipped: "spec (leaves_action jid) (label_safe jid) (stop_pre jid b)
      (bindw (exec (update_job (jo_id j) (end_protected True)))
        (\<lambda>_. returnw ((label_result_of 0 None)\<lparr>lr_skipped := True\<rparr>))) (\<lambda>_. label_safe jid) (left_by jid fresh)" if b
    unfolding assms(1) [symmetric]
    by (rule spec_bind [OF spec_exec_safe spec_done]) (use that in \<open>auto simp: stop_pre_def intro: safe_end_protected\<close>)
  show ?thesis
    unfolding stopProtected_def recordProtected_def
    by (intro spec_if recovery skipped) (use assms(2) in blast)
qed

lemma safe_back_to_queued:
  assumes "label_safe jid d l" "untouched jid l"
  shows "label_safe jid (back_to_queued jid d) l"
proof (rule row_step [OF assms(1)])
  let ?p = "\<lambda>x. jo_id x = jid \<and> jo_status x = Executing" and ?f = "\<lambda>x. x\<lparr>jo_status := Queued\<rparr>"
  fix x assume x: "own jid d = [x]"
  show "own jid (back_to_queued jid d) = [if ?p x then ?f x else x]"
    by (rule own_update [OF _ x, where p = ?p and f = ?f]) (simp_all add: back_to_queued_def)
  show "True \<and> landed_in (if ?p x then ?f x else x) (back_to_queued jid d) l"
    using assms(2) own_id [OF x] by (auto intro: landed_untouched)
qed simp

lemma strand_send_failed:
  assumes "ctx_good c fresh" "jid = jo_id (la_job c)"
  shows "spec (leaves_action jid) (label_safe jid) (left_by jid (n = 0 \<and> fresh) e) (label_send_failed c e n)
           (\<lambda>_. label_safe jid) (left_by jid False)"
proof (cases "e = SenderProtectedAtSend")
  case True
  have "spec (leaves_action jid) (label_safe jid) (stop_pre jid (n = 0 \<and> fresh)) (stopProtected (la_job c) n)
      (\<lambda>_. label_safe jid) (left_by jid False)"
    by (rule strand_stop [OF assms(2)]) (use assms(1) in \<open>simp add: ctx_good_def\<close>)
  then have "spec (leaves_action jid) (label_safe jid) (left_by jid (n = 0 \<and> fresh) e) (stopProtected (la_job c) n)
      (\<lambda>_. label_safe jid) (left_by jid False)"
    by (rule spec_weaken) (auto simp: True left_by_def stop_pre_def)
  then show ?thesis by (simp add: label_send_failed_def True)
next
  case False
  let ?b = "neverReachedGmail (la_job c) \<and> n = 0 \<and> isRefusedBeforeApply e"
  have stable: "stable (leaves_action jid) (left_by jid f x)" for f x
    unfolding left_by_def [abs_def] by (rule stable_with) simp
  have un: "untouched jid l" if "left_by jid (n = 0 \<and> fresh) e d l" "?b" for d l
    using that assms(1) by (auto simp: left_by_def ctx_good_def)
  have "spec (leaves_action jid) (label_safe jid) (left_by jid (n = 0 \<and> fresh) e)
      (if ?b then exec (back_to_queued (jo_id (la_job c))) else returnw ())
      (\<lambda>_. left_by jid (n = 0 \<and> fresh) e) (left_by jid False)"
  proof (rule spec_if)
    assume b: ?b
    have queued: "label_safe jid (back_to_queued jid d) l" "left_by jid (n = 0 \<and> fresh) e (back_to_queued jid d) l"
      if "left_by jid (n = 0 \<and> fresh) e d l" for d l
      using safe_back_to_queued [OF left_safe [OF that] un [OF that b]] un [OF that b]
      unfolding left_by_def by blast+
    show "spec (leaves_action jid) (label_safe jid) (left_by jid (n = 0 \<and> fresh) e)
      (exec (back_to_queued (jo_id (la_job c)))) (\<lambda>_. left_by jid (n = 0 \<and> fresh) e) (left_by jid False)"
      unfolding assms(2) [symmetric]
      by (rule spec_exec [OF stable]) (use queued safe_left left_safe in blast)+
  qed (rule spec_done)
  then show ?thesis
    unfolding label_send_failed_def using False
    by (simp only: if_False) (erule spec_bind, auto intro!: spec_throw intro: left_by_strong)
qed

lemma mirror_mail_frame [simp]:
  "jobs (mirror_mail mb ids ch d) = jobs d" "undos (mirror_mail mb ids ch d) = undos d"
  "activity (mirror_mail mb ids ch d) = activity d"
  by (simp_all add: mirror_mail_def)

lemma schedule_frame [simp]:
  "jobs (scheduleLaterReturn mb k wa t keep d) = jobs d" "undos (scheduleLaterReturn mb k wa t keep d) = undos d"
  "activity (scheduleLaterReturn mb k wa t keep d) = activity d"
  by (simp_all add: scheduleLaterReturn_def)

lemma invalidate_frame [simp]:
  "jobs (invalidateInboxReportCache mb d) = jobs d" "undos (invalidateInboxReportCache mb d) = undos d"
  "activity (invalidateInboxReportCache mb d) = activity d"
  by (simp_all add: invalidateInboxReportCache_def)

lemma announce_frame [simp]:
  "jobs (announce e d) = jobs d" "undos (announce e d) = undos d" "activity (announce e d) = activity d"
  by (simp_all add: announce_def)

lemma later_return_frame [simp]:
  "jobs (later_return c t d) = jobs d" "undos (later_return c t d) = undos d"
  "activity (later_return c t d) = activity d"
  by (simp_all add: later_return_def Let_def split: option.split)

lemma label_rows_frame [simp]:
  "jobs (label_rows token aid x c stored d) = jobs d"
  "set (undos (label_rows token aid x c stored d)) =
     insert (label_undo_row token x c stored (db_now d)) (set (undos d))"
  "set (activity (label_rows token aid x c stored d)) =
     insert (label_activity aid (la_job c) (length (la_ids c)) (Some token) (db_now d)) (set (activity d))"
  by (simp_all add: label_rows_def)

lemma label_undo_row_fields [simp]:
  "un_token (label_undo_row token x c stored t) = token" "un_ids (label_undo_row token x c stored t) = la_ids c"
  by (simp_all add: label_undo_row_def Let_def)

lemma label_activity_fields [simp]:
  "ac_undo (label_activity aid j n u t) = u" "ac_job (label_activity aid j n u t) = Some (jo_id j)"
  "ac_affected (label_activity aid j n u t) = n"
  by (simp_all add: label_activity_def)

lemma label_tx_fields:
  assumes "label_tx token aid expiresAt appliedAt c du d = Inr (t, d')"
  shows "t = token" "jobs d' = jobs (update_job (jo_id (la_job c)) (finish_label_job (length (la_ids c)) (Some token)) d)"
    "undo_facts d' = insert (token, la_ids c) (undo_facts d)"
    "action_facts d' = insert (Some token, Some (jo_id (la_job c)), length (la_ids c)) (action_facts d)"
proof -
  obtain stored where stored: "(if jo_verb (la_job c) = VDelete then storedDeleteUndo du (la_ids c) else Inr None) = Inr stored"
    using assms unfolding label_tx_def Let_def by (auto split: sum.splits)
  define d4 where "d4 = update_job (jo_id (la_job c)) (finish_label_job (length (la_ids c)) (Some token))
      (announce (label_event (la_job c) (length (la_ids c)) (Some token)
          (if jo_verb (la_job c) = VLater then jo_wake (la_job c) else None) appliedAt)
        (later_return c appliedAt (mirror_mail (jo_mailbox (la_job c)) (la_ids c) (la_change c)
          (label_rows token aid expiresAt c stored d))))"
  have d': "t = token" "d' = (if la_ids c \<noteq> [] then invalidateInboxReportCache (jo_mailbox (la_job c)) d4 else d4)"
    using assms stored unfolding label_tx_def Let_def d4_def by simp_all
  show "t = token" by (rule d')
  show "jobs d' = jobs (update_job (jo_id (la_job c)) (finish_label_job (length (la_ids c)) (Some token)) d)"
    by (simp add: d'(2) d4_def update_job_def)
  show "undo_facts d' = insert (token, la_ids c) (undo_facts d)"
    by (simp add: d'(2) d4_def undo_facts_def update_job_def)
  show "action_facts d' = insert (Some token, Some (jo_id (la_job c)), length (la_ids c)) (action_facts d)"
    by (simp add: d'(2) d4_def action_facts_def update_job_def)
qed

lemma finish_label_fields [simp]:
  "jo_id (finish_label_job n u x) = jo_id x" "jo_direction (finish_label_job n u x) = jo_direction x"
  "jo_ids (finish_label_job n u x) = jo_ids x" "jo_status (finish_label_job n u x) = JobDone"
  "jo_undo (finish_label_job n (Some t) x) = Some t"
  by (simp_all add: finish_label_job_def)

lemma done_never [simp]: "jo_status x = JobDone \<Longrightarrow> \<not> neverReachedGmail x"
  by (simp add: neverReachedGmail_def)

lemma label_tx_safe:
  assumes "underway (jo_id (la_job c)) (la_ids c) d l"
    and "label_tx token aid expiresAt appliedAt c du d = Inr (t, d')"
  shows "label_safe (jo_id (la_job c)) d' l"
proof (rule row_step [OF assms(1) [unfolded underway_def]])
  let ?f = "finish_label_job (length (la_ids c)) (Some token)"
  note fields = label_tx_fields [OF assms(2)]
  fix x assume x: "own (jo_id (la_job c)) d = [x]"
  show "own (jo_id (la_job c)) d' = [?f x]"
    using own_update_job [OF x, of ?f] own_cong [OF fields(2)] by simp
  assume "jo_ids x = la_ids c \<and> jo_status x = Executing" "landed_in x d l"
  moreover from this have "label_accounts d' (?f x)"
    using own_id [OF x] by (simp add: label_accounts_def label_recorded_def fields(3,4))
  ultimately show "True \<and> landed_in (?f x) d' l"
    using landed_step [of x d l "?f x" d'] by simp
qed simp

lemma label_tx_error: "label_tx token aid expiresAt appliedAt c du d = Inl e \<Longrightarrow> e = ValidationError"
  by (auto simp: label_tx_def Let_def dest!: storedDeleteUndo_error split: sum.splits if_splits)

lemma strand_tx:
  assumes "jid = jo_id (la_job c)"
  shows "spec (leaves_action jid) (label_safe jid) (underway jid (la_ids c))
           (bindw (undoExpiresAt (jo_mailbox (la_job c))) (\<lambda>expiresAt.
            bindw clock (\<lambda>appliedAt.
            bindw fresh_id (\<lambda>token.
            bindw fresh_id (\<lambda>aid.
            bindw (stmt (label_tx token aid expiresAt appliedAt c du)) (\<lambda>t.
            returnw (label_result_of (length (la_ids c)) (Some t))))))))
           (\<lambda>_. label_safe jid) (left_by jid False)"
proof -
  note keep = holds_underway [where jid = jid and ids = "la_ids c"]
  have tx: "spec (leaves_action jid) (label_safe jid) (underway jid (la_ids c))
      (stmt (label_tx token aid e a c du)) (\<lambda>_. label_safe jid) (left_by jid False)" for token aid e a
  proof (rule spec_stmt [OF stable_underway underway_safe])
    fix d l assume u: "underway jid (la_ids c) d l"
    show "left_by jid False TransientError d l" by (rule safe_left [OF underway_safe [OF u]])
    show "left_by jid False e' d l" if "label_tx token aid e a c du d = Inl e'" for e'
      using label_tx_error [OF that] underway_left [OF u] by simp
    show "label_safe jid d' l \<and> label_safe jid d' l \<and> left_by jid False TransientError d' l"
      if "label_tx token aid e a c du d = Inr (t, d')" for t d'
      using label_tx_safe [OF u [unfolded assms] that] safe_left unfolding assms by blast
  qed
  show ?thesis
    by (rule spec_bind [OF keep [OF holds_expiry [OF stable_underway]]], simp,
        rule spec_bind [OF keep [OF holds_clock]], rule spec_bind [OF keep [OF holds_fresh]],
        rule spec_bind [OF keep [OF holds_fresh]], rule spec_bind [OF tx spec_done])
qed

lemma strand_send:
  assumes "ctx_good c fresh" "jid = jo_id (la_job c)"
  shows "spec (leaves_action jid) (label_safe jid) (before jid (la_ids c) fresh) (send_label c)
           (\<lambda>_. label_safe jid) (left_by jid False)"
  unfolding send_label_def
proof (rule spec_bind)
  let ?cs = "chunks gmail_batch_modify_max_ids (la_ids c)"
  have cs: "part \<noteq> [] \<and> set part \<subseteq> set (la_ids c)" if "part \<in> set ?cs" for part
    using chunks_sized [OF that] chunks_subset [OF _ that] by (simp add: gmail_batch_modify_max_ids_def)
  have "?cs \<noteq> []"
    using assms(1) concat_chunks [of gmail_batch_modify_max_ids "la_ids c"]
    by (auto simp: ctx_good_def gmail_batch_modify_max_ids_def)
  with strand_chunks [OF assms cs, where n = 0 and du = "jo_delete_undo (la_job c)" and E = "left_by jid False"]
  show "spec (leaves_action jid) (label_safe jid) (before jid (la_ids c) fresh)
      (label_chunks c ?cs 0 (jo_delete_undo (la_job c))) (sent_post jid (la_ids c) fresh) (left_by jid False)"
    by simp
  fix r
  show "spec (leaves_action jid) (label_safe jid) (sent_post jid (la_ids c) fresh r)
      (case r of SentAll du \<Rightarrow>
           bindw (undoExpiresAt (jo_mailbox (la_job c))) (\<lambda>expiresAt.
           bindw clock (\<lambda>appliedAt.
           bindw fresh_id (\<lambda>token.
           bindw fresh_id (\<lambda>aid.
           bindw (stmt (label_tx token aid expiresAt appliedAt c du)) (\<lambda>t.
           returnw (label_result_of (length (la_ids c)) (Some t)))))))
         | SendLeft e landed \<Rightarrow> label_send_failed c e landed)
      (\<lambda>_. label_safe jid) (left_by jid False)"
    using strand_tx [OF assms(2)] strand_send_failed [OF assms] by (cases r) simp_all
qed

subsection \<open>A forward action\<close>

lemma spec_safe_keeps:
  \<comment> \<open>a body that only reads and asks\<close>
  assumes "holds (leaves_action jid) port_error (label_safe jid) m"
  shows "spec (leaves_action jid) (label_safe jid) (label_safe jid) m (\<lambda>_. label_safe jid) (left_by jid False)"
  using assms unfolding holds_def by (rule spec_weaken) (auto simp: left_by_def)

lemma before_store:
  assumes "before jid ids fresh d l" "fresh \<or> ids = []"
  shows "before jid ids' fresh (update_job jid (\<lambda>j. j\<lparr>jo_ids := ids'\<rparr>) d) l"
  unfolding before_def
proof (rule row_update_job [OF assms(1) [unfolded before_def]])
  fix x assume "own jid d = [x]" and P: "jo_ids x = ids \<and> jo_status x \<noteq> JobDone \<and> neverReachedGmail x = fresh"
  with before_untouched [OF assms] own_id [of jid d x]
  have "landed_in (x\<lparr>jo_ids := ids'\<rparr>) d' l" for d' by (intro landed_untouched) simp
  with P show "(jo_ids (x\<lparr>jo_ids := ids'\<rparr>) = ids' \<and> jo_status (x\<lparr>jo_ids := ids'\<rparr>) \<noteq> JobDone \<and>
      neverReachedGmail (x\<lparr>jo_ids := ids'\<rparr>) = fresh) \<and>
      landed_in (x\<lparr>jo_ids := ids'\<rparr>) (update_job jid (\<lambda>j. j\<lparr>jo_ids := ids'\<rparr>) d) l"
    by (simp add: neverReachedGmail_def)
qed simp

lemma strand_store:
  assumes "fresh \<or> ids = []"
  shows "spec (leaves_action jid) (label_safe jid) (before jid ids fresh) (store_ids jid ids')
           (\<lambda>_. before jid ids' fresh) (left_by jid False)"
  unfolding store_ids_def
  by (rule spec_exec [OF stable_before])
    (use before_store [OF _ assms] before_safe safe_left in blast)+

lemma strand_forward_ids:
  assumes "jid = jo_id j" "starting \<longrightarrow> fresh" "ids = jo_ids j"
  shows "spec (leaves_action jid) (label_safe jid) (before jid ids fresh) (forward_ids j custom starting)
           (\<lambda>ids'. before jid ids' fresh) (left_by jid False)"
proof -
  have ask: "spec (leaves_action jid) (label_safe jid) (before jid ids fresh) m (\<lambda>_. before jid ids fresh) (left_by jid False)"
    if "holds (leaves_action jid) port_error (before jid ids fresh) m" for m :: "ident list wm"
    by (rule holds_before [OF that]) simp_all
  have eligible: "holds (leaves_action jid) port_error (before jid ids fresh) (eligible_ids j (jo_ids j))"
    unfolding eligible_ids_def by (intro holds_if holds_return holds_query stable_before lets_portsI)
  have store: "spec (leaves_action jid) (label_safe jid) (before jid ids fresh)
      (bindw (store_ids (jo_id j) ids') (\<lambda>_. returnw ids')) (\<lambda>ids'. before jid ids' fresh) (left_by jid False)"
    if "fresh \<or> ids = []" for ids'
    unfolding assms(1) [symmetric]
    by (rule spec_bind [OF strand_store [OF that]]) (rule spec_return)
  show ?thesis
    unfolding forward_ids_def
  proof (intro spec_if)
    assume starting
    with assms(2) have "fresh \<or> ids = []" by simp
    then show "spec (leaves_action jid) (label_safe jid) (before jid ids fresh)
        (bindw (eligible_ids j (jo_ids j)) (\<lambda>ids. bindw (store_ids (jo_id j) ids) (\<lambda>_. returnw ids)))
        (\<lambda>ids'. before jid ids' fresh) (left_by jid False)"
      by (intro spec_bind [OF ask [OF eligible] store])
  next
    assume "\<not> custom \<and> jo_ids j = [] \<and> jo_selector j = BySender"
    then have "fresh \<or> ids = []" using assms(3) by simp
    then show "spec (leaves_action jid) (label_safe jid) (before jid ids fresh)
        (bindw (query (resolveSenderActionIds (jo_mailbox j) (jo_sender_key j) (jo_older j) (jo_reach j)))
          (\<lambda>ids. bindw (store_ids (jo_id j) ids) (\<lambda>_. returnw ids)))
        (\<lambda>ids'. before jid ids' fresh) (left_by jid False)"
      by (intro spec_bind [OF ask [OF holds_query] store]) simp_all
  qed (rule spec_return, simp add: assms(3))
qed

lemma row_nothing:
  assumes "before jid [] fresh d l" "jid = jo_id j"
  shows "label_safe jid (nothing_tx aid j t d) l"
proof (rule row_step [OF assms(1) [unfolded before_def]])
  fix x assume x: "own jid d = [x]"
  let ?d = "update_job jid (finish_label_job 0 None) d"
  have "own jid (nothing_tx aid j t d) = own jid ?d"
    by (rule own_cong) (simp add: nothing_tx_def assms(2) update_job_def)
  then show "own jid (nothing_tx aid j t d) = [finish_label_job 0 None x]"
    using own_update_job [OF x, of "finish_label_job 0 None"] by simp
  show "True \<and> landed_in (finish_label_job 0 None x) (nothing_tx aid j t d) l"
    using before_untouched [OF assms(1)] own_id [OF x] by (simp add: landed_untouched)
qed simp

lemma strand_run:
  assumes "jid = jo_id j" "starting \<longrightarrow> fresh" "neverReachedGmail j = fresh"
  shows "spec (leaves_action jid) (label_safe jid) (before jid ids fresh) (run_label h j ch s starting ids)
           (\<lambda>_. label_safe jid) (left_by jid False)"
  unfolding run_label_def
proof (rule spec_if)
  assume "ids = []"
  have ask: "spec (leaves_action jid) (label_safe jid) (before jid ids fresh) m (\<lambda>_. before jid ids fresh) (left_by jid False)"
    if "holds (leaves_action jid) port_error (before jid ids fresh) m" for m :: "'a wm"
    by (rule holds_before [OF that]) simp_all
  have tx: "spec (leaves_action jid) (label_safe jid) (before jid ids fresh) (exec (nothing_tx aid j t))
      (\<lambda>_. label_safe jid) (left_by jid False)" for aid t
    by (rule spec_exec_safe) (use row_nothing [OF _ assms(1)] before_safe \<open>ids = []\<close> in auto)
  show "spec (leaves_action jid) (label_safe jid) (before jid ids fresh)
      (bindw fresh_id (\<lambda>aid. bindw clock (\<lambda>t. bindw (exec (nothing_tx aid j t)) (\<lambda>_. returnw (label_result_of 0 None)))))
      (\<lambda>_. label_safe jid) (left_by jid False)"
    by (rule spec_bind [OF holds_before [OF holds_fresh [where F = port_error]]], simp, simp,
        rule spec_bind [OF holds_before [OF holds_clock [where F = port_error]]], simp, simp,
        rule spec_bind [OF tx spec_done])
next
  assume "ids \<noteq> []"
  then have good: "ctx_good \<lparr>la_host = h, la_job = j, la_ids = ids, la_subject = s, la_starting = starting, la_change = ch'\<rparr> fresh"
    for ch' using assms by (simp add: ctx_good_def)
  have send: "spec (leaves_action jid) (label_safe jid) (before jid ids fresh)
      (send_label \<lparr>la_host = h, la_job = j, la_ids = ids, la_subject = s, la_starting = starting, la_change = ch'\<rparr>)
      (\<lambda>_. label_safe jid) (left_by jid False)" for ch'
    using strand_send [OF good, of jid] assms(1) by simp
  show "spec (leaves_action jid) (label_safe jid) (before jid ids fresh)
      (bindw (port_call no_effect) (\<lambda>_. bindw (ensure_labels ch) (\<lambda>ensure.
         send_label \<lparr>la_host = h, la_job = j, la_ids = ids, la_subject = s, la_starting = starting,
                     la_change = resolveLabelChange ensure ch\<rparr>)))
      (\<lambda>_. label_safe jid) (left_by jid False)"
    by (rule spec_bind [OF holds_before [OF holds_call [OF lets_portsI(2)]]], simp, simp,
        rule spec_bind [OF holds_before [OF holds_ensure [OF lets_portsI(2)]] send]) simp_all
qed

lemma customAutopilot_error: "customAutopilot j = Inl e \<Longrightarrow> e = ValidationError"
  by (auto simp: customAutopilot_def split: option.splits if_splits)

lemma strand_forward:
  assumes "jid = jo_id j"
  shows "spec (leaves_action jid) (label_safe jid) (before jid (jo_ids j) (neverReachedGmail j))
           (executeForward h confirmed ch j) (\<lambda>_. label_safe jid) (left_by jid False)"
    (is "spec ?N ?J ?B _ ?Q ?E")
proof -
  have bad: "spec ?N ?J ?B (throww ValidationError) ?Q ?E"
    by (rule spec_throw) (auto intro: before_left)
  have main: "spec ?N ?J ?B
      (bindw (case s of None \<Rightarrow> returnw False | Some x \<Rightarrow> query (protectedSubject (jo_mailbox j) x))
        (\<lambda>p. if p then stopProtected j 0
              else bindw (if starting then bindw (customStartPredicate h j) (\<lambda>_. returnw ()) else returnw ())
                (\<lambda>_. bindw (forward_ids j custom starting) (run_label h j ch s starting))))
      ?Q ?E" if starting: "starting \<longrightarrow> neverReachedGmail j" for s starting custom
  proof (intro spec_bind)
    show "spec ?N ?J ?B (case s of None \<Rightarrow> returnw False | Some x \<Rightarrow> query (protectedSubject (jo_mailbox j) x)) (\<lambda>_. ?B) ?E"
      by (rule holds_before [where F = port_error])
        (intro holds_option holds_return holds_query stable_before lets_portsI, simp_all)
    fix p
    have stop: "spec ?N ?J ?B (stopProtected j 0) ?Q ?E"
      by (rule spec_weaken [OF strand_stop [OF assms, where b = "neverReachedGmail j" and n = 0 and fresh = False]])
        (auto simp: stop_pre_def intro: before_safe before_untouched)
    have start: "spec ?N ?J ?B (if starting then bindw (customStartPredicate h j) (\<lambda>_. returnw ()) else returnw ()) (\<lambda>_. ?B) ?E"
    proof (cases starting)
      case True
      then show ?thesis
        by (intro holds_before [where F = any_error] holds_if holds_bind holds_start holds_return stable_before)
          (use starting in simp_all)
    qed (simp add: spec_done)
    show "spec ?N ?J ?B
        (if p then stopProtected j 0
         else bindw (if starting then bindw (customStartPredicate h j) (\<lambda>_. returnw ()) else returnw ())
            (\<lambda>_. bindw (forward_ids j custom starting) (run_label h j ch s starting))) ?Q ?E"
      by (rule spec_if [OF stop]) (rule spec_bind [OF start],
        rule spec_bind [OF strand_forward_ids [OF assms starting refl] strand_run [OF assms starting refl]])
  qed
  show ?thesis
  proof (cases "customAutopilot j")
    case (Inl e)
    with bad customAutopilot_error [OF Inl] show ?thesis by (simp add: executeForward_def)
  next
    case (Inr cu)
    show ?thesis
      unfolding executeForward_def Let_def Inr sum.case by (intro spec_if bad main) simp
  qed
qed

subsection \<open>A delivery\<close>

lemma safe_fail_job:
  assumes "label_safe jid d l" "untouched jid l"
  shows "label_safe jid (update_job jid (fail_job code) d) l"
proof (rule row_update_job [OF assms(1)])
  fix x assume "own jid d = [x]"
  with assms(2) own_id [of jid d x] show "True \<and> landed_in (fail_job code x) (update_job jid (fail_job code) d) l"
    by (simp add: landed_untouched fail_job_def)
qed (simp add: fail_job_def)

lemma safe_put_off:
  assumes "label_safe jid d l"
  shows "label_safe jid (put_off jid deadline d) l"
proof (rule row_step [OF assms])
  let ?p = "\<lambda>x. jo_id x = jid \<and> jo_status x = Queued \<and> jo_direction x = Forward \<and> jo_attempt x = 0 \<and> jo_root x = None"
  let ?f = "\<lambda>x. x\<lparr>jo_quiet_until := Some deadline\<rparr>"
  show "own jid (put_off jid deadline d) = [if ?p x then ?f x else x]" if x: "own jid d = [x]" for x
    by (rule own_update [OF _ x, where p = ?p and f = ?f]) (simp_all add: put_off_def)
  fix x assume x: "own jid d = [x]" "landed_in x d l"
  have "landed_in (?f x) d' l" if "?p x" for d'
    using untouched_if_never [OF x(2)] that by (intro landed_untouched) (simp add: neverReachedGmail_def)
  moreover have "landed_in x (put_off jid deadline d) l"
    by (rule landed_mono [OF x(2)]) (simp_all add: put_off_def undo_facts_def action_facts_def)
  ultimately show "True \<and> landed_in (if ?p x then ?f x else x) (put_off jid deadline d) l" by simp
qed simp_all

lemma strand_caught:
  assumes "jid = jo_id j"
  shows "spec (leaves_action jid) (label_safe jid) (left_by jid False e) (forward_caught hooked j e)
           (\<lambda>_. label_safe jid) (\<lambda>_. label_safe jid)"
proof -
  have rethrow: "spec (leaves_action jid) (label_safe jid) (left_by jid False e) (throww e')
      (\<lambda>_. label_safe jid) (\<lambda>_. label_safe jid)" for e' :: worker_error
    by (rule spec_throw) (rule left_safe)
  have stable: "stable (leaves_action jid) (left_by jid False e)"
    unfolding left_by_def [abs_def] by (rule stable_with) simp
  show ?thesis
  proof (cases e)
    case (CustomAutopilotBlocked code)
    have "label_safe jid (update_job jid (fail_job code) d) l" if "left_by jid False e d l" for d l
      using that CustomAutopilotBlocked safe_fail_job by (simp add: left_by_def)
    then have "spec (leaves_action jid) (label_safe jid) (left_by jid False e)
        (exec (update_job (jo_id j) (fail_job code))) (\<lambda>_. label_safe jid) (\<lambda>_. label_safe jid)"
      unfolding assms(1) [symmetric] by (intro spec_exec [OF stable]) (use left_safe in blast)+
    then show ?thesis unfolding forward_caught_def CustomAutopilotBlocked worker_error.case
      by (rule spec_bind) (rule spec_done)
  next
    case (CustomAutopilotQuiet ms)
    have quiet: "spec (leaves_action jid) (label_safe jid) (label_safe jid) (deferQuiet hooked (jo_id j) ms)
        (\<lambda>_. label_safe jid) (\<lambda>_. label_safe jid)"
      unfolding deferQuiet_def Let_def assms [symmetric]
      by (rule holdsD, intro holds_if holds_bind label_leaf holds_exec stable_label_safe lets_portsI any_errorI)
        (rule safe_put_off)
    show ?thesis unfolding forward_caught_def CustomAutopilotQuiet worker_error.case
      by (rule spec_weaken [OF quiet]) (auto dest: left_safe)
  qed (use rethrow [of e] in \<open>simp_all add: forward_caught_def\<close>)
qed

text \<open>The row as it was loaded.\<close>

definition loaded :: "ident \<Rightarrow> job_row option \<Rightarrow> assertion" where
  "loaded jid r d l \<longleftrightarrow>
     label_safe jid d l \<and>
     (case r of None \<Rightarrow> True
      | Some j \<Rightarrow> jo_id j = jid \<and> jo_direction j = Forward \<and>
          (jo_status j \<noteq> JobDone \<longrightarrow> before jid (jo_ids j) (neverReachedGmail j) d l))"

lemma load_loaded:
  assumes "label_safe jid d l"
  shows "loaded jid (List.find (\<lambda>j. jo_id j = jid) (jobs d)) d l"
proof (cases "List.find (\<lambda>j. jo_id j = jid) (jobs d)")
  case None
  with assms show ?thesis by (simp add: loaded_def)
next
  case (Some j)
  obtain x where x: "own jid d = [x]" "jo_direction x = Forward" "landed_in x d l"
    using assms unfolding row_is_def by blast
  from find_SomeD [OF Some] have "j \<in> set (own jid d)" by (simp add: own_def)
  with x(1) have "j = x" by simp
  with x have "jo_status j \<noteq> JobDone \<longrightarrow> before jid (jo_ids j) (neverReachedGmail j) d l"
    unfolding before_def row_is_def by blast
  with assms Some \<open>j = x\<close> x own_id [OF x(1)] show ?thesis by (simp add: loaded_def)
qed

lemma loaded_safe: "loaded jid r d l \<Longrightarrow> label_safe jid d l"
  by (simp add: loaded_def)

lemma strand_action:
  "spec (leaves_action jid) (label_safe jid) (loaded jid (Some j)) (run_action h hooked p j)
     (\<lambda>_. label_safe jid) (\<lambda>_. label_safe jid)"
    (is "spec ?N ?J ?A _ ?Q ?E")
proof -
  have ends: "spec ?N ?J ?A (returnw a) ?Q ?E" "spec ?N ?J ?A (throww e) ?Q ?E" for a e
    by (rule spec_return spec_throw, erule loaded_safe)+
  show ?thesis
  proof (cases "jo_id j = jid \<and> jo_direction j = Forward")
    case False
    then have "?A = (\<lambda>_ _. False)" by (auto simp: loaded_def fun_eq_iff)
    then show ?thesis by (simp add: spec_never)
  next
    case True
    have forward: "spec ?N ?J ?A (catchw (executeForward h c ch j) (forward_caught hooked j)) ?Q ?E"
      if "jo_status j \<noteq> JobDone" for c ch
    proof (rule spec_weaken [OF spec_catch [OF strand_forward strand_caught]])
      show "before jid (jo_ids j) (neverReachedGmail j) d l" if "?A d l" for d l
        using that \<open>jo_status j \<noteq> JobDone\<close> by (simp add: loaded_def)
    qed (use True in simp_all)
    show ?thesis
      unfolding run_action_def
    proof (intro spec_if)
      assume "jo_status j \<noteq> JobDone"
      with True forward show "spec ?N ?J ?A
          (case labelChangeForVerb (jo_verb j) of None \<Rightarrow> throww ValidationError
           | Some change \<Rightarrow>
               if jo_direction j = Reverse then executeReverse (reverseChange change) j
               else catchw (executeForward h (lj_confirmed p) (forwardChange change) j) (forward_caught hooked j)) ?Q ?E"
        by (cases "labelChangeForVerb (jo_verb j)") (simp_all add: ends)
    qed (rule ends)+
  qed
qed

lemma strand_process:
  assumes "jid = lj_action p"
  shows "spec (leaves_action jid) (label_safe jid) (label_safe jid) (processLabelJob h hooked p)
           (\<lambda>_. label_safe jid) (\<lambda>_. label_safe jid)"
  unfolding processLabelJob_def locked_def execute_def assms [symmetric]
proof (rule spec_bind [OF holdsD [OF holds_call [OF lets_portsI(1)]]], rule spec_bind)
  show "spec (leaves_action jid) (label_safe jid) (label_safe jid)
      (query (\<lambda>d. List.find (\<lambda>j. jo_id j = jid) (jobs d))) (loaded jid) (\<lambda>_. label_safe jid)"
    by (rule spec_query) (simp_all add: load_loaded)
  fix r
  show "spec (leaves_action jid) (label_safe jid) (loaded jid r)
      (case r of None \<Rightarrow> throww ValidationError | Some j \<Rightarrow> run_action h hooked p j)
      (\<lambda>_. label_safe jid) (\<lambda>_. label_safe jid)"
    by (cases r) (auto intro: strand_action spec_throw loaded_safe)
qed

lemma error_name_not_enqueue: "error_name e \<noteq> enqueue_failed_code"
  by (cases e) (simp_all add: enqueue_failed_code_def)

lemma strand_terminal:
  assumes "jid = lj_action p"
  shows "spec (leaves_action jid) (label_safe jid) (label_safe jid) (onTerminalFailure p e)
           (\<lambda>_. label_safe jid) (\<lambda>_. label_safe jid)"
proof -
  let ?p = "\<lambda>x. jo_id x = jid \<and> jo_mailbox x = lj_mailbox p"
  let ?f = "\<lambda>x. x\<lparr>jo_status := JobFailed, jo_error := Some (error_name e), jo_quota := settledQuotaUnits 0 (jo_quota x)\<rparr>"
  have "label_safe jid (d\<lparr>jobs := update_where ?p ?f (jobs d)\<rparr>) l" if s: "label_safe jid d l" for d l
  proof (rule row_step [OF s])
    let ?d = "d\<lparr>jobs := update_where ?p ?f (jobs d)\<rparr>"
    show "own jid ?d = [if ?p x then ?f x else x]" if x: "own jid d = [x]" for x
      by (rule own_update [OF _ x, where p = ?p and f = ?f]) simp_all
    fix x assume x: "own jid d = [x]" "landed_in x d l"
    have "landed_in x ?d l" by (rule landed_mono [OF x(2)]) (simp_all add: undo_facts_def action_facts_def)
    moreover have "landed_in (?f x) ?d l"
      using landed_step [OF x(2), of "?f x" ?d] fail_accounts [of "?f x" ?d] error_name_not_enqueue by simp
    ultimately show "True \<and> landed_in (if ?p x then ?f x else x) ?d l" by simp
  qed simp_all
  then have "holds (leaves_action jid) any_error (label_safe jid) (onTerminalFailure p e)"
    unfolding onTerminalFailure_def assms [symmetric]
    by (intro holds_catch [OF holds_exec [where F = any_error]] holds_return stable_label_safe lets_portsI)
  then show ?thesis by (rule holdsD)
qed

subsection \<open>The life of an action\<close>

text \<open>
  Every delivery is a new process with its own script; a delivery either runs the action or,
  when the runtime has given up, records the failure.
\<close>

record delivery =
  dl_payload :: label_job_data
  dl_failure :: "worker_error option"
  dl_ticks :: "tick list"
  dl_sends :: "send_reply list"
  dl_calls :: "call_reply list"

definition delivered_in :: "delivery \<Rightarrow> world \<Rightarrow> world" where
  "delivered_in x w = w\<lparr>ticks := dl_ticks x, sends := dl_sends x, calls := dl_calls x\<rparr>"

definition run_delivery :: "host \<Rightarrow> bool \<Rightarrow> delivery \<Rightarrow> world \<Rightarrow> world" where
  "run_delivery h hooked x w =
     (case dl_failure x of
        None \<Rightarrow> snd (processLabelJob h hooked (dl_payload x) (delivered_in x w))
      | Some e \<Rightarrow> snd (onTerminalFailure (dl_payload x) e (delivered_in x w)))"

definition run_deliveries :: "host \<Rightarrow> bool \<Rightarrow> delivery list \<Rightarrow> world \<Rightarrow> world" where
  "run_deliveries h hooked xs w = fold (run_delivery h hooked) xs w"

definition delivery_of :: "ident \<Rightarrow> delivery \<Rightarrow> bool" where
  "delivery_of jid x \<longleftrightarrow>
     lj_action (dl_payload x) = jid \<and> (\<forall>w. script_ok (leaves_action jid) (delivered_in x w))"

lemma run_delivery_safe:
  assumes "delivery_of jid x" "label_safe jid (wdb w) (requests w)"
  shows "label_safe jid (wdb (run_delivery h hooked x w)) (requests (run_delivery h hooked x w))"
proof -
  let ?w = "delivered_in x w"
  have w: "script_ok (leaves_action jid) ?w" "label_safe jid (wdb ?w) (requests ?w)"
    using assms by (simp_all add: delivery_of_def delivered_in_def)
  have jid: "jid = lj_action (dl_payload x)" using assms(1) by (simp add: delivery_of_def)
  have end_safe: "label_safe jid (wdb (snd z)) (requests (snd z))"
    if "ends (leaves_action jid) (label_safe jid) (\<lambda>_. label_safe jid) (\<lambda>_. label_safe jid) z" for z :: "'a res \<times> world"
    using that by (cases z; cases "fst z") auto
  show ?thesis
    using end_safe [OF specD [OF strand_process [OF jid] w]] end_safe [OF specD [OF strand_terminal [OF jid] w]]
    by (cases "dl_failure x") (simp_all add: run_delivery_def)
qed

lemma run_deliveries_safe:
  "(\<And>x. x \<in> set xs \<Longrightarrow> delivery_of jid x) \<Longrightarrow> label_safe jid (wdb w) (requests w) \<Longrightarrow>
     label_safe jid (wdb (run_deliveries h hooked xs w)) (requests (run_deliveries h hooked xs w))"
  unfolding run_deliveries_def
  by (induction xs arbitrary: w) (simp_all add: run_delivery_safe)

text \<open>
  C4: what a manual action moved is never lost. Take an action nothing has been sent for and let
  it be delivered any number of times, each delivery dying, failing or succeeding anywhere,
  given up in between, beside writers that leave its row alone except for the enqueuing
  request that still marks a queued row failed. Every request of it the provider applied is
  covered by the message ids stored on its row, the row is never taken for one that did
  not reach the provider, and once it is done it has its undo token and its Activity row.
\<close>

theorem label_never_strands:
  assumes "\<And>x. x \<in> set xs \<Longrightarrow> delivery_of jid x"
    and "own jid (wdb w) = [j]" "jo_direction j = Forward" "\<forall>g \<in> set (requests w). gr_job g \<noteq> jid"
    and "w' = run_deliveries h hooked xs w" "g \<in> set (requests w')" "gr_job g = jid" "gr_applied g"
  shows "\<exists>x. own jid (wdb w') = [x] \<and> set (gr_ids g) \<subseteq> set (jo_ids x) \<and> \<not> neverReachedGmail x \<and>
    (jo_status x = JobDone \<longrightarrow>
       (\<exists>u \<in> set (undos (wdb w')). jo_undo x = Some (un_token u) \<and> un_ids u = jo_ids x) \<and>
       (\<exists>a \<in> set (activity (wdb w')). ac_undo a = jo_undo x \<and> ac_job a = Some jid \<and>
          ac_affected a = length (jo_ids x)))"
proof -
  have "label_safe jid (wdb w) (requests w)"
    unfolding row_is_def
    using assms(2-4) own_id [OF assms(2)] by (intro exI [of _ j]) (simp add: landed_in_def)
  from run_deliveries_safe [OF assms(1) this]
  have "label_safe jid (wdb w') (requests w')" unfolding assms(5) .
  then obtain x where x: "own jid (wdb w') = [x]" "landed_in x (wdb w') (requests w')"
    unfolding row_is_def by blast
  have "set (gr_ids g) \<subseteq> set (jo_ids x)" and acc: "label_accounts (wdb w') x"
    using x(2) assms(6-8) own_id [OF x(1)] by (simp_all add: landed_in_def)
  with x(1) own_id [OF x(1)] show ?thesis
    by (fastforce simp: label_accounts_def label_recorded_def undo_facts_def action_facts_def)
qed

definition label_demo_job :: job_row where
  "label_demo_job =
     \<lparr>jo_id = ''j'', jo_mailbox = ''m'', jo_verb = VDelete, jo_sender_id = ''s'', jo_sender_key = ''k'', jo_ids = [],
      jo_requested = 2, jo_affected = 0, jo_status = Queued, jo_key = ''key'', jo_undo = None, jo_error = None,
      jo_wake = None, jo_direction = Forward, jo_selector = BySender, jo_custom = None, jo_delete_undo = None,
      jo_quiet_until = None, jo_composite = None, jo_root = None, jo_attempt = 0, jo_older = None,
      jo_reach = AllMail, jo_quota = 2, jo_created = 0\<rparr>"

definition label_demo_mail :: "ident \<Rightarrow> string list \<Rightarrow> mail_row" where
  "label_demo_mail i ls =
     \<lparr>mm_id = i, mm_mailbox = ''m'', mm_key = Some ''k'', mm_labels = ls, mm_outbound = False, mm_date = 0, mm_row = i, mm_one_click = False, mm_unsub_url = None, mm_mailto = None\<rparr>"

definition label_demo_db :: db where
  "label_demo_db =
     \<lparr>workspaces = [\<lparr>ws_id = ''w'', ws_tier = Free\<rparr>],
      mailboxes = [\<lparr>mb_id = ''m'', mb_workspace = ''w'', mb_quiet = JNull, mb_active = True, mb_user = ''u'', mb_connected = None\<rparr>],
      rules = [], senders = [], policies = [], matches = [], jobs = [label_demo_job], activity = [], undos = [],
      mail = [label_demo_mail ''a'' [''INBOX''], label_demo_mail ''b'' [''UNREAD'']],
      timeseries = [], decisions = [], outbox = [], inbox_reports = [''m''], sync_states = [], cron_runs = [], db_now = 1000\<rparr>"

definition label_demo_world :: world where
  "label_demo_world =
     \<lparr>wdb = label_demo_db, ticks = [], sends = [], calls = [], uuid_of = (\<lambda>n. replicate n CHR ''i''), uuid_next = 1,
      ensure_label = (\<lambda>l. ''Label_7''), requests = [], enqueued = [], resumes = [], chained = [], requeued = [],
      label_queue = [], wake_queue = [], label_map = [], https = [], posted = []\<rparr>"

definition label_demo_payload :: label_job_data where
  "label_demo_payload = \<lparr>lj_action = ''j'', lj_mailbox = ''m'', lj_confirmed = False\<rparr>"

text \<open>The first process dies as the provider applies the request; the second finishes the action.\<close>

definition dies_then_done :: "delivery list" where
  "dies_then_done =
     map (\<lambda>ss. \<lparr>dl_payload = label_demo_payload, dl_failure = None, dl_ticks = [], dl_sends = ss, dl_calls = []\<rparr>)
       [[SendDies True], []]"

theorem label_never_strands_witness:
  "let w' = run_deliveries utc_host False dies_then_done label_demo_world
   in map gr_applied (requests w') = [True, True] \<and> map jo_status (jobs (wdb w')) = [JobDone] \<and>
      map un_inbox (undos (wdb w')) = [Some [''a'']] \<and>
      (\<forall>g \<in> set (requests w'). set (gr_ids g) \<subseteq> set (concat (map un_ids (undos (wdb w')))))"
proof -
  let ?w' = "run_deliveries utc_host False dies_then_done label_demo_world"
  have run: "map gr_applied (requests ?w') = [True, True]" "map jo_status (jobs (wdb ?w')) = [JobDone]"
    "map un_inbox (undos (wdb ?w')) = [Some [''a'']]" "map gr_job (requests ?w') = [''j'', ''j'']"
    by code_simp+
  have ok: "delivery_of ''j'' x" if "x \<in> set dies_then_done" for x
    using that by (auto simp: dies_then_done_def delivery_of_def label_demo_payload_def script_ok_def delivered_in_def)
  have start: "own ''j'' (wdb label_demo_world) = [label_demo_job]" "jo_direction label_demo_job = Forward"
    "\<forall>g \<in> set (requests label_demo_world). gr_job g \<noteq> ''j''"
    by (simp_all add: own_def label_demo_world_def label_demo_db_def label_demo_job_def)
  have "set (gr_ids g) \<subseteq> set (concat (map un_ids (undos (wdb ?w'))))" if g: "g \<in> set (requests ?w')" for g
  proof -
    have "gr_job g \<in> set (map gr_job (requests ?w'))" "gr_applied g \<in> set (map gr_applied (requests ?w'))"
      using g by simp_all
    then have "gr_job g = ''j''" "gr_applied g" unfolding run by simp_all
    from label_never_strands [OF ok start refl g this] obtain x where x: "own ''j'' (wdb ?w') = [x]"
      and ids: "set (gr_ids g) \<subseteq> set (jo_ids x)"
      and rec: "jo_status x = JobDone \<longrightarrow> (\<exists>u \<in> set (undos (wdb ?w')). jo_undo x = Some (un_token u) \<and> un_ids u = jo_ids x)"
      by blast
    have "x \<in> set (own ''j'' (wdb ?w'))" using x by simp
    then have "jo_status x \<in> set (map jo_status (jobs (wdb ?w')))" by (simp add: own_def)
    then have "jo_status x = JobDone" unfolding run(2) by simp
    with rec obtain u where "u \<in> set (undos (wdb ?w'))" "un_ids u = jo_ids x" by blast
    with ids have "\<exists>u \<in> set (undos (wdb ?w')). set (gr_ids g) \<subseteq> set (un_ids u)" by metis
    then show ?thesis by (simp add: UN_iff subset_iff) blast
  qed
  with run show ?thesis by (simp add: Let_def)
qed

text \<open>The sender becomes Protected between the first look and the first request.\<close>

definition protect_label_tick :: tick where
  "protect_label_tick =
     Tick (setPolicyTx ''1'' ''2'' ''m'' ''k'' \<lparr>pa_policy = None, pa_protected = Some True\<rparr>) StmtOk"


end
