(* ===== verification/Undo_Service.thy ===== *)
theory Undo_Service
  imports Worker_Steps Label_Action
begin

text \<open>
  The undo journal (\<^verbatim>\<open>apps/api/src/undo/undo.service.ts\<close>): issuing a token, whether one can
  still be reverted, the older lock on \<open>executed_at\<close>, the tray of decisions and the deletion-time
  summary; and its janitor (\<^verbatim>\<open>packages/workers/src/undo-expiry.worker.ts\<close>).
\<close>

subsection \<open>Tokens\<close>

definition undo_default_window_days :: nat where
  "undo_default_window_days = min_undo_window_days"

definition defaultExpiresAt :: "millis \<Rightarrow> millis" where
  "defaultExpiresAt now = now + int undo_default_window_days * 24 * 60 * 60 * 1000"

definition issue :: "ident \<Rightarrow> verb \<Rightarrow> ident list \<Rightarrow> undo_payload \<Rightarrow> millis option \<Rightarrow> undo_row wm" where
  "issue mb kind ids payload expiresAt =
     bindw fresh_id (\<lambda>token.
     bindw clock (\<lambda>now.
     let row = (\<lambda>created. \<lparr>un_token = token, un_mailbox = mb, un_kind = kind, un_ids = ids,
           un_expires = (case expiresAt of None \<Rightarrow> defaultExpiresAt now | Some t \<Rightarrow> t),
           un_inbox = up_inbox payload, un_unknown = up_unknown payload, un_all_mail = up_all_mail payload,
           un_created = created, un_executed = None, un_reverted = None\<rparr>)
     in stmt (\<lambda>d. Inr (row (db_now d), d\<lparr>undos := undos d @ [row (db_now d)]\<rparr>))))"

definition undo_of :: "ident \<Rightarrow> ident \<Rightarrow> db \<Rightarrow> undo_row option" where
  "undo_of token mb d = List.find (\<lambda>u. un_token u = token \<and> un_mailbox u = mb) (undos d)"

datatype revertable = ReadyToRevert undo_row | AlreadyReverted undo_row | UndoExpired undo_row | UndoNotFound

definition findRevertable :: "ident \<Rightarrow> ident \<Rightarrow> revertable wm" where
  "findRevertable token mb =
     bindw (query (undo_of token mb)) (\<lambda>r.
       case r of
         None \<Rightarrow> returnw UndoNotFound
       | Some u \<Rightarrow>
           if un_reverted u \<noteq> None then returnw (AlreadyReverted u)
           else bindw clock (\<lambda>now.
             returnw (if un_expires u \<le> now then UndoExpired u else ReadyToRevert u)))"

datatype claim = Claimed undo_row | ClaimReverted undo_row | ClaimExpired undo_row | ClaimNotFound

definition claim_stmt :: "ident \<Rightarrow> db \<Rightarrow> worker_error + (undo_row option \<times> db)" where
  "claim_stmt token d =
     (let p = (\<lambda>u. un_token u = token \<and> un_executed u = None);
          f = (\<lambda>u. u\<lparr>un_executed := Some (db_now d)\<rparr>)
      in Inr (map_option f (List.find p (undos d)), d\<lparr>undos := update_where p f (undos d)\<rparr>))"

definition claimForRevert :: "ident \<Rightarrow> ident \<Rightarrow> claim wm" where
  "claimForRevert token mb =
     bindw (query (undo_of token mb)) (\<lambda>r.
       case r of
         None \<Rightarrow> returnw ClaimNotFound
       | Some u \<Rightarrow>
           if un_reverted u \<noteq> None then returnw (ClaimReverted u)
           else bindw clock (\<lambda>now.
             if un_expires u \<le> now then returnw (ClaimExpired u)
             else bindw (stmt (claim_stmt token)) (\<lambda>claimed.
               case claimed of
                 Some c \<Rightarrow> returnw (Claimed c)
               | None \<Rightarrow>
                   bindw (query (\<lambda>d. List.find (\<lambda>x. un_token x = token) (undos d))) (\<lambda>winner.
                     returnw (ClaimReverted (case winner of None \<Rightarrow> u | Some x \<Rightarrow> x))))))"

definition recordRevertSuccess :: "ident \<Rightarrow> undo_row wm" where
  "recordRevertSuccess token =
     bindw (stmt (\<lambda>d.
       let p = (\<lambda>u. un_token u = token); f = (\<lambda>u. u\<lparr>un_reverted := Some (db_now d)\<rparr>)
       in Inr (map_option f (List.find p (undos d)), d\<lparr>undos := update_where p f (undos d)\<rparr>))) (\<lambda>r.
       case r of None \<Rightarrow> throww (HttpError 404 ''Not Found'') | Some u \<Rightarrow> returnw u)"

subsection \<open>Deletion-time summary\<close>

definition active_undo :: "db \<Rightarrow> undo_row \<Rightarrow> bool" where
  "active_undo d u \<longleftrightarrow> un_reverted u = None \<and> db_now d < un_expires u"

definition user_undos :: "ident \<Rightarrow> db \<Rightarrow> undo_row list" where
  \<comment> \<open>inner join with the user's mailboxes\<close>
  "user_undos user d =
     concat (map (\<lambda>u. map (\<lambda>_. u) (filter (\<lambda>m. mb_id m = un_mailbox u \<and> mb_user m = user) (mailboxes d)))
       (filter (active_undo d) (undos d)))"

definition activeExpirySummaryForUser :: "ident \<Rightarrow> (millis option \<times> nat) wm" where
  "activeExpirySummaryForUser user =
     query (\<lambda>d. let us = user_undos user d
               in (if us = [] then None else Some (Max (set (map un_expires us))), length us))"

subsection \<open>Expiry\<close>

definition expiry_lag_days :: int where
  "expiry_lag_days = 1"

definition past_lag :: "db \<Rightarrow> undo_row \<Rightarrow> bool" where
  "past_lag d u \<longleftrightarrow> un_expires u < db_now d - expiry_lag_days * day_ms"

definition null_token :: "ident list \<Rightarrow> ident option \<Rightarrow> ident option" where
  "null_token gone t = (case t of None \<Rightarrow> None | Some x \<Rightarrow> if x \<in> set gone then None else Some x)"

definition expire_undos :: "db \<Rightarrow> db" where
  \<comment> \<open>the three foreign keys on the token are \<open>ON DELETE SET NULL\<close>\<close>
  "expire_undos d =
     (let gone = map un_token (filter (past_lag d) (undos d))
      in d\<lparr>undos := filter (\<lambda>u. \<not> past_lag d u) (undos d),
           activity := map (\<lambda>a. a\<lparr>ac_undo := null_token gone (ac_undo a)\<rparr>) (activity d),
           jobs := map (\<lambda>j. j\<lparr>jo_undo := null_token gone (jo_undo j)\<rparr>) (jobs d),
           matches := map (\<lambda>m. m\<lparr>ma_token := null_token gone (ma_token m)\<rparr>) (matches d)\<rparr>)"

definition runUndoExpiry :: "nat wm" where
  "runUndoExpiry = stmt (\<lambda>d. Inr (length (filter (past_lag d) (undos d)), expire_undos d))"

subsection \<open>The tray\<close>

text \<open>
  \<open>listActiveDecisions\<close> is one statement whose rows the code then folds into decisions. Its four
  common table expressions are the four definitions \<open>active_rows\<close>, \<open>top_groups\<close>,
  \<open>protected_skips\<close> and \<open>ranked_rows\<close>; a \<open>row_number()\<close> is the position in the sorted list.
\<close>

definition decision_members_max :: nat where
  "decision_members_max = 25"

record tray_row =
  tr_token :: ident
  tr_kind :: verb
  tr_created :: millis
  tr_expires :: millis
  tr_job :: "ident option"
  tr_affected :: "nat option"
  tr_sender :: "ident option"
  tr_group :: ident

definition selector_sender :: "job_row \<Rightarrow> ident option" where
  \<comment> \<open>\<open>selector->>'senderId'\<close>\<close>
  "selector_sender j = (case jo_selector j of BySender \<Rightarrow> Some (jo_sender_id j) | ByMessages \<Rightarrow> None)"

definition tray_row_of :: "undo_row \<Rightarrow> job_row option \<Rightarrow> tray_row" where
  "tray_row_of u jo =
     \<lparr>tr_token = un_token u, tr_kind = un_kind u, tr_created = un_created u, tr_expires = un_expires u,
      tr_job = map_option jo_id jo, tr_affected = map_option jo_affected jo,
      tr_sender = Option.bind jo selector_sender,
      tr_group = (case jo of
          None \<Rightarrow> un_token u
        | Some j \<Rightarrow> (case jo_composite j of None \<Rightarrow> jo_id j | Some c \<Rightarrow> c))\<rparr>"

definition active_rows :: "ident \<Rightarrow> db \<Rightarrow> tray_row list" where
  \<comment> \<open>left join with the forward jobs that carry the token\<close>
  "active_rows mb d =
     concat (map (\<lambda>u.
         let js = filter (\<lambda>j. jo_undo j = Some (un_token u) \<and> jo_direction j = Forward \<and>
                             jo_mailbox j = un_mailbox u) (jobs d)
         in if js = [] then [tray_row_of u None] else map (\<lambda>j. tray_row_of u (Some j)) js)
       (filter (\<lambda>u. un_mailbox u = mb \<and> active_undo d u) (undos d)))"

definition somes :: "'a option list \<Rightarrow> 'a list" where
  "somes xs = concat (map (case_option [] (\<lambda>x. [x])) xs)"

record group_row =
  gp_id :: ident
  gp_newest :: millis
  gp_expires :: millis
  gp_senders :: nat
  gp_members :: nat
  gp_affected :: nat
  gp_kinds :: nat

definition group_members :: "tray_row list \<Rightarrow> ident \<Rightarrow> tray_row list" where
  "group_members rows g = filter (\<lambda>r. tr_group r = g) rows"

definition group_of :: "tray_row list \<Rightarrow> ident \<Rightarrow> group_row" where
  "group_of rows g =
     (let rs = group_members rows g
      in \<lparr>gp_id = g, gp_newest = Max (set (map tr_created rs)), gp_expires = Min (set (map tr_expires rs)),
          gp_senders = card (set (somes (map tr_sender rs))), gp_members = length (somes (map tr_job rs)),
          gp_affected = sum_list (somes (map tr_affected rs)), gp_kinds = card (set (map tr_kind rs))\<rparr>)"

definition top_groups :: "nat \<Rightarrow> tray_row list \<Rightarrow> group_row list" where
  "top_groups limit rows =
     take limit (sort_key (\<lambda>g. (- gp_newest g, gp_id g)) (map (group_of rows) (remdups (map tr_group rows))))"

definition protected_skips :: "ident \<Rightarrow> ident \<Rightarrow> db \<Rightarrow> nat" where
  \<comment> \<open>senders every one of whose jobs of the decision was skipped as Protected\<close>
  "protected_skips mb g d =
     (let ms = filter (\<lambda>j. (jo_id j = g \<or> jo_composite j = Some g) \<and> jo_mailbox j = mb \<and>
                          jo_direction j = Forward \<and> selector_sender j \<noteq> None) (jobs d)
      in length (filter (\<lambda>s. list_all (\<lambda>j. jo_status j = JobDone \<and> jo_error j = Some sender_protected_code)
                              (filter (\<lambda>j. selector_sender j = Some s) ms))
                  (remdups (somes (map selector_sender ms)))))"

definition nulls_last :: "nat option \<Rightarrow> nat \<times> int" where
  \<comment> \<open>\<open>desc nulls last\<close>\<close>
  "nulls_last x = (case x of None \<Rightarrow> (1, 0) | Some n \<Rightarrow> (0, - int n))"

definition size_key :: "tray_row \<Rightarrow> (nat \<times> int) \<times> string" where
  "size_key r = (nulls_last (tr_affected r), tr_token r)"

definition lead_key :: "tray_row \<Rightarrow> nat \<times> (nat \<times> int) \<times> string" where
  \<comment> \<open>the anchor first, a row without a job last\<close>
  "lead_key r =
     (case tr_job r of None \<Rightarrow> 2 | Some j \<Rightarrow> if j = tr_group r then 0 else 1, nulls_last (tr_affected r), tr_token r)"

record ranked_row =
  rk_row :: tray_row
  rk_size :: nat
  rk_lead :: bool

definition ranked_rows :: "tray_row list \<Rightarrow> ranked_row list" where
  \<comment> \<open>one partition, in the order of \<open>size_rank\<close>\<close>
  "ranked_rows rs =
     (let numbered = enumerate 1 (sort_key size_key rs);
          lead = fst (hd (sort_key (\<lambda>x. lead_key (snd x)) numbered))
      in map (\<lambda>(i, r). \<lparr>rk_row = r, rk_size = i, rk_lead = (i = lead)\<rparr>) numbered)"

definition sender_label :: "ident \<Rightarrow> db \<Rightarrow> ident option \<Rightarrow> string option" where
  \<comment> \<open>\<open>senderName ?? senderEmail\<close>, the name only when it is not empty\<close>
  "sender_label mb d sid =
     Option.bind sid (\<lambda>i.
       map_option (\<lambda>s. if se_name s = '''' then se_email s else se_name s)
         (List.find (\<lambda>s. se_id s = i \<and> se_mailbox s = mb) (senders d)))"

record joined_row =
  jr_group :: group_row
  jr_skipped :: nat
  jr_ranked :: ranked_row
  jr_sender :: "string option"

definition decision_rows :: "ident \<Rightarrow> nat \<Rightarrow> db \<Rightarrow> joined_row list" where
  "decision_rows mb limit d =
     (let rows = active_rows mb d
      in concat (map (\<lambda>g.
           map (\<lambda>r. \<lparr>jr_group = g, jr_skipped = protected_skips mb (gp_id g) d, jr_ranked = r,
                     jr_sender = sender_label mb d (tr_sender (rk_row r))\<rparr>)
             (filter (\<lambda>r. rk_size r \<le> decision_members_max \<or> rk_lead r)
               (ranked_rows (group_members rows (gp_id g)))))
         (top_groups limit rows)))"

record decision_member =
  dm_token :: ident
  dm_kind :: verb
  dm_sender :: "string option"
  dm_affected :: nat

record undo_decision =
  dc_group :: ident
  dc_token :: ident
  dc_kind :: verb
  dc_created :: millis
  dc_expires :: millis
  dc_senders :: nat
  dc_member_count :: nat
  dc_affected :: "nat option"
  dc_mixed :: bool
  dc_skipped :: nat
  dc_members :: "decision_member list"

definition new_decision :: "joined_row \<Rightarrow> undo_decision" where
  "new_decision x =
     (let g = jr_group x; r = rk_row (jr_ranked x)
      in \<lparr>dc_group = gp_id g, dc_token = tr_token r, dc_kind = tr_kind r, dc_created = gp_newest g,
          dc_expires = gp_expires g, dc_senders = gp_senders g, dc_member_count = gp_members g,
          dc_affected = (if gp_members g = 0 then None else Some (gp_affected g)),
          dc_mixed = (1 < gp_kinds g), dc_skipped = jr_skipped x, dc_members = []\<rparr>)"

definition member_of :: "joined_row \<Rightarrow> decision_member" where
  "member_of x =
     (let r = rk_row (jr_ranked x)
      in \<lparr>dm_token = tr_token r, dm_kind = tr_kind r, dm_sender = jr_sender x,
          dm_affected = (case tr_affected r of None \<Rightarrow> 0 | Some n \<Rightarrow> n)\<rparr>)"

definition add_row :: "joined_row \<Rightarrow> undo_decision \<Rightarrow> undo_decision" where
  "add_row x dc =
     (let r = rk_row (jr_ranked x);
          dc1 = (if rk_lead (jr_ranked x) then dc\<lparr>dc_token := tr_token r, dc_kind := tr_kind r\<rparr> else dc)
      in if tr_job r \<noteq> None \<and> rk_size (jr_ranked x) \<le> decision_members_max
         then dc1\<lparr>dc_members := dc_members dc1 @ [member_of x]\<rparr> else dc1)"

fun upsert_decision :: "joined_row \<Rightarrow> undo_decision list \<Rightarrow> undo_decision list" where
  \<comment> \<open>the \<open>Map\<close>, in insertion order\<close>
  "upsert_decision x [] = [add_row x (new_decision x)]"
| "upsert_decision x (dc # dcs) =
     (if dc_group dc = gp_id (jr_group x) then add_row x dc # dcs else dc # upsert_decision x dcs)"

definition listActiveDecisions :: "ident \<Rightarrow> nat \<Rightarrow> undo_decision list wm" where
  "listActiveDecisions mb limit =
     query (\<lambda>d. fold upsert_decision (decision_rows mb limit d) [])"

end
