(* ===== verification/Undo_Tray.thy ===== *)
theory Undo_Tray
  imports Undo_Service
begin

text \<open>
  The tray is exact: folding the rows of the one statement gives, for every group, the decision
  one would write down for that group alone.
\<close>

subsection \<open>The decision of one group\<close>

definition tray_member :: "ident \<Rightarrow> db \<Rightarrow> tray_row \<Rightarrow> decision_member" where
  "tray_member mb d r =
     \<lparr>dm_token = tr_token r, dm_kind = tr_kind r, dm_sender = sender_label mb d (tr_sender r),
      dm_affected = (case tr_affected r of None \<Rightarrow> 0 | Some n \<Rightarrow> n)\<rparr>"

definition tray_decision :: "ident \<Rightarrow> db \<Rightarrow> group_row \<Rightarrow> undo_decision" where
  "tray_decision mb d g =
     (let rs = sort_key size_key (group_members (active_rows mb d) (gp_id g));
          lead = hd (sort_key lead_key rs)
      in \<lparr>dc_group = gp_id g, dc_token = tr_token lead, dc_kind = tr_kind lead, dc_created = gp_newest g,
          dc_expires = gp_expires g, dc_senders = gp_senders g, dc_member_count = gp_members g,
          dc_affected = (if gp_members g = 0 then None else Some (gp_affected g)),
          dc_mixed = (1 < gp_kinds g), dc_skipped = protected_skips mb (gp_id g) d,
          dc_members = map (tray_member mb d)
            (filter (\<lambda>r. tr_job r \<noteq> None) (take decision_members_max rs))\<rparr>)"

subsection \<open>Sorting and numbering\<close>

lemma map_insort_key: "map g (insort_key (\<lambda>x. f (g x)) x xs) = insort_key f (g x) (map g xs)"
  by (induction xs) auto

lemma map_sort_key: "map g (sort_key (\<lambda>x. f (g x)) xs) = sort_key f (map g xs)"
  by (induction xs) (simp_all add: map_insort_key)

lemma filter_enumerate: "filter (\<lambda>x. fst x \<le> m) (enumerate k xs) = enumerate k (take (Suc m - k) xs)"
proof (induction xs arbitrary: k)
  case (Cons x xs)
  show ?case
  proof (cases "k \<le> m")
    case True
    then have "Suc m - k = Suc (Suc m - Suc k)" by simp
    with True Cons.IH [of "Suc k"] show ?thesis by simp
  next
    case False
    have "filter (\<lambda>x. fst x \<le> m) (enumerate (Suc k) xs) = []"
      using False by (auto simp: filter_empty_conv in_set_enumerate_eq)
    with False show ?thesis by simp
  qed
qed simp

lemma enumerate_unique:
  assumes "(i, x) \<in> set (enumerate k xs)" "(i, y) \<in> set (enumerate k xs)"
  shows "x = y"
  using assms by (auto simp: in_set_enumerate_eq)

subsection \<open>Folding the rows\<close>

lemma upsert_new:
  "gp_id (jr_group x) \<notin> dc_group ` set acc \<Longrightarrow> upsert_decision x acc = acc @ [add_row x (new_decision x)]"
  by (induction acc) auto

lemma upsert_last:
  "dc_group dc = gp_id (jr_group x) \<Longrightarrow> gp_id (jr_group x) \<notin> dc_group ` set acc \<Longrightarrow>
     upsert_decision x (acc @ [dc]) = acc @ [add_row x dc]"
  by (induction acc) auto

lemma add_row_group [simp]: "dc_group (add_row x dc) = dc_group dc"
  by (simp add: add_row_def Let_def)

lemma fold_add_row_group [simp]: "dc_group (fold add_row xs dc) = dc_group dc"
  by (induction xs arbitrary: dc) simp_all

lemma fold_block_last:
  assumes "\<And>x. x \<in> set xs \<Longrightarrow> gp_id (jr_group x) = g" "dc_group dc = g" "g \<notin> dc_group ` set acc"
  shows "fold upsert_decision xs (acc @ [dc]) = acc @ [fold add_row xs dc]"
  using assms by (induction xs arbitrary: dc) (simp_all add: upsert_last)

lemma fold_block:
  assumes "\<And>x. x \<in> set xs \<Longrightarrow> gp_id (jr_group x) = g" "xs \<noteq> []" "g \<notin> dc_group ` set acc"
  shows "fold upsert_decision xs acc = acc @ [fold add_row xs (new_decision (hd xs))]"
proof -
  obtain x ys where xs: "xs = x # ys" using assms(2) by (cases xs) auto
  have "dc_group (add_row x (new_decision x)) = g" using assms(1) [of x] by (simp add: xs new_decision_def Let_def)
  with fold_block_last [of ys g "add_row x (new_decision x)" acc] assms show ?thesis
    by (simp add: xs upsert_new)
qed

lemma fold_blocks:
  assumes "\<And>b x. b \<in> set bs \<Longrightarrow> x \<in> set (rows b) \<Longrightarrow> gp_id (jr_group x) = key b"
    and "\<And>b. b \<in> set bs \<Longrightarrow> rows b \<noteq> []" "distinct (map key bs)"
    and "\<And>b. b \<in> set bs \<Longrightarrow> key b \<notin> dc_group ` set acc"
  shows "fold upsert_decision (concat (map rows bs)) acc =
    acc @ map (\<lambda>b. fold add_row (rows b) (new_decision (hd (rows b)))) bs"
  using assms
proof (induction bs arbitrary: acc)
  case (Cons b bs)
  let ?dc = "fold add_row (rows b) (new_decision (hd (rows b)))"
  have first: "fold upsert_decision (rows b) acc = acc @ [?dc]"
    by (rule fold_block [where g = "key b"]) (use Cons.prems in auto)
  have "dc_group ?dc = key b"
    using Cons.prems(1,2) [of b] by (simp add: new_decision_def Let_def)
  moreover have "key b' \<noteq> key b" if "b' \<in> set bs" for b'
    using Cons.prems(3) that by (metis distinct.simps(2) image_eqI list.simps(9) set_map)
  ultimately have "fold upsert_decision (concat (map rows bs)) (acc @ [?dc]) =
      (acc @ [?dc]) @ map (\<lambda>b. fold add_row (rows b) (new_decision (hd (rows b)))) bs"
    by (intro Cons.IH) (use Cons.prems in auto)
  with first show ?case by simp
qed simp

definition listed :: "joined_row \<Rightarrow> bool" where
  "listed x \<longleftrightarrow> tr_job (rk_row (jr_ranked x)) \<noteq> None \<and> rk_size (jr_ranked x) \<le> decision_members_max"

lemma add_row_eq:
  assumes "rk_lead (jr_ranked x) \<Longrightarrow> rk_row (jr_ranked x) = r"
  shows "add_row x dc =
    (if rk_lead (jr_ranked x) then dc\<lparr>dc_token := tr_token r, dc_kind := tr_kind r\<rparr> else dc)
      \<lparr>dc_members := dc_members dc @ (if listed x then [member_of x] else [])\<rparr>"
  using assms by (auto simp: add_row_def Let_def listed_def)

lemma fold_add_row:
  assumes "\<And>x. x \<in> set xs \<Longrightarrow> rk_lead (jr_ranked x) \<Longrightarrow> rk_row (jr_ranked x) = r"
  shows "fold add_row xs dc =
    (if \<exists>x \<in> set xs. rk_lead (jr_ranked x) then dc\<lparr>dc_token := tr_token r, dc_kind := tr_kind r\<rparr> else dc)
      \<lparr>dc_members := dc_members dc @ map member_of (filter listed xs)\<rparr>"
  using assms
proof (induction xs arbitrary: dc)
  case (Cons x xs)
  have rest: "fold add_row xs (add_row x dc) =
      (if \<exists>x \<in> set xs. rk_lead (jr_ranked x)
       then (add_row x dc)\<lparr>dc_token := tr_token r, dc_kind := tr_kind r\<rparr> else add_row x dc)
        \<lparr>dc_members := dc_members (add_row x dc) @ map member_of (filter listed xs)\<rparr>"
    by (rule Cons.IH) (use Cons.prems in auto)
  have first: "add_row x dc =
      (if rk_lead (jr_ranked x) then dc\<lparr>dc_token := tr_token r, dc_kind := tr_kind r\<rparr> else dc)
        \<lparr>dc_members := dc_members dc @ (if listed x then [member_of x] else [])\<rparr>"
    by (rule add_row_eq) (use Cons.prems in simp)
  show ?case
    by (cases "rk_lead (jr_ranked x)"; cases "listed x"; simp only: fold_simps rest; simp add: first)
qed simp

subsection \<open>The rows of one group\<close>

definition block :: "ident \<Rightarrow> db \<Rightarrow> group_row \<Rightarrow> joined_row list" where
  "block mb d g =
     map (\<lambda>r. \<lparr>jr_group = g, jr_skipped = protected_skips mb (gp_id g) d, jr_ranked = r,
               jr_sender = sender_label mb d (tr_sender (rk_row r))\<rparr>)
       (filter (\<lambda>r. rk_size r \<le> decision_members_max \<or> rk_lead r)
         (ranked_rows (group_members (active_rows mb d) (gp_id g))))"

lemma decision_rows_block: "decision_rows mb limit d = concat (map (block mb d) (top_groups limit (active_rows mb d)))"
  by (simp add: decision_rows_def block_def [abs_def] Let_def)

lemma sort_key_Nil_iff: "sort_key f xs = [] \<longleftrightarrow> xs = []"
  by (metis length_0_conv length_sort)

lemma ranked_lead:
  assumes "rs \<noteq> []"
  defines "lead \<equiv> hd (sort_key lead_key (sort_key size_key rs))"
  shows "\<exists>x \<in> set (ranked_rows rs). rk_lead x" "x \<in> set (ranked_rows rs) \<Longrightarrow> rk_lead x \<Longrightarrow> rk_row x = lead"
proof -
  let ?n = "enumerate 1 (sort_key size_key rs)"
  define i where "i = hd (sort_key (\<lambda>x. lead_key (snd x)) ?n)"
  have "length ?n = length rs" by simp
  with assms(1) have ne: "?n \<noteq> []" by (metis length_0_conv)
  then have ne': "sort_key (\<lambda>x. lead_key (snd x)) ?n \<noteq> []" by (simp add: sort_key_Nil_iff)
  then have mem: "i \<in> set ?n" unfolding i_def using hd_in_set [OF ne'] by simp
  have "map snd (sort_key (\<lambda>x. lead_key (snd x)) ?n) = sort_key lead_key (sort_key size_key rs)"
    using map_sort_key [of snd lead_key ?n] by simp
  then have row: "snd i = lead" unfolding lead_def i_def using hd_map [OF ne'] by metis
  have ranked: "ranked_rows rs = map (\<lambda>(k, r). \<lparr>rk_row = r, rk_size = k, rk_lead = (k = fst i)\<rparr>) ?n"
    by (simp add: ranked_rows_def Let_def i_def)
  show "\<exists>x \<in> set (ranked_rows rs). rk_lead x"
    unfolding ranked using mem by (auto intro!: bexI [of _ i] split: prod.split)
  show "rk_row x = lead" if "x \<in> set (ranked_rows rs)" "rk_lead x"
  proof -
    have "x \<in> (\<lambda>(k, r). \<lparr>rk_row = r, rk_size = k, rk_lead = (k = fst i)\<rparr>) ` set ?n"
      using that(1) unfolding ranked set_map .
    then obtain z where z: "z \<in> set ?n" "x = (\<lambda>(k, r). \<lparr>rk_row = r, rk_size = k, rk_lead = (k = fst i)\<rparr>) z"
      by (rule imageE)
    obtain k r where kr: "z = (k, r)" by (cases z)
    have k: "(k, r) \<in> set ?n" "x = \<lparr>rk_row = r, rk_size = k, rk_lead = (k = fst i)\<rparr>"
      using z unfolding kr by simp_all
    from k that(2) have "(fst i, r) \<in> set ?n" by simp
    moreover from mem have "(fst i, snd i) \<in> set ?n" by simp
    ultimately show ?thesis using row k(2) enumerate_unique [of "fst i" r 1 "sort_key size_key rs" "snd i"] by simp
  qed
qed

lemma filter_block_rows:
  "filter listed (block mb d g) =
     map (\<lambda>r. \<lparr>jr_group = g, jr_skipped = protected_skips mb (gp_id g) d, jr_ranked = r,
               jr_sender = sender_label mb d (tr_sender (rk_row r))\<rparr>)
       (filter (\<lambda>r. tr_job (rk_row r) \<noteq> None \<and> rk_size r \<le> decision_members_max)
         (ranked_rows (group_members (active_rows mb d) (gp_id g))))"
  by (simp add: block_def filter_map comp_def listed_def)
    (rule arg_cong [where f = "map _"], rule filter_cong, auto)

lemma member_rows:
  "map rk_row (filter (\<lambda>r. tr_job (rk_row r) \<noteq> None \<and> rk_size r \<le> m) (ranked_rows rs)) =
     filter (\<lambda>r. tr_job r \<noteq> None) (take m (sort_key size_key rs))"
proof -
  let ?n = "enumerate 1 (sort_key size_key rs)"
  have "map rk_row (filter (\<lambda>r. tr_job (rk_row r) \<noteq> None \<and> rk_size r \<le> m) (ranked_rows rs)) =
      map snd (filter (\<lambda>x. tr_job (snd x) \<noteq> None) (filter (\<lambda>x. fst x \<le> m) ?n))"
    unfolding ranked_rows_def Let_def by (simp add: filter_map comp_def case_prod_beta conj_commute)
  also have "\<dots> = filter (\<lambda>r. tr_job r \<noteq> None) (map snd (filter (\<lambda>x. fst x \<le> m) ?n))"
    by (simp add: filter_map comp_def)
  finally show ?thesis by (simp add: filter_enumerate)
qed

lemma block_decision:
  assumes "group_members (active_rows mb d) (gp_id g) \<noteq> []"
  shows "block mb d g \<noteq> []" "fold add_row (block mb d g) (new_decision (hd (block mb d g))) = tray_decision mb d g"
proof -
  let ?rs = "group_members (active_rows mb d) (gp_id g)"
  define lead where "lead = hd (sort_key lead_key (sort_key size_key ?rs))"
  note ranked = ranked_lead [OF assms]
  obtain x where x: "x \<in> set (ranked_rows ?rs)" "rk_lead x" using ranked(1) by blast
  then have ex: "\<exists>y \<in> set (block mb d g). rk_lead (jr_ranked y)" by (auto simp: block_def)
  then show ne: "block mb d g \<noteq> []" by auto
  have one: "rk_row (jr_ranked y) = lead" if "y \<in> set (block mb d g)" "rk_lead (jr_ranked y)" for y
    using that ranked(2) by (auto simp: block_def lead_def)
  have group: "jr_group y = g" "jr_skipped y = protected_skips mb (gp_id g) d" if "y \<in> set (block mb d g)" for y
    using that by (auto simp: block_def)
  have "member_of y = tray_member mb d (rk_row r)"
    if "y = \<lparr>jr_group = g, jr_skipped = k, jr_ranked = r, jr_sender = sender_label mb d (tr_sender (rk_row r))\<rparr>" for y k r
    by (simp add: that member_of_def tray_member_def Let_def)
  then have "map member_of (filter listed (block mb d g)) =
      map (tray_member mb d) (map rk_row (filter (\<lambda>r. tr_job (rk_row r) \<noteq> None \<and> rk_size r \<le> decision_members_max) (ranked_rows ?rs)))"
    unfolding filter_block_rows by (simp add: comp_def)
  then have members: "map member_of (filter listed (block mb d g)) =
      map (tray_member mb d) (filter (\<lambda>r. tr_job r \<noteq> None) (take decision_members_max (sort_key size_key ?rs)))"
    unfolding member_rows .
  have "fold add_row (block mb d g) (new_decision (hd (block mb d g))) =
      (new_decision (hd (block mb d g)))\<lparr>dc_token := tr_token lead, dc_kind := tr_kind lead,
        dc_members := dc_members (new_decision (hd (block mb d g))) @ map member_of (filter listed (block mb d g))\<rparr>"
    using fold_add_row [of "block mb d g" lead "new_decision (hd (block mb d g))"] one ex by simp
  also have "\<dots> = tray_decision mb d g"
    using group [OF hd_in_set [OF ne]]
    by (simp add: new_decision_def tray_decision_def Let_def members lead_def)
  finally show "fold add_row (block mb d g) (new_decision (hd (block mb d g))) = tray_decision mb d g" .
qed

lemma top_groups_members:
  assumes "g \<in> set (top_groups limit rows)"
  shows "group_members rows (gp_id g) \<noteq> []"
proof -
  have "g \<in> set (map (group_of rows) (remdups (map tr_group rows)))"
    using assms set_take_subset unfolding top_groups_def by fastforce
  then obtain r where "r \<in> set rows" "gp_id g = tr_group r" by (auto simp: group_of_def Let_def)
  then show ?thesis by (auto simp: group_members_def filter_empty_conv)
qed

lemma top_groups_distinct: "distinct (map gp_id (top_groups limit rows))"
proof -
  have "map gp_id (map (group_of rows) (remdups (map tr_group rows))) = remdups (map tr_group rows)"
    by (simp add: comp_def group_of_def Let_def)
  then have "distinct (map gp_id (map (group_of rows) (remdups (map tr_group rows))))" by simp
  then have "distinct (map gp_id (sort_key (\<lambda>g. (- gp_newest g, gp_id g)) (map (group_of rows) (remdups (map tr_group rows)))))"
    using comp_inj_on_iff [THEN iffD1] inj_on_imageI
    by (metis (no_types, lifting) distinct_map distinct_sort set_sort)
  then show ?thesis unfolding top_groups_def by (metis distinct_take take_map)
qed


end
