(* ===== verification/Undo_Revert.thy ===== *)
theory Undo_Revert
  imports Undo_Service
begin

text \<open>
  Reverting a decision: the undo controller (\<^verbatim>\<open>apps/api/src/undo/undo.controller.ts\<close>) and the part
  of \<^verbatim>\<open>apps/api/src/actions/actions.service.ts\<close> it rests on, which writes a reverse action for every
  forward action of the decision and puts it on the action queue. The worker of
  \<open>Label_Action\<close> runs those.

  The queue is BullMQ: an add under an id the queue still holds does nothing.
\<close>

subsection \<open>The queue\<close>

record api_env =
  ae_queue :: bool \<comment> \<open>the queue is configured\<close>
  ae_digest :: "string \<Rightarrow> string" \<comment> \<open>SHA-256, in hex\<close>

definition queue_add :: "string \<Rightarrow> ident \<Rightarrow> bool \<Rightarrow> bool \<Rightarrow> world \<Rightarrow> world" where
  "queue_add qid aid confirmed took w =
     (if took \<and> \<not> list_ex (\<lambda>x. fst x = qid) (label_queue w)
      then w\<lparr>label_queue := label_queue w @ [(qid, aid, confirmed)]\<rparr> else w)"

definition queue_remove :: "string \<Rightarrow> bool \<Rightarrow> world \<Rightarrow> world" where
  "queue_remove qid took w =
     (if took then w\<lparr>label_queue := filter (\<lambda>x. fst x \<noteq> qid) (label_queue w)\<rparr> else w)"

definition queue_holds :: "string \<Rightarrow> bool wm" where
  "queue_holds qid w = (Ok (list_ex (\<lambda>x. fst x = qid) (label_queue w)), w)"

definition reverseQueueJobId :: "api_env \<Rightarrow> ident \<Rightarrow> string" where
  "reverseQueueJobId env token = ''revert-'' @ ae_digest env (''declutrmail:undo:v1:'' @ token)"

definition enqueueJob :: "api_env \<Rightarrow> ident \<Rightarrow> ident \<Rightarrow> string \<Rightarrow> bool \<Rightarrow> unit wm" where
  "enqueueJob env aid mb qid confirmed =
     (if \<not> ae_queue env then throww (HttpError 503 ''ACTION_QUEUE_UNAVAILABLE'')
      else catchw (port_call (queue_add qid aid confirmed))
             (\<lambda>_. bindw (exec (markEnqueueFailed aid mb)) (\<lambda>_. throww (HttpError 503 ''ENQUEUE_FAILED''))))"

subsection \<open>Rows\<close>

definition insert_action_stmt :: "job_row \<Rightarrow> db \<Rightarrow> worker_error + (job_row option \<times> db)" where
  \<comment> \<open>\<open>on conflict (idempotency_key) do nothing returning *\<close>\<close>
  "insert_action_stmt j d =
     (if list_ex (\<lambda>x. jo_key x = jo_key j) (jobs d) then Inr (None, d)
      else if list_ex (\<lambda>x. jo_id x = jo_id j) (jobs d) then Inl TransientError
      else let r = j\<lparr>jo_created := db_now d\<rparr> in Inr (Some r, d\<lparr>jobs := jobs d @ [r]\<rparr>))"

definition insertJob :: "job_row \<Rightarrow> (bool \<times> job_row) wm" where
  \<comment> \<open>whether it existed, and the row\<close>
  "insertJob j =
     bindw (stmt (insert_action_stmt j)) (\<lambda>inserted.
       case inserted of
         Some r \<Rightarrow> returnw (False, r)
       | None \<Rightarrow>
           bindw (query (\<lambda>d. List.find (\<lambda>x. jo_key x = jo_key j \<and> jo_mailbox x = jo_mailbox j) (jobs d)))
             (\<lambda>r. case r of
                 None \<Rightarrow> throww (HttpError 409 ''IDEMPOTENCY_KEY_CONFLICT'')
               | Some x \<Rightarrow> returnw (True, x)))"

definition revert_key :: "ident \<Rightarrow> string" where
  "revert_key token = ''revert-'' @ token"

definition reverse_row :: "ident \<Rightarrow> ident \<Rightarrow> job_row \<Rightarrow> ident \<Rightarrow> job_row" where
  \<comment> \<open>the selector is copied whole, with the provenance and placement it carries\<close>
  "reverse_row rid mb f token =
     \<lparr>jo_id = rid, jo_mailbox = mb, jo_verb = jo_verb f, jo_sender_id = jo_sender_id f,
      jo_sender_key = jo_sender_key f, jo_ids = jo_ids f, jo_requested = length (jo_ids f), jo_affected = 0,
      jo_status = Queued, jo_key = revert_key token, jo_undo = Some token, jo_error = None, jo_wake = jo_wake f,
      jo_direction = Reverse, jo_selector = jo_selector f, jo_custom = jo_custom f,
      jo_delete_undo = jo_delete_undo f, jo_quiet_until = jo_quiet_until f, jo_composite = None, jo_root = None,
      jo_attempt = 0, jo_older = None, jo_reach = jo_reach f, jo_quota = 0, jo_created = 0\<rparr>"

subsection \<open>Enqueueing a revert\<close>

definition reap :: "string \<Rightarrow> unit wm" where
  \<comment> \<open>a stale queue entry; a failure is only logged\<close>
  "reap qid =
     catchw (bindw (port_call no_effect) (\<lambda>_.
             bindw (queue_holds qid) (\<lambda>found.
             if found then port_call (queue_remove qid) else returnw ())))
       (\<lambda>_. returnw ())"

definition rearm :: "job_row \<Rightarrow> job_row" where
  "rearm j = j\<lparr>jo_status := Queued, jo_error := None, jo_affected := 0\<rparr>"

definition enqueueRevert :: "api_env \<Rightarrow> ident \<Rightarrow> ident \<Rightarrow> job_row \<Rightarrow> (ident \<times> job_status) wm" where
  "enqueueRevert env mb token f =
     (if \<not> ae_queue env then throww (HttpError 503 ''QUEUE_UNAVAILABLE'')
      else bindw fresh_id (\<lambda>rid.
        bindw (insertJob (reverse_row rid mb f token)) (\<lambda>(existing, row).
        let qid = reverseQueueJobId env token in
        if existing \<and> jo_status row = JobDone then returnw (jo_id row, JobDone)
        else if existing
        then bindw (exec (update_job (jo_id row) rearm)) (\<lambda>_.
             bindw (reap qid) (\<lambda>_.
             bindw (reap (revert_key token)) (\<lambda>_.
             bindw (enqueueJob env (jo_id row) mb qid False) (\<lambda>_.
             returnw (jo_id row, Queued)))))
        else bindw (enqueueJob env (jo_id row) mb qid False) (\<lambda>_. returnw (jo_id row, Queued)))))"

definition issuing_job :: "ident \<Rightarrow> ident \<Rightarrow> db \<Rightarrow> job_row option" where
  "issuing_job mb token d =
     List.find (\<lambda>j. jo_undo j = Some token \<and> jo_mailbox j = mb \<and> jo_direction j = Forward) (jobs d)"

definition primary_id :: "job_row \<Rightarrow> ident" where
  "primary_id f = (case jo_composite f of None \<Rightarrow> jo_id f | Some c \<Rightarrow> c)"

definition decision_jobs :: "ident \<Rightarrow> ident \<Rightarrow> db \<Rightarrow> job_row list" where
  "decision_jobs mb primary d =
     filter (\<lambda>j. jo_mailbox j = mb \<and> jo_direction j = Forward \<and>
                 (jo_id j = primary \<or> jo_composite j = Some primary)) (jobs d)"

definition still_running :: "job_row \<Rightarrow> bool" where
  "still_running j \<longleftrightarrow> jo_verb j \<noteq> VUnsubscribe \<and> (jo_status j = Queued \<or> jo_status j = Executing)"

record revert_handle =
  rv_token :: ident
  rv_action :: ident
  rv_status :: job_status

definition revert_sibling :: "api_env \<Rightarrow> ident \<Rightarrow> job_row \<Rightarrow> revert_handle list \<Rightarrow> revert_handle list wm" where
  \<comment> \<open>an action that changed nothing, or an unsubscribe, has nothing to revert\<close>
  "revert_sibling env mb f results =
     (case jo_undo f of
        None \<Rightarrow> returnw results
      | Some token \<Rightarrow>
          if jo_verb f = VUnsubscribe then returnw results
          else bindw (enqueueRevert env mb token f) (\<lambda>(aid, st).
                 returnw (results @ [\<lparr>rv_token = token, rv_action = aid, rv_status = st\<rparr>])))"

definition enqueueCompositeRevert :: "api_env \<Rightarrow> ident \<Rightarrow> ident \<Rightarrow> bool \<Rightarrow> revert_handle list wm" where
  \<comment> \<open>the flag: this action only, not its decision\<close>
  "enqueueCompositeRevert env mb token only =
     (if \<not> ae_queue env then throww (HttpError 503 ''QUEUE_UNAVAILABLE'')
      else bindw (query (issuing_job mb token)) (\<lambda>r.
        case r of
          None \<Rightarrow> throww (HttpError 404 ''ACTION_NOT_FOUND'')
        | Some f \<Rightarrow>
            if only
            then (if jo_verb f = VUnsubscribe then throww (HttpError 400 ''Unsubscribe cannot be reversed.'')
                  else bindw (enqueueRevert env mb token f) (\<lambda>(aid, st).
                         returnw [\<lparr>rv_token = token, rv_action = aid, rv_status = st\<rparr>]))
            else bindw (query (decision_jobs mb (primary_id f))) (\<lambda>siblings.
                   if list_ex still_running siblings then throww (HttpError 409 ''ACTION_STILL_RUNNING'')
                   else foreachw (revert_sibling env mb)
                          (sort_key (\<lambda>j. if jo_id j = primary_id f then (0::nat) else 1) siblings) [])))"

definition reverted_token :: "ident \<Rightarrow> db \<Rightarrow> ident option \<Rightarrow> millis option" where
  "reverted_token mb d t =
     Option.bind t (\<lambda>x. Option.bind (List.find (\<lambda>u. un_token u = x \<and> un_mailbox u = mb) (undos d)) un_reverted)"

definition hasUnrevertedCompositeSiblings :: "ident \<Rightarrow> ident \<Rightarrow> bool wm" where
  "hasUnrevertedCompositeSiblings mb token =
     bindw (query (issuing_job mb token)) (\<lambda>r.
       case r of
         None \<Rightarrow> returnw False
       | Some f \<Rightarrow>
           query (\<lambda>d. list_ex (\<lambda>s. jo_verb s \<noteq> VUnsubscribe \<and>
               (jo_status s = Queued \<or> jo_status s = Executing \<or>
                (jo_undo s \<noteq> None \<and> reverted_token mb d (jo_undo s) = None)))
             (decision_jobs mb (primary_id f) d)))"

subsection \<open>Polling\<close>

record undo_status =
  us_action :: ident
  us_verb :: verb
  us_status :: job_status
  us_requested :: nat
  us_affected :: nat
  us_reverted :: "millis option"
  us_error :: "string option"

definition undo_status_rows :: "ident list \<Rightarrow> ident \<Rightarrow> db \<Rightarrow> (job_row \<times> millis option) list" where
  "undo_status_rows ids mb d =
     map (\<lambda>j. (j, reverted_token mb d (jo_undo j)))
       (filter (\<lambda>j. jo_id j \<in> set ids \<and> jo_mailbox j = mb \<and> jo_direction j = Reverse) (jobs d))"

definition terminal_status :: "job_status \<Rightarrow> bool" where
  "terminal_status s \<longleftrightarrow> s = JobDone \<or> s = JobFailed"

definition undo_status_of :: "ident list \<Rightarrow> (job_row \<times> millis option) list \<Rightarrow> worker_error + undo_status" where
  "undo_status_of ids rows =
     (if length rows \<noteq> length ids then Inl (HttpError 404 ''ACTION_NOT_FOUND'')
      else let over = list_all (\<lambda>(j, _). terminal_status (jo_status j)) rows;
               failed = List.find (\<lambda>(j, _). jo_status j = JobFailed) rows
           in if over \<and> failed = None \<and> list_ex (\<lambda>(_, t). t = None) rows
              then Inl (HttpError 503 ''UNDO_STATUS_UNCONFIRMED'')
              else Inr \<lparr>us_action = hd ids, us_verb = jo_verb (fst (hd rows)),
                        us_status = (if over then (if failed = None then JobDone else JobFailed) else Executing),
                        us_requested = sum_list (map (\<lambda>(j, _). jo_requested j) rows),
                        us_affected = sum_list (map (\<lambda>(j, _). jo_affected j) rows),
                        us_reverted = (if over \<and> failed = None then Some (Max (set (somes (map snd rows)))) else None),
                        us_error = (if over then Option.bind failed (\<lambda>(j, _). jo_error j) else None)\<rparr>)"

definition getUndoStatus :: "ident list \<Rightarrow> ident \<Rightarrow> undo_status wm" where
  "getUndoStatus actions mb =
     (let ids = rev (remdups (rev actions)) in
      if ids = [] then throww (HttpError 400 ''INVALID_REQUEST'')
      else bindw (query (undo_status_rows ids mb)) (\<lambda>rows.
             case undo_status_of ids rows of Inl e \<Rightarrow> throww e | Inr s \<Rightarrow> returnw s))"

subsection \<open>The controller\<close>

definition uuid_groups :: "nat list" where
  "uuid_groups = [8, 4, 4, 4, 12]"

definition is_hex_digit :: "char \<Rightarrow> bool" where
  "is_hex_digit c \<longleftrightarrow> c \<in> set ''0123456789abcdefABCDEF''"

fun matches_groups :: "nat list \<Rightarrow> string \<Rightarrow> bool" where
  "matches_groups [] s = (s = '''')"
| "matches_groups [n] s = (length s = n \<and> list_all is_hex_digit s)"
| "matches_groups (n # ns) s =
     (n < length s \<and> list_all is_hex_digit (take n s) \<and> s ! n = CHR ''-'' \<and> matches_groups ns (drop (Suc n) s))"

definition isUuid :: "string \<Rightarrow> bool" where
  "isUuid = matches_groups uuid_groups"

definition js_space :: "char \<Rightarrow> bool" where
  "js_space c \<longleftrightarrow> c \<in> set [CHR '' '', CHR 0x09, CHR 0x0A, CHR 0x0B, CHR 0x0C, CHR 0x0D]"

definition parseInt10 :: "string \<Rightarrow> int option" where
  \<comment> \<open>\<open>Number.parseInt(raw, 10)\<close>; \<open>None\<close> is \<open>NaN\<close>\<close>
  "parseInt10 raw =
     (let s = dropWhile js_space raw;
          (neg, body) = (case s of [] \<Rightarrow> (False, []) | c # cs \<Rightarrow>
              if c = CHR ''-'' then (True, cs) else if c = CHR ''+'' then (False, cs) else (False, s));
          ds = takeWhile is_digit body
      in if ds = [] then None else Some (if neg then - int (digits_val ds) else int (digits_val ds)))"

definition clampLimit :: "string option \<Rightarrow> nat" where
  "clampLimit raw =
     (case raw of
        None \<Rightarrow> 50
      | Some s \<Rightarrow> if s = '''' then 50 else
          (case parseInt10 s of None \<Rightarrow> 50 | Some n \<Rightarrow> if n \<le> 0 then 50 else nat (min n 100)))"

definition listActive :: "ident \<Rightarrow> string option \<Rightarrow> undo_decision list wm" where
  "listActive mb raw = listActiveDecisions mb (clampLimit raw)"

definition label_modify_undo_kinds :: "verb list" where
  "label_modify_undo_kinds = [VArchive, VLater, VDelete]"

record undo_result =
  ur_token :: ident
  ur_kind :: verb
  ur_reverted :: bool
  ur_reverted_at :: "millis option"
  ur_action :: "ident option"
  ur_actions :: "ident list"

definition recorded_success :: "undo_row \<Rightarrow> undo_result" where
  "recorded_success u =
     \<lparr>ur_token = un_token u, ur_kind = un_kind u, ur_reverted = True, ur_reverted_at = un_reverted u,
      ur_action = None, ur_actions = []\<rparr>"

definition start_revert :: "api_env \<Rightarrow> ident \<Rightarrow> ident \<Rightarrow> bool \<Rightarrow> undo_row \<Rightarrow> undo_result wm" where
  "start_revert env mb token only u =
     (if un_kind u \<notin> set label_modify_undo_kinds then throww (HttpError 501 ''UNSUPPORTED_UNDO'')
      else bindw (enqueueCompositeRevert env mb token only) (\<lambda>reverts.
        let ids = map rv_action reverts;
            all_done = (reverts \<noteq> [] \<and> list_all (\<lambda>r. rv_status r = JobDone) reverts)
        in bindw (if all_done then bindw (getUndoStatus ids mb) (\<lambda>s. returnw (us_reverted s)) else returnw None)
             (\<lambda>t. returnw \<lparr>ur_token = token, ur_kind = un_kind u, ur_reverted = all_done, ur_reverted_at = t,
                            ur_action = (case ids of [] \<Rightarrow> None | i # _ \<Rightarrow> Some i), ur_actions = ids\<rparr>)))"

definition performRevert :: "api_env \<Rightarrow> ident \<Rightarrow> ident \<Rightarrow> bool \<Rightarrow> undo_result wm" where
  "performRevert env mb token only =
     (if \<not> isUuid token then throww (HttpError 400 ''token must be a UUID.'')
      else bindw (findRevertable token mb) (\<lambda>found.
        case found of
          UndoNotFound \<Rightarrow> throww (HttpError 404 ''NOT_FOUND'')
        | UndoExpired u \<Rightarrow> throww (HttpError 410 ''GONE'')
        | ReadyToRevert u \<Rightarrow> start_revert env mb token only u
        | AlreadyReverted u \<Rightarrow>
            bindw (if only then returnw False else hasUnrevertedCompositeSiblings mb token) (\<lambda>more.
              if more then start_revert env mb token only u else returnw (recorded_success u))))"

end
