(* ===== verification/Calm_World.thy ===== *)
theory Calm_World
  imports Worker_Steps Label_Action
begin

text \<open>
  Runs in which nothing fails and nobody else writes: each statement, call and request has one
  result, so a body can be computed step by step.
\<close>

subsection \<open>Statements and calls\<close>

definition calm_world :: "world \<Rightarrow> bool" where
  "calm_world w \<longleftrightarrow> ticks w = [] \<and> sends w = [] \<and> calls w = []"

lemma bind_run: "m w = (Ok a, w') \<Longrightarrow> f a w' = r \<Longrightarrow> bindw m f w = r"
  by (simp add: bindw_def)

lemma calm_world_query: "calm_world w \<Longrightarrow> query f w = (Ok (f (wdb w)), w)"
  by (simp add: calm_world_def calm_query)

lemma calm_world_exec: "calm_world w \<Longrightarrow> exec f w = (Ok (), w\<lparr>wdb := f (wdb w)\<rparr>)"
  by (simp add: calm_world_def calm_exec)

lemma calm_world_stmt: "calm_world w \<Longrightarrow> f (wdb w) = Inr (a, d) \<Longrightarrow> stmt f w = (Ok a, w\<lparr>wdb := d\<rparr>)"
  by (simp add: calm_world_def calm_stmt)

lemma calm_world_port: "calm_world w \<Longrightarrow> port_call eff w = (Ok (), eff True w)"
  by (simp add: calm_world_def port_call_def)

lemma calm_world_db [simp]: "calm_world (w\<lparr>wdb := d\<rparr>) = calm_world w"
  and calm_world_requests [simp]: "calm_world (w\<lparr>requests := l\<rparr>) = calm_world w"
  and calm_world_uuid [simp]: "calm_world (w\<lparr>uuid_next := n\<rparr>) = calm_world w"
  and calm_world_queue [simp]: "calm_world (w\<lparr>label_queue := q\<rparr>) = calm_world w"
  by (simp_all add: calm_world_def)

lemma calm_world_ask:
  assumes "calm_world w"
  shows "ensure_labels ch w = (Ok (ensure_label w), w)"
proof -
  have "foreachw (\<lambda>l _. if l \<in> set system_label_ids then returnw () else port_call no_effect) ls () w = (Ok (), w)" for ls
    using assms by (induction ls) (simp_all add: returnw_def bindw_def calm_world_port no_effect_def)
  then show ?thesis by (simp add: ensure_labels_def bindw_def ask_label_def)
qed

lemma calm_world_batch:
  assumes "calm_world w" "hook w = (Ok x, w')"
  shows "batchModify jid prot ids ch hook w = (Ok (Some x), send_request jid prot ids ch True w')"
  using assms by (simp add: batchModify_def calm_world_def)

definition logged :: "gmail_request list \<Rightarrow> db \<Rightarrow> world \<Rightarrow> world" where
  \<comment> \<open>what a calm run changes: the store and the requests\<close>
  "logged l d w = w\<lparr>wdb := d, requests := requests w @ l\<rparr>"

lemma logged_simps [simp]:
  "wdb (logged l d w) = d" "calm_world (logged l d w) = calm_world w" "ensure_label (logged l d w) = ensure_label w"
  "uuid_of (logged l d w) = uuid_of w" "uuid_next (logged l d w) = uuid_next w" "label_queue (logged l d w) = label_queue w"
  "(logged l d w)\<lparr>wdb := d'\<rparr> = logged l d' w" "logged l' d' (logged l d w) = logged (l @ l') d' w"
  by (simp_all add: logged_def calm_world_def)

lemma logged_start: "w\<lparr>wdb := d\<rparr> = logged [] d w"
  by (simp add: logged_def)

lemma logged_send: "send_request jid prot ids ch b (logged l d w) = logged (l @ [request_entry jid prot ids ch d b]) d w"
  by (simp add: logged_def send_request_def request_entry_def)

lemma list_ex_update: "(\<And>x. P (f x) = P x) \<Longrightarrow> list_ex P (update_where p f xs) = list_ex P xs"
  by (induction xs) auto

lemma find_unique:
  assumes "x \<in> set xs" "P x" "\<And>y. y \<in> set xs \<Longrightarrow> P y \<Longrightarrow> y = x"
  shows "List.find P xs = Some x"
proof (cases "List.find P xs")
  case None
  with assms(1,2) show ?thesis by (auto simp: find_None_iff)
next
  case (Some y)
  then have "y \<in> set xs" "P y" by (auto simp: find_Some_iff)
  with Some assms(3) show ?thesis by blast
qed

lemma logged_Nil: "logged [] (wdb w) w = w"
  by (simp add: logged_def)

lemma calm_send_chunks:
  assumes "calm_world w"
  shows "\<exists>l. foreachw (\<lambda>ids _. bindw (batchModify jid (\<lambda>_. False) ids ch (returnw ())) (\<lambda>_. returnw ())) cs () w =
    (Ok (), logged l (wdb w) w)"
  using assms
proof (induction cs arbitrary: w)
  case Nil
  show ?case by (rule exI [of _ "[]"]) (simp add: returnw_def logged_Nil)
next
  case (Cons ids cs)
  let ?w = "logged [request_entry jid (\<lambda>_. False) ids ch (wdb w) True] (wdb w) w"
  have hook: "returnw () w = (Ok (), w)" by (simp add: returnw_def)
  have first: "bindw (batchModify jid (\<lambda>_. False) ids ch (returnw ())) (\<lambda>_. returnw ()) w = (Ok (), ?w)"
    by (rule bind_run, rule calm_world_batch [where hook = "returnw ()" and x = "()" and w' = w, OF Cons.prems hook])
      (simp add: returnw_def send_request_def logged_def request_entry_def)
  have "calm_world ?w" using Cons.prems by simp
  from Cons.IH [OF this] obtain l where
    l: "foreachw (\<lambda>ids _. bindw (batchModify jid (\<lambda>_. False) ids ch (returnw ())) (\<lambda>_. returnw ())) cs () ?w =
      (Ok (), logged l (wdb ?w) ?w)" by blast
  show ?case
    unfolding foreachw.simps
    by (intro exI, rule bind_run [of "bindw (batchModify jid (\<lambda>_. False) ids ch (returnw ())) (\<lambda>_. returnw ())",
          OF first], subst l) (simp add: logged_def)
qed

lemma calm_send_group:
  assumes "calm_world w"
  shows "\<exists>l. send_group jid g w = (Ok (), logged l (wdb w) w)"
  using calm_send_chunks [OF assms] by (simp add: send_group_def)

subsection \<open>Total correctness of a calm run\<close>

text \<open>
  \<open>calm_to f d m Q\<close>: from the store \<open>d\<close>, in a calm world whose label ids are \<open>f\<close>, \<open>m\<close> returns, with
  a value and a store in \<open>Q\<close>.
\<close>

definition calm_to :: "(string \<Rightarrow> string) \<Rightarrow> db \<Rightarrow> 'a wm \<Rightarrow> ('a \<Rightarrow> db \<Rightarrow> bool) \<Rightarrow> bool" where
  "calm_to f d m Q \<longleftrightarrow>
     (\<forall>w. calm_world w \<longrightarrow> ensure_label w = f \<longrightarrow> wdb w = d \<longrightarrow>
        (\<exists>a w'. m w = (Ok a, w') \<and> calm_world w' \<and> ensure_label w' = f \<and> Q a (wdb w')))"

lemma calm_toD:
  assumes "calm_to f (wdb w) m Q" "calm_world w" "ensure_label w = f"
  obtains a w' where "m w = (Ok a, w')" "calm_world w'" "ensure_label w' = f" "Q a (wdb w')"
  using assms unfolding calm_to_def by blast

lemma calm_to_return: "Q a d \<Longrightarrow> calm_to f d (returnw a) Q"
  by (simp add: calm_to_def returnw_def)

lemma calm_to_clock: "Q (db_now d) d \<Longrightarrow> calm_to f d clock Q"
  by (simp add: calm_to_def clock_def)

lemma calm_to_ask: "Q f d \<Longrightarrow> calm_to f d ask_label Q"
  by (simp add: calm_to_def ask_label_def)

lemma calm_to_stmt: "g d = Inr (a, d') \<Longrightarrow> Q a d' \<Longrightarrow> calm_to f d (stmt g) Q"
  by (simp add: calm_to_def calm_world_stmt)

lemma calm_to_query: "Q (g d) d \<Longrightarrow> calm_to f d (query g) Q"
  by (simp add: calm_to_def calm_world_query)

lemma calm_to_exec: "Q () (g d) \<Longrightarrow> calm_to f d (exec g) Q"
  by (simp add: calm_to_def calm_world_exec)

lemma calm_to_port:
  assumes "\<And>w. ticks (eff True w) = ticks w \<and> sends (eff True w) = sends w \<and> calls (eff True w) = calls w \<and>
      ensure_label (eff True w) = ensure_label w \<and> wdb (eff True w) = wdb w"
    and "Q () d"
  shows "calm_to f d (port_call eff) Q"
  using assms by (simp add: calm_to_def calm_world_port) (simp add: calm_world_def)

lemma calm_to_call: "Q () d \<Longrightarrow> calm_to f d (port_call no_effect) Q"
  by (rule calm_to_port) (simp_all add: no_effect_def)

lemma calm_to_bind:
  assumes "calm_to f d m P" "\<And>a d'. P a d' \<Longrightarrow> calm_to f d' (h a) Q"
  shows "calm_to f d (bindw m h) Q"
  unfolding calm_to_def
proof (intro allI impI)
  fix w assume w: "calm_world w" "ensure_label w = f" "wdb w = d"
  with assms(1) obtain a w1 where m: "m w = (Ok a, w1)" and w1: "calm_world w1" "ensure_label w1 = f" "P a (wdb w1)"
    unfolding calm_to_def by blast
  from calm_toD [OF assms(2) [OF w1(3)] w1(1,2)] obtain b w2
    where "h a w1 = (Ok b, w2)" "calm_world w2" "ensure_label w2 = f" "Q b (wdb w2)" .
  with m show "\<exists>b w'. bindw m h w = (Ok b, w') \<and> calm_world w' \<and> ensure_label w' = f \<and> Q b (wdb w')"
    by (simp add: bindw_def)
qed

lemma calm_to_seq:
  "calm_to f d m (\<lambda>x y. x = a \<and> y = d1) \<Longrightarrow> calm_to f d1 (h a) Q \<Longrightarrow> calm_to f d (bindw m h) Q"
  by (erule calm_to_bind) auto

lemma calm_to_catch:
  assumes "calm_to f d m Q"
  shows "calm_to f d (catchw m h) Q"
  unfolding calm_to_def
proof (intro allI impI)
  fix w assume w: "calm_world w" "ensure_label w = f" "wdb w = d"
  with assms obtain a w1 where "m w = (Ok a, w1)" "calm_world w1" "ensure_label w1 = f" "Q a (wdb w1)"
    unfolding calm_to_def by blast
  then show "\<exists>b w'. catchw m h w = (Ok b, w') \<and> calm_world w' \<and> ensure_label w' = f \<and> Q b (wdb w')"
    by (simp add: catchw_def)
qed

lemma calm_to_try: "calm_to f d m (\<lambda>a. Q (Inr a)) \<Longrightarrow> calm_to f d (tryw m) Q"
  unfolding tryw_def by (intro calm_to_catch calm_to_bind [of f d m "\<lambda>a. Q (Inr a)"] calm_to_return)

lemma calm_to_weaken:
  assumes "calm_to f d m P" "\<And>a d'. P a d' \<Longrightarrow> Q a d'"
  shows "calm_to f d m Q"
  unfolding calm_to_def
proof (intro allI impI)
  fix w assume w: "calm_world w" "ensure_label w = f" "wdb w = d"
  with assms(1) obtain a w1 where "m w = (Ok a, w1)" "calm_world w1" "ensure_label w1 = f" "P a (wdb w1)"
    unfolding calm_to_def by blast
  with assms(2) show "\<exists>a w'. m w = (Ok a, w') \<and> calm_world w' \<and> ensure_label w' = f \<and> Q a (wdb w')" by blast
qed

lemma calm_to_send: "Q () d \<Longrightarrow> calm_to f d (send_group jid g) Q"
  unfolding calm_to_def by (metis calm_send_group logged_simps(1-3))

lemma calm_to_foreach:
  \<comment> \<open>an invariant over what is left to do\<close>
  assumes "\<And>x xs s d. I (x # xs) s d \<Longrightarrow> calm_to f d (h x s) (I xs)" "I xs s d"
  shows "calm_to f d (foreachw h xs s) (I [])"
  using assms(2)
proof (induction xs arbitrary: s d)
  case Nil
  then show ?case unfolding foreachw.simps by (rule calm_to_return)
next
  case (Cons x xs)
  show ?case unfolding foreachw.simps by (rule calm_to_bind [OF assms(1) [OF Cons.prems]]) (rule Cons.IH)
qed

end
