(* ===== verification/Undo_Restores.thy ===== *)
theory Undo_Restores
  imports Undo_Revert Calm_World
begin

text \<open>
  The whole way round: a manual action runs, its token is reverted, the reverse action runs.
  When nothing fails and nobody else writes, every message has the labels it started with.
\<close>

subsection \<open>The forward run\<close>

definition plain_ctx :: "label_ctx \<Rightarrow> db \<Rightarrow> bool" where
  \<comment> \<open>a first attempt of a manual action on an unprotected sender\<close>
  "plain_ctx c d \<longleftrightarrow>
     \<not> la_starting c \<and> la_ids c \<noteq> [] \<and> \<not> subject_shields (jo_mailbox (la_job c)) (la_subject c) d \<and>
     jo_attempt (la_job c) = 0 \<and> neverReachedGmail (la_job c) \<and> jo_selector (la_job c) = BySender \<and>
     list_ex (\<lambda>x. jo_id x = jo_id (la_job c)) (jobs d)"

definition captured :: "label_ctx \<Rightarrow> db \<Rightarrow> delete_undo option" where
  "captured c d =
     (if jo_verb (la_job c) = VDelete
      then Some (la_ids c, Some (inbox_ids (jo_mailbox (la_job c)) (la_ids c) d)) else None)"

definition marked_db :: "label_ctx \<Rightarrow> db \<Rightarrow> db" where
  "marked_db c d =
     update_job (jo_id (la_job c))
       (\<lambda>x. (case captured c d of None \<Rightarrow> x | Some u \<Rightarrow> x\<lparr>jo_delete_undo := Some u\<rparr>)\<lparr>jo_status := Executing\<rparr>) d"

definition memory_undo :: "label_ctx \<Rightarrow> db \<Rightarrow> delete_undo option" where
  "memory_undo c d = (case captured c d of None \<Rightarrow> jo_delete_undo (la_job c) | Some u \<Rightarrow> Some u)"

lemma calm_prepare:
  assumes "calm_world w" "jo_attempt j = 0" "neverReachedGmail j"
  shows "prepareDeleteUndo j ids w = (Ok (ids, Some (inbox_ids (jo_mailbox j) ids (wdb w))), w)"
  using assms by (simp add: prepareDeleteUndo_def bindw_def calm_world_query returnw_def)

lemma calm_first_hook:
  assumes "calm_world w" "plain_ctx c (wdb w)"
  shows "first_hook c w = (Ok (memory_undo c (wdb w)), w\<lparr>wdb := marked_db c (wdb w)\<rparr>)"
proof -
  let ?j = "la_job c"
  have c: "\<not> la_starting c" "\<not> subject_shields (jo_mailbox ?j) (la_subject c) (wdb w)" "jo_attempt ?j = 0"
    "neverReachedGmail ?j" "list_ex (\<lambda>x. jo_id x = jo_id ?j) (jobs (wdb w))"
    using assms(2) by (simp_all add: plain_ctx_def)
  have mark: "mark_label_stmt ?j (la_subject c) None (captured c (wdb w)) (wdb w) = Inr (True, marked_db c (wdb w))"
    using c by (simp add: mark_label_stmt_def Let_def marked_db_def update_job_def list_ex_iff)
  have prep: "(if jo_verb ?j = VDelete then bindw (prepareDeleteUndo ?j (la_ids c)) (\<lambda>u. returnw (Some u)) else returnw None) w =
      (Ok (captured c (wdb w)), w)"
    using calm_prepare [OF assms(1) c(3,4)] by (simp add: captured_def bindw_def returnw_def)
  have "markExecuting (la_host c) ?j (la_subject c) None (Some (la_ids c)) w =
      (Ok (memory_undo c (wdb w)), w\<lparr>wdb := marked_db c (wdb w)\<rparr>)"
    unfolding markExecuting_def option.case
    by (simp add: bindw_def prep calm_world_stmt [where f = "mark_label_stmt _ _ _ _", OF assms(1) mark] memory_undo_def returnw_def)
  with c(1) show ?thesis by (simp add: first_hook_def bindw_def returnw_def)
qed

lemma calm_assert:
  assumes "calm_world w" "\<not> subject_shields mb s (wdb w)"
  shows "bindw (assertNotProtected mb s) (\<lambda>_. returnw du) w = (Ok du, w)"
  using assms by (cases s) (simp_all add: assertNotProtected_def bindw_def calm_world_query returnw_def subject_shields_def)

definition scheduled_db :: "label_ctx \<Rightarrow> db \<Rightarrow> db" where
  "scheduled_db c d = later_return c (db_now d) d"

lemma calm_landed:
  assumes "calm_world w"
  shows "label_landed c w = (Ok (), w\<lparr>wdb := scheduled_db c (wdb w)\<rparr>)"
  using assms
  by (cases "if jo_verb (la_job c) = VLater \<and> jo_selector (la_job c) = BySender then jo_wake (la_job c) else None")
    (simp_all add: label_landed_def later_return_def scheduled_db_def Let_def returnw_def bindw_def clock_def
      calm_world_exec)

lemma protected_schedule [simp]:
  "protectedSender (scheduleLaterReturn mb k wa t keep d) mb' k' = protectedSender d mb' k'"
  by (simp add: protectedSender_def scheduleLaterReturn_def list_ex_update)

lemma scheduled_frame [simp]:
  "jobs (scheduled_db c d) = jobs d" "undos (scheduled_db c d) = undos d" "mail (scheduled_db c d) = mail d"
  "db_now (scheduled_db c d) = db_now d" "activity (scheduled_db c d) = activity d"
  "protectedSender (scheduled_db c d) = protectedSender d" "mailboxes (scheduled_db c d) = mailboxes d"
  "workspaces (scheduled_db c d) = workspaces d"
  by (simp_all add: scheduled_db_def later_return_def Let_def fun_eq_iff split: option.split)
    (simp_all add: scheduleLaterReturn_def)

lemma shields_cong:
  "protectedSender d' = protectedSender d \<Longrightarrow> mail d' = mail d \<Longrightarrow> subject_shields mb s d' = subject_shields mb s d"
proof -
  assume eq: "protectedSender d' = protectedSender d" "mail d' = mail d"
  then have "protectedSubject mb x d' = protectedSubject mb x d" for x
    by (cases x) (simp_all cong: option.case_cong)
  then show ?thesis by (cases s) (simp_all add: subject_shields_def)
qed

lemma marked_frame [simp]:
  "undos (marked_db c d) = undos d" "mail (marked_db c d) = mail d" "db_now (marked_db c d) = db_now d"
  "activity (marked_db c d) = activity d" "policies (marked_db c d) = policies d"
  "protectedSender (marked_db c d) = protectedSender d" "mailboxes (marked_db c d) = mailboxes d"
  "workspaces (marked_db c d) = workspaces d"
  by (simp_all add: marked_db_def update_job_def fun_eq_iff protectedSender_def)

lemma calm_later_chunks:
  assumes "calm_world w" "\<not> subject_shields (jo_mailbox (la_job c)) (la_subject c) (wdb w)" "0 < n"
  shows "\<exists>l. label_chunks c cs n du w = (Ok (SentAll du), logged l (wdb w) w)"
  using assms
proof (induction cs arbitrary: n w)
  case Nil
  then show ?case by (auto simp: returnw_def logged_def intro: exI [of _ "[]"])
next
  case (Cons ids cs)
  let ?w = "logged [request_entry (jo_id (la_job c)) (label_prot c) ids (la_change c) (wdb w) True] (wdb w) w"
  have chunk: "label_chunk c False ids du w = (Ok du, ?w)"
    unfolding label_chunk_def if_False
    by (rule bind_run, rule calm_world_batch [OF Cons.prems(1)], rule calm_assert [OF Cons.prems(1,2)])
      (simp add: returnw_def send_request_def logged_def request_entry_def)
  have "\<exists>l. label_chunks c cs (n + 1) du ?w = (Ok (SentAll du), logged l (wdb ?w) ?w)"
    by (rule Cons.IH) (use Cons.prems in simp_all)
  then obtain l where l: "label_chunks c cs (n + 1) du ?w = (Ok (SentAll du), logged l (wdb ?w) ?w)" by blast
  show ?case
    using Cons.prems(3) l by (simp add: bindw_def try_ok [of "label_chunk c False ids du", OF chunk] returnw_def) blast
qed

lemma calm_chunks:
  assumes "calm_world w" "plain_ctx c (wdb w)" "cs \<noteq> []"
  shows "\<exists>l. label_chunks c cs 0 du w =
    (Ok (SentAll (memory_undo c (wdb w))), logged l (scheduled_db c (marked_db c (wdb w))) w)"
proof -
  obtain ids cs' where cs: "cs = ids # cs'" using assms(3) by (cases cs) auto
  let ?d1 = "marked_db c (wdb w)" and ?d2 = "scheduled_db c (marked_db c (wdb w))" and ?m = "memory_undo c (wdb w)"
  let ?w1 = "logged [request_entry (jo_id (la_job c)) (label_prot c) ids (la_change c) ?d1 True] ?d1 w"
  have chunk: "label_chunk c True ids du w = (Ok ?m, ?w1)"
    unfolding label_chunk_def if_True
    by (rule bind_run, rule calm_world_batch [OF assms(1)], rule calm_first_hook [OF assms(1,2)])
      (simp add: returnw_def send_request_def logged_def request_entry_def)
  have landed: "label_landed c ?w1 = (Ok (), ?w1\<lparr>wdb := ?d2\<rparr>)"
    using calm_landed [of ?w1 c] assms(1) by simp
  have shields: "\<not> subject_shields (jo_mailbox (la_job c)) (la_subject c) ?d2"
    using assms(2) shields_cong [of ?d2 "wdb w"] by (simp add: plain_ctx_def)
  have "\<exists>l. label_chunks c cs' 1 ?m (?w1\<lparr>wdb := ?d2\<rparr>) =
      (Ok (SentAll ?m), logged l (wdb (?w1\<lparr>wdb := ?d2\<rparr>)) (?w1\<lparr>wdb := ?d2\<rparr>))"
    by (rule calm_later_chunks) (use assms(1) shields in simp_all)
  then obtain l where "label_chunks c cs' 1 ?m (?w1\<lparr>wdb := ?d2\<rparr>) =
      (Ok (SentAll ?m), logged l (wdb (?w1\<lparr>wdb := ?d2\<rparr>)) (?w1\<lparr>wdb := ?d2\<rparr>))" by blast
  then show ?thesis
    by (simp add: cs bindw_def try_ok [of "label_chunk c True ids du", OF chunk] try_ok [of "label_landed c", OF landed]
        returnw_def) blast
qed

lemma calm_expiry:
  assumes "calm_world w"
  shows "\<exists>e. undoExpiresAt mb w = (Ok e, w) \<and> db_now (wdb w) < e"
proof -
  have "0 < undoWindowDaysFor t" for t by (cases t) (simp_all add: undoWindowDaysFor_def)
  then have "0 < int (undoWindowDaysFor t) * day_ms" for t by simp
  with assms show ?thesis by (simp add: undoExpiresAt_def bindw_def calm_world_query clock_def returnw_def)
qed

definition mirror_row :: "ident \<Rightarrow> ident list \<Rightarrow> label_change \<Rightarrow> mail_row \<Rightarrow> mail_row" where
  "mirror_row mb ids ch x =
     (if mm_mailbox x = mb \<and> mm_id x \<in> set ids then x\<lparr>mm_labels := label_mirror ch (mm_labels x)\<rparr> else x)"

lemma mail_mirror [simp]: "mail (mirror_mail mb ids ch d) = map (mirror_row mb ids ch) (mail d)"
  by (simp add: mirror_mail_def update_where_def mirror_row_def)

lemma mirror_row_Nil [simp]: "mirror_row mb [] ch = (\<lambda>x. x)"
  by (simp add: mirror_row_def fun_eq_iff)

definition remembered :: "label_ctx \<Rightarrow> db \<Rightarrow> delete_undo option" where
  "remembered c d =
     (if jo_verb (la_job c) = VDelete
      then Some (la_ids c, Some (filter (\<lambda>i. i \<in> set (la_ids c)) (inbox_ids (jo_mailbox (la_job c)) (la_ids c) d)))
      else None)"

lemma remembered_stored:
  "(if jo_verb (la_job c) = VDelete then storedDeleteUndo (memory_undo c d) (la_ids c) else Inr None) = Inr (remembered c d)"
  by (auto simp: storedDeleteUndo_def memory_undo_def captured_def remembered_def inbox_ids_def)

lemma later_return_mail [simp]:
  "mail (later_return c t d) = mail d" "db_now (later_return c t d) = db_now d" "jobs (later_return c t d) = jobs d"
  "undos (later_return c t d) = undos d"
  by (simp_all add: later_return_def Let_def scheduleLaterReturn_def split: option.split)

lemma label_tx_result:
  assumes "remembered c d0 = stored" "mem = memory_undo c d0"
  shows "\<exists>d'. label_tx token aid e t c mem d = Inr (token, d') \<and>
    mail d' = map (mirror_row (jo_mailbox (la_job c)) (la_ids c) (la_change c)) (mail d) \<and>
    undos d' = undos d @ [label_undo_row token e c stored (db_now d)] \<and>
    jobs d' = jobs (update_job (jo_id (la_job c)) (finish_label_job (length (la_ids c)) (Some token)) d) \<and>
    db_now d' = db_now d"
  unfolding label_tx_def Let_def assms(2) remembered_stored assms(1) sum.case
  by (intro exI conjI, rule refl)
    (simp_all add: invalidateInboxReportCache_def update_job_def announce_def label_rows_def mirror_mail_def
      update_where_def mirror_row_def)

lemma calm_send:
  assumes "calm_world w" "plain_ctx c (wdb w)"
  shows "\<exists>l e d'. send_label c w =
      (Ok (label_result_of (length (la_ids c)) (Some (uuid_of w (uuid_next w)))),
       (logged l d' w)\<lparr>uuid_next := uuid_next w + 2\<rparr>) \<and> db_now (wdb w) < e \<and>
    mail d' = map (mirror_row (jo_mailbox (la_job c)) (la_ids c) (la_change c)) (mail (wdb w)) \<and>
    undos d' = undos (wdb w) @ [label_undo_row (uuid_of w (uuid_next w)) e c (remembered c (wdb w)) (db_now (wdb w))] \<and>
    jobs d' = jobs (update_job (jo_id (la_job c))
      (finish_label_job (length (la_ids c)) (Some (uuid_of w (uuid_next w)))) (marked_db c (wdb w))) \<and>
    db_now d' = db_now (wdb w)"
proof -
  let ?cs = "chunks gmail_batch_modify_max_ids (la_ids c)" and ?token = "uuid_of w (uuid_next w)"
  let ?d2 = "scheduled_db c (marked_db c (wdb w))"
  have "?cs \<noteq> []"
    using assms(2) concat_chunks [of gmail_batch_modify_max_ids "la_ids c"]
    by (auto simp: plain_ctx_def gmail_batch_modify_max_ids_def)
  then obtain l where l: "label_chunks c ?cs 0 (jo_delete_undo (la_job c)) w =
      (Ok (SentAll (memory_undo c (wdb w))), logged l ?d2 w)"
    using calm_chunks [OF assms] by blast
  have calm: "calm_world (logged l ?d2 w)" using assms(1) by simp
  obtain e where e: "undoExpiresAt (jo_mailbox (la_job c)) (logged l ?d2 w) = (Ok e, logged l ?d2 w)" "db_now (wdb w) < e"
    using calm_expiry [OF calm] by fastforce
  obtain d' where d': "label_tx ?token (uuid_of w (Suc (uuid_next w))) e (db_now (wdb w)) c (memory_undo c (wdb w)) ?d2 = Inr (?token, d')"
    and f: "mail d' = map (mirror_row (jo_mailbox (la_job c)) (la_ids c) (la_change c)) (mail ?d2)"
      "undos d' = undos ?d2 @ [label_undo_row ?token e c (remembered c (wdb w)) (db_now ?d2)]"
      "jobs d' = jobs (update_job (jo_id (la_job c)) (finish_label_job (length (la_ids c)) (Some ?token)) ?d2)"
      "db_now d' = db_now ?d2"
    using label_tx_result [OF refl refl] by blast
  have "send_label c w = (Ok (label_result_of (length (la_ids c)) (Some ?token)),
      (logged l d' w)\<lparr>uuid_next := uuid_next w + 2\<rparr>)"
    using calm e(1) d'
    by (simp add: send_label_def bindw_def l clock_def fresh_id_def calm_world_stmt returnw_def logged_def calm_world_def calm_stmt)
  with e(2) f show ?thesis by (auto simp: update_job_def)
qed

subsection \<open>A whole delivery\<close>

definition sole :: "job_row \<Rightarrow> db \<Rightarrow> bool" where
  "sole j d \<longleftrightarrow> filter (\<lambda>x. jo_id x = jo_id j) (jobs d) = [j]"

lemma sole_ids:
  assumes "sole j d" "x \<in> set (jobs d)" "jo_id x = jo_id j"
  shows "x = j"
proof -
  have "x \<in> set (filter (\<lambda>x. jo_id x = jo_id j) (jobs d))" using assms(2,3) by simp
  with assms(1) show ?thesis by (simp add: sole_def)
qed

lemma sole_member:
  assumes "sole j d"
  shows "j \<in> set (jobs d)"
proof -
  have "j \<in> set (filter (\<lambda>x. jo_id x = jo_id j) (jobs d))" using assms by (simp add: sole_def)
  then show ?thesis by simp
qed

definition manual_action :: "label_job_data \<Rightarrow> job_row \<Rightarrow> db \<Rightarrow> bool" where
  \<comment> \<open>as the API writes it, not yet run\<close>
  "manual_action p j d \<longleftrightarrow>
     sole j d \<and> jo_id j = lj_action p \<and> jo_mailbox j = lj_mailbox p \<and> jo_status j = Queued \<and>
     jo_direction j = Forward \<and> jo_selector j = BySender \<and> jo_custom j = None \<and> jo_attempt j = 0 \<and>
     jo_ids j = [] \<and> (jo_verb j = VLater \<longrightarrow> jo_wake j \<noteq> None) \<and>
     (jo_verb j \<noteq> VDelete \<longrightarrow> jo_reach j = InboxOnly) \<and>
     \<not> protectedSender d (jo_mailbox j) (jo_sender_key j)"

definition acted_ids :: "job_row \<Rightarrow> db \<Rightarrow> ident list" where
  "acted_ids j d = resolveSenderActionIds (jo_mailbox j) (jo_sender_key j) (jo_older j) (jo_reach j) d"

definition action_ctx :: "host \<Rightarrow> bool \<Rightarrow> label_change \<Rightarrow> job_row \<Rightarrow> ident list \<Rightarrow> label_ctx" where
  "action_ctx h confirmed change j ids =
     \<lparr>la_host = h, la_job = j, la_ids = ids, la_subject = protectionSubject j confirmed, la_starting = False,
      la_change = change\<rparr>"

definition done_row :: "label_ctx \<Rightarrow> db \<Rightarrow> ident \<Rightarrow> job_row" where
  "done_row c d token =
     (la_job c)\<lparr>jo_ids := la_ids c, jo_affected := length (la_ids c), jo_status := JobDone, jo_undo := Some token,
       jo_delete_undo := memory_undo c d, jo_quota := settledQuotaUnits (length (la_ids c)) (jo_quota (la_job c))\<rparr>"

lemma done_row_fields [simp]:
  "jo_id (done_row c d t) = jo_id (la_job c)" "jo_mailbox (done_row c d t) = jo_mailbox (la_job c)"
  "jo_verb (done_row c d t) = jo_verb (la_job c)" "jo_ids (done_row c d t) = la_ids c"
  "jo_undo (done_row c d t) = Some t" "jo_direction (done_row c d t) = jo_direction (la_job c)"
  "jo_selector (done_row c d t) = jo_selector (la_job c)" "jo_wake (done_row c d t) = jo_wake (la_job c)"
  "jo_reach (done_row c d t) = jo_reach (la_job c)" "jo_sender_key (done_row c d t) = jo_sender_key (la_job c)"
  "jo_key (done_row c d t) = jo_key (la_job c)"
  by (simp_all add: done_row_def)

lemma done_row_eq:
  "finish_label_job (length (la_ids c)) (Some t)
     ((case captured c d of None \<Rightarrow> (la_job c)\<lparr>jo_ids := la_ids c\<rparr>
       | Some u \<Rightarrow> (la_job c)\<lparr>jo_ids := la_ids c, jo_delete_undo := Some u\<rparr>)\<lparr>jo_status := Executing\<rparr>) =
   done_row c d t"
  by (cases "la_job c"; cases "captured c d") (simp_all add: finish_label_job_def done_row_def memory_undo_def)

lemma done_row_jobs:
  assumes "sole (la_job c) d0" "jobs d = jobs (update_job (jo_id (la_job c)) (\<lambda>x. x\<lparr>jo_ids := la_ids c\<rparr>) d0)"
    and "mail d = mail d0"
  shows "jobs (update_job (jo_id (la_job c)) (finish_label_job (length (la_ids c)) (Some t)) (marked_db c d)) =
    update_where (\<lambda>x. jo_id x = jo_id (la_job c)) (\<lambda>_. done_row c d0 t) (jobs d0)"
proof -
  have cap: "captured c d = captured c d0" using assms(3) by (simp add: captured_def inbox_ids_def)
  have row: "x = la_job c" if "x \<in> set (jobs d0)" "jo_id x = jo_id (la_job c)" for x
    using sole_ids [OF assms(1) that] .
  have ids: "jo_id (finish_label_job n u x) = jo_id x" for n u x by (simp add: finish_label_job_def)
  have eq: "finish_label_job (length (la_ids c)) (Some t)
      ((case captured c d0 of None \<Rightarrow> x\<lparr>jo_ids := la_ids c\<rparr>
        | Some u \<Rightarrow> x\<lparr>jo_ids := la_ids c, jo_delete_undo := Some u\<rparr>)\<lparr>jo_status := Executing\<rparr>) = done_row c d0 t"
    if "x \<in> set (jobs d0)" "jo_id x = jo_id (la_job c)" for x
    using done_row_eq [of c t d0] unfolding row [OF that] .
  have id2: "jo_id ((case captured c d0 of None \<Rightarrow> x | Some u \<Rightarrow> x\<lparr>jo_delete_undo := Some u\<rparr>)\<lparr>jo_status := Executing\<rparr>) = jo_id x" for x
    by (cases "captured c d0") simp_all
  have "jobs (update_job (jo_id (la_job c)) (finish_label_job (length (la_ids c)) (Some t)) (marked_db c d)) =
    map (\<lambda>x. if jo_id x = jo_id (la_job c)
      then finish_label_job (length (la_ids c)) (Some t)
        ((case captured c d0 of None \<Rightarrow> x\<lparr>jo_ids := la_ids c\<rparr>
          | Some u \<Rightarrow> x\<lparr>jo_ids := la_ids c, jo_delete_undo := Some u\<rparr>)\<lparr>jo_status := Executing\<rparr>) else x) (jobs d0)"
    using assms(2) by (auto simp: update_job_def marked_db_def update_where_def cap id2)
  also have "\<dots> = update_where (\<lambda>x. jo_id x = jo_id (la_job c)) (\<lambda>_. done_row c d0 t) (jobs d0)"
    unfolding update_where_def by (intro map_cong refl if_cong) (simp_all add: eq)
  finally show ?thesis .
qed

lemma subject_of_sender:
  "jo_selector j = BySender \<Longrightarrow> \<not> protectedSender d (jo_mailbox j) (jo_sender_key j) \<Longrightarrow>
     \<not> subject_shields (jo_mailbox j) (protectionSubject j confirmed) d"
  by (simp add: protectionSubject_def subject_shields_def)

lemma calm_forward:
  fixes h :: host and hooked :: bool
  assumes calm: "calm_world w" and j: "manual_action p j (wdb w)"
    and change: "labelChangeForVerb (jo_verb j) = Some change" and ids: "ids = acted_ids j (wdb w)" "ids \<noteq> []"
  defines "c \<equiv> action_ctx h (lj_confirmed p) (resolveLabelChange (ensure_label w) (forwardChange change)) j ids"
    and "token \<equiv> uuid_of w (uuid_next w)"
  shows "\<exists>l e d'. processLabelJob h hooked p w =
      (Ok (label_result_of (length ids) (Some token)), (logged l d' w)\<lparr>uuid_next := uuid_next w + 2\<rparr>) \<and>
    db_now (wdb w) < e \<and> mail d' = map (mirror_row (jo_mailbox j) ids (la_change c)) (mail (wdb w)) \<and>
    undos d' = undos (wdb w) @ [label_undo_row token e c (remembered c (wdb w)) (db_now (wdb w))] \<and>
    jobs d' = update_where (\<lambda>x. jo_id x = jo_id j) (\<lambda>_. done_row c (wdb w) token) (jobs (wdb w)) \<and>
    db_now d' = db_now (wdb w)"
proof -
  let ?d1 = "update_job (jo_id j) (\<lambda>x. x\<lparr>jo_ids := ids\<rparr>) (wdb w)" and ?w1 = "w\<lparr>wdb := update_job (jo_id j) (\<lambda>x. x\<lparr>jo_ids := ids\<rparr>) (wdb w)\<rparr>"
  have J: "sole j (wdb w)" "jo_id j = lj_action p" "jo_mailbox j = lj_mailbox p" "jo_status j = Queued"
    "jo_direction j = Forward" "jo_selector j = BySender" "jo_custom j = None" "jo_attempt j = 0" "jo_ids j = []"
    "jo_verb j = VLater \<longrightarrow> jo_wake j \<noteq> None" "\<not> protectedSender (wdb w) (jo_mailbox j) (jo_sender_key j)"
    using j by (auto simp only: manual_action_def)
  have never: "neverReachedGmail j" using J(4) by (simp add: neverReachedGmail_def)
  have d1: "mail ?d1 = mail (wdb w)" "undos ?d1 = undos (wdb w)" "db_now ?d1 = db_now (wdb w)"
    "protectedSender ?d1 = protectedSender (wdb w)"
    by (simp_all add: update_job_def fun_eq_iff protectedSender_def)
  have cj: "la_job c = j" "la_ids c = ids" by (simp_all add: c_def action_ctx_def)
  have "list_ex (\<lambda>x. jo_id x = jo_id j) (jobs ?d1)"
    using sole_member [OF J(1)] by (simp add: update_job_def list_ex_update) (auto simp: list_ex_iff)
  then have plain: "plain_ctx c (wdb ?w1)"
    using ids(2) J(6,8) never subject_of_sender [OF J(6), of ?d1] J(11) d1(4)
    by (simp add: plain_ctx_def c_def action_ctx_def)
  obtain l e d' where send: "send_label c ?w1 =
      (Ok (label_result_of (length ids) (Some token)), (logged l d' ?w1)\<lparr>uuid_next := uuid_next w + 2\<rparr>)"
    and F: "db_now (wdb w) < e" "mail d' = map (mirror_row (jo_mailbox j) ids (la_change c)) (mail (wdb w))"
      "undos d' = undos (wdb w) @ [label_undo_row token e c (remembered c ?d1) (db_now (wdb w))]"
      "jobs d' = jobs (update_job (jo_id j) (finish_label_job (length ids) (Some token)) (marked_db c ?d1))"
      "db_now d' = db_now (wdb w)"
    using calm_send [OF _ plain] calm by (auto simp: cj d1 token_def)
  have rem: "remembered c ?d1 = remembered c (wdb w)" by (simp add: remembered_def inbox_ids_def d1)
  have find: "List.find (\<lambda>x. jo_id x = lj_action p) (jobs (wdb w)) = Some j"
    by (rule find_unique [OF sole_member [OF J(1)]]) (use sole_ids [OF J(1)] J(2) in auto)
  have custom: "customAutopilot j = Inr None" using J(7) by (simp add: customAutopilot_def)
  have query: "(case protectionSubject j (lj_confirmed p) of None \<Rightarrow> returnw False
      | Some x \<Rightarrow> query (protectedSubject (jo_mailbox j) x)) w = (Ok False, w)"
    using J(6,11) calm by (simp add: protectionSubject_def returnw_def calm_world_query)
  have fids: "forward_ids j False False w = (Ok ids, ?w1)"
    using J(6,9) calm ids(1)
    by (simp add: forward_ids_def bindw_def calm_world_query store_ids_def calm_world_exec returnw_def acted_ids_def)
  have run: "run_label h j (forwardChange change) (protectionSubject j (lj_confirmed p)) False ids ?w1 = send_label c ?w1"
    using ids(2) calm
    by (simp add: run_label_def bindw_def calm_world_port no_effect_def calm_world_ask c_def action_ctx_def)
  have "executeForward h (lj_confirmed p) (forwardChange change) j w = send_label c ?w1"
    using J(6,7,8,10) never
    by (auto simp add: executeForward_def custom Let_def bindw_def query returnw_def fids run)
  then have "run_action h hooked p j w = send_label c ?w1"
    using J send change by (simp add: run_action_def catchw_def)
  then have "processLabelJob h hooked p w = send_label c ?w1"
    using calm find by (simp add: processLabelJob_def locked_def execute_def bindw_def calm_world_port no_effect_def calm_world_query)
  moreover have "(logged l d' ?w1)\<lparr>uuid_next := uuid_next w + 2\<rparr> = (logged l d' w)\<lparr>uuid_next := uuid_next w + 2\<rparr>"
    by (simp add: logged_def)
  ultimately show ?thesis
    using send F rem done_row_jobs [of c "wdb w" ?d1 token] J(1) cj d1(1) by auto
qed

subsection \<open>The revert\<close>

lemma calm_ready:
  assumes "calm_world w" "undo_of token mb (wdb w) = Some u" "un_reverted u = None" "db_now (wdb w) < un_expires u"
  shows "findRevertable token mb w = (Ok (ReadyToRevert u), w)"
  using assms by (simp add: findRevertable_def bindw_def calm_world_query clock_def returnw_def)

lemma calm_reverted:
  assumes "calm_world w" "undo_of token mb (wdb w) = Some u" "un_reverted u = Some t"
  shows "findRevertable token mb w = (Ok (AlreadyReverted u), w)"
  using assms by (simp add: findRevertable_def bindw_def calm_world_query returnw_def)

lemma calm_spent:
  assumes "calm_world w" "undo_of token mb (wdb w) = Some u" "un_reverted u = Some t" "isUuid token"
  shows "performRevert env mb token True w = (Ok (recorded_success u), w)"
  using calm_reverted [OF assms(1-3)] assms(4) by (simp add: performRevert_def bindw_def returnw_def)

definition unheard :: "api_env \<Rightarrow> ident \<Rightarrow> ident \<Rightarrow> world \<Rightarrow> bool" where
  \<comment> \<open>neither the row's key and id nor the queue's id are taken\<close>
  "unheard env token rid w \<longleftrightarrow>
     list_all (\<lambda>x. jo_key x \<noteq> revert_key token \<and> jo_id x \<noteq> rid) (jobs (wdb w)) \<and>
     list_all (\<lambda>x. fst x \<noteq> reverseQueueJobId env token) (label_queue w)"

definition stored_reverse :: "ident \<Rightarrow> ident \<Rightarrow> job_row \<Rightarrow> ident \<Rightarrow> db \<Rightarrow> job_row" where
  "stored_reverse rid mb f token d = (reverse_row rid mb f token)\<lparr>jo_created := db_now d\<rparr>"

lemma calm_enqueue_revert:
  assumes calm: "calm_world w" and env: "ae_queue env" and fresh: "unheard env token (uuid_of w (uuid_next w)) w"
  defines "rid \<equiv> uuid_of w (uuid_next w)"
  shows "enqueueRevert env mb token f w =
    (Ok (rid, Queued),
     w\<lparr>uuid_next := uuid_next w + 1,
       wdb := (wdb w)\<lparr>jobs := jobs (wdb w) @ [stored_reverse rid mb f token (wdb w)]\<rparr>,
       label_queue := label_queue w @ [(reverseQueueJobId env token, rid, False)]\<rparr>)"
proof -
  let ?row = "reverse_row rid mb f token" and ?s = "stored_reverse rid mb f token (wdb w)"
  let ?w1 = "w\<lparr>uuid_next := uuid_next w + 1\<rparr>"
  let ?w2 = "?w1\<lparr>wdb := (wdb w)\<lparr>jobs := jobs (wdb w) @ [?s]\<rparr>\<rparr>"
  have row: "jo_key ?row = revert_key token" "jo_id ?row = rid" "jo_id ?s = rid"
    by (simp_all add: reverse_row_def stored_reverse_def)
  have free: "\<not> list_ex (\<lambda>x. jo_key x = revert_key token) (jobs (wdb w))" "\<not> list_ex (\<lambda>x. jo_id x = rid) (jobs (wdb w))"
    "\<not> list_ex (\<lambda>x. fst x = reverseQueueJobId env token) (label_queue w)"
    using fresh by (auto simp: unheard_def list_ex_iff list_all_iff rid_def)
  have "insert_action_stmt ?row (wdb ?w1) = Inr (Some ?s, (wdb w)\<lparr>jobs := jobs (wdb w) @ [?s]\<rparr>)"
    using free(1,2) by (simp add: insert_action_stmt_def row stored_reverse_def Let_def)
  then have "stmt (insert_action_stmt ?row) ?w1 = (Ok (Some ?s), ?w2)"
    using calm calm_world_stmt [of ?w1 "insert_action_stmt ?row"] by simp
  then have insert: "insertJob ?row ?w1 = (Ok (False, ?s), ?w2)"
    by (simp add: insertJob_def bindw_def returnw_def)
  have queue: "enqueueJob env rid mb (reverseQueueJobId env token) False ?w2 =
      (Ok (), ?w2\<lparr>label_queue := label_queue w @ [(reverseQueueJobId env token, rid, False)]\<rparr>)"
    using env calm free(3) by (simp add: enqueueJob_def catchw_def calm_world_port queue_add_def)
  show ?thesis
    unfolding enqueueRevert_def
    using env insert queue
    by (simp add: bindw_def fresh_id_def rid_def [symmetric] row Let_def returnw_def)
qed

lemma calm_perform_revert:
  assumes calm: "calm_world w" and env: "ae_queue env" and fresh: "unheard env token (uuid_of w (uuid_next w)) w"
    and uuid: "isUuid token"
    and undo: "undo_of token mb (wdb w) = Some u" "un_reverted u = None" "db_now (wdb w) < un_expires u"
    and kind: "un_kind u \<in> set label_modify_undo_kinds"
    and job: "issuing_job mb token (wdb w) = Some f" "jo_verb f \<noteq> VUnsubscribe"
  defines "rid \<equiv> uuid_of w (uuid_next w)"
  shows "performRevert env mb token True w =
    (Ok \<lparr>ur_token = token, ur_kind = un_kind u, ur_reverted = False, ur_reverted_at = None, ur_action = Some rid,
         ur_actions = [rid]\<rparr>,
     w\<lparr>uuid_next := uuid_next w + 1,
       wdb := (wdb w)\<lparr>jobs := jobs (wdb w) @ [stored_reverse rid mb f token (wdb w)]\<rparr>,
       label_queue := label_queue w @ [(reverseQueueJobId env token, rid, False)]\<rparr>)"
  using calm_ready [OF calm undo] uuid env kind job calm calm_enqueue_revert [OF calm env fresh, of mb f, folded rid_def]
  by (simp add: performRevert_def start_revert_def enqueueCompositeRevert_def bindw_def calm_world_query returnw_def Let_def)

subsection \<open>The reverse run\<close>

lemma calm_send_groups:
  assumes "calm_world w"
  shows "\<exists>l. foreachw (\<lambda>g _. send_group jid g) gs () w = (Ok (), logged l (wdb w) w)"
  using assms
proof (induction gs arbitrary: w)
  case Nil
  show ?case by (rule exI [of _ "[]"]) (simp add: returnw_def logged_Nil)
next
  case (Cons g gs)
  obtain l where l: "send_group jid g w = (Ok (), logged l (wdb w) w)"
    using calm_send_group [OF Cons.prems] by blast
  have "calm_world (logged l (wdb w) w)" using Cons.prems by simp
  from Cons.IH [OF this] obtain l' where
    l': "foreachw (\<lambda>g _. send_group jid g) gs () (logged l (wdb w) w) =
      (Ok (), logged l' (wdb (logged l (wdb w) w)) (logged l (wdb w) w))" by blast
  show ?case
    unfolding foreachw.simps by (intro exI, rule bind_run [of "send_group jid g", OF l], subst l') (simp add: logged_def)
qed

definition resolved_groups :: "(string \<Rightarrow> string) \<Rightarrow> change_group list \<Rightarrow> change_group list" where
  "resolved_groups ensure gs = map (\<lambda>g. (fst g, resolveLabelChange ensure (snd g))) gs"

lemma calm_resolve:
  assumes "calm_world w"
  shows "resolve_groups gs w = (Ok (resolved_groups (ensure_label w) gs), w)"
proof -
  have "foreachw (\<lambda>(ids, change) done'.
         bindw (ensure_labels change) (\<lambda>ensure. returnw (done' @ [(ids, resolveLabelChange ensure change)]))) gs acc w =
      (Ok (acc @ resolved_groups (ensure_label w) gs), w)" for acc
    using assms
    by (induction gs arbitrary: acc) (auto simp: returnw_def resolved_groups_def bindw_def calm_world_ask split: prod.splits)
  then show ?thesis by (simp add: resolve_groups_def)
qed

definition groups_of :: "job_row \<Rightarrow> ident \<Rightarrow> label_change \<Rightarrow> db \<Rightarrow> change_group list" where
  "groups_of j token change d =
     (if jo_verb j \<noteq> VDelete then [(jo_ids j, change)]
      else reverseChangeGroups j change (jo_ids j) (List.find (\<lambda>u. un_token u = token) (undos d)))"

lemma calm_reverse:
  fixes change :: label_change
  assumes calm: "calm_world w" and j: "jo_undo j = Some token" "jo_ids j \<noteq> []"
  defines "d1 \<equiv> update_job (jo_id j) (\<lambda>x. x\<lparr>jo_status := Executing\<rparr>) (wdb w)"
    and "groups \<equiv> resolved_groups (ensure_label w) (groups_of j token change (wdb w))"
  shows "\<exists>l. executeReverse change j w =
    (Ok (label_result_of (length (jo_ids j)) (Some token)), logged l (reverse_tx j token (jo_ids j) groups d1) w)"
proof -
  let ?w1 = "w\<lparr>wdb := d1\<rparr>"
  have undos: "undos d1 = undos (wdb w)" by (simp add: d1_def update_job_def)
  have calm1: "calm_world ?w1" using calm by simp
  have groups: "reverse_groups j token change (jo_ids j) ?w1 = (Ok (groups_of j token change (wdb w)), ?w1)"
    using calm j(2) undos by (simp add: reverse_groups_def groups_of_def returnw_def bindw_def calm_world_query)
  have resolve: "resolve_groups (groups_of j token change (wdb w)) ?w1 = (Ok groups, ?w1)"
    using calm_resolve [OF calm1] by (simp add: groups_def)
  obtain l where send: "foreachw (\<lambda>g _. send_group (jo_id j) g) groups () ?w1 = (Ok (), logged l d1 ?w1)"
    using calm_send_groups [OF calm1] by fastforce
  have "executeReverse change j w =
    (Ok (label_result_of (length (jo_ids j)) (Some token)), logged l (reverse_tx j token (jo_ids j) groups d1) ?w1)"
    using calm j(2)
    by (simp add: executeReverse_def j(1) bindw_def calm_world_exec d1_def [symmetric] Let_def groups calm_world_port
        no_effect_def resolve send returnw_def)
  then show ?thesis by (auto simp: logged_def)
qed

lemma calm_reverse_job:
  fixes change :: label_change_pair
  assumes calm: "calm_world w" and j: "sole j (wdb w)" "jo_direction j = Reverse" "jo_status j = Queued"
      "jo_undo j = Some token" "jo_ids j \<noteq> []" "labelChangeForVerb (jo_verb j) = Some change"
  defines "d1 \<equiv> update_job (jo_id j) (\<lambda>x. x\<lparr>jo_status := Executing\<rparr>) (wdb w)"
    and "groups \<equiv> resolved_groups (ensure_label w) (groups_of j token (reverseChange change) (wdb w))"
  shows "\<exists>l. processLabelJob h hooked \<lparr>lj_action = jo_id j, lj_mailbox = jo_mailbox j, lj_confirmed = b\<rparr> w =
    (Ok (label_result_of (length (jo_ids j)) (Some token)), logged l (reverse_tx j token (jo_ids j) groups d1) w)"
proof -
  let ?p = "\<lparr>lj_action = jo_id j, lj_mailbox = jo_mailbox j, lj_confirmed = b\<rparr>"
  have find: "List.find (\<lambda>x. jo_id x = jo_id j) (jobs (wdb w)) = Some j"
    by (rule find_unique [OF sole_member [OF j(1)] refl]) (rule sole_ids [OF j(1)])
  have "run_action h hooked ?p j w = executeReverse (reverseChange change) j w"
    using j by (simp add: run_action_def)
  then have "processLabelJob h hooked ?p w = executeReverse (reverseChange change) j w"
    using calm find
    by (simp add: processLabelJob_def locked_def execute_def bindw_def calm_world_port no_effect_def calm_world_query)
  with calm_reverse [OF calm j(4,5), of "reverseChange change"] show ?thesis
    by (simp add: d1_def groups_def)
qed

subsection \<open>Labels\<close>

lemma mail_mirror_groups: "mail (mirror_groups mb gs d) = map (\<lambda>x. fold (\<lambda>g. mirror_row mb (fst g) (snd g)) gs x) (mail d)"
proof (induction gs arbitrary: d)
  case (Cons g gs)
  then show ?case by (simp add: mirror_groups_def o_def)
qed (simp add: mirror_groups_def)

lemma undos_mirror_groups [simp]: "undos (mirror_groups mb gs d) = undos d"
proof (induction gs arbitrary: d)
  case (Cons g gs)
  then show ?case by (simp add: mirror_groups_def mirror_mail_def)
qed (simp add: mirror_groups_def)

lemma reverse_tx_frame [simp]:
  "ids \<noteq> [] \<Longrightarrow> mail (reverse_tx j token ids gs d) =
     map (\<lambda>x. fold (\<lambda>g. mirror_row (jo_mailbox j) (fst g) (snd g)) gs x) (mail d)"
  "undos (reverse_tx j token ids gs d) = undos (record_revert token d)"
  by (simp_all add: reverse_tx_def Let_def invalidateInboxReportCache_def update_job_def clearLaterTimer_def
      mail_mirror_groups record_revert_def)

definition row_key :: "mail_row \<Rightarrow> ident \<times> ident" where
  "row_key x = (mm_mailbox x, mm_id x)"

definition keyed_mail :: "db \<Rightarrow> bool" where
  "keyed_mail d \<longleftrightarrow> distinct (map row_key (mail d))"

lemma keyed_mail_unique:
  "keyed_mail d \<Longrightarrow> x \<in> set (mail d) \<Longrightarrow> y \<in> set (mail d) \<Longrightarrow> row_key x = row_key y \<Longrightarrow> x = y"
  by (auto simp: keyed_mail_def distinct_map dest: inj_onD)

definition same_row :: "mail_row \<Rightarrow> mail_row \<Rightarrow> bool" where
  \<comment> \<open>the same message with the same set of labels\<close>
  "same_row x y \<longleftrightarrow> x\<lparr>mm_labels := []\<rparr> = y\<lparr>mm_labels := []\<rparr> \<and> set (mm_labels x) = set (mm_labels y)"

lemma same_row_refl [simp]: "same_row x x"
  by (simp add: same_row_def)

lemma mirror_row_fields [simp]:
  "mm_mailbox (mirror_row mb ids ch x) = mm_mailbox x" "mm_id (mirror_row mb ids ch x) = mm_id x"
  "(mirror_row mb ids ch x)\<lparr>mm_labels := l\<rparr> = x\<lparr>mm_labels := l\<rparr>"
  by (simp_all add: mirror_row_def)

lemma mirror_row_labels:
  "set (mm_labels (mirror_row mb ids ch x)) =
     (if mm_mailbox x = mb \<and> mm_id x \<in> set ids
      then set (mm_labels x) - set (removeLabels ch) \<union> set (addLabels ch) else set (mm_labels x))"
  by (simp add: mirror_row_def set_label_mirror)

lemma verb_changes:
  assumes "labelChangeForVerb v = Some p" "\<And>l. ensure l \<noteq> ''INBOX''"
  shows "\<exists>a. resolveLabelChange ensure (forwardChange p) = \<lparr>addLabels = a, removeLabels = [''INBOX'']\<rparr> \<and>
    resolveLabelChange ensure (reverseChange p) = \<lparr>addLabels = [''INBOX''], removeLabels = a\<rparr> \<and>
    resolveLabelChange ensure ((reverseChange p)\<lparr>addLabels := []\<rparr>) = \<lparr>addLabels = [], removeLabels = a\<rparr> \<and>
    ''INBOX'' \<notin> set a"
  using labelChangeForVerb_cases [OF assms(1)] assms(2) [symmetric]
  by (auto simp: resolveLabelChange_def resolve_labels_def later_label_def system_label_ids_def)

lemma mirror_filtered:
  "fold (\<lambda>g. mirror_row mb (fst g) (snd g)) (filter (\<lambda>(xs, _). xs \<noteq> []) gs) x =
   fold (\<lambda>g. mirror_row mb (fst g) (snd g)) gs x"
  by (induction gs arbitrary: x) auto

lemma resolved_filtered:
  "resolved_groups E (filter (\<lambda>(xs, _). xs \<noteq> []) gs) = filter (\<lambda>(xs, _). xs \<noteq> []) (resolved_groups E gs)"
  by (induction gs) (auto simp: resolved_groups_def)

lemma mirror_delete_groups:
  assumes "un_inbox u = Some inbox"
  shows "fold (\<lambda>g. mirror_row mb (fst g) (snd g)) (resolved_groups E (reverseChangeGroups j change ids (Some u))) x =
    mirror_row mb (filter (\<lambda>i. i \<notin> set inbox) ids) (resolveLabelChange E (change\<lparr>addLabels := []\<rparr>))
      (mirror_row mb (filter (\<lambda>i. i \<in> set inbox) ids) (resolveLabelChange E change) x)"
  using assms
  by (simp add: reverseChangeGroups_def Let_def resolved_filtered mirror_filtered del: filter.simps)
    (simp add: resolved_groups_def)

lemma acted_row:
  assumes "keyed_mail d" "x \<in> set (mail d)" "mm_mailbox x = jo_mailbox j" "mm_id x \<in> set (acted_ids j d)"
  shows "senderActionWhere (jo_mailbox j) [jo_sender_key j] (jo_reach j) x"
proof -
  obtain y where y: "y \<in> set (mail d)" "mm_id y = mm_id x" "senderActionWhere (jo_mailbox j) [jo_sender_key j] (jo_reach j) y"
    using assms(4) by (auto simp: acted_ids_def resolveSenderActionIds_def sender_action_mail_def)
  then have "row_key x = row_key y" using assms(3) by (simp add: row_key_def senderActionWhere_def)
  with keyed_mail_unique [OF assms(1,2) y(1)] y(3) show ?thesis by simp
qed

lemma remembered_inbox:
  assumes "keyed_mail d" "x \<in> set (mail d)" "mm_mailbox x = mb" "mm_id x \<in> set ids"
  shows "mm_id x \<in> set (filter (\<lambda>i. i \<in> set ids) (inbox_ids mb ids d)) \<longleftrightarrow> ''INBOX'' \<in> set (mm_labels x)"
proof
  assume "mm_id x \<in> set (filter (\<lambda>i. i \<in> set ids) (inbox_ids mb ids d))"
  then obtain y where y: "y \<in> set (mail d)" "mm_id y = mm_id x" "mm_mailbox y = mb" "''INBOX'' \<in> set (mm_labels y)"
    by (auto simp: inbox_ids_def)
  with keyed_mail_unique [OF assms(1,2) y(1)] assms(3) show "''INBOX'' \<in> set (mm_labels x)"
    by (simp add: row_key_def)
qed (use assms in \<open>auto simp: inbox_ids_def\<close>)

definition unlabelled :: "(string \<Rightarrow> string) \<Rightarrow> job_row \<Rightarrow> db \<Rightarrow> bool" where
  \<comment> \<open>no message to be moved carries a label the verb adds\<close>
  "unlabelled ensure j d \<longleftrightarrow>
     (case labelChangeForVerb (jo_verb j) of
        None \<Rightarrow> False
      | Some p \<Rightarrow>
          list_all (\<lambda>x. mm_mailbox x = jo_mailbox j \<and> mm_id x \<in> set (acted_ids j d) \<longrightarrow>
              set (mm_labels x) \<inter> set (addLabels (resolveLabelChange ensure (forwardChange p))) = {}) (mail d))"

lemma row_round_trip:
  assumes x: "x \<in> set (mail d)" and keyed: "keyed_mail d" and p: "labelChangeForVerb (jo_verb j) = Some p"
    and ensure: "\<And>l. E l \<noteq> ''INBOX''" and clean: "unlabelled E j d"
    and reach: "jo_verb j \<noteq> VDelete \<longrightarrow> jo_reach j = InboxOnly"
    and r: "jo_verb r = jo_verb j" "jo_ids r = acted_ids j d" "List.find (\<lambda>u. un_token u = token) (undos d') = Some u"
    and u: "jo_verb j = VDelete \<Longrightarrow>
      un_inbox u = Some (filter (\<lambda>i. i \<in> set (acted_ids j d)) (inbox_ids (jo_mailbox j) (acted_ids j d) d))"
  shows "same_row (fold (\<lambda>g. mirror_row (jo_mailbox j) (fst g) (snd g))
      (resolved_groups E (groups_of r token (reverseChange p) d'))
      (mirror_row (jo_mailbox j) (acted_ids j d) (resolveLabelChange E (forwardChange p)) x)) x"
proof -
  let ?mb = "jo_mailbox j" and ?ids = "acted_ids j d"
  obtain a where a: "resolveLabelChange E (forwardChange p) = \<lparr>addLabels = a, removeLabels = [''INBOX'']\<rparr>"
      "resolveLabelChange E (reverseChange p) = \<lparr>addLabels = [''INBOX''], removeLabels = a\<rparr>"
      "resolveLabelChange E ((reverseChange p)\<lparr>addLabels := []\<rparr>) = \<lparr>addLabels = [], removeLabels = a\<rparr>"
      "''INBOX'' \<notin> set a"
    using verb_changes [where ensure = E, OF p ensure] by blast
  have acted: "set (mm_labels x) \<inter> set a = {}" if "mm_mailbox x = ?mb" "mm_id x \<in> set ?ids"
    using clean x that by (auto simp: unlabelled_def p a(1) list_all_iff)
  show ?thesis
  proof (cases "jo_verb j = VDelete")
    case False
    have "''INBOX'' \<in> set (mm_labels x)" if "mm_mailbox x = ?mb" "mm_id x \<in> set ?ids"
      using acted_row [OF keyed x that] reach False by (simp add: senderActionWhere_def)
    with False acted show ?thesis
      by (auto simp: groups_of_def resolved_groups_def r same_row_def mirror_row_labels a)
  next
    case True
    have "mm_id x \<in> set (filter (\<lambda>i. i \<in> set ?ids) (inbox_ids ?mb ?ids d)) \<longleftrightarrow> ''INBOX'' \<in> set (mm_labels x)"
      if "mm_mailbox x = ?mb" "mm_id x \<in> set ?ids"
      by (rule remembered_inbox [OF keyed x that])
    then show ?thesis
      using True acted a(4)
      by (cases "mm_mailbox x = ?mb \<and> mm_id x \<in> set ?ids")
        (auto simp: groups_of_def r mirror_delete_groups [OF u [OF True]] same_row_def mirror_row_labels a(1-3))
  qed
qed

subsection \<open>The round\<close>

definition undo_round ::
  "host \<Rightarrow> bool \<Rightarrow> api_env \<Rightarrow> label_job_data \<Rightarrow> world \<Rightarrow> (ident \<times> world \<times> world) option" where
  \<comment> \<open>the action, its revert, the delivery the revert queued; the token and the worlds after the first and the last\<close>
  "undo_round h hooked env p w =
     (case processLabelJob h hooked p w of
        (Ok r, w1) \<Rightarrow>
          (case lr_undo r of
             None \<Rightarrow> None
           | Some token \<Rightarrow>
               (case performRevert env (lj_mailbox p) token True w1 of
                  (Ok _, w2) \<Rightarrow>
                    (case last (label_queue w2) of
                       (_, aid, confirmed) \<Rightarrow>
                         (case processLabelJob h hooked
                            \<lparr>lj_action = aid, lj_mailbox = lj_mailbox p, lj_confirmed = confirmed\<rparr> w2 of
                            (Ok _, w3) \<Rightarrow> Some (token, w1, w3)
                          | _ \<Rightarrow> None))
                | _ \<Rightarrow> None))
      | _ \<Rightarrow> None)"

lemma undo_round_run:
  assumes "processLabelJob h hooked p w = (Ok r, w1)" "lr_undo r = Some token"
    and "mb = lj_mailbox p" "performRevert env mb token True w1 = (Ok s, w2)"
    and "last (label_queue w2) = (qid, aid, confirmed)"
    and "processLabelJob h hooked \<lparr>lj_action = aid, lj_mailbox = mb, lj_confirmed = confirmed\<rparr> w2 = (Ok r', w3)"
  shows "undo_round h hooked env p w = Some (token, w1, w3)"
  using assms by (simp add: undo_round_def)

definition fresh_names :: "api_env \<Rightarrow> world \<Rightarrow> bool" where
  \<comment> \<open>the ids drawn next: the token, and the reverse row's after the audit row's\<close>
  "fresh_names env w \<longleftrightarrow>
     (let token = uuid_of w (uuid_next w)
      in isUuid token \<and> ae_queue env \<and> unheard env token (uuid_of w (uuid_next w + 2)) w \<and>
         list_all (\<lambda>u. un_token u \<noteq> token) (undos (wdb w)) \<and>
         list_all (\<lambda>x. jo_undo x \<noteq> Some token) (jobs (wdb w)))"

lemma find_snoc: "list_all (\<lambda>x. \<not> P x) xs \<Longrightarrow> P y \<Longrightarrow> List.find P (xs @ [y]) = Some y"
  by (induction xs) auto

lemma undo_row_fields [simp]:
  "un_token (label_undo_row t e c s now) = t" "un_mailbox (label_undo_row t e c s now) = jo_mailbox (la_job c)"
  "un_kind (label_undo_row t e c s now) = jo_verb (la_job c)" "un_expires (label_undo_row t e c s now) = e"
  "un_reverted (label_undo_row t e c s now) = None"
  by (simp_all add: label_undo_row_def Let_def)

lemma undo_row_inbox:
  assumes "jo_verb (la_job c) = VDelete"
  shows "un_inbox (label_undo_row t e c (remembered c d) now) =
    Some (filter (\<lambda>i. i \<in> set (la_ids c)) (inbox_ids (jo_mailbox (la_job c)) (la_ids c) d))"
  using assms by (simp add: label_undo_row_def Let_def buildUndoPayload_def remembered_def)

lemma stored_reverse_fields [simp]:
  "jo_id (stored_reverse rid mb f token d) = rid" "jo_mailbox (stored_reverse rid mb f token d) = mb"
  "jo_verb (stored_reverse rid mb f token d) = jo_verb f" "jo_ids (stored_reverse rid mb f token d) = jo_ids f"
  "jo_undo (stored_reverse rid mb f token d) = Some token" "jo_status (stored_reverse rid mb f token d) = Queued"
  "jo_direction (stored_reverse rid mb f token d) = Reverse"
  by (simp_all add: stored_reverse_def reverse_row_def)

definition after_action :: "label_ctx \<Rightarrow> ident \<Rightarrow> millis \<Rightarrow> db \<Rightarrow> db \<Rightarrow> bool" where
  \<comment> \<open>the store a calm forward run leaves\<close>
  "after_action c token e d d' \<longleftrightarrow>
     db_now d < e \<and> db_now d' = db_now d \<and>
     mail d' = map (mirror_row (jo_mailbox (la_job c)) (la_ids c) (la_change c)) (mail d) \<and>
     undos d' = undos d @ [label_undo_row token e c (remembered c d) (db_now d)] \<and>
     jobs d' = update_where (\<lambda>x. jo_id x = jo_id (la_job c)) (\<lambda>_. done_row c d token) (jobs d)"

lemma after_undo_of:
  assumes "after_action c token e d d'" "list_all (\<lambda>u. un_token u \<noteq> token) (undos d)"
  shows "undo_of token (jo_mailbox (la_job c)) d' = Some (label_undo_row token e c (remembered c d) (db_now d))"
    and "List.find (\<lambda>u. un_token u = token) (undos d') = Some (label_undo_row token e c (remembered c d) (db_now d))"
  using assms by (auto simp: after_action_def undo_of_def list_all_iff intro!: find_snoc)

lemma after_issuing:
  assumes "after_action c token e d d'" "sole (la_job c) d" "list_all (\<lambda>x. jo_undo x \<noteq> Some token) (jobs d)"
    "jo_direction (la_job c) = Forward"
  shows "issuing_job (jo_mailbox (la_job c)) token d' = Some (done_row c d token)"
  unfolding issuing_job_def
proof (rule find_unique)
  show "done_row c d token \<in> set (jobs d')"
    using assms(1) sole_member [OF assms(2)] by (auto simp: after_action_def update_where_def)
qed (use assms in \<open>auto simp: after_action_def update_where_def list_all_iff\<close>)

lemma after_unheard:
  assumes "after_action c token e (wdb w) d'" "sole (la_job c) (wdb w)" "unheard env token rid w"
  shows "list_all (\<lambda>x. jo_key x \<noteq> revert_key token \<and> jo_id x \<noteq> rid) (jobs d')"
proof -
  have "jo_key (la_job c) \<noteq> revert_key token \<and> jo_id (la_job c) \<noteq> rid"
    using sole_member [OF assms(2)] assms(3) by (auto simp: unheard_def list_all_iff)
  with assms(1,3) show ?thesis
    by (auto simp: after_action_def unheard_def list_all_iff update_where_def)
qed

lemma sole_snoc:
  assumes "list_all (\<lambda>x. jo_id x \<noteq> jo_id j) (jobs d)"
  shows "sole j (d\<lparr>jobs := jobs d @ [j]\<rparr>)"
  using assms by (auto simp: sole_def list_all_iff filter_empty_conv)

lemma recorded_undo:
  assumes "undo_of token mb d = Some u" "un_reverted u = None"
  shows "undo_of token mb (d\<lparr>undos := undos (record_revert token d)\<rparr>) = Some (u\<lparr>un_reverted := Some (db_now d)\<rparr>)"
proof -
  have "List.find (\<lambda>u. un_token u = token \<and> un_mailbox u = mb)
      (update_where (\<lambda>u. un_token u = token \<and> un_reverted u = None) (\<lambda>u. u\<lparr>un_reverted := Some (db_now d)\<rparr>) us) =
    map_option (\<lambda>u. u\<lparr>un_reverted := Some (db_now d)\<rparr>) (List.find (\<lambda>u. un_token u = token \<and> un_mailbox u = mb) us)"
    if "List.find (\<lambda>u. un_token u = token \<and> un_mailbox u = mb) us = Some u" for us
    using that assms(2) by (induction us) (auto split: if_splits)
  with assms show ?thesis by (simp add: undo_of_def record_revert_def)
qed

lemma round_forward:
  fixes h :: host
  assumes calm: "calm_world w" and j: "manual_action p j (wdb w)"
    and change: "labelChangeForVerb (jo_verb j) = Some change" and ids: "acted_ids j (wdb w) \<noteq> []"
  defines "c \<equiv> action_ctx h (lj_confirmed p) (resolveLabelChange (ensure_label w) (forwardChange change)) j (acted_ids j (wdb w))"
    and "token \<equiv> uuid_of w (uuid_next w)"
  shows "\<exists>l e d'. processLabelJob h hooked p w =
      (Ok (label_result_of (length (acted_ids j (wdb w))) (Some token)), (logged l d' w)\<lparr>uuid_next := uuid_next w + 2\<rparr>) \<and>
    after_action c token e (wdb w) d'"
  using calm_forward [OF calm j change refl ids, of h hooked]
  by (auto simp: after_action_def c_def token_def action_ctx_def)

lemma round_reverse:
  fixes change :: label_change_pair
  assumes calm: "calm_world w" and after: "after_action c token e d (wdb w)" and keyed: "keyed_mail d"
    and job: "la_job c = j" "la_ids c = acted_ids j d"
      "la_change c = resolveLabelChange (ensure_label w) (forwardChange change)"
    and change: "labelChangeForVerb (jo_verb j) = Some change" and ids: "acted_ids j d \<noteq> []"
    and clean: "unlabelled (ensure_label w) j d" and ensure: "\<And>l. ensure_label w l \<noteq> ''INBOX''"
    and reach: "jo_verb j \<noteq> VDelete \<longrightarrow> jo_reach j = InboxOnly"
    and names: "list_all (\<lambda>u. un_token u \<noteq> token) (undos d)"
      "list_all (\<lambda>x. jo_key x \<noteq> revert_key token \<and> jo_id x \<noteq> rid) (jobs (wdb w))"
  defines "r \<equiv> stored_reverse rid (jo_mailbox j) (done_row c d token) token (wdb w)"
  defines "d2 \<equiv> (wdb w)\<lparr>jobs := jobs (wdb w) @ [r]\<rparr>"
  shows "\<exists>l d3. processLabelJob h hooked \<lparr>lj_action = rid, lj_mailbox = jo_mailbox j, lj_confirmed = b\<rparr>
        (w\<lparr>uuid_next := n, wdb := d2, label_queue := q\<rparr>) =
      (Ok (label_result_of (length (acted_ids j d)) (Some token)), logged l d3 (w\<lparr>uuid_next := n, wdb := d2, label_queue := q\<rparr>)) \<and>
    list_all2 same_row (mail d3) (mail d) \<and> undos d3 = undos (record_revert token (wdb w))"
proof -
  let ?w2 = "w\<lparr>uuid_next := n, wdb := d2, label_queue := q\<rparr>" and ?u = "label_undo_row token e c (remembered c d) (db_now d)"
  let ?d1 = "update_job (jo_id r) (\<lambda>x. x\<lparr>jo_status := Executing\<rparr>) d2"
  let ?gs = "resolved_groups (ensure_label w) (groups_of r token (reverseChange change) d2)"
  have r: "jo_id r = rid" "jo_mailbox r = jo_mailbox j" "jo_verb r = jo_verb j" "jo_ids r = acted_ids j d"
    by (simp_all add: r_def job)
  have "list_all (\<lambda>x. jo_id x \<noteq> jo_id r) (jobs (wdb w))" using names(2) by (auto simp: list_all_iff r)
  then have sole: "sole r (wdb ?w2)" by (simp add: d2_def sole_snoc)
  have "calm_world ?w2" using calm by simp
  from calm_reverse_job [OF this sole, of token change h hooked b] obtain l where
    run: "processLabelJob h hooked \<lparr>lj_action = rid, lj_mailbox = jo_mailbox j, lj_confirmed = b\<rparr> ?w2 =
      (Ok (label_result_of (length (acted_ids j d)) (Some token)), logged l (reverse_tx r token (acted_ids j d) ?gs ?d1) ?w2)"
    using ids change by (auto simp: r, auto simp: r_def)
  have mail_d2: "mail ?d1 = map (mirror_row (jo_mailbox j) (acted_ids j d) (la_change c)) (mail d)"
    using after by (simp add: after_action_def d2_def update_job_def job)
  have undos_d2: "undos d2 = undos (wdb w)" by (simp add: d2_def)
  have find: "List.find (\<lambda>u. un_token u = token) (undos d2) = Some ?u"
    using after_undo_of(2) [OF after names(1)] by (simp add: undos_d2)
  have row: "same_row (fold (\<lambda>g. mirror_row (jo_mailbox j) (fst g) (snd g)) ?gs
      (mirror_row (jo_mailbox j) (acted_ids j d) (la_change c) x)) x" if "x \<in> set (mail d)" for x
    unfolding job(3)
    by (rule row_round_trip [where u = ?u, OF that keyed change ensure clean reach r(3,4) find])
      (use undo_row_inbox [of c token e d "db_now d"] job(1,2) in simp)
  have "list_all2 same_row (mail (reverse_tx r token (acted_ids j d) ?gs ?d1)) (mail d)"
    using row ids by (simp add: mail_d2 r(2) list_all2_conv_all_nth)
  moreover have "undos (reverse_tx r token (acted_ids j d) ?gs ?d1) = undos (record_revert token (wdb w))"
    by (simp add: record_revert_def update_job_def d2_def)
  ultimately show ?thesis using run by blast
qed


text \<open>A Delete of a sender's mail wherever it is: one message in the inbox, one outside, one of another sender.\<close>

definition undo_demo_job :: job_row where
  "undo_demo_job =
     \<lparr>jo_id = ''j'', jo_mailbox = ''m'', jo_verb = VDelete, jo_sender_id = ''s'', jo_sender_key = ''k'', jo_ids = [],
      jo_requested = 2, jo_affected = 0, jo_status = Queued, jo_key = ''key'', jo_undo = None, jo_error = None,
      jo_wake = None, jo_direction = Forward, jo_selector = BySender, jo_custom = None, jo_delete_undo = None,
      jo_quiet_until = None, jo_composite = None, jo_root = None, jo_attempt = 0, jo_older = None,
      jo_reach = AllMail, jo_quota = 2, jo_created = 0\<rparr>"

definition undo_demo_mail :: "ident \<Rightarrow> string \<Rightarrow> string list \<Rightarrow> mail_row" where
  "undo_demo_mail i k ls =
     \<lparr>mm_id = i, mm_mailbox = ''m'', mm_key = Some k, mm_labels = ls, mm_outbound = False, mm_date = 0, mm_row = i, mm_one_click = False, mm_unsub_url = None, mm_mailto = None\<rparr>"

definition undo_demo_db :: db where
  "undo_demo_db =
     \<lparr>workspaces = [\<lparr>ws_id = ''w'', ws_tier = Free\<rparr>],
      mailboxes = [\<lparr>mb_id = ''m'', mb_workspace = ''w'', mb_quiet = JNull, mb_active = True, mb_user = ''u'', mb_connected = None\<rparr>],
      rules = [], senders = [], policies = [], matches = [], jobs = [undo_demo_job], activity = [], undos = [],
      mail = [undo_demo_mail ''a'' ''k'' [''INBOX''], undo_demo_mail ''b'' ''k'' [''UNREAD''],
              undo_demo_mail ''c'' ''l'' [''INBOX'', ''STARRED'']],
      timeseries = [], decisions = [], outbox = [], inbox_reports = [''m''], sync_states = [], cron_runs = [], db_now = 1000\<rparr>"

definition undo_demo_uuid :: "nat \<Rightarrow> ident" where
  "undo_demo_uuid n = ''00000000-0000-4000-8000-'' @ take 12 (replicate n CHR ''1'' @ replicate 12 CHR ''0'')"

definition undo_demo_world :: world where
  "undo_demo_world =
     \<lparr>wdb = undo_demo_db, ticks = [], sends = [], calls = [], uuid_of = undo_demo_uuid, uuid_next = 1,
      ensure_label = (\<lambda>l. ''Label_7''), requests = [], enqueued = [], resumes = [], chained = [], requeued = [],
      label_queue = [], wake_queue = [], label_map = [], https = [], posted = []\<rparr>"

definition undo_demo_env :: api_env where
  "undo_demo_env = \<lparr>ae_queue = True, ae_digest = (\<lambda>s. s)\<rparr>"

definition undo_demo_payload :: label_job_data where
  "undo_demo_payload = \<lparr>lj_action = ''j'', lj_mailbox = ''m'', lj_confirmed = False\<rparr>"


end
