(* ===== verification/Undo_Lifecycle.thy ===== *)
theory Undo_Lifecycle
  imports Undo_Restores
begin

text \<open>
  What becomes of an undo token: the janitor, the older claim on \<open>executed_at\<close>, and two ways a
  revert goes further than it should - after the window of a sibling has closed, and over a
  reverse action that has just finished.
\<close>

subsection \<open>The janitor\<close>

definition token_known :: "db \<Rightarrow> ident option \<Rightarrow> bool" where
  "token_known d t \<longleftrightarrow> (case t of None \<Rightarrow> True | Some x \<Rightarrow> list_ex (\<lambda>u. un_token u = x) (undos d))"

definition undo_refs_ok :: "db \<Rightarrow> bool" where
  \<comment> \<open>the three foreign keys, and the primary key\<close>
  "undo_refs_ok d \<longleftrightarrow>
     distinct (map un_token (undos d)) \<and> list_all (\<lambda>a. token_known d (ac_undo a)) (activity d) \<and>
     list_all (\<lambda>j. token_known d (jo_undo j)) (jobs d) \<and> list_all (\<lambda>m. token_known d (ma_token m)) (matches d)"

lemma null_token_known:
  assumes "token_known d t" "distinct (map un_token (undos d))"
  shows "token_known (expire_undos d) (null_token (map un_token (filter (past_lag d) (undos d))) t)"
  using assms by (cases t) (auto simp: token_known_def null_token_def expire_undos_def Let_def list_ex_iff)

lemma expire_refs:
  assumes "undo_refs_ok d"
  shows "undo_refs_ok (expire_undos d)"
proof -
  let ?gone = "map un_token (filter (past_lag d) (undos d))"
  have frame: "undos (expire_undos d) = filter (\<lambda>u. \<not> past_lag d u) (undos d)"
    "activity (expire_undos d) = map (\<lambda>a. a\<lparr>ac_undo := null_token ?gone (ac_undo a)\<rparr>) (activity d)"
    "jobs (expire_undos d) = map (\<lambda>j. j\<lparr>jo_undo := null_token ?gone (jo_undo j)\<rparr>) (jobs d)"
    "matches (expire_undos d) = map (\<lambda>m. m\<lparr>ma_token := null_token ?gone (ma_token m)\<rparr>) (matches d)"
    by (simp_all add: expire_undos_def Let_def)
  have keys: "distinct (map un_token (undos d))" using assms by (simp add: undo_refs_ok_def)
  note known = null_token_known [OF _ keys]
  show ?thesis
    unfolding undo_refs_ok_def frame
    using assms known keys by (auto simp: undo_refs_ok_def list_all_iff distinct_map inj_on_def)
qed

lemma find_filtered:
  assumes "distinct (map f xs)" "\<And>x. P x \<Longrightarrow> f x = k"
  shows "List.find P (filter Q xs) = (case List.find P xs of None \<Rightarrow> None | Some x \<Rightarrow> if Q x then Some x else None)"
  using assms
proof (induction xs)
  case (Cons a xs)
  have "List.find P (filter Q xs) = None" if "P a"
    using Cons.prems that by (auto simp: find_None_iff)
  then show ?case using Cons by (cases "P a") simp_all
qed simp

definition undo_answer :: "millis \<Rightarrow> undo_row option \<Rightarrow> revertable" where
  "undo_answer now r =
     (case r of
        None \<Rightarrow> UndoNotFound
      | Some u \<Rightarrow>
          if un_reverted u \<noteq> None then AlreadyReverted u else if un_expires u \<le> now then UndoExpired u
          else ReadyToRevert u)"

lemma calm_find_revertable:
  "calm_world w \<Longrightarrow> findRevertable token mb w = (Ok (undo_answer (db_now (wdb w)) (undo_of token mb (wdb w))), w)"
  by (cases "undo_of token mb (wdb w)")
    (simp_all add: findRevertable_def bindw_def calm_world_query clock_def returnw_def undo_answer_def)

text \<open>
  The undo janitor forgets late and cleanly. A token that can still be reverted is never
  taken away; one whose window closed keeps answering "expired" for a day more and only then
  becomes unknown; and the sweep leaves no activity row, action or match naming a token that
  is gone.
\<close>

theorem undo_expiry_lag:
  assumes "calm_world w" "undo_refs_ok (wdb w)"
  shows "let w' = snd (runUndoExpiry w); before = fst (findRevertable token mb w); now = db_now (wdb w)
    in undo_refs_ok (wdb w') \<and>
       fst (findRevertable token mb w') =
         (case undo_of token mb (wdb w) of
            None \<Rightarrow> before
          | Some u \<Rightarrow> if un_expires u < now - day_ms then Ok UndoNotFound else before) \<and>
       (\<forall>u. before = Ok (ReadyToRevert u) \<longrightarrow> fst (findRevertable token mb w') = before)"
proof -
  let ?d = "wdb w" and ?w' = "snd (runUndoExpiry w)"
  have run: "?w' = w\<lparr>wdb := expire_undos ?d\<rparr>"
    using assms(1) by (simp add: runUndoExpiry_def calm_world_stmt)
  have calm: "calm_world ?w'" using assms(1) by (simp add: run)
  have keys: "distinct (map un_token (undos ?d))" using assms(2) by (simp add: undo_refs_ok_def)
  have undo: "undo_of token mb (wdb ?w') =
      (case undo_of token mb ?d of None \<Rightarrow> None | Some u \<Rightarrow> if past_lag ?d u then None else Some u)"
    using find_filtered [OF keys, of "\<lambda>u. un_token u = token \<and> un_mailbox u = mb" token "\<lambda>u. \<not> past_lag ?d u"]
    by (simp add: run undo_of_def expire_undos_def Let_def split: option.split)
  have now: "db_now (wdb ?w') = db_now ?d" by (simp add: run expire_undos_def Let_def)
  have refs: "undo_refs_ok (wdb ?w')" using expire_refs [OF assms(2)] by (simp add: run)
  show ?thesis
    unfolding Let_def calm_find_revertable [OF assms(1)] calm_find_revertable [OF calm] undo now
    using refs
    by (auto simp: undo_answer_def past_lag_def expiry_lag_days_def day_ms_def split: option.splits)
qed

definition undo_demo_moved :: "millis \<Rightarrow> world" where
  \<comment> \<open>the action has run; the clock then shows \<open>now\<close>\<close>
  "undo_demo_moved now =
     (let w = snd (processLabelJob utc_host False undo_demo_payload undo_demo_world)
      in w\<lparr>wdb := (wdb w)\<lparr>db_now := now\<rparr>\<rparr>)"

definition undo_demo_token :: ident where
  "undo_demo_token = undo_demo_uuid 1"

definition undo_answer_name :: "revertable res \<times> world \<Rightarrow> string" where
  "undo_answer_name r =
     (case fst r of
        Ok (ReadyToRevert _) \<Rightarrow> ''ready'' | Ok (AlreadyReverted _) \<Rightarrow> ''reverted'' | Ok (UndoExpired _) \<Rightarrow> ''expired''
      | Ok UndoNotFound \<Rightarrow> ''unknown'' | _ \<Rightarrow> ''error'')"

theorem undo_expiry_lag_witness:
  "let w = undo_demo_moved (1000 + 32 * day_ms); w' = snd (runUndoExpiry w)
   in undo_answer_name (findRevertable undo_demo_token ''m'' w) = ''expired'' \<and>
      fst (findRevertable undo_demo_token ''m'' w') = Ok UndoNotFound \<and> undo_refs_ok (wdb w') \<and>
      map jo_undo (jobs (wdb w')) = [None]"
proof -
  let ?w = "undo_demo_moved (1000 + 32 * day_ms)"
  have "calm_world ?w" "undo_refs_ok (wdb ?w)" unfolding calm_world_def by code_simp+
  note lag = undo_expiry_lag [OF this, of undo_demo_token "''m''", unfolded Let_def]
  have late: "(case undo_of undo_demo_token ''m'' (wdb ?w) of
      None \<Rightarrow> False | Some u \<Rightarrow> un_expires u < db_now (wdb ?w) - day_ms)" by code_simp
  have "undo_answer_name (findRevertable undo_demo_token ''m'' ?w) = ''expired''"
    "map jo_undo (jobs (wdb (snd (runUndoExpiry ?w)))) = [None]" by code_simp+
  with lag late show ?thesis by (simp add: Let_def split: option.splits)
qed

subsection \<open>The older claim\<close>

text \<open>
  A claim is final. Once \<open>claimForRevert\<close> has stamped a token, no later call is ever granted
  it again - also when the revert it was granted for failed, so that the mail is not back.
\<close>

theorem claim_is_final:
  assumes "calm_world w" "undo_of token mb (wdb w) = Some u" "un_executed u \<noteq> None"
    and "distinct (map un_token (undos (wdb w)))"
  shows "claimForRevert token mb w =
    (Ok (if un_reverted u = None \<and> un_expires u \<le> db_now (wdb w) then ClaimExpired u else ClaimReverted u), w)"
proof -
  let ?d = "wdb w"
  have u: "u \<in> set (undos ?d)" "un_token u = token"
    using assms(2) by (auto simp: undo_of_def find_Some_iff)
  have only: "x = u" if "x \<in> set (undos ?d)" "un_token x = token" for x
    using assms(4) u that by (auto simp: distinct_map dest: inj_onD)
  have "List.find (\<lambda>u. un_token u = token \<and> un_executed u = None) (undos ?d) = None"
    using only assms(3) by (auto simp: find_None_iff)
  moreover have "update_where (\<lambda>u. un_token u = token \<and> un_executed u = None) f (undos ?d) = undos ?d" for f
    using only assms(3) by (auto simp: update_where_def intro!: map_idI)
  ultimately have "claim_stmt token ?d = Inr (None, ?d)"
    by (simp add: claim_stmt_def Let_def)
  from calm_world_stmt [where f = "claim_stmt token", OF assms(1) this]
  have stmt: "stmt (claim_stmt token) w = (Ok None, w)" by simp
  have "List.find (\<lambda>x. un_token x = token) (undos ?d) = Some u"
    by (rule find_unique [where P = "\<lambda>x. un_token x = token", OF u]) (rule only)
  with assms(1,2) show ?thesis
    by (cases "un_reverted u")
      (simp_all add: claimForRevert_def bindw_def calm_world_query clock_def returnw_def stmt)
qed

text \<open>A revert is claimed, its mail provider call fails, the user tries again: the claim answers "already reverted".\<close>

theorem claim_is_final_witness:
  "let w = snd (claimForRevert undo_demo_token ''m'' (undo_demo_moved 2000))
   in map un_reverted (undos (wdb w)) = [None] \<and>
      (case claimForRevert undo_demo_token ''m'' w of (Ok (Claimed _), _) \<Rightarrow> False | _ \<Rightarrow> True)"
proof -
  let ?w = "snd (claimForRevert undo_demo_token ''m'' (undo_demo_moved 2000))"
  have w: "calm_world ?w" "case undo_of undo_demo_token ''m'' (wdb ?w) of None \<Rightarrow> False | Some u \<Rightarrow> un_executed u \<noteq> None"
    "distinct (map un_token (undos (wdb ?w)))" "map un_reverted (undos (wdb ?w)) = [None]"
    unfolding calm_world_def by code_simp+
  then obtain u where "undo_of undo_demo_token ''m'' (wdb ?w) = Some u" "un_executed u \<noteq> None"
    by (auto split: option.splits)
  from claim_is_final [OF w(1) this w(3)] w(4) show ?thesis by (simp add: Let_def)
qed

subsection \<open>Two ways too far\<close>

text \<open>
  Two senders archived in one decision. The undo of one is used in time, the other's window
  closes. Reverting the decision then is refused for neither reason: the spent token routes
  around the expiry check, and the closed sibling is reverted too.
\<close>

definition pair_job :: "ident \<Rightarrow> ident \<Rightarrow> ident \<Rightarrow> ident option \<Rightarrow> job_row" where
  "pair_job i m token primary =
     undo_demo_job\<lparr>jo_id := i, jo_verb := VArchive, jo_reach := InboxOnly, jo_ids := [m], jo_status := JobDone,
       jo_undo := Some token, jo_key := i, jo_composite := primary\<rparr>"

definition pair_undo :: "ident \<Rightarrow> ident \<Rightarrow> millis option \<Rightarrow> undo_row" where
  "pair_undo token m reverted =
     \<lparr>un_token = token, un_mailbox = ''m'', un_kind = VArchive, un_ids = [m], un_expires = 5000, un_inbox = None,
      un_unknown = False, un_all_mail = False, un_created = 0, un_executed = None, un_reverted = reverted\<rparr>"

definition pair_world :: world where
  "pair_world = undo_demo_world\<lparr>uuid_next := 5, wdb := undo_demo_db\<lparr>db_now := 6000,
     jobs := [pair_job ''j'' ''a'' (undo_demo_uuid 1) None, pair_job ''k'' ''b'' (undo_demo_uuid 2) (Some ''j'')],
     undos := [pair_undo (undo_demo_uuid 1) ''a'' (Some 3000), pair_undo (undo_demo_uuid 2) ''b'' None]\<rparr>\<rparr>"

definition queued_for :: "ident \<Rightarrow> db \<Rightarrow> bool" where
  "queued_for token d = list_ex (\<lambda>x. jo_direction x = Reverse \<and> jo_undo x = Some token \<and> jo_status x = Queued) (jobs d)"

theorem closed_sibling_is_reverted:
  "(case performRevert undo_demo_env ''m'' (undo_demo_uuid 2) True pair_world of (Err (HttpError n _), _) \<Rightarrow> n = 410 | _ \<Rightarrow> False) \<and>
   (case performRevert undo_demo_env ''m'' (undo_demo_uuid 1) False pair_world of
      (Ok r, w) \<Rightarrow> queued_for (undo_demo_uuid 2) (wdb w) | _ \<Rightarrow> False)"
  by code_simp

text \<open>
  The reverse action finishes between the request's look at its row and the update that
  rearms it: a finished row goes back to the queue with its count erased, after its undo was
  recorded as reverted.
\<close>

definition finishing_tick :: "ident \<Rightarrow> tick" where
  \<comment> \<open>the worker runs the reverse action to its end\<close>
  "finishing_tick rid =
     Tick (\<lambda>d. wdb (snd (processLabelJob utc_host False \<lparr>lj_action = rid, lj_mailbox = ''m'', lj_confirmed = False\<rparr>
            (undo_demo_world\<lparr>wdb := d\<rparr>)))) StmtOk"

definition rearm_world :: world where
  \<comment> \<open>the first request has queued the reverse action; the worker has started it\<close>
  "rearm_world =
     (let w = snd (performRevert undo_demo_env ''m'' undo_demo_token True (undo_demo_moved 2000));
          rid = undo_demo_uuid 3
      in w\<lparr>label_queue := [], wdb := update_job rid (\<lambda>x. x\<lparr>jo_status := Executing\<rparr>) (wdb w),
           ticks := replicate 4 (Tick id StmtOk) @ [finishing_tick rid]\<rparr>)"

theorem finished_revert_is_rearmed:
  "let (r, w) = performRevert undo_demo_env ''m'' undo_demo_token True rearm_world
   in map (un_reverted) (undos (wdb w)) = [Some 2000] \<and> queued_for undo_demo_token (wdb w) \<and>
      label_queue w \<noteq> []"
  by code_simp

end
