(* ===== verification/Snooze.thy ===== *)
theory Snooze
  imports Label_Action
begin

text \<open>
  The return of Later mail: the wake worker (\<^verbatim>\<open>packages/workers/src/snooze-wake.worker.ts\<close>) with its
  fifteen-minute sweep and its targeted wakes, the queue contract
  (\<^verbatim>\<open>packages/workers/src/snooze-wake.queue.ts\<close>), the API that sets timers and asks for wakes
  (\<^verbatim>\<open>apps/api/src/senders/snooze.service.ts\<close>), and the record of a dead grant
  (\<^verbatim>\<open>packages/workers/src/mailbox-reconnect.ts\<close>).

  A timer is versioned by when it is due and when it was set. The mailboxes of a sweep run one
  after another here; what other mailboxes' wakes write in between is a step of another writer.
\<close>

subsection \<open>Mailboxes that need a reconnect\<close>

definition invalid_grant_error :: string where
  "invalid_grant_error = ''InvalidGrantError''"

definition notNeedingReconnect :: "sync_row \<Rightarrow> bool" where
  "notNeedingReconnect r \<longleftrightarrow>
     sy_error r \<noteq> Some invalid_grant_error \<or> sy_error_at r = None \<or>
     (case (sy_synced r, sy_error_at r) of (Some s, Some e) \<Rightarrow> e \<le> s | _ \<Rightarrow> False)"

definition sync_of :: "ident \<Rightarrow> db \<Rightarrow> sync_row option" where
  "sync_of mb d = List.find (\<lambda>r. sy_mailbox r = mb) (sync_states d)"

definition isAwaitingReconnect :: "ident \<Rightarrow> bool wm" where
  "isAwaitingReconnect mb =
     query (\<lambda>d. list_ex (\<lambda>r. sy_mailbox r = mb \<and> \<not> notNeedingReconnect r) (sync_states d))"

datatype sync_failure_outcome = FailureRecorded | FailureSuperseded | AlreadyAwaiting | FailureSkipped

definition unresolved_error :: "sync_row \<Rightarrow> bool" where
  "unresolved_error r \<longleftrightarrow>
     (case sy_error_at r of
        None \<Rightarrow> False
      | Some e \<Rightarrow> (case sy_synced r of None \<Rightarrow> True | Some s \<Rightarrow> s < e))"

definition connected_after :: "ident \<Rightarrow> millis option \<Rightarrow> db \<Rightarrow> bool" where
  \<comment> \<open>the attempt began before the mailbox was last connected\<close>
  "connected_after mb started d =
     (case started of
        None \<Rightarrow> False
      | Some t \<Rightarrow>
          (case Option.bind (List.find (\<lambda>m. mb_id m = mb) (mailboxes d)) mb_connected of
             None \<Rightarrow> False
           | Some c \<Rightarrow> t < c))"

definition record_incident :: "ident \<Rightarrow> string \<Rightarrow> sync_row \<Rightarrow> db \<Rightarrow> db" where
  \<comment> \<open>the start of a retryable outage is kept\<close>
  "record_incident mb code r d =
     (let failedAt = (if code \<noteq> invalid_grant_error \<and> unresolved_error r
                      then (case sy_error_at r of None \<Rightarrow> db_now d | Some t \<Rightarrow> t) else db_now d);
          d1 = d\<lparr>sync_states := update_where (\<lambda>x. sy_mailbox x = mb)
                  (\<lambda>x. x\<lparr>sy_error_at := Some failedAt, sy_error := Some code\<rparr>) (sync_states d)\<rparr>
      in if code = invalid_grant_error
         then (case List.find (\<lambda>m. mb_id m = mb \<and> mb_active m) (mailboxes d) of
                 None \<Rightarrow> d1
               | Some m \<Rightarrow>
                   d1\<lparr>outbox := outbox d1 @ [MailboxReconnectRequired mb (mb_workspace m) failedAt code]\<rparr>)
         else d1)"

definition record_failure :: "ident \<Rightarrow> string \<Rightarrow> millis option \<Rightarrow> sync_row \<Rightarrow> db \<Rightarrow> sync_failure_outcome \<times> db" where
  "record_failure mb code started r d =
     (if code = invalid_grant_error \<and> connected_after mb started d then (FailureSuperseded, d)
      else if sy_error r = Some invalid_grant_error \<and> unresolved_error r then (AlreadyAwaiting, d)
      else (FailureRecorded, record_incident mb code r d))"

definition recordMailboxSyncFailure :: "ident \<Rightarrow> string \<Rightarrow> millis option \<Rightarrow> sync_failure_outcome wm" where
  \<comment> \<open>one transaction\<close>
  "recordMailboxSyncFailure mb code started =
     stmt (\<lambda>d. Inr (case sync_of mb d of
         Some r \<Rightarrow> record_failure mb code started r d
       | None \<Rightarrow>
           if list_ex (\<lambda>m. mb_id m = mb \<and> mb_active m) (mailboxes d)
           then (let r = \<lparr>sy_mailbox = mb, sy_error = None, sy_error_at = None, sy_synced = None\<rparr>
                 in record_failure mb code started r (d\<lparr>sync_states := sync_states d @ [r]\<rparr>))
           else (FailureSkipped, d)))"

subsection \<open>The queue\<close>

definition dashed :: "string \<Rightarrow> string" where
  "dashed s = map (\<lambda>c. if c = CHR '':'' then CHR ''-'' else c) s"

definition join_dash :: "string list \<Rightarrow> string" where
  "join_dash ps = (case ps of [] \<Rightarrow> '''' | p # qs \<Rightarrow> p @ concat (map (\<lambda>q. CHR ''-'' # q) qs))"

definition safeJobId :: "string list \<Rightarrow> string" where
  "safeJobId ps = dashed (join_dash ps)"

definition snoozeSweepJobId :: "string \<Rightarrow> string" where
  "snoozeSweepJobId minute = safeJobId [''SnoozeWakeWorker'', ''sweep'', minute]"

definition snoozeWakeNowJobId :: "wake_data \<Rightarrow> string" where
  "snoozeWakeNowJobId p =
     safeJobId [''SnoozeWakeWorker'', ''wake'', wk_mailbox p, wk_key p, wk_until p,
       (case wk_at p of None \<Rightarrow> ''no-snoozed-at'' | Some t \<Rightarrow> t), wk_attempt p, wk_minute p]"

definition wake_queue_add :: "string \<Rightarrow> wake_data \<Rightarrow> bool \<Rightarrow> world \<Rightarrow> world" where
  "wake_queue_add qid p took w =
     (if took \<and> \<not> list_ex (\<lambda>x. fst x = qid) (wake_queue w)
      then w\<lparr>wake_queue := wake_queue w @ [(qid, p)]\<rparr> else w)"

definition snooze_later_label_ttl_seconds :: int where
  "snooze_later_label_ttl_seconds = 24 * 60 * 60"

definition publish_label :: "ident \<Rightarrow> string \<Rightarrow> bool \<Rightarrow> world \<Rightarrow> world" where
  "publish_label mb l took w =
     (if took
      then w\<lparr>label_map := (mb, l, db_now (wdb w) + snooze_later_label_ttl_seconds * 1000) #
                           filter (\<lambda>x. fst x \<noteq> mb) (label_map w)\<rparr>
      else w)"

definition published_label :: "ident \<Rightarrow> string option wm" where
  "published_label mb w =
     (Ok (map_option (\<lambda>(_, l, _). l)
            (List.find (\<lambda>(m, _, deadline). m = mb \<and> db_now (wdb w) < deadline) (label_map w))), w)"

subsection \<open>One sender's return\<close>

type_synonym timer_version = "millis \<times> millis option"

definition timer_is :: "ident \<Rightarrow> string \<Rightarrow> timer_version \<Rightarrow> policy_row \<Rightarrow> bool" where
  "timer_is mb k v p \<longleftrightarrow>
     po_mailbox p = mb \<and> po_key p = k \<and> po_snoozed_until p = Some (fst v) \<and> po_snoozed_at p = snd v"

definition claim_wake :: "ident \<Rightarrow> string \<Rightarrow> timer_version \<Rightarrow> millis \<Rightarrow> db \<Rightarrow> worker_error + (bool \<times> db)" where
  "claim_wake mb k v now d =
     Inr (list_ex (timer_is mb k v) (policies d),
          d\<lparr>policies := update_where (timer_is mb k v) (\<lambda>p. p\<lparr>po_wake_attempt := Some now\<rparr>) (policies d)\<rparr>)"

definition in_later :: "ident \<Rightarrow> string \<Rightarrow> string \<Rightarrow> mail_row \<Rightarrow> bool" where
  "in_later mb k l x \<longleftrightarrow> mm_mailbox x = mb \<and> mm_key x = Some k \<and> l \<in> set (mm_labels x)"

definition wake_change :: "string \<Rightarrow> label_change" where
  "wake_change l = \<lparr>addLabels = [''INBOX''], removeLabels = [l]\<rparr>"

definition has_timer_state :: "policy_row \<Rightarrow> bool" where
  "has_timer_state p \<longleftrightarrow>
     po_snoozed_until p \<noteq> None \<or> po_snoozed_at p \<noteq> None \<or> po_snooze_note p \<noteq> None \<or>
     po_wake_attempt p \<noteq> None \<or> po_wake_failed p \<noteq> None"

definition wake_tx :: "ident \<Rightarrow> string \<Rightarrow> timer_version \<Rightarrow> string \<Rightarrow> bool \<Rightarrow> db \<Rightarrow> db" where
  \<comment> \<open>the mirror, then the timer; the standing verdict and Protect are not touched\<close>
  "wake_tx mb k v l moved d =
     (let d1 = (if moved
                then d\<lparr>mail := update_where (in_later mb k l)
                         (\<lambda>x. x\<lparr>mm_labels := label_mirror (wake_change l) (mm_labels x)\<rparr>) (mail d)\<rparr>
                else d)
      in d1\<lparr>policies := update_where (\<lambda>p. timer_is mb k v p \<and> has_timer_state p) clear_timer (policies d1)\<rparr>)"

definition later_label_id :: "string wm" where
  "later_label_id = bindw (port_call no_effect) (\<lambda>_. bindw ask_label (\<lambda>ensure. returnw (ensure later_label)))"

definition wake_request_id :: "string \<Rightarrow> ident" where
  \<comment> \<open>the wake has no action row; what its requests are logged under\<close>
  "wake_request_id k = ''wake-'' @ k"

definition wakeSender :: "ident \<Rightarrow> string \<Rightarrow> timer_version \<Rightarrow> nat option wm" where
  \<comment> \<open>\<open>None\<close>: the timer is no longer this one\<close>
  "wakeSender mb k v =
     bindw clock (\<lambda>now.
     bindw (stmt (claim_wake mb k v now)) (\<lambda>claimed.
     if \<not> claimed then returnw None
     else bindw (port_call no_effect) (\<lambda>_.
          bindw later_label_id (\<lambda>l.
          bindw (catchw (port_call (publish_label mb l)) (\<lambda>_. returnw ())) (\<lambda>_.
          bindw (query (\<lambda>d. map mm_id (filter (in_later mb k l) (mail d)))) (\<lambda>ids.
          bindw (if ids = [] then returnw () else send_group (wake_request_id k) (ids, wake_change l)) (\<lambda>_.
          bindw (exec (wake_tx mb k v l (ids \<noteq> []))) (\<lambda>_.
          returnw (Some (length ids))))))))))"

definition wake_failure_kind :: "sync_failure_outcome option \<Rightarrow> worker_error \<Rightarrow> string" where
  "wake_failure_kind out e =
     (if out = Some FailureSuperseded then ''temporary''
      else if e = InvalidGrantError then ''reauthorize''
      else if e = PermanentError \<or> e = ValidationError then ''needs_attention''
      else ''temporary'')"

definition stamp_failure :: "ident \<Rightarrow> string \<Rightarrow> timer_version \<Rightarrow> string \<Rightarrow> millis \<Rightarrow> db \<Rightarrow> db" where
  \<comment> \<open>never onto a replacement timer\<close>
  "stamp_failure mb k v kind failedAt d =
     d\<lparr>policies := update_where (timer_is mb k v)
         (\<lambda>p. p\<lparr>po_wake_attempt := Some failedAt, po_wake_failed := Some failedAt,
                 po_wake_failures := po_wake_failures p + 1, po_wake_kind := Some kind\<rparr>) (policies d)\<rparr>"

definition recordWakeFailure :: "ident \<Rightarrow> string \<Rightarrow> timer_version \<Rightarrow> worker_error \<Rightarrow> millis \<Rightarrow> unit wm" where
  "recordWakeFailure mb k v e started =
     bindw (if e = InvalidGrantError
            then bindw (recordMailboxSyncFailure mb invalid_grant_error (Some started)) (\<lambda>out. returnw (Some out))
            else returnw None) (\<lambda>out.
     bindw clock (\<lambda>failedAt. exec (stamp_failure mb k v (wake_failure_kind out e) failedAt)))"

subsection \<open>Wake now\<close>

record wake_result =
  wr_due :: nat
  wr_woken :: nat
  wr_restored :: nat
  wr_failed :: nat
  wr_refreshed :: nat
  wr_skipped :: bool

definition timerVersionFromJob :: "host \<Rightarrow> wake_data \<Rightarrow> worker_error + timer_version" where
  \<comment> \<open>an empty stamp is no stamp\<close>
  "timerVersionFromJob h p =
     (case (date_parse h (wk_until p),
            case wk_at p of None \<Rightarrow> Some None | Some s \<Rightarrow> if s = '''' then Some None else map_option Some (date_parse h s)) of
        (Some u, Some a) \<Rightarrow> Inr (u, a)
      | _ \<Rightarrow> Inl ValidationError)"

definition targeted_wake :: "wake_data \<Rightarrow> bool \<Rightarrow> timer_version \<Rightarrow> millis \<Rightarrow> wake_result wm" where
  \<comment> \<open>\<open>final\<close>: no attempt follows\<close>
  "targeted_wake p final v started =
     catchw (bindw (wakeSender (wk_mailbox p) (wk_key p) v) (\<lambda>r.
               let woken = (case r of None \<Rightarrow> 0 | Some _ \<Rightarrow> 1)
               in returnw \<lparr>wr_due = 1, wr_woken = woken, wr_restored = (case r of None \<Rightarrow> 0 | Some n \<Rightarrow> n),
                           wr_failed = 0, wr_refreshed = woken, wr_skipped = False\<rparr>))
       (\<lambda>e. bindw (if isNonRetryable e \<or> final
                    then recordWakeFailure (wk_mailbox p) (wk_key p) v e started else returnw ())
              (\<lambda>_. throww e))"

definition runTargetedWake :: "host \<Rightarrow> wake_data \<Rightarrow> bool \<Rightarrow> wake_result wm" where
  "runTargetedWake h p final =
     locked (bindw clock (\<lambda>started.
       case timerVersionFromJob h p of
         Inl e \<Rightarrow> throww e
       | Inr v \<Rightarrow> targeted_wake p final v started))"

subsection \<open>The sweep\<close>

type_synonym due_timer = "string \<times> timer_version"

definition timer_due :: "millis \<Rightarrow> db \<Rightarrow> policy_row \<Rightarrow> bool" where
  "timer_due now d p \<longleftrightarrow>
     list_ex (\<lambda>m. mb_id m = po_mailbox p \<and> mb_active m) (mailboxes d) \<and>
     (case po_snoozed_until p of None \<Rightarrow> False | Some t \<Rightarrow> t \<le> now) \<and>
     po_wake_kind p \<noteq> Some ''needs_attention''"

definition timer_version :: "policy_row \<Rightarrow> timer_version" where
  "timer_version p = (the (po_snoozed_until p), po_snoozed_at p)"

definition due_timers :: "millis \<Rightarrow> db \<Rightarrow> (ident \<times> due_timer) list" where
  "due_timers now d =
     map (\<lambda>p. (po_mailbox p, (po_key p, timer_version p))) (filter (timer_due now d) (policies d))"

definition by_mailbox :: "(ident \<times> due_timer) list \<Rightarrow> (ident \<times> due_timer list) list" where
  \<comment> \<open>in the order the mailboxes first appear\<close>
  "by_mailbox due = map (\<lambda>mb. (mb, map snd (filter (\<lambda>x. fst x = mb) due))) (rev (remdups (rev (map fst due))))"

record wake_counts =
  wc_woken :: nat
  wc_restored :: nat
  wc_failed :: nat
  wc_lock_failures :: nat
  wc_left :: nat
  wc_refreshed :: nat
  wc_escaped :: "worker_error option" \<comment> \<open>the first rejected mailbox\<close>

definition wake_counts0 :: wake_counts where
  "wake_counts0 =
     \<lparr>wc_woken = 0, wc_restored = 0, wc_failed = 0, wc_lock_failures = 0, wc_left = 0, wc_refreshed = 0,
      wc_escaped = None\<rparr>"

definition wake_due :: "ident \<Rightarrow> due_timer \<Rightarrow> wake_counts \<Rightarrow> wake_counts wm" where
  \<comment> \<open>inside one hold of the lock\<close>
  "wake_due mb t s =
     bindw clock (\<lambda>started.
     bindw (tryw (wakeSender mb (fst t) (snd t))) (\<lambda>r.
       case r of
         Inr None \<Rightarrow> returnw s
       | Inr (Some n) \<Rightarrow> returnw (s\<lparr>wc_restored := wc_restored s + n, wc_woken := wc_woken s + 1\<rparr>)
       | Inl e \<Rightarrow> bindw (recordWakeFailure mb (fst t) (snd t) e started)
                    (\<lambda>_. returnw (s\<lparr>wc_failed := wc_failed s + 1\<rparr>))))"

fun wake_mailbox :: "ident \<Rightarrow> due_timer list \<Rightarrow> wake_counts \<Rightarrow> wake_counts wm" where
  \<comment> \<open>one hold of the lock per sender; a lock that cannot be taken leaves the rest due\<close>
  "wake_mailbox mb [] s = returnw s"
| "wake_mailbox mb (t # ts) s =
     bindw (tryw (port_call no_effect)) (\<lambda>r.
       case r of
         Inl _ \<Rightarrow> returnw (s\<lparr>wc_lock_failures := wc_lock_failures s + 1, wc_left := wc_left s + length (t # ts)\<rparr>)
       | Inr _ \<Rightarrow> bindw (wake_due mb t s) (wake_mailbox mb ts))"

definition wake_group :: "ident \<times> due_timer list \<Rightarrow> wake_counts \<Rightarrow> wake_counts wm" where
  \<comment> \<open>\<open>allSettled\<close>: a rejected mailbox does not stop the others\<close>
  "wake_group g s =
     bindw (tryw (wake_mailbox (fst g) (snd g) s)) (\<lambda>r.
       returnw (case r of
                  Inr s' \<Rightarrow> s'
                | Inl e \<Rightarrow> s\<lparr>wc_escaped := (case wc_escaped s of None \<Rightarrow> Some e | Some e' \<Rightarrow> Some e')\<rparr>))"

definition refreshable :: "db \<Rightarrow> ident list" where
  \<comment> \<open>active, and not waiting for a reconnect\<close>
  "refreshable d =
     map mb_id (filter (\<lambda>m. mb_active m \<and> (case sync_of (mb_id m) d of None \<Rightarrow> True | Some r \<Rightarrow> notNeedingReconnect r))
       (mailboxes d))"

definition refresh_mapping :: "ident \<Rightarrow> wake_counts \<Rightarrow> wake_counts wm" where
  "refresh_mapping mb s =
     bindw clock (\<lambda>started.
     catchw (bindw (port_call no_effect) (\<lambda>_.
             bindw (published_label mb) (\<lambda>existing.
             if existing \<noteq> None then returnw s
             else bindw (port_call no_effect) (\<lambda>_.
                  bindw later_label_id (\<lambda>l.
                  bindw (port_call (publish_label mb l)) (\<lambda>_.
                  returnw (s\<lparr>wc_refreshed := wc_refreshed s + 1\<rparr>)))))))
       (\<lambda>e. bindw (if e = InvalidGrantError
                    then bindw (recordMailboxSyncFailure mb invalid_grant_error (Some started)) (\<lambda>_. returnw ())
                    else returnw ())
              (\<lambda>_. returnw s)))"

definition sweep_result :: "nat \<Rightarrow> wake_counts \<Rightarrow> wake_result" where
  "sweep_result due s =
     \<lparr>wr_due = due, wr_woken = wc_woken s, wr_restored = wc_restored s, wr_failed = wc_failed s,
      wr_refreshed = wc_refreshed s, wr_skipped = False\<rparr>"

definition wake_sweep :: "millis \<Rightarrow> wake_result wm" where
  "wake_sweep now =
     bindw (query (due_timers now)) (\<lambda>due.
     bindw (foreachw wake_group (by_mailbox due) wake_counts0) (\<lambda>s.
     bindw (query refreshable) (\<lambda>mbs.
     bindw (foreachw refresh_mapping (filter (\<lambda>mb. mb \<notin> fst ` set due) mbs) (s\<lparr>wc_refreshed := wc_woken s\<rparr>))
       (\<lambda>s'.
       case wc_escaped s' of
         Some e \<Rightarrow> throww e
       | None \<Rightarrow> if 0 < wc_lock_failures s' then throww PlainError else returnw (sweep_result (length due) s')))))"

definition claim_cron :: "string \<Rightarrow> db \<Rightarrow> worker_error + (bool \<times> db)" where
  \<comment> \<open>\<open>on conflict do nothing\<close>\<close>
  "claim_cron key d =
     (if list_ex (\<lambda>r. cr_key r = key) (cron_runs d) then Inr (False, d)
      else Inr (True, d\<lparr>cron_runs := cron_runs d @
                  [\<lparr>cr_worker = ''SnoozeWakeWorker'', cr_key = key, cr_status = CronRunning, cr_finished = None\<rparr>]\<rparr>))"

definition finishCronRun :: "string \<Rightarrow> cron_status \<Rightarrow> unit wm" where
  "finishCronRun key st =
     exec (\<lambda>d. d\<lparr>cron_runs := update_where (\<lambda>r. cr_key r = key)
                   (\<lambda>r. r\<lparr>cr_status := st, cr_finished := Some (db_now d)\<rparr>) (cron_runs d)\<rparr>)"

definition runSweep :: "string \<Rightarrow> wake_result wm" where
  "runSweep minute =
     (let key = ''SnoozeWakeWorker:'' @ minute
      in bindw clock (\<lambda>now.
         bindw (stmt (claim_cron key)) (\<lambda>claimed.
         if \<not> claimed
         then returnw ((sweep_result 0 wake_counts0)\<lparr>wr_skipped := True\<rparr>)
         else catchw (bindw (wake_sweep now) (\<lambda>r. bindw (finishCronRun key CronSucceeded) (\<lambda>_. returnw r)))
                (\<lambda>e. bindw (finishCronRun key CronFailed) (\<lambda>_. throww e)))))"

subsection \<open>The API\<close>

record snooze_env =
  sv_queue :: bool \<comment> \<open>the wake queue is configured\<close>
  sv_iso :: "millis \<Rightarrow> string" \<comment> \<open>\<open>toISOString\<close>\<close>

record snooze_update =
  su_sender :: ident
  su_until :: string
  su_at :: "string option"
  su_note :: "string option"
  su_changed :: bool

definition resolveSenderKey :: "ident \<Rightarrow> ident \<Rightarrow> string wm" where
  "resolveSenderKey mb sid =
     bindw (query (\<lambda>d. List.find (\<lambda>s. se_id s = sid \<and> se_mailbox s = mb) (senders d))) (\<lambda>r.
       case r of None \<Rightarrow> throww (HttpError 404 ''SENDER_NOT_FOUND'') | Some s \<Rightarrow> returnw (se_key s))"

definition set_timer :: "millis \<Rightarrow> string option \<Rightarrow> millis \<Rightarrow> policy_row \<Rightarrow> policy_row" where
  "set_timer until note now p =
     p\<lparr>po_snoozed_until := Some until, po_snoozed_at := Some now, po_snooze_note := note,
       po_wake_attempt := None, po_wake_failed := None, po_wake_failures := 0, po_wake_kind := None\<rparr>"

definition snooze_unchanged :: "millis \<Rightarrow> string option \<Rightarrow> policy_row option \<Rightarrow> bool" where
  "snooze_unchanged until note r \<longleftrightarrow>
     (case r of
        None \<Rightarrow> False
      | Some p \<Rightarrow> po_snoozed_until p = Some until \<and> po_snooze_note p = note \<and> po_wake_failed p = None)"

definition set_snooze_tx ::
  "snooze_env \<Rightarrow> ident \<Rightarrow> string \<Rightarrow> ident \<Rightarrow> millis \<Rightarrow> string option \<Rightarrow> db \<Rightarrow> snooze_update \<times> db" where
  \<comment> \<open>under the mailbox lock, in one transaction\<close>
  "set_snooze_tx env mb k sid until note d =
     (let existing = policy_of d mb k; now = db_now d
      in if snooze_unchanged until note existing
         then (\<lparr>su_sender = sid, su_until = sv_iso env until,
                su_at = map_option (sv_iso env) (Option.bind existing po_snoozed_at), su_note = note,
                su_changed = False\<rparr>, d)
         else (\<lparr>su_sender = sid, su_until = sv_iso env until, su_at = Some (sv_iso env now), su_note = note,
                su_changed = True\<rparr>,
               if existing \<noteq> None
               then d\<lparr>policies := update_where (\<lambda>p. po_mailbox p = mb \<and> po_key p = k) (set_timer until note now)
                        (policies d)\<rparr>
               else d\<lparr>policies := policies d @
                        [set_timer until note now
                          \<lparr>po_mailbox = mb, po_key = k, po_type = None, po_protected = False, po_reason = None,
                           po_protected_at = None, po_snoozed_until = None, po_snoozed_at = None,
                           po_snooze_note = None, po_wake_attempt = None, po_wake_failed = None,
                           po_wake_failures = 0, po_wake_kind = None, po_unsub = None\<rparr>]\<rparr>))"

definition setSnooze :: "snooze_env \<Rightarrow> ident \<Rightarrow> ident \<Rightarrow> millis \<Rightarrow> string option \<Rightarrow> snooze_update wm" where
  "setSnooze env mb sid until note =
     bindw (resolveSenderKey mb sid) (\<lambda>k. stmt (\<lambda>d. Inr (set_snooze_tx env mb k sid until note d)))"

definition active_timer :: "ident \<Rightarrow> string \<Rightarrow> db \<Rightarrow> policy_row option" where
  "active_timer mb k d =
     Option.bind (policy_of d mb k) (\<lambda>p. if po_snoozed_until p = None then None else Some p)"

definition scheduled_minute :: "snooze_env \<Rightarrow> millis \<Rightarrow> string" where
  "scheduled_minute env now = take 16 (sv_iso env now)"

definition wake_request :: "snooze_env \<Rightarrow> ident \<Rightarrow> string \<Rightarrow> policy_row \<Rightarrow> string \<Rightarrow> millis \<Rightarrow> wake_data" where
  "wake_request env mb k p attempt now =
     \<lparr>wk_mailbox = mb, wk_key = k, wk_until = sv_iso env (fst (timer_version p)),
      wk_at = map_option (sv_iso env) (snd (timer_version p)), wk_attempt = attempt,
      wk_minute = scheduled_minute env now\<rparr>"

definition enqueueWake :: "snooze_env \<Rightarrow> ident \<Rightarrow> string \<Rightarrow> policy_row \<Rightarrow> string \<Rightarrow> unit wm" where
  "enqueueWake env mb k p attempt =
     (if \<not> sv_queue env then throww (HttpError 503 ''QUEUE_UNAVAILABLE'')
      else bindw clock (\<lambda>now.
        let q = wake_request env mb k p attempt now
        in port_call (wake_queue_add (snoozeWakeNowJobId q) q)))"

definition wakeNow :: "snooze_env \<Rightarrow> ident \<Rightarrow> ident \<Rightarrow> unit wm" where
  "wakeNow env mb sid =
     bindw (resolveSenderKey mb sid) (\<lambda>k.
     bindw (query (active_timer mb k)) (\<lambda>r.
       case r of
         None \<Rightarrow> throww (HttpError 409 ''LATER_TIMER_NOT_FOUND'')
       | Some p \<Rightarrow> enqueueWake env mb k p (''manual-'' @ show_nat (po_wake_failures p))))"

definition later_return_missed_after_ms :: int where
  "later_return_missed_after_ms = 30 * 60 * 1000"

definition wakeRecovery :: "snooze_env \<Rightarrow> ident \<Rightarrow> ident \<Rightarrow> unit wm" where
  \<comment> \<open>only after a recorded failure or a genuinely missed return\<close>
  "wakeRecovery env mb sid =
     bindw clock (\<lambda>now.
     bindw (resolveSenderKey mb sid) (\<lambda>k.
     bindw (query (active_timer mb k)) (\<lambda>r.
       case r of
         None \<Rightarrow> throww (HttpError 409 ''LATER_RETURN_NOT_STUCK'')
       | Some p \<Rightarrow>
           if po_wake_failed p = None \<and> now < fst (timer_version p) + later_return_missed_after_ms
           then throww (HttpError 409 ''LATER_RETURN_NOT_STUCK'')
           else enqueueWake env mb k p (''recovery-'' @ show_nat (po_wake_failures p)))))"

end
