(* ===== verification/Worker_Labels.thy ===== *)
theory Worker_Labels
  imports Worker_Holds Label_Action
begin

text \<open>
  The program logic where the provider's label ids matter. The ids a mailbox gives the product's
  own labels do not change during a run; \<open>spec_at f\<close> is \<open>spec\<close> for worlds in which they are \<open>f\<close>.
\<close>

subsection \<open>Bodies leave the ids alone\<close>

definition keeps_label :: "'a wm \<Rightarrow> bool" where
  "keeps_label m \<longleftrightarrow> (\<forall>w. ensure_label (snd (m w)) = ensure_label w)"

named_theorems label_frame

lemma keeps_label_basic [label_frame, intro!, simp]:
  "keeps_label (returnw a)" "keeps_label (throww e)" "keeps_label clock" "keeps_label fresh_id" "keeps_label ask_label"
  by (simp_all add: keeps_label_def returnw_def throww_def clock_def fresh_id_def ask_label_def)

lemma keeps_label_stmt [label_frame, intro!, simp]: "keeps_label (stmt f)"
  by (auto simp: keeps_label_def stmt_def Let_def split: stmt_fate.splits sum.splits list.splits prod.splits)

lemma keeps_label_query [label_frame, intro!, simp]: "keeps_label (query f)"
  and keeps_label_exec [label_frame, intro!, simp]: "keeps_label (exec g)"
  by (simp_all add: query_def exec_def)

lemma keeps_label_port [label_frame, intro]:
  "(\<And>b w. ensure_label (eff b w) = ensure_label w) \<Longrightarrow> keeps_label (port_call eff)"
  by (auto simp: keeps_label_def port_call_def split: list.splits call_reply.splits)

lemma keeps_label_call [label_frame, intro!, simp]: "keeps_label (port_call no_effect)"
  by (rule keeps_label_port) (simp add: no_effect_def)

lemma keeps_label_bind [label_frame, intro]:
  assumes "keeps_label m" "\<And>a. keeps_label (f a)"
  shows "keeps_label (bindw m f)"
  unfolding keeps_label_def
proof
  fix w
  obtain r w' where m: "m w = (r, w')" by (cases "m w")
  with assms(1) have "ensure_label w' = ensure_label w" by (metis keeps_label_def snd_conv)
  then show "ensure_label (snd (bindw m f w)) = ensure_label w"
    using assms(2) by (cases r) (simp_all add: bindw_def m keeps_label_def)
qed

lemma keeps_label_catch [label_frame, intro]:
  assumes "keeps_label m" "\<And>e. keeps_label (h e)"
  shows "keeps_label (catchw m h)"
  unfolding keeps_label_def
proof
  fix w
  obtain r w' where m: "m w = (r, w')" by (cases "m w")
  with assms(1) have "ensure_label w' = ensure_label w" by (metis keeps_label_def snd_conv)
  then show "ensure_label (snd (catchw m h w)) = ensure_label w"
    using assms(2) by (cases r) (simp_all add: catchw_def m keeps_label_def)
qed

lemma keeps_label_try [label_frame, intro]: "keeps_label m \<Longrightarrow> keeps_label (tryw m)"
  unfolding tryw_def by (intro keeps_label_catch keeps_label_bind) auto

lemma keeps_label_foreach [label_frame, intro]: "(\<And>x s. keeps_label (f x s)) \<Longrightarrow> keeps_label (foreachw f xs s)"
  by (induction xs arbitrary: s) auto

lemma keeps_label_batch [label_frame, intro]:
  assumes "keeps_label hook"
  shows "keeps_label (batchModify j prot ids ch hook)"
proof -
  have send: "ensure_label (send_request j prot ids ch b w) = ensure_label w" for b w
    by (simp add: send_request_def)
  have "ensure_label (snd (answer r (send_request j prot ids ch) hook w)) = ensure_label w" for r w
  proof -
    obtain x w' where h: "hook w = (x, w')" by (cases "hook w")
    with assms have "ensure_label w' = ensure_label w" by (metis keeps_label_def snd_conv)
    then show ?thesis
      by (cases r; cases x) (simp_all add: h send)
  qed
  then have ans: "ensure_label (snd (answer r (send_request j prot ids ch) hook w)) = ensure_label w" for r w .
  show ?thesis
    unfolding keeps_label_def
  proof
    fix w
    show "ensure_label (snd (batchModify j prot ids ch hook w)) = ensure_label w"
      by (cases "sends w") (simp_all only: batchModify_def list.case ans, simp)
  qed
qed

lemma keeps_label_if [label_frame, intro]: "keeps_label m \<Longrightarrow> keeps_label m' \<Longrightarrow> keeps_label (if b then m else m')"
  by simp

lemma keeps_label_option [label_frame, intro]:
  "keeps_label m \<Longrightarrow> (\<And>y. keeps_label (f y)) \<Longrightarrow> keeps_label (case x of None \<Rightarrow> m | Some y \<Rightarrow> f y)"
  by (cases x) auto

lemma keeps_label_sum [label_frame, intro]:
  "(\<And>e. keeps_label (f e)) \<Longrightarrow> (\<And>y. keeps_label (g y)) \<Longrightarrow> keeps_label (case x of Inl e \<Rightarrow> f e | Inr y \<Rightarrow> g y)"
  by (cases x) auto

lemma keeps_label_ensure [label_frame, intro!, simp]: "keeps_label (ensure_labels ch)"
  unfolding ensure_labels_def by (intro label_frame)

lemma keeps_label_send [label_frame, intro!, simp]: "keeps_label (send_group jid g)"
  unfolding send_group_def by (intro label_frame)

subsection \<open>The logic\<close>

definition spec_at ::
  "(string \<Rightarrow> string) \<Rightarrow> (db \<Rightarrow> db \<Rightarrow> bool) \<Rightarrow> assertion \<Rightarrow> assertion \<Rightarrow> 'a wm \<Rightarrow> ('a \<Rightarrow> assertion) \<Rightarrow>
    (worker_error \<Rightarrow> assertion) \<Rightarrow> bool"
where
  "spec_at f N J A m Q E \<longleftrightarrow>
     (\<forall>w. ensure_label w = f \<longrightarrow> script_ok N w \<longrightarrow> A (wdb w) (requests w) \<longrightarrow>
        ends N J Q E (m w) \<and> ensure_label (snd (m w)) = f)"

lemma spec_atD:
  "spec_at f N J A m Q E \<Longrightarrow> ensure_label w = f \<Longrightarrow> script_ok N w \<Longrightarrow> A (wdb w) (requests w) \<Longrightarrow>
     ends N J Q E (m w) \<and> ensure_label (snd (m w)) = f"
  by (simp add: spec_at_def)

lemma spec_at_spec: "spec N J A m Q E \<Longrightarrow> keeps_label m \<Longrightarrow> spec_at f N J A m Q E"
  by (simp add: spec_at_def spec_def keeps_label_def)

lemma spec_at_ask: "(\<And>d l. A d l \<Longrightarrow> Q f d l) \<Longrightarrow> spec_at f N J A ask_label Q E"
  by (simp add: spec_at_def ask_label_def)

lemma spec_at_bind:
  assumes "spec_at f N J A m Q E" "\<And>a. spec_at f N J (Q a) (g a) R E"
  shows "spec_at f N J A (bindw m g) R E"
  unfolding spec_at_def
proof (intro allI impI)
  fix w assume w: "ensure_label w = f" "script_ok N w" "A (wdb w) (requests w)"
  obtain r w' where m: "m w = (r, w')" by (cases "m w")
  note 1 = spec_atD [OF assms(1) w, unfolded m]
  show "ends N J R E (bindw m g w) \<and> ensure_label (snd (bindw m g w)) = f"
  proof (cases r)
    case (Ok a)
    with 1 have "ensure_label w' = f" "script_ok N w'" "Q a (wdb w') (requests w')" by simp_all
    from spec_atD [OF assms(2) this] Ok show ?thesis by (simp add: bindw_def m)
  qed (use 1 in \<open>simp_all add: bindw_def m\<close>)
qed

lemma spec_at_catch:
  assumes "spec_at f N J A m Q E" "\<And>e. spec_at f N J (E e) (h e) Q E'"
  shows "spec_at f N J A (catchw m h) Q E'"
  unfolding spec_at_def
proof (intro allI impI)
  fix w assume w: "ensure_label w = f" "script_ok N w" "A (wdb w) (requests w)"
  obtain r w' where m: "m w = (r, w')" by (cases "m w")
  note 1 = spec_atD [OF assms(1) w, unfolded m]
  show "ends N J Q E' (catchw m h w) \<and> ensure_label (snd (catchw m h w)) = f"
  proof (cases r)
    case (Err e)
    with 1 have "ensure_label w' = f" "script_ok N w'" "E e (wdb w') (requests w')" by simp_all
    from spec_atD [OF assms(2) this] Err show ?thesis by (simp add: catchw_def m)
  qed (use 1 in \<open>simp_all add: catchw_def m\<close>)
qed

lemma spec_at_weaken:
  assumes "spec_at f N J A m Q E" "\<And>d l. A' d l \<Longrightarrow> A d l" "\<And>a d l. Q a d l \<Longrightarrow> Q' a d l"
    "\<And>e d l. E e d l \<Longrightarrow> E' e d l"
  shows "spec_at f N J A' m Q' E'"
  unfolding spec_at_def
proof (intro allI impI conjI)
  fix w assume w: "ensure_label w = f" "script_ok N w" "A' (wdb w) (requests w)"
  note 1 = spec_atD [OF assms(1) w(1,2) assms(2) [OF w(3)]]
  from 1 show "ensure_label (snd (m w)) = f" by simp
  from 1 show "ends N J Q' E' (m w)" by (blast intro: ends_weaken [where Q = Q and E = E] assms(3,4))
qed

lemma spec_at_try:
  assumes "spec_at f N J A m Q E"
  shows "spec_at f N J A (tryw m) (\<lambda>r. case r of Inl e \<Rightarrow> E e | Inr a \<Rightarrow> Q a) E'"
  unfolding tryw_def
  by (rule spec_at_catch [where E = E], rule spec_at_bind [OF assms])
    (rule spec_at_spec, rule spec_return, simp, simp)+

lemma spec_at_disj:
  "spec_at f N J A m Q E \<Longrightarrow> spec_at f N J B m Q E \<Longrightarrow> spec_at f N J (\<lambda>d l. A d l \<or> B d l) m Q E"
  unfolding spec_at_def by blast

lemma spec_at_pure:
  "(P \<Longrightarrow> spec_at f N J A m Q E) \<Longrightarrow> spec_at f N J (\<lambda>d l. P \<and> A d l) m Q E"
  by (cases P) (simp_all add: spec_at_def)

lemma spec_at_weak_post:
  "spec_at f N J A m Q E \<Longrightarrow> (\<And>a d l. Q a d l \<Longrightarrow> Q' a d l) \<Longrightarrow> spec_at f N J A m Q' E"
  by (erule spec_at_weaken)

lemma spec_at_holds: "holds N any_error I m \<Longrightarrow> keeps_label m \<Longrightarrow> spec_at f N I I m (\<lambda>_. I) (\<lambda>_. I)"
  by (rule spec_at_spec [OF holdsD])

lemma spec_at_foreach:
  assumes "\<And>x s. x \<in> set xs \<Longrightarrow> spec_at f N J (I s) (b x s) I E"
  shows "spec_at f N J (I s) (foreachw b xs s) I E"
  using assms
proof (induction xs arbitrary: s)
  case Nil
  show ?case unfolding foreachw.simps by (rule spec_at_spec [OF spec_return]) auto
next
  case (Cons x xs)
  show ?case
    unfolding foreachw.simps by (rule spec_at_bind [where Q = I]) (use Cons in auto)
qed

subsection \<open>Requests only add to the log\<close>

definition log_only_grows :: "assertion \<Rightarrow> bool" where
  "log_only_grows I \<longleftrightarrow> (\<forall>d l x. I d l \<longrightarrow> I d (l @ [x]))"

lemma holds_batch:
  assumes "holds N any_error I hook" "log_only_grows I"
  shows "holds N any_error I (batchModify j prot ids ch hook)"
  by (rule holdsI, rule spec_batch [OF holdsD [OF assms(1)]])
    (use assms(2) in \<open>auto simp: log_only_grows_def\<close>)

lemma holds_send_group: "log_only_grows I \<Longrightarrow> holds N any_error I (send_group jid g)"
  unfolding send_group_def by (intro holds_foreach holds_bind holds_batch holds_return)

subsection \<open>Bodies that keep an assertion, for these ids\<close>

definition keeps_at :: "(string \<Rightarrow> string) \<Rightarrow> (db \<Rightarrow> db \<Rightarrow> bool) \<Rightarrow> assertion \<Rightarrow> 'a wm \<Rightarrow> bool" where
  "keeps_at f N I m \<longleftrightarrow> spec_at f N I I m (\<lambda>_. I) (\<lambda>_. I)"

lemma keeps_atI: "holds N any_error I m \<Longrightarrow> keeps_label m \<Longrightarrow> keeps_at f N I m"
  unfolding keeps_at_def by (rule spec_at_holds)

lemma keeps_at_bind: "keeps_at f N I m \<Longrightarrow> (\<And>a. keeps_at f N I (h a)) \<Longrightarrow> keeps_at f N I (bindw m h)"
  unfolding keeps_at_def by (rule spec_at_bind)

lemma keeps_at_catch: "keeps_at f N I m \<Longrightarrow> (\<And>e. keeps_at f N I (h e)) \<Longrightarrow> keeps_at f N I (catchw m h)"
  unfolding keeps_at_def by (rule spec_at_catch)

lemma keeps_at_return: "keeps_at f N I (returnw a)"
  and keeps_at_throw: "keeps_at f N I (throww e)"
  and keeps_at_clock: "keeps_at f N I clock"
  and keeps_at_call: "keeps_at f N I (port_call no_effect)"
  by (auto intro!: keeps_atI holds_return holds_throw holds_clock holds_call)

lemma keeps_at_query: "stable N I \<Longrightarrow> keeps_at f N I (query q)"
  by (auto intro!: keeps_atI holds_query)

lemma keeps_at_exec: "stable N I \<Longrightarrow> (\<And>d l. I d l \<Longrightarrow> I (u d) l) \<Longrightarrow> keeps_at f N I (exec u)"
  by (auto intro!: keeps_atI holds_exec)

lemma keeps_at_try: "keeps_at f N I m \<Longrightarrow> keeps_at f N I (tryw m)"
  unfolding tryw_def by (intro keeps_at_catch keeps_at_bind keeps_at_return)

lemma keeps_at_foreach: "(\<And>x s. keeps_at f N I (b x s)) \<Longrightarrow> keeps_at f N I (foreachw b xs s)"
  unfolding keeps_at_def by (rule spec_at_foreach)

lemma keeps_at_if: "(b \<Longrightarrow> keeps_at f N I m) \<Longrightarrow> (\<not> b \<Longrightarrow> keeps_at f N I m') \<Longrightarrow> keeps_at f N I (if b then m else m')"
  by simp

lemma keeps_at_option:
  "keeps_at f N I m \<Longrightarrow> (\<And>y. keeps_at f N I (h y)) \<Longrightarrow> keeps_at f N I (case x of None \<Rightarrow> m | Some y \<Rightarrow> h y)"
  by (cases x) auto

lemma keeps_at_sum:
  "(\<And>e. keeps_at f N I (h e)) \<Longrightarrow> (\<And>y. keeps_at f N I (k y)) \<Longrightarrow> keeps_at f N I (case x of Inl e \<Rightarrow> h e | Inr y \<Rightarrow> k y)"
  by (cases x) auto

lemmas keeps_at_intros =
  keeps_at_bind keeps_at_catch keeps_at_return keeps_at_throw keeps_at_clock keeps_at_call keeps_at_query keeps_at_try
  keeps_at_foreach keeps_at_if keeps_at_option keeps_at_sum

end
