(* ===== verification/Snooze_Wake.thy ===== *)
theory Snooze_Wake
  imports Snooze Worker_Labels Calm_World
begin

text \<open>
  What a return of Later mail promises: all of the sender's Later mail goes back and the timer goes,
  or neither does. First for one wake and for the sweep among other writers and failures, then
  for the sweep as a function of the store when nothing fails.
\<close>

subsection \<open>A sender's Later mail and timer\<close>

definition timers_of :: "ident \<Rightarrow> string \<Rightarrow> db \<Rightarrow> (millis option \<times> millis option) list" where
  "timers_of mb k d =
     map (\<lambda>p. (po_snoozed_until p, po_snoozed_at p)) (filter (\<lambda>p. po_mailbox p = mb \<and> po_key p = k) (policies d))"

definition later_ids :: "ident \<Rightarrow> string \<Rightarrow> string \<Rightarrow> db \<Rightarrow> ident list" where
  "later_ids mb k l d = map mm_id (filter (in_later mb k l) (mail d))"

definition leaves_later :: "ident \<Rightarrow> string \<Rightarrow> string \<Rightarrow> db \<Rightarrow> db \<Rightarrow> bool" where
  "leaves_later mb k l d d' \<longleftrightarrow> timers_of mb k d' = timers_of mb k d \<and> later_ids mb k l d' = later_ids mb k l d"

definition sent_back :: "string \<Rightarrow> nat \<Rightarrow> gmail_request list \<Rightarrow> ident set" where
  \<comment> \<open>what the requests after the first \<open>n\<close> took out of Later\<close>
  "sent_back l n lg = {i. \<exists>g \<in> set (drop n lg). gr_applied g \<and> gr_change g = wake_change l \<and> i \<in> set (gr_ids g)}"

record return_goal =
  rg_mailbox :: ident
  rg_key :: string
  rg_timer :: timer_version
  rg_label :: string
  rg_mail :: "ident list"
  rg_from :: nat

definition still_due :: "return_goal \<Rightarrow> ident set \<Rightarrow> assertion" where
  \<comment> \<open>of the Later mail, at least \<open>S\<close> was sent back\<close>
  "still_due g S d lg \<longleftrightarrow>
     timers_of (rg_mailbox g) (rg_key g) d = [(Some (fst (rg_timer g)), snd (rg_timer g))] \<and>
     later_ids (rg_mailbox g) (rg_key g) (rg_label g) d = rg_mail g \<and> rg_from g \<le> length lg \<and>
     S \<subseteq> sent_back (rg_label g) (rg_from g) lg"

definition returned :: "return_goal \<Rightarrow> assertion" where
  "returned g d lg \<longleftrightarrow>
     timers_of (rg_mailbox g) (rg_key g) d = [(None, None)] \<and>
     later_ids (rg_mailbox g) (rg_key g) (rg_label g) d = [] \<and> rg_from g \<le> length lg \<and>
     set (rg_mail g) \<subseteq> sent_back (rg_label g) (rg_from g) lg"

definition due_or_returned :: "return_goal \<Rightarrow> assertion" where
  "due_or_returned g d lg \<longleftrightarrow> still_due g {} d lg \<or> returned g d lg"

lemma still_due_le: "still_due g S d lg \<Longrightarrow> T \<subseteq> S \<Longrightarrow> still_due g T d lg"
  by (auto simp: still_due_def)

lemma due_outcome: "still_due g S d lg \<Longrightarrow> due_or_returned g d lg"
  and returned_outcome: "returned g d lg \<Longrightarrow> due_or_returned g d lg"
  by (auto simp: due_or_returned_def intro: still_due_le)

lemma goal_frame:
  assumes "leaves_later (rg_mailbox g) (rg_key g) (rg_label g) d d'"
  shows "still_due g S d' lg = still_due g S d lg" "returned g d' lg = returned g d lg"
    "due_or_returned g d' lg = due_or_returned g d lg"
  using assms by (simp_all add: leaves_later_def still_due_def returned_def due_or_returned_def)

lemma leaves_later_frame:
  "policies d' = policies d \<Longrightarrow> mail d' = mail d \<Longrightarrow> leaves_later mb k l d d'"
  by (simp add: leaves_later_def timers_of_def later_ids_def)

lemma stable_goal:
  assumes "\<And>d d'. N d d' \<Longrightarrow> leaves_later (rg_mailbox g) (rg_key g) (rg_label g) d d'"
  shows "stable N (still_due g S)" "stable N (returned g)" "stable N (due_or_returned g)"
  using goal_frame [OF assms] by (auto simp: stable_def)

lemma sent_back_append: "n \<le> length lg \<Longrightarrow> sent_back l n (lg @ lg') = sent_back l n lg \<union> sent_back l 0 lg'"
  by (auto simp: sent_back_def)

lemma still_due_append: "still_due g S d lg \<Longrightarrow> still_due g S d (lg @ lg')"
  by (auto simp: still_due_def sent_back_append)

lemma still_due_sent:
  assumes "still_due g S d lg" "ch = wake_change (rg_label g)"
  shows "still_due g (S \<union> set ids) d (lg @ [request_entry j prot ids ch d True])"
  using assms by (auto simp: still_due_def sent_back_append) (simp add: sent_back_def request_entry_def)

subsection \<open>One wake, statement by statement\<close>

lemma timers_of_update:
  assumes "\<And>p. po_mailbox (h p) = po_mailbox p \<and> po_key (h p) = po_key p"
    and "\<And>p. q p \<Longrightarrow> po_mailbox p = mb \<Longrightarrow> po_key p = k \<Longrightarrow>
      po_snoozed_until (h p) = po_snoozed_until p \<and> po_snoozed_at (h p) = po_snoozed_at p"
  shows "timers_of mb k (d\<lparr>policies := update_where q h (policies d)\<rparr>) = timers_of mb k d"
proof -
  have "map (\<lambda>p. (po_snoozed_until p, po_snoozed_at p)) (filter (\<lambda>p. po_mailbox p = mb \<and> po_key p = k) (update_where q h ps)) =
    map (\<lambda>p. (po_snoozed_until p, po_snoozed_at p)) (filter (\<lambda>p. po_mailbox p = mb \<and> po_key p = k) ps)" for ps
    using assms by (induction ps) auto
  then show ?thesis by (simp add: timers_of_def)
qed

lemma claim_leaves: "claim_wake mb k v now d = Inr (b, d') \<Longrightarrow> leaves_later mb' k' l d d'"
  unfolding claim_wake_def leaves_later_def
  by (auto simp: later_ids_def intro!: timers_of_update)

lemma stamp_leaves: "leaves_later mb' k' l d (stamp_failure mb k v kind t d)"
  unfolding stamp_failure_def leaves_later_def
  by (auto simp: later_ids_def intro!: timers_of_update)

lemma timer_here:
  "list_ex (timer_is mb k v) (policies d) = ((Some (fst v), snd v) \<in> set (timers_of mb k d))"
proof -
  have "list_ex (timer_is mb k v) ps = ((Some (fst v), snd v) \<in>
      set (map (\<lambda>p. (po_snoozed_until p, po_snoozed_at p)) (filter (\<lambda>p. po_mailbox p = mb \<and> po_key p = k) ps)))" for ps
    by (induction ps) (auto simp: timer_is_def)
  then show ?thesis by (simp only: timers_of_def)
qed

lemma claim_timer:
  "claim_wake mb k v now d = Inr (b, d') \<Longrightarrow> b = ((Some (fst v), snd v) \<in> set (timers_of mb k d))"
  by (auto simp: claim_wake_def timer_here)

lemma wake_tx_other:
  assumes "(mb', k') \<noteq> (mb, k)"
  shows "leaves_later mb' k' l' d (wake_tx mb k v l moved d)"
proof -
  have "filter (in_later mb' k' l') (update_where (in_later mb k l) h ms) = filter (in_later mb' k' l') ms"
    if "\<And>x. mm_mailbox (h x) = mm_mailbox x \<and> mm_key (h x) = mm_key x" for h ms
    using assms that by (induction ms) (auto simp: in_later_def)
  moreover have "timers_of mb' k' (d'\<lparr>policies := update_where (\<lambda>p. timer_is mb k v p \<and> has_timer_state p) clear_timer (policies d')\<rparr>) =
      timers_of mb' k' d'" for d'
    using assms by (intro timers_of_update) (auto simp: clear_timer_def timer_is_def)
  ultimately show ?thesis
    by (simp add: leaves_later_def wake_tx_def later_ids_def Let_def) (simp add: timers_of_def)
qed

lemma mirrored_out:
  assumes "l \<noteq> ''INBOX''"
  shows "filter (in_later mb k l) (update_where (in_later mb k l)
      (\<lambda>x. x\<lparr>mm_labels := label_mirror (wake_change l) (mm_labels x)\<rparr>) ms) = []"
  using assms by (induction ms) (auto simp: in_later_def wake_change_def set_label_mirror)

lemma wake_tx_returns:
  assumes "still_due g (set (rg_mail g)) d lg" "rg_label g \<noteq> ''INBOX''"
  shows "returned g (wake_tx (rg_mailbox g) (rg_key g) (rg_timer g) (rg_label g) (rg_mail g \<noteq> []) d) lg"
proof -
  let ?d = "wake_tx (rg_mailbox g) (rg_key g) (rg_timer g) (rg_label g) (rg_mail g \<noteq> []) d"
  let ?t = "(Some (fst (rg_timer g)), snd (rg_timer g))"
  have cleared: "map (\<lambda>p. (po_snoozed_until p, po_snoozed_at p)) (filter (\<lambda>p. po_mailbox p = rg_mailbox g \<and> po_key p = rg_key g)
      (update_where (\<lambda>p. timer_is (rg_mailbox g) (rg_key g) (rg_timer g) p \<and> has_timer_state p) clear_timer ps)) = map (\<lambda>_. (None, None)) ts"
    if "map (\<lambda>p. (po_snoozed_until p, po_snoozed_at p)) (filter (\<lambda>p. po_mailbox p = rg_mailbox g \<and> po_key p = rg_key g) ps) = ts"
      "set ts \<subseteq> {?t}" for ps ts
    using that
    by (induction ps arbitrary: ts) (auto simp: timer_is_def clear_timer_def has_timer_state_def)
  have "timers_of (rg_mailbox g) (rg_key g) d = [?t]" using assms(1) by (simp add: still_due_def)
  from cleared [OF this [unfolded timers_of_def]]
  have "timers_of (rg_mailbox g) (rg_key g) ?d = [(None, None)]"
    by (simp add: timers_of_def wake_tx_def Let_def)
  moreover have "later_ids (rg_mailbox g) (rg_key g) (rg_label g) ?d = []"
    using assms mirrored_out [OF assms(2)] by (auto simp: still_due_def later_ids_def wake_tx_def Let_def)
  ultimately show ?thesis using assms(1) by (simp add: returned_def still_due_def)
qed

subsection \<open>One wake\<close>

lemma chunks_sent:
  "spec N (due_or_returned g) (still_due g S)
    (foreachw (\<lambda>ids _. bindw (batchModify jid (\<lambda>_. False) ids (wake_change (rg_label g)) (returnw ())) (\<lambda>_. returnw ())) cs ())
    (\<lambda>_. still_due g (S \<union> set (concat cs))) (\<lambda>_. due_or_returned g)"
proof (induction cs arbitrary: S)
  case Nil
  show ?case by (simp add: spec_return)
next
  case (Cons ids cs)
  let ?E = "\<lambda>_. due_or_returned g"
  have hook: "spec N (due_or_returned g) (still_due g S) (returnw ()) (\<lambda>_. still_due g S) ?E"
    by (rule spec_return)
  have one: "spec N (due_or_returned g) (still_due g S)
      (bindw (batchModify jid (\<lambda>_. False) ids (wake_change (rg_label g)) (returnw ())) (\<lambda>_. returnw ()))
      (\<lambda>_. still_due g (S \<union> set ids)) ?E"
    by (rule spec_bind, rule spec_batch [where Q = "\<lambda>_. still_due g (S \<union> set ids)", OF hook])
      (auto intro: due_outcome still_due_append still_due_sent spec_return)
  show ?case
    unfolding foreachw.simps concat.simps set_append Un_assoc [symmetric]
    by (rule spec_bind [OF one]) (use Cons.IH [of "S \<union> set ids"] in simp)
qed

lemma group_sent:
  "spec N (due_or_returned g) (still_due g {}) (send_group jid (ids, wake_change (rg_label g)))
    (\<lambda>_. still_due g (set ids)) (\<lambda>_. due_or_returned g)"
  using chunks_sent [of N g "{}" jid "chunks gmail_batch_modify_max_ids ids"]
  by (simp add: send_group_def concat_chunks gmail_batch_modify_max_ids_def)

lemma publish_frame:
  "wdb (publish_label mb l b w) = wdb w \<and> requests (publish_label mb l b w) = requests w \<and> ticks (publish_label mb l b w) = ticks w \<and>
     sends (publish_label mb l b w) = sends w \<and> calls (publish_label mb l b w) = calls w"
  "ensure_label (publish_label mb l b w) = ensure_label w"
  by (simp_all add: publish_label_def)

lemma keeps_publish [label_frame, intro!, simp]: "keeps_label (port_call (publish_label mb l))"
  by (rule keeps_label_port) (simp add: publish_frame)

lemma holds_publish: "lets_ports F \<Longrightarrow> holds N F I (port_call (publish_label mb l))"
  unfolding holds_def by (rule spec_port) (auto simp: publish_frame lets_ports_def)

lemma holds_later_label: "lets_ports F \<Longrightarrow> holds N F I later_label_id"
  unfolding later_label_id_def by (intro holds_bind holds_call holds_ask holds_return)

lemma keeps_later_label [label_frame, intro!, simp]: "keeps_label later_label_id"
  unfolding later_label_id_def by (intro label_frame)

lemma later_label_at:
  assumes "\<And>d l. A d l \<Longrightarrow> J d l" "\<And>e d l. A d l \<Longrightarrow> E e d l"
  shows "spec_at f N J A later_label_id (\<lambda>r d l. r = f later_label \<and> A d l) E"
  unfolding later_label_id_def
proof (rule spec_at_bind)
  show "spec_at f N J A (port_call no_effect) (\<lambda>_. A) E"
    by (rule spec_at_spec [OF spec_call]) (use assms in auto)
  show "spec_at f N J A (bindw ask_label (\<lambda>ensure. returnw (ensure later_label))) (\<lambda>r d l. r = f later_label \<and> A d l) E"
    by (rule spec_at_bind [where Q = "\<lambda>e d l. e = f \<and> A d l"], rule spec_at_ask)
      (auto intro: spec_at_spec spec_return)
qed

lemma wake_body:
  assumes others: "\<And>d d'. N d d' \<Longrightarrow> leaves_later (rg_mailbox g) (rg_key g) (rg_label g) d d'"
    and label: "f later_label = rg_label g" "rg_label g \<noteq> ''INBOX''"
    and here: "mb = rg_mailbox g" "k = rg_key g" "v = rg_timer g"
  shows "spec_at f N (due_or_returned g) (still_due g {}) (wakeSender mb k v)
    (\<lambda>r d l. r = Some (length (rg_mail g)) \<and> returned g d l) (\<lambda>_. due_or_returned g)"
    (is "spec_at f N ?J ?A _ ?Q ?E")
proof -
  note [simp] = due_outcome returned_outcome
  have still: "still_due g S d lg \<Longrightarrow> due_or_returned g d lg" for S d lg by simp
  have restore: "spec_at f N ?J (\<lambda>d l. ids = rg_mail g \<and> ?A d l)
      (if ids = [] then returnw () else send_group (wake_request_id k) (ids, wake_change (rg_label g)))
      (\<lambda>_ d l. ids = rg_mail g \<and> still_due g (set ids) d l) ?E" for ids
  proof (rule spec_at_pure)
    assume ids: "ids = rg_mail g"
    have "spec_at f N ?J ?A (send_group (wake_request_id k) (ids, wake_change (rg_label g)))
        (\<lambda>_. still_due g (set ids)) ?E"
      by (rule spec_at_spec [OF group_sent]) simp
    moreover have "spec_at f N ?J ?A (returnw ()) (\<lambda>_. still_due g (set ids)) ?E" if "ids = []"
      by (rule spec_at_spec [OF spec_return]) (use that in simp_all)
    ultimately show "spec_at f N ?J ?A
        (if ids = [] then returnw () else send_group (wake_request_id k) (ids, wake_change (rg_label g)))
        (\<lambda>_ d l. ids = rg_mail g \<and> still_due g (set ids) d l) ?E"
      using ids by simp
  qed
  have tx: "spec_at f N ?J (\<lambda>d l. ids = rg_mail g \<and> still_due g (set ids) d l)
      (bindw (exec (wake_tx mb k v (rg_label g) (ids \<noteq> []))) (\<lambda>_. returnw (Some (length ids)))) ?Q ?E" for ids
  proof (rule spec_at_pure, rule spec_at_bind)
    assume ids: "ids = rg_mail g"
    show "spec_at f N ?J (still_due g (set ids)) (exec (wake_tx mb k v (rg_label g) (ids \<noteq> []))) (\<lambda>_. returned g) ?E"
      by (rule spec_at_spec [OF spec_exec])
        (use ids here wake_tx_returns [OF _ label(2)] stable_goal(1) [OF others] in auto)
    show "spec_at f N ?J (returned g) (returnw (Some (length ids))) ?Q ?E"
      by (rule spec_at_spec [OF spec_return]) (simp_all add: ids)
  qed
  have claim: "spec_at f N ?J ?A (stmt (claim_wake mb k v now)) (\<lambda>c d l. c \<and> ?A d l) ?E" for now
  proof (rule spec_at_spec [OF spec_stmt])
    fix d l b d'
    assume a: "?A d l" and c: "claim_wake mb k v now d = Inr (b, d')"
    have "b" using claim_timer [OF c] a here by (simp add: still_due_def)
    moreover have "?A d' l" using a goal_frame(1) [OF claim_leaves [OF c]] by simp
    ultimately show "(b \<and> ?A d' l) \<and> ?J d' l \<and> ?E TransientError d' l" by simp
  qed (use stable_goal(1) [OF others] in \<open>auto simp: claim_wake_def\<close>)
  have publish: "spec_at f N ?J ?A (catchw (port_call (publish_label mb l)) (\<lambda>_. returnw ())) (\<lambda>_. ?A) ?E" for l
    by (rule spec_at_spec [OF spec_catch [where E = "\<lambda>_. ?A", OF spec_port spec_return]])
      (auto simp: publish_frame intro: keeps_label_catch)
  have here_ids: "map mm_id (filter (in_later mb k (rg_label g)) (mail d)) = rg_mail g" if "?A d l" for d l
    using that here by (simp add: still_due_def later_ids_def)
  have ids: "spec_at f N ?J ?A (query (\<lambda>d. map mm_id (filter (in_later mb k (rg_label g)) (mail d))))
      (\<lambda>ids d l. ids = rg_mail g \<and> ?A d l) ?E"
    by (rule spec_at_spec [OF spec_query]) (use stable_goal(1) [OF others] here_ids in auto)
  have call: "spec_at f N ?J ?A (port_call no_effect) (\<lambda>_. ?A) ?E"
    by (rule spec_at_spec [OF spec_call]) auto
  have clock: "spec_at f N ?J ?A clock (\<lambda>_. ?A) ?E"
    by (rule spec_at_spec [OF spec_clock]) auto
  have later: "spec_at f N ?J ?A later_label_id (\<lambda>l d lg. l = rg_label g \<and> ?A d lg) ?E"
    using later_label_at [of ?A ?J ?E f N] label(1) by auto
  note run = spec_at_bind [OF publish spec_at_bind [OF ids spec_at_bind [OF restore tx]]]
  have body: "spec_at f N ?J (\<lambda>d lg. l = rg_label g \<and> ?A d lg)
      (bindw (catchw (port_call (publish_label mb l)) (\<lambda>_. returnw ())) (\<lambda>_.
       bindw (query (\<lambda>d. map mm_id (filter (in_later mb k l) (mail d)))) (\<lambda>ids.
       bindw (if ids = [] then returnw () else send_group (wake_request_id k) (ids, wake_change l)) (\<lambda>_.
       bindw (exec (wake_tx mb k v l (ids \<noteq> []))) (\<lambda>_. returnw (Some (length ids))))))) ?Q ?E" for l
    by (rule spec_at_pure, erule ssubst, rule run)
  have taken: "spec_at f N ?J (\<lambda>d lg. c \<and> ?A d lg) (if \<not> c then returnw None else m) ?Q ?E"
    if "spec_at f N ?J ?A m ?Q ?E" for c m
    by (rule spec_at_pure) (use that in simp)
  show ?thesis
    unfolding wakeSender_def
    by (rule spec_at_bind [OF clock], rule spec_at_bind [OF claim], rule taken,
        rule spec_at_bind [OF call], rule spec_at_bind [OF later], rule body)
qed

lemma wake_absent:
  assumes "stable N A" "\<And>d l. A d l \<Longrightarrow> J d l \<and> E TransientError d l"
    and "\<And>d l. A d l \<Longrightarrow> \<not> list_ex (timer_is mb k v) (policies d)"
  shows "spec N J A (wakeSender mb k v) (\<lambda>r d l. r = None \<and> A d l) E"
proof -
  have gone: "claim_wake mb k v now d = Inr (False, d)" if "A d l" for now d l
    using assms(3) [OF that] by (simp add: claim_wake_def update_where_id list_ex_iff)
  have claim: "spec N J A (stmt (claim_wake mb k v now)) (\<lambda>c d l. \<not> c \<and> A d l) E" for now
    by (rule spec_stmt [OF assms(1)]) (use assms(2) gone in auto)
  have none: "spec N J (\<lambda>d l. \<not> c \<and> A d l) (if \<not> c then returnw None else m) (\<lambda>r d l. r = None \<and> A d l) E" for c m
    by (cases c) (auto simp: spec_def returnw_def)
  show ?thesis
    unfolding wakeSender_def by (rule spec_bind [OF spec_clock], assumption, rule spec_bind [OF claim none])
qed

lemma wake_elsewhere:
  assumes "\<And>d d'. N d d' \<Longrightarrow> leaves_later (rg_mailbox g) (rg_key g) (rg_label g) d d'"
    and "(rg_mailbox g, rg_key g) \<noteq> (mb, k)"
  shows "holds N any_error (due_or_returned g) (wakeSender mb k v)"
proof -
  note st = stable_goal(3) [OF assms(1)]
  have grows: "log_only_grows (due_or_returned g)"
    by (auto simp: log_only_grows_def due_or_returned_def returned_def sent_back_append intro: still_due_append)
  have claim: "holds N any_error (due_or_returned g) (stmt (claim_wake mb k v now))" for now
  proof (rule holds_stmt [OF st])
    show "due_or_returned g d' l" if "due_or_returned g d l" "claim_wake mb k v now d = Inr (a, d')" for d l a d'
      using that(1) goal_frame(3) [OF claim_leaves [OF that(2)]] by simp
  qed (auto simp: claim_wake_def)
  have tx: "holds N any_error (due_or_returned g) (exec (wake_tx mb k v l moved))" for l moved
    by (rule holds_exec [OF st]) (auto simp: goal_frame(3) [OF wake_tx_other [OF assms(2)]])
  have publish: "holds N any_error (due_or_returned g) (catchw (port_call (publish_label mb l)) (\<lambda>_. returnw ()))" for l
    by (rule holds_catch [OF holds_publish [where F = any_error]]) (auto intro: holds_return)
  show ?thesis
    unfolding wakeSender_def
    by (intro holds_bind holds_clock holds_if holds_return holds_call holds_later_label publish
        holds_query holds_send_group claim tx grows lets_portsI any_errorI st)
qed

lemma keeps_wake [label_frame, intro!, simp]: "keeps_label (wakeSender mb k v)"
  unfolding wakeSender_def by (intro label_frame)

lemma goal_timers:
  "due_or_returned g d l \<Longrightarrow> (rg_mailbox g, rg_key g) = (mb, k) \<Longrightarrow> v \<noteq> rg_timer g \<Longrightarrow>
     \<not> list_ex (timer_is mb k v) (policies d)"
  "returned g d l \<Longrightarrow> (rg_mailbox g, rg_key g) = (mb, k) \<Longrightarrow> \<not> list_ex (timer_is mb k v) (policies d)"
  by (auto simp: timer_here due_or_returned_def still_due_def returned_def prod_eq_iff)

lemma wake_any:
  assumes others: "\<And>d d'. N d d' \<Longrightarrow> leaves_later (rg_mailbox g) (rg_key g) (rg_label g) d d'"
    and label: "f later_label = rg_label g" "rg_label g \<noteq> ''INBOX''"
  shows "keeps_at f N (due_or_returned g) (wakeSender mb k v)"
proof (cases "(rg_mailbox g, rg_key g) = (mb, k)")
  case False
  show ?thesis by (rule keeps_atI [OF wake_elsewhere [OF others False]]) simp_all
next
  case key: True
  show ?thesis
  proof (cases "v = rg_timer g")
    case False
    show ?thesis
      unfolding keeps_at_def
      by (rule spec_at_spec, rule spec_weaken [OF wake_absent [OF stable_goal(3) [OF others]]])
        (use goal_timers(1) [OF _ key False] in auto)
  next
    case v: True
    have due: "spec_at f N (due_or_returned g) (still_due g {}) (wakeSender mb k v) (\<lambda>_. due_or_returned g) (\<lambda>_. due_or_returned g)"
      by (rule spec_at_weak_post [OF wake_body [where N = N and g = g and f = f, OF _ label]]) (use key v others in \<open>auto intro: returned_outcome\<close>)
    have home: "spec_at f N (due_or_returned g) (returned g) (wakeSender mb k v) (\<lambda>_. due_or_returned g) (\<lambda>_. due_or_returned g)"
      by (rule spec_at_spec, rule spec_weaken [OF wake_absent [OF stable_goal(2) [OF others]]])
        (use goal_timers(2) [OF _ key] in \<open>auto intro: returned_outcome\<close>)
    from spec_at_disj [OF due home] show ?thesis by (simp add: keeps_at_def due_or_returned_def [abs_def])
  qed
qed

subsection \<open>Recording a failure\<close>

lemma record_incident_frame:
  "policies (record_incident mb code r d) = policies d \<and> mail (record_incident mb code r d) = mail d"
  by (auto simp: record_incident_def Let_def split: option.split)

lemma record_failure_frame:
  "record_failure mb code started r d = (out, d') \<Longrightarrow> policies d' = policies d \<and> mail d' = mail d"
  by (auto simp: record_failure_def record_incident_frame split: if_splits)

lemma holds_sync_failure:
  assumes "stable N I" "\<And>d d' l. policies d' = policies d \<Longrightarrow> mail d' = mail d \<Longrightarrow> I d l \<Longrightarrow> I d' l"
  shows "holds N any_error I (recordMailboxSyncFailure mb code started)"
  unfolding recordMailboxSyncFailure_def
proof (rule holds_stmt [OF assms(1)])
  fix d l out d'
  assume I: "I d l"
  assume "Inr (case sync_of mb d of
      Some r \<Rightarrow> record_failure mb code started r d
    | None \<Rightarrow>
        if list_ex (\<lambda>m. mb_id m = mb \<and> mb_active m) (mailboxes d)
        then (let r = \<lparr>sy_mailbox = mb, sy_error = None, sy_error_at = None, sy_synced = None\<rparr>
              in record_failure mb code started r (d\<lparr>sync_states := sync_states d @ [r]\<rparr>))
        else (FailureSkipped, d)) = Inr (out, d')"
  then have "policies d' = policies d \<and> mail d' = mail d"
    by (auto simp: Let_def dest!: record_failure_frame split: option.splits if_splits)
  with assms(2) I show "I d' l" by blast
qed auto

lemma holds_record_failure:
  assumes "\<And>d d'. N d d' \<Longrightarrow> leaves_later (rg_mailbox g) (rg_key g) (rg_label g) d d'"
  shows "holds N any_error (due_or_returned g) (recordWakeFailure mb k v e started)"
proof -
  note st = stable_goal(3) [OF assms]
  have sync: "holds N any_error (due_or_returned g) (recordMailboxSyncFailure mb' code s)" for mb' code s
  proof (rule holds_sync_failure [OF st])
    show "due_or_returned g d' l" if "policies d' = policies d" "mail d' = mail d" "due_or_returned g d l" for d d' l
      using goal_frame(3) [OF leaves_later_frame [OF that(1,2)]] that(3) by blast
  qed
  have stamp: "holds N any_error (due_or_returned g) (exec (stamp_failure mb k v kind t))" for kind t
    by (rule holds_exec [OF st]) (auto simp: goal_frame(3) [OF stamp_leaves])
  show ?thesis
    unfolding recordWakeFailure_def by (intro holds_bind holds_if holds_return holds_clock sync stamp)
qed

lemma keeps_sync_failure [label_frame, intro!, simp]: "keeps_label (recordMailboxSyncFailure mb code started)"
  unfolding recordMailboxSyncFailure_def by (intro label_frame)

lemma keeps_record_failure [label_frame, intro!, simp]: "keeps_label (recordWakeFailure mb k v e started)"
  unfolding recordWakeFailure_def by (intro label_frame)

subsection \<open>The targeted wake\<close>

lemma targeted_at:
  assumes others: "\<And>d d'. N d d' \<Longrightarrow> leaves_later (rg_mailbox g) (rg_key g) (rg_label g) d d'"
    and label: "f later_label = rg_label g" "rg_label g \<noteq> ''INBOX''"
    and here: "wk_mailbox p = rg_mailbox g" "wk_key p = rg_key g" "timerVersionFromJob h p = Inr (rg_timer g)"
  shows "spec_at f N (due_or_returned g) (still_due g {}) (runTargetedWake h p final)
    (\<lambda>r d l. wr_restored r = length (rg_mail g) \<and> returned g d l) (\<lambda>_. due_or_returned g)"
    (is "spec_at f N ?J ?A _ ?Q ?E")
proof -
  have call: "spec_at f N ?J ?A (port_call no_effect) (\<lambda>_. ?A) ?E"
    by (rule spec_at_spec [OF spec_call]) (auto intro: due_outcome)
  have clock: "spec_at f N ?J ?A clock (\<lambda>_. ?A) ?E"
    by (rule spec_at_spec [OF spec_clock]) auto
  note body = wake_body [where N = N and g = g and f = f, OF _ label here(1,2) refl]
  have good: "spec_at f N ?J ?A
      (bindw (wakeSender (wk_mailbox p) (wk_key p) (rg_timer g)) (\<lambda>r.
         let woken = (case r of None \<Rightarrow> 0 | Some _ \<Rightarrow> 1)
         in returnw \<lparr>wr_due = 1, wr_woken = woken, wr_restored = (case r of None \<Rightarrow> 0 | Some n \<Rightarrow> n),
                     wr_failed = 0, wr_refreshed = woken, wr_skipped = False\<rparr>)) ?Q ?E"
    by (rule spec_at_bind [OF body], erule others, rule spec_at_pure, unfold Let_def, rule spec_at_spec [OF spec_return])
      auto
  have noted: "spec_at f N ?J ?J
      (bindw (if b then recordWakeFailure (wk_mailbox p) (wk_key p) (rg_timer g) e started else returnw ())
         (\<lambda>_. throww e)) ?Q ?E" for b e started
    by (rule spec_at_bind [OF spec_at_holds [OF holds_if [OF holds_record_failure [OF others] holds_return]]])
      (auto intro: label_frame spec_at_spec spec_throw)
  show ?thesis
    unfolding runTargetedWake_def locked_def here(3) sum.case targeted_wake_def
    by (rule spec_at_bind [OF call], rule spec_at_bind [OF clock], rule spec_at_catch [OF good noted])
qed

definition wake_goal :: "world \<Rightarrow> wake_data \<Rightarrow> timer_version \<Rightarrow> return_goal" where
  \<comment> \<open>what a targeted wake has to bring back, as the world stands\<close>
  "wake_goal w p v =
     \<lparr>rg_mailbox = wk_mailbox p, rg_key = wk_key p, rg_timer = v, rg_label = ensure_label w later_label,
      rg_mail = later_ids (wk_mailbox p) (wk_key p) (ensure_label w later_label) (wdb w),
      rg_from = length (requests w)\<rparr>"

lemma wake_goal_due:
  "timers_of (wk_mailbox p) (wk_key p) (wdb w) = [(Some (fst v), snd v)] \<Longrightarrow>
     still_due (wake_goal w p v) {} (wdb w) (requests w)"
  by (simp add: still_due_def wake_goal_def)

text \<open>
  C7: a wake is all or nothing. Run a targeted wake of a sender whose timer is the job's, beside
  writers that leave this timer and the sender's Later mail alone, with every statement, port
  call and provider request free to fail, to lose its reply or to die. When it ends, either
  the timer stands as it was and all of the sender's mail is still in Later, or the timer is
  cleared, none of it is left there, and every message of it was in a request of this run the
  provider applied. If it returns, it is the second, and the count it reports is exact.
\<close>

theorem wake_all_or_nothing:
  fixes w :: world and p :: wake_data
  defines "l \<equiv> ensure_label w later_label" and "mb \<equiv> wk_mailbox p" and "k \<equiv> wk_key p"
  assumes "script_ok (leaves_later mb k l) w" "l \<noteq> ''INBOX''" "timerVersionFromJob h p = Inr v"
    and "timers_of mb k (wdb w) = [(Some (fst v), snd v)]" "runTargetedWake h p final w = (r, w')"
  shows "timers_of mb k (wdb w') = [(Some (fst v), snd v)] \<and> later_ids mb k l (wdb w') = later_ids mb k l (wdb w) \<and>
      (\<forall>x. r \<noteq> Ok x) \<or>
    timers_of mb k (wdb w') = [(None, None)] \<and> later_ids mb k l (wdb w') = [] \<and>
      set (later_ids mb k l (wdb w)) \<subseteq> sent_back l (length (requests w)) (requests w') \<and>
      (\<forall>x. r = Ok x \<longrightarrow> wr_restored x = length (later_ids mb k l (wdb w)))"
proof -
  let ?g = "wake_goal w p v"
  have g: "rg_mailbox ?g = mb" "rg_key ?g = k" "rg_label ?g = l" "rg_timer ?g = v" "rg_mail ?g = later_ids mb k l (wdb w)"
    "rg_from ?g = length (requests w)"
    by (simp_all add: wake_goal_def mb_def k_def l_def)
  have "spec_at (ensure_label w) (leaves_later mb k l) (due_or_returned ?g) (still_due ?g {}) (runTargetedWake h p final)
      (\<lambda>r d l. wr_restored r = length (rg_mail ?g) \<and> returned ?g d l) (\<lambda>_. due_or_returned ?g)"
    by (rule targeted_at) (use assms(5,6) in \<open>simp_all add: g l_def mb_def k_def\<close>)
  from spec_atD [OF this refl assms(4) wake_goal_due] assms(7,8)
  have "ends (leaves_later mb k l) (due_or_returned ?g)
      (\<lambda>r d l. wr_restored r = length (rg_mail ?g) \<and> returned ?g d l) (\<lambda>_. due_or_returned ?g) (r, w')"
    by (simp add: mb_def k_def)
  then show ?thesis
    by (cases r) (auto simp: due_or_returned_def still_due_def returned_def g)
qed

subsection \<open>The sweep, among others\<close>

lemma keeps_at_sync_failure:
  assumes "\<And>d d'. N d d' \<Longrightarrow> leaves_later (rg_mailbox g) (rg_key g) (rg_label g) d d'"
  shows "keeps_at f N (due_or_returned g) (recordMailboxSyncFailure mb code t)"
proof (rule keeps_atI [OF holds_sync_failure [OF stable_goal(3) [OF assms]]])
  show "due_or_returned g d' l" if "policies d' = policies d" "mail d' = mail d" "due_or_returned g d l" for d d' l
    using goal_frame(3) [OF leaves_later_frame [OF that(1,2)]] that(3) by blast
qed auto

lemma keeps_at_cron:
  assumes "\<And>d d'. N d d' \<Longrightarrow> leaves_later (rg_mailbox g) (rg_key g) (rg_label g) d d'"
  shows "keeps_at f N (due_or_returned g) (stmt (claim_cron key))"
    and "keeps_at f N (due_or_returned g) (finishCronRun key st)"
proof -
  have same: "due_or_returned g d l \<Longrightarrow> due_or_returned g d' l" if "policies d' = policies d" "mail d' = mail d" for d d' l
    using goal_frame(3) [OF leaves_later_frame [OF that]] by blast
  show "keeps_at f N (due_or_returned g) (stmt (claim_cron key))"
    by (rule keeps_atI [OF holds_stmt [OF stable_goal(3) [OF assms]]])
      (auto simp: claim_cron_def split: if_splits elim!: same [rotated 2])
  show "keeps_at f N (due_or_returned g) (finishCronRun key st)"
    unfolding finishCronRun_def
    by (rule keeps_at_exec [OF stable_goal(3) [OF assms]]) (auto elim!: same [rotated 2])
qed

lemma keeps_at_refresh:
  assumes "\<And>d d'. N d d' \<Longrightarrow> leaves_later (rg_mailbox g) (rg_key g) (rg_label g) d d'"
  shows "keeps_at f N (due_or_returned g) (refresh_mapping mb s)"
proof -
  have read: "keeps_at f N (due_or_returned g) (published_label mb)"
    by (simp add: keeps_at_def spec_at_def published_label_def)
  have label: "keeps_at f N (due_or_returned g) later_label_id" "keeps_at f N (due_or_returned g) (port_call (publish_label mb l))" for l
    by (auto intro!: keeps_atI holds_later_label holds_publish)
  show ?thesis
    unfolding refresh_mapping_def by (intro keeps_at_intros read label keeps_at_sync_failure assms)
qed

lemma keeps_at_sweep:
  assumes others: "\<And>d d'. N d d' \<Longrightarrow> leaves_later (rg_mailbox g) (rg_key g) (rg_label g) d d'"
    and label: "f later_label = rg_label g" "rg_label g \<noteq> ''INBOX''"
  shows "keeps_at f N (due_or_returned g) (runSweep minute)"
proof -
  note wake = wake_any [where N = N and g = g and f = f, OF others label]
  have noted: "keeps_at f N (due_or_returned g) (recordWakeFailure mb k v e t)" for mb k v e t
    by (rule keeps_atI [OF holds_record_failure [OF others]]) simp_all
  have due: "keeps_at f N (due_or_returned g) (wake_due mb t s)" for mb t s
    unfolding wake_due_def by (intro keeps_at_intros wake noted)
  have mailbox: "keeps_at f N (due_or_returned g) (wake_mailbox mb ts s)" for mb ts s
    by (induction ts arbitrary: s) (auto intro!: keeps_at_intros due)
  have group: "keeps_at f N (due_or_returned g) (wake_group x s)" for x s
    unfolding wake_group_def by (intro keeps_at_intros mailbox)
  have sweep: "keeps_at f N (due_or_returned g) (wake_sweep now)" for now
    unfolding wake_sweep_def by (intro keeps_at_intros group keeps_at_refresh others stable_goal(3))
  show ?thesis
    unfolding runSweep_def Let_def
    by (intro keeps_at_intros keeps_at_cron sweep others)
qed

text \<open>
  C8: no sweep loses Later mail. Whatever is due, in however many mailboxes, and wherever a run
  of the sweep fails or dies, a sender with one policy row and a timer ends either with the
  timer and all of the Later mail as they were, or with the timer cleared, nothing left in
  Later, and every message of it in a request the provider applied. The other writers
  must leave this sender's timer and Later mail alone; whether the sweep got to the sender at
  all does not matter.
\<close>

theorem sweep_all_or_nothing:
  fixes w :: world
  defines "l \<equiv> ensure_label w later_label"
  assumes "script_ok (leaves_later mb k l) w" "l \<noteq> ''INBOX''"
    and "timers_of mb k (wdb w) = [(Some until, since)]" "runSweep minute w = (r, w')"
  shows "timers_of mb k (wdb w') = [(Some until, since)] \<and> later_ids mb k l (wdb w') = later_ids mb k l (wdb w) \<or>
    timers_of mb k (wdb w') = [(None, None)] \<and> later_ids mb k l (wdb w') = [] \<and>
      set (later_ids mb k l (wdb w)) \<subseteq> sent_back l (length (requests w)) (requests w')"
proof -
  let ?g = "\<lparr>rg_mailbox = mb, rg_key = k, rg_timer = (until, since), rg_label = l, rg_mail = later_ids mb k l (wdb w),
             rg_from = length (requests w)\<rparr>"
  have "keeps_at (ensure_label w) (leaves_later mb k l) (due_or_returned ?g) (runSweep minute)"
    by (rule keeps_at_sweep) (use assms(3) in \<open>simp_all add: l_def\<close>)
  moreover have "due_or_returned ?g (wdb w) (requests w)"
    using assms(4) by (simp add: due_or_returned_def still_due_def)
  ultimately have "ends (leaves_later mb k l) (due_or_returned ?g) (\<lambda>_. due_or_returned ?g) (\<lambda>_. due_or_returned ?g) (r, w')"
    using spec_atD [OF _ refl assms(2)] assms(5) unfolding keeps_at_def by metis
  then show ?thesis
    by (cases r) (auto simp: due_or_returned_def still_due_def returned_def)
qed

subsection \<open>The sweep when nothing fails\<close>

definition sent_home :: "string \<Rightarrow> mail_row \<Rightarrow> mail_row" where
  "sent_home l x = x\<lparr>mm_labels := label_mirror (wake_change l) (mm_labels x)\<rparr>"

definition of_timer :: "ident \<times> due_timer \<Rightarrow> policy_row \<Rightarrow> bool" where
  "of_timer t = timer_is (fst t) (fst (snd t)) (snd (snd t))"

definition timer_key :: "ident \<times> due_timer \<Rightarrow> ident \<times> string" where
  "timer_key t = (fst t, fst (snd t))"

definition mail_of_timer :: "string \<Rightarrow> ident \<times> due_timer \<Rightarrow> mail_row \<Rightarrow> bool" where
  "mail_of_timer l t = in_later (fst t) (fst (snd t)) l"

definition swept :: "string \<Rightarrow> (ident \<times> due_timer) list \<Rightarrow> db \<Rightarrow> db" where
  "swept l ts d =
     d\<lparr>policies := update_where (\<lambda>p. list_ex (\<lambda>t. of_timer t p) ts) clear_timer (policies d),
       mail := update_where (\<lambda>x. list_ex (\<lambda>t. mail_of_timer l t x) ts) (sent_home l) (mail d)\<rparr>"

lemma swept_Nil: "swept l [] d = d"
  by (simp add: swept_def update_where_id)

lemma update_where_twice:
  assumes "\<And>x. p x \<Longrightarrow> \<not> q (f x)"
  shows "update_where q f (update_where p f xs) = update_where (\<lambda>x. p x \<or> q x) f xs"
  using assms by (induction xs) auto

lemma swept_snoc:
  assumes "l \<noteq> ''INBOX''"
  shows "swept l [t] (swept l ts d) = swept l (ts @ [t]) d"
proof -
  have "\<not> of_timer t (clear_timer p)" for p by (simp add: of_timer_def timer_is_def clear_timer_def)
  moreover have "\<not> mail_of_timer l t (sent_home l x)" for x
    using assms by (simp add: mail_of_timer_def in_later_def sent_home_def wake_change_def set_label_mirror)
  ultimately show ?thesis by (simp add: swept_def update_where_twice)
qed

lemma wake_tx_swept:
  assumes "ids = map mm_id (filter (in_later mb k l) (mail d))"
  shows "wake_tx mb k v l (ids \<noteq> []) (d\<lparr>policies := update_where (timer_is mb k v) (\<lambda>p. p\<lparr>po_wake_attempt := t\<rparr>) (policies d)\<rparr>) =
    swept l [(mb, k, v)] d"
proof -
  have ps: "update_where (\<lambda>p. timer_is mb k v p \<and> has_timer_state p) clear_timer
      (update_where (timer_is mb k v) (\<lambda>p. p\<lparr>po_wake_attempt := t\<rparr>) xs) = update_where (timer_is mb k v) clear_timer xs" for xs
    by (induction xs) (auto simp: timer_is_def has_timer_state_def clear_timer_def)
  have "ids = [] \<Longrightarrow> update_where (in_later mb k l) h (mail d) = mail d" for h
    using assms by (intro update_where_id) (auto simp: filter_empty_conv)
  then show ?thesis
    by (simp add: wake_tx_def swept_def of_timer_def mail_of_timer_def Let_def ps sent_home_def [abs_def])
qed

lemma calm_later_label: "Q (f later_label) d \<Longrightarrow> calm_to f d later_label_id Q"
  unfolding later_label_id_def
  by (rule calm_to_bind [OF calm_to_call [where Q = "\<lambda>_. (=) d", OF refl]],
      rule calm_to_bind [OF calm_to_ask [where Q = "\<lambda>e d'. e = f \<and> d' = d"]]) (auto intro: calm_to_return)

lemma calm_publish: "Q () d \<Longrightarrow> calm_to f d (port_call (publish_label mb l)) Q"
  by (rule calm_to_port) (simp_all add: publish_frame)

lemma calm_wake:
  assumes "list_ex (timer_is mb k v) (policies d)"
  shows "calm_to f d (wakeSender mb k v) (\<lambda>r d'. r \<noteq> None \<and> d' = swept (f later_label) [(mb, k, v)] d)"
proof -
  let ?l = "f later_label"
  let ?d = "\<lambda>now. d\<lparr>policies := update_where (timer_is mb k v) (\<lambda>p. p\<lparr>po_wake_attempt := Some now\<rparr>) (policies d)\<rparr>"
  let ?ids = "map mm_id (filter (in_later mb k ?l) (mail d))"
  have claim: "calm_to f d (stmt (claim_wake mb k v now)) (\<lambda>c d1. c = True \<and> d1 = ?d now)" for now
    by (rule calm_to_stmt) (use assms in \<open>simp_all add: claim_wake_def\<close>)
  have send: "calm_to f (?d now) (if ids = [] then returnw () else send_group (wake_request_id k) (ids, wake_change ?l))
      (\<lambda>x d1. x = () \<and> d1 = ?d now)" for ids now
    by (auto intro: calm_to_return calm_to_send)
  have tx: "calm_to f (?d now) (exec (wake_tx mb k v ?l (?ids \<noteq> []))) (\<lambda>x d1. x = () \<and> d1 = swept ?l [(mb, k, v)] d)" for now
    by (rule calm_to_exec) (simp only: wake_tx_swept [OF refl] simp_thms)
  have ids: "calm_to f (?d now) (query (\<lambda>d. map mm_id (filter (in_later mb k ?l) (mail d)))) (\<lambda>x d1. x = ?ids \<and> d1 = ?d now)" for now
    by (rule calm_to_query) simp
  have publish: "calm_to f d1 (catchw (port_call (publish_label mb ?l)) (\<lambda>_. returnw ())) (\<lambda>x d2. x = () \<and> d2 = d1)" for d1
    by (intro calm_to_catch calm_publish) simp
  have call: "calm_to f d1 (port_call no_effect) (\<lambda>x d2. x = () \<and> d2 = d1)" for d1
    by (intro calm_to_call) simp
  have later: "calm_to f d1 later_label_id (\<lambda>x d2. x = ?l \<and> d2 = d1)" for d1
    by (intro calm_later_label) simp
  have clock: "calm_to f d clock (\<lambda>x d2. x = db_now d \<and> d2 = d)"
    by (intro calm_to_clock) simp
  show ?thesis
    unfolding wakeSender_def
    by (rule calm_to_seq [OF clock], rule calm_to_seq [OF claim], subst not_True_eq_False, subst if_False,
        rule calm_to_seq [OF call], rule calm_to_seq [OF later], rule calm_to_seq [OF publish],
        rule calm_to_seq [OF ids], rule calm_to_seq [OF send], rule calm_to_seq [OF tx])
      (auto intro: calm_to_return)
qed

lemma swept_present:
  assumes "t \<in> set ts'" "distinct (map timer_key (ts @ ts'))" "\<forall>t \<in> set ts'. list_ex (of_timer t) (policies d)"
  shows "list_ex (of_timer t) (policies (swept l ts d))"
proof -
  from assms obtain p where p: "p \<in> set (policies d)" "of_timer t p" by (auto simp: list_ex_iff)
  have key: "timer_key u = (po_mailbox p, po_key p)" if "of_timer u p" for u
    using that by (simp add: of_timer_def timer_is_def timer_key_def)
  have "\<not> of_timer t' p" if "t' \<in> set ts" for t'
  proof
    assume "of_timer t' p"
    with key p(2) have same: "timer_key t' = timer_key t" by metis
    have "timer_key t' \<in> timer_key ` set ts" using that by (rule imageI)
    moreover have "timer_key t \<in> timer_key ` set ts'" using assms(1) by (rule imageI)
    ultimately show False using assms(2) same by auto
  qed
  then have "\<not> list_ex (\<lambda>t. of_timer t p) ts" by (auto simp only: list_ex_iff)
  from update_where_keeps [OF p(1), where p = "\<lambda>p. list_ex (\<lambda>t. of_timer t p) ts", OF this] have "p \<in> set (policies (swept l ts d))" by (simp add: swept_def)
  with p(2) show ?thesis by (auto simp: list_ex_iff)
qed

lemma calm_wake_mailbox:
  assumes "f later_label = l" "l \<noteq> ''INBOX''"
    and "distinct (map timer_key (done' @ map (Pair mb) ts))" "\<forall>t \<in> set ts. list_ex (of_timer (mb, t)) (policies d)"
  shows "calm_to f (swept l done' d) (wake_mailbox mb ts s)
    (\<lambda>s' d'. d' = swept l (done' @ map (Pair mb) ts) d \<and> wc_woken s' = wc_woken s + length ts \<and>
       (wc_failed s', wc_lock_failures s', wc_escaped s') = (wc_failed s, wc_lock_failures s, wc_escaped s))"
  using assms(3,4)
proof (induction ts arbitrary: s done')
  case Nil
  show ?case unfolding wake_mailbox.simps by (rule calm_to_return) simp
next
  case (Cons t ts)
  obtain k v where t: "t = (k, v)" by (cases t)
  let ?d = "swept l done' d" and ?d' = "swept l (done' @ [(mb, t)]) d"
  have lock: "calm_to f ?d (tryw (port_call no_effect)) (\<lambda>x d1. x = Inr () \<and> d1 = ?d)"
    by (intro calm_to_try calm_to_call) simp
  have clock: "calm_to f ?d clock (\<lambda>x d2. x = db_now ?d \<and> d2 = ?d)"
    by (intro calm_to_clock) simp
  have "list_ex (of_timer (mb, t)) (policies ?d)"
    by (rule swept_present [where ts' = "map (Pair mb) (t # ts)"]) (use Cons.prems in auto)
  then have "list_ex (timer_is mb k v) (policies ?d)" by (simp add: of_timer_def t cong: list.pred_cong)
  from calm_wake [OF this, of f] have wake: "calm_to f ?d (wakeSender mb (fst t) (snd t)) (\<lambda>r d'. r \<noteq> None \<and> d' = ?d')"
    using assms(1) swept_snoc [OF assms(2)] by (simp add: t)
  have woken: "calm_to f ?d (tryw (wakeSender mb (fst t) (snd t))) (\<lambda>r d1. (\<exists>n. r = Inr (Some n)) \<and> d1 = ?d')"
    by (rule calm_to_try, rule calm_to_weaken [OF wake]) auto
  have due: "calm_to f ?d (wake_due mb t s) (\<lambda>s' d1. d1 = ?d' \<and> wc_woken s' = wc_woken s + 1 \<and>
      (wc_failed s', wc_lock_failures s', wc_escaped s') = (wc_failed s, wc_lock_failures s, wc_escaped s))" for s
    unfolding wake_due_def
    by (rule calm_to_seq [OF clock], rule calm_to_bind [OF woken]) (auto intro!: calm_to_return)
  show ?case
    unfolding wake_mailbox.simps
  proof (rule calm_to_seq [OF lock], subst sum.case, rule calm_to_bind [OF due])
    fix s1 :: wake_counts and d1 assume 1: "d1 = ?d' \<and> wc_woken s1 = wc_woken s + 1 \<and>
      (wc_failed s1, wc_lock_failures s1, wc_escaped s1) = (wc_failed s, wc_lock_failures s, wc_escaped s)"
    have "calm_to f ?d' (wake_mailbox mb ts s1) (\<lambda>s' d'. d' = swept l ((done' @ [(mb, t)]) @ map (Pair mb) ts) d \<and>
        wc_woken s' = wc_woken s1 + length ts \<and>
        (wc_failed s', wc_lock_failures s', wc_escaped s') = (wc_failed s1, wc_lock_failures s1, wc_escaped s1))"
      by (rule Cons.IH) (use Cons.prems in auto)
    then show "calm_to f d1 (wake_mailbox mb ts s1) (\<lambda>s' d'. d' = swept l (done' @ map (Pair mb) (t # ts)) d \<and>
        wc_woken s' = wc_woken s + length (t # ts) \<and>
        (wc_failed s', wc_lock_failures s', wc_escaped s') = (wc_failed s, wc_lock_failures s, wc_escaped s))"
      using 1 by simp
  qed
qed

subsection \<open>All mailboxes\<close>

definition flat :: "(ident \<times> due_timer list) list \<Rightarrow> (ident \<times> due_timer) list" where
  "flat gs = concat (map (\<lambda>g. map (Pair (fst g)) (snd g)) gs)"

lemma flat_simps [simp]: "flat [] = []" "flat (g # gs) = map (Pair (fst g)) (snd g) @ flat gs"
  by (simp_all add: flat_def)

lemma flat_by_mailbox:
  "flat (by_mailbox due) = concat (map (\<lambda>mb. filter (\<lambda>x. fst x = mb) due) (rev (remdups (rev (map fst due)))))"
proof -
  have "map (Pair mb) (map snd (filter (\<lambda>x. fst x = mb) xs)) = filter (\<lambda>x. fst x = mb) xs" for mb :: ident and xs :: "(ident \<times> due_timer) list"
    by (induction xs) auto
  then show ?thesis by (simp add: flat_def by_mailbox_def o_def)
qed

lemma set_flat: "set (flat (by_mailbox due)) = set due"
  by (auto simp: flat_by_mailbox)

lemma distinct_by_class:
  assumes "distinct (map timer_key xs)" "distinct ms"
  shows "distinct (map timer_key (concat (map (\<lambda>mb. filter (\<lambda>x. fst x = mb) xs) ms)))"
  using assms(2)
proof (induction ms)
  case (Cons m ms)
  have "timer_key ` {x \<in> set xs. fst x = m} \<inter> timer_key ` (\<Union>mb\<in>set ms. {x \<in> set xs. fst x = mb}) = {}"
    using Cons.prems by (auto simp: timer_key_def)
  with Cons assms(1) show ?case by (simp add: distinct_map_filter set_concat)
qed simp

lemma distinct_flat: "distinct (map timer_key due) \<Longrightarrow> distinct (map timer_key (flat (by_mailbox due)))"
  unfolding flat_by_mailbox by (rule distinct_by_class) simp_all

lemma length_flat:
  assumes "distinct (map timer_key due)"
  shows "length (flat (by_mailbox due)) = length due"
  using distinct_card [of "flat (by_mailbox due)"] distinct_card [of due] distinct_flat [OF assms] assms
  by (simp add: set_flat distinct_map)

definition on_course :: "string \<Rightarrow> db \<Rightarrow> nat \<Rightarrow> wake_counts \<Rightarrow> (ident \<times> due_timer) list \<Rightarrow> db \<Rightarrow> bool" where
  \<comment> \<open>everything in \<open>ts\<close> has been woken, and nothing else happened\<close>
  "on_course l d n s ts d' \<longleftrightarrow>
     d' = swept l ts d \<and> wc_woken s = n \<and> (wc_failed s, wc_lock_failures s, wc_escaped s) = (0, 0, None)"

lemma calm_groups:
  assumes "f later_label = l" "l \<noteq> ''INBOX''"
    and "distinct (map timer_key (done' @ flat gs))" "\<forall>t \<in> set (flat gs). list_ex (of_timer t) (policies d)"
    and "on_course l d (length done') s done' d1"
  shows "calm_to f d1 (foreachw wake_group gs s) (\<lambda>s'. on_course l d (length (done' @ flat gs)) s' (done' @ flat gs))"
  using assms(3-5)
proof (induction gs arbitrary: s done' d1)
  case Nil
  then show ?case unfolding foreachw.simps by (intro calm_to_return) simp
next
  case (Cons g gs)
  let ?ts = "map (Pair (fst g)) (snd g)"
  have d1: "d1 = swept l done' d" using Cons.prems(3) by (simp add: on_course_def)
  have "calm_to f d1 (wake_mailbox (fst g) (snd g) s)
      (\<lambda>s' d'. d' = swept l (done' @ ?ts) d \<and> wc_woken s' = wc_woken s + length (snd g) \<and>
         (wc_failed s', wc_lock_failures s', wc_escaped s') = (wc_failed s, wc_lock_failures s, wc_escaped s))"
    unfolding d1 by (rule calm_wake_mailbox) (use assms(1,2) Cons.prems(1,2) in auto)
  then have "calm_to f d1 (wake_mailbox (fst g) (snd g) s) (\<lambda>s'. on_course l d (length (done' @ ?ts)) s' (done' @ ?ts))"
    by (rule calm_to_weaken) (use Cons.prems(3) in \<open>auto simp: on_course_def\<close>)
  then have group: "calm_to f d1 (wake_group g s) (\<lambda>s'. on_course l d (length (done' @ ?ts)) s' (done' @ ?ts))"
    unfolding wake_group_def
    by (intro calm_to_bind [OF calm_to_try [where Q = "\<lambda>r d'. \<exists>s'. r = Inr s' \<and> on_course l d (length (done' @ ?ts)) s' (done' @ ?ts) d'"]])
      (auto intro: calm_to_return elim: calm_to_weaken)
  show ?case
    unfolding foreachw.simps
  proof (rule calm_to_bind [OF group])
    fix s1 d2 assume "on_course l d (length (done' @ ?ts)) s1 (done' @ ?ts) d2"
    from Cons.IH [OF _ _ this] Cons.prems(1,2)
    show "calm_to f d2 (foreachw wake_group gs s1) (\<lambda>s'. on_course l d (length (done' @ flat (g # gs))) s' (done' @ flat (g # gs)))"
      by simp
  qed
qed

lemma calm_refresh:
  "calm_to f d (refresh_mapping mb s) (\<lambda>s' d'. d' = d \<and> (\<exists>n. s' = s\<lparr>wc_refreshed := n\<rparr>))"
proof -
  let ?Q = "\<lambda>s' d'. d' = d \<and> (\<exists>n. s' = s\<lparr>wc_refreshed := n\<rparr>)"
  have same: "\<exists>n. s = s\<lparr>wc_refreshed := n\<rparr>" by (rule exI [of _ "wc_refreshed s"]) simp
  have read: "calm_to f d (published_label mb) (\<lambda>_. (=) d)"
    by (simp add: calm_to_def published_label_def)
  have call: "calm_to f d (port_call no_effect) (\<lambda>x d2. x = () \<and> d2 = d)"
    by (intro calm_to_call) simp
  have later: "calm_to f d later_label_id (\<lambda>x d2. x = f later_label \<and> d2 = d)"
    by (intro calm_later_label) simp
  have publish: "calm_to f d (port_call (publish_label mb l)) (\<lambda>x d2. x = () \<and> d2 = d)" for l
    by (intro calm_publish) simp
  have clock: "calm_to f d clock (\<lambda>x d2. x = db_now d \<and> d2 = d)"
    by (intro calm_to_clock) simp
  have fetch: "calm_to f d
      (bindw (port_call no_effect) (\<lambda>_. bindw later_label_id (\<lambda>l. bindw (port_call (publish_label mb l)) (\<lambda>_.
         returnw (s\<lparr>wc_refreshed := wc_refreshed s + 1\<rparr>))))) ?Q"
    by (rule calm_to_seq [OF call], rule calm_to_seq [OF later], rule calm_to_seq [OF publish]) (auto intro!: calm_to_return)
  have keep: "calm_to f d (returnw s) ?Q" by (rule calm_to_return) (simp add: same)
  show ?thesis
    unfolding refresh_mapping_def
    by (rule calm_to_seq [OF clock], rule calm_to_catch, rule calm_to_seq [OF call], rule calm_to_bind [OF read])
      (use fetch keep in auto)
qed

lemma calm_refreshes:
  "calm_to f d (foreachw refresh_mapping mbs s) (\<lambda>s' d'. d' = d \<and> (\<exists>n. s' = s\<lparr>wc_refreshed := n\<rparr>))"
proof (induction mbs arbitrary: s)
  case Nil
  show ?case unfolding foreachw.simps by (rule calm_to_return) (auto intro!: exI [of _ "wc_refreshed s"])
next
  case (Cons mb mbs)
  show ?case
    unfolding foreachw.simps
    by (rule calm_to_bind [OF calm_refresh]) (auto intro!: calm_to_weaken [OF Cons.IH])
qed

lemma due_timer_of: "p \<in> set (policies d) \<Longrightarrow> timer_due now d p \<Longrightarrow>
    (po_mailbox p, po_key p, timer_version p) \<in> set (due_timers now d) \<and> of_timer (po_mailbox p, po_key p, timer_version p) p"
  by (auto simp: due_timers_def of_timer_def timer_is_def timer_version_def timer_due_def split: option.splits)

lemma due_timers_present: "t \<in> set (due_timers now d) \<Longrightarrow> list_ex (of_timer t) (policies d)"
  using due_timer_of by (fastforce simp: due_timers_def list_ex_iff)

lemma distinct_due:
  "distinct (map (\<lambda>p. (po_mailbox p, po_key p)) (policies d)) \<Longrightarrow> distinct (map timer_key (due_timers now d))"
proof -
  have "map timer_key (due_timers now d) = map (\<lambda>p. (po_mailbox p, po_key p)) (filter (timer_due now d) (policies d))"
    by (simp add: due_timers_def timer_key_def)
  then show "distinct (map (\<lambda>p. (po_mailbox p, po_key p)) (policies d)) \<Longrightarrow> distinct (map timer_key (due_timers now d))"
    by (simp add: distinct_map_filter)
qed

definition mail_due :: "string \<Rightarrow> millis \<Rightarrow> db \<Rightarrow> mail_row \<Rightarrow> bool" where
  "mail_due l now d x \<longleftrightarrow> list_ex (\<lambda>p. timer_due now d p \<and> in_later (po_mailbox p) (po_key p) l x) (policies d)"

definition all_returned :: "string \<Rightarrow> millis \<Rightarrow> db \<Rightarrow> db" where
  \<comment> \<open>every due timer cleared, its sender's Later mail back in the inbox\<close>
  "all_returned l now d =
     d\<lparr>policies := update_where (timer_due now d) clear_timer (policies d),
       mail := update_where (mail_due l now d) (sent_home l) (mail d)\<rparr>"

lemma update_where_cong: "(\<And>x. x \<in> set xs \<Longrightarrow> p x = q x) \<Longrightarrow> update_where p f xs = update_where q f xs"
  by (induction xs) auto

lemma swept_all:
  assumes "distinct (map (\<lambda>p. (po_mailbox p, po_key p)) (policies d))" "set ts = set (due_timers now d)"
  shows "swept l ts d = all_returned l now d"
proof -
  have "list_ex (\<lambda>t. of_timer t p) ts = timer_due now d p" if p: "p \<in> set (policies d)" for p
  proof
    assume "list_ex (\<lambda>t. of_timer t p) ts"
    then obtain q where q: "q \<in> set (policies d)" "timer_due now d q" "of_timer (po_mailbox q, po_key q, timer_version q) p"
      using assms(2) by (auto simp: list_ex_iff due_timers_def)
    then have "(po_mailbox q, po_key q) = (po_mailbox p, po_key p)" by (simp add: of_timer_def timer_is_def)
    with assms(1) p q(1) have "q = p" by (auto simp: distinct_map dest: inj_onD)
    with q(2) show "timer_due now d p" by simp
  next
    assume "timer_due now d p"
    from due_timer_of [OF p this] show "list_ex (\<lambda>t. of_timer t p) ts" using assms(2) by (auto simp: list_ex_iff)
  qed
  moreover have "list_ex (\<lambda>t. mail_of_timer l t x) ts = mail_due l now d x" for x
    using assms(2) by (auto simp: list_ex_iff mail_of_timer_def mail_due_def due_timers_def)
  ultimately show ?thesis
    by (simp add: swept_def all_returned_def cong: update_where_cong)
qed

lemma calm_sweep:
  assumes "f later_label = l" "l \<noteq> ''INBOX''" "distinct (map (\<lambda>p. (po_mailbox p, po_key p)) (policies d))"
  shows "calm_to f d (wake_sweep now)
    (\<lambda>r d'. d' = all_returned l now d \<and> wr_due r = length (due_timers now d) \<and>
       wr_woken r = length (due_timers now d) \<and> wr_failed r = 0 \<and> \<not> wr_skipped r)"
proof -
  let ?due = "due_timers now d"
  let ?ts = "flat (by_mailbox ?due)"
  note keys = distinct_due [OF assms(3), of now]
  have ask: "calm_to f d (query (due_timers now)) (\<lambda>x d'. x = ?due \<and> d' = d)"
    by (intro calm_to_query) simp
  have groups: "calm_to f d (foreachw wake_group (by_mailbox ?due) wake_counts0)
      (\<lambda>s' d'. on_course l d (length ([] @ ?ts)) s' ([] @ ?ts) d')"
    by (rule calm_groups)
      (use assms(1,2) distinct_flat [OF keys] set_flat due_timers_present in \<open>auto simp: on_course_def swept_Nil wake_counts0_def\<close>)
  have active: "calm_to f d' (query refreshable) (\<lambda>x d2. d2 = d')" for d'
    by (intro calm_to_query) simp
  show ?thesis
    unfolding wake_sweep_def
  proof (rule calm_to_seq [OF ask], rule calm_to_bind [OF groups], rule calm_to_bind [OF active], rule calm_to_bind [OF calm_refreshes])
    fix s1 d1 mbs d2 s2 d3
    assume "on_course l d (length ([] @ ?ts)) s1 ([] @ ?ts) d1" "d2 = d1"
      "d3 = d2 \<and> (\<exists>n. s2 = s1\<lparr>wc_refreshed := wc_woken s1\<rparr>\<lparr>wc_refreshed := n\<rparr>)"
    then have "d3 = all_returned l now d" "wc_escaped s2 = None" "wc_lock_failures s2 = 0" "wc_failed s2 = 0"
      "wc_woken s2 = length ?due"
      using swept_all [OF assms(3) set_flat] length_flat [OF keys] by (auto simp: on_course_def)
    then show "calm_to f d3
        (case wc_escaped s2 of
           Some e \<Rightarrow> throww e
         | None \<Rightarrow> if 0 < wc_lock_failures s2 then throww PlainError else returnw (sweep_result (length ?due) s2))
        (\<lambda>r d'. d' = all_returned l now d \<and> wr_due r = length ?due \<and> wr_woken r = length ?due \<and> wr_failed r = 0 \<and> \<not> wr_skipped r)"
      by (auto intro!: calm_to_return simp: sweep_result_def)
  qed
qed

text \<open>
  C9: the sweep brings back everything that is due, and nothing else. In a run where nothing
  fails, with one policy row per sender and this minute not yet claimed, the store afterwards is
  the one before with every due timer cleared and the due senders' Later mail relabelled, plus
  the finished run; every due timer is counted as woken. Timers that are not due, that stand in
  a disconnected mailbox or that need the user's attention stay.
\<close>

theorem sweep_exact:
  fixes w :: world and minute :: string
  defines "l \<equiv> ensure_label w later_label" and "now \<equiv> db_now (wdb w)" and "key \<equiv> ''SnoozeWakeWorker:'' @ minute"
  assumes "calm_world w" "l \<noteq> ''INBOX''" "distinct (map (\<lambda>p. (po_mailbox p, po_key p)) (policies (wdb w)))"
    and "\<forall>r \<in> set (cron_runs (wdb w)). cr_key r \<noteq> key"
  shows "\<exists>x w'. runSweep minute w = (Ok x, w') \<and>
    wdb w' = (all_returned l now (wdb w))
      \<lparr>cron_runs := cron_runs (wdb w) @
         [\<lparr>cr_worker = ''SnoozeWakeWorker'', cr_key = key, cr_status = CronSucceeded, cr_finished = Some now\<rparr>]\<rparr> \<and>
    wr_woken x = length (filter (timer_due now (wdb w)) (policies (wdb w))) \<and> wr_due x = wr_woken x \<and> wr_failed x = 0"
proof -
  let ?d = "wdb w"
  let ?run = "\<lparr>cr_worker = ''SnoozeWakeWorker'', cr_key = key, cr_status = CronRunning, cr_finished = None\<rparr>"
  let ?d1 = "?d\<lparr>cron_runs := cron_runs ?d @ [?run]\<rparr>"
  have due: "timer_due t (?d\<lparr>cron_runs := rs\<rparr>) = timer_due t ?d" for t rs by (simp add: timer_due_def fun_eq_iff)
  have length_due: "length (due_timers now ?d1) = length (filter (timer_due now ?d) (policies ?d))"
    by (simp add: due_timers_def due)
  have clock: "calm_to (ensure_label w) ?d clock (\<lambda>x d2. x = now \<and> d2 = ?d)"
    by (intro calm_to_clock) (simp add: now_def)
  have claim: "calm_to (ensure_label w) ?d (stmt (claim_cron key)) (\<lambda>c d1. c = True \<and> d1 = ?d1)"
    by (rule calm_to_stmt) (use assms(7) in \<open>simp_all add: claim_cron_def list_ex_iff\<close>)
  have "update_where (\<lambda>r. cr_key r = key) h (cron_runs ?d) = cron_runs ?d" for h
    using assms(7) by (intro update_where_id) auto
  then have finish: "calm_to (ensure_label w) (all_returned l now ?d1) (finishCronRun key CronSucceeded)
      (\<lambda>x d2. x = () \<and> d2 = (all_returned l now ?d)\<lparr>cron_runs := cron_runs ?d @
         [\<lparr>cr_worker = ''SnoozeWakeWorker'', cr_key = key, cr_status = CronSucceeded, cr_finished = Some now\<rparr>]\<rparr>)"
    unfolding finishCronRun_def
    by (intro calm_to_exec) (simp add: all_returned_def mail_due_def [abs_def] due now_def)
  note sweep = calm_sweep [where f = "ensure_label w" and d = ?d1 and l = l and now = now, OF l_def [symmetric, THEN meta_eq_to_obj_eq] assms(5)]
  have "calm_to (ensure_label w) ?d (runSweep minute) (\<lambda>x d'.
      d' = (all_returned l now ?d)\<lparr>cron_runs := cron_runs ?d @
         [\<lparr>cr_worker = ''SnoozeWakeWorker'', cr_key = key, cr_status = CronSucceeded, cr_finished = Some now\<rparr>]\<rparr> \<and>
      wr_woken x = length (filter (timer_due now ?d) (policies ?d)) \<and> wr_due x = wr_woken x \<and> wr_failed x = 0)"
    unfolding runSweep_def Let_def key_def [symmetric]
    by (rule calm_to_seq [OF clock], rule calm_to_seq [OF claim], subst not_True_eq_False, subst if_False, rule calm_to_catch,
        rule calm_to_bind [OF sweep])
      (use assms(6) length_due in \<open>auto intro!: calm_to_seq [OF finish] calm_to_return\<close>)
  from calm_toD [OF this assms(4) refl] show ?thesis by blast
qed

subsection \<open>A timer that was replaced\<close>

lemma stamp_absent:
  "\<not> list_ex (timer_is mb k v) (policies d) \<Longrightarrow> stamp_failure mb k v kind t d = d"
  by (simp add: stamp_failure_def update_where_id list_ex_iff)

text \<open>
  A later schedule wins. A targeted wake whose timer is no longer on the row makes no
  request and writes nothing: the store changes only by the steps of the others, who may do
  anything but put that very timer back. If it returns, it reports nothing woken.
\<close>

theorem stale_wake_inert:
  assumes "script_ok R w" "\<not> list_ex (timer_is (wk_mailbox p) (wk_key p) v) (policies (wdb w))"
    and "\<And>d d'. R d d' \<Longrightarrow> list_ex (timer_is (wk_mailbox p) (wk_key p) v) (policies d') \<Longrightarrow>
      list_ex (timer_is (wk_mailbox p) (wk_key p) v) (policies d)"
    and "timerVersionFromJob h p = Inr v" "runTargetedWake h p final w = (r, w')"
  shows "R\<^sup>*\<^sup>* (wdb w) (wdb w') \<and> requests w' = requests w \<and> (\<forall>x. r = Ok x \<longrightarrow> wr_woken x = 0 \<and> wr_restored x = 0)"
proof -
  let ?mb = "wk_mailbox p" and ?k = "wk_key p"
  let ?A = "\<lambda>d l. \<not> list_ex (timer_is ?mb ?k v) (policies d) \<and> R\<^sup>*\<^sup>* (wdb w) d \<and> l = requests w"
  let ?Q = "\<lambda>x d l. wr_woken x = 0 \<and> wr_restored x = 0 \<and> ?A d l"
  have st: "stable R ?A"
    using assms(3) by (auto simp: stable_def intro: rtranclp.rtrancl_into_rtrancl)
  have call: "spec R ?A ?A (port_call no_effect) (\<lambda>_. ?A) (\<lambda>_. ?A)"
    by (rule spec_call) auto
  have clock: "spec R ?A ?A clock (\<lambda>_. ?A) (\<lambda>_. ?A)"
    by (rule spec_clock) auto
  have wake: "spec R ?A ?A (wakeSender ?mb ?k v) (\<lambda>r d l. r = None \<and> ?A d l) (\<lambda>e d l. e = TransientError \<and> ?A d l)"
    by (rule wake_absent [OF st]) auto
  have body: "spec R ?A ?A
      (bindw (wakeSender ?mb ?k v) (\<lambda>r.
         let woken = (case r of None \<Rightarrow> 0 | Some _ \<Rightarrow> 1)
         in returnw \<lparr>wr_due = 1, wr_woken = woken, wr_restored = (case r of None \<Rightarrow> 0 | Some n \<Rightarrow> n),
                     wr_failed = 0, wr_refreshed = woken, wr_skipped = False\<rparr>)) ?Q (\<lambda>e d l. e = TransientError \<and> ?A d l)"
    by (rule spec_bind [OF wake], unfold Let_def, rule spec_return) auto
  have stamp: "spec R ?A ?A (exec (stamp_failure ?mb ?k v kind t)) (\<lambda>_. ?A) (\<lambda>_. ?A)" for kind t
    by (rule spec_exec [OF st]) (auto simp: stamp_absent)
  have noted: "spec R ?A ?A (recordWakeFailure ?mb ?k v TransientError t) (\<lambda>_. ?A) (\<lambda>_. ?A)" for t
    unfolding recordWakeFailure_def
    by (rule spec_bind [where Q = "\<lambda>_. ?A"], simp add: spec_return, rule spec_bind [OF clock stamp])
  have caught: "spec R ?A (\<lambda>d l. e = TransientError \<and> ?A d l)
      (bindw (if isNonRetryable e \<or> final then recordWakeFailure ?mb ?k v e t else returnw ()) (\<lambda>_. throww e)) ?Q (\<lambda>_. ?A)" for e t
  proof (cases "e = TransientError")
    case True
    have "spec R ?A ?A (if isNonRetryable e \<or> final then recordWakeFailure ?mb ?k v e t else returnw ()) (\<lambda>_. ?A) (\<lambda>_. ?A)"
      using noted True by (auto intro: spec_return)
    from spec_bind [OF this spec_throw [where Q = ?Q]] True show ?thesis by auto
  qed (simp add: spec_def)
  have "spec R ?A ?A (runTargetedWake h p final) ?Q (\<lambda>_. ?A)"
    unfolding runTargetedWake_def locked_def assms(4) sum.case targeted_wake_def
    by (rule spec_bind [OF call], rule spec_bind [OF clock], rule spec_catch [OF body caught])
  from specD [OF this assms(1)] assms(2,5) have "ends R ?A ?Q (\<lambda>_. ?A) (r, w')" by simp
  then show ?thesis by (cases r) auto
qed

subsection \<open>From the request to the return\<close>

lemma find_filtered_hd: "filter P xs = y # ys \<Longrightarrow> List.find P xs = Some y"
  by (induction xs) (auto split: if_splits)

lemma timers_swept:
  "timers_of mb k (swept l [(mb, k, v)] d) =
     map (\<lambda>t. if t = (Some (fst v), snd v) then (None, None) else t) (timers_of mb k d)"
proof -
  have "map (\<lambda>p. (po_snoozed_until p, po_snoozed_at p)) (filter (\<lambda>p. po_mailbox p = mb \<and> po_key p = k)
      (update_where (timer_is mb k v) clear_timer ps)) =
    map (\<lambda>t. if t = (Some (fst v), snd v) then (None, None) else t)
      (map (\<lambda>p. (po_snoozed_until p, po_snoozed_at p)) (filter (\<lambda>p. po_mailbox p = mb \<and> po_key p = k) ps))" for ps
    by (induction ps) (auto simp: timer_is_def clear_timer_def)
  then show ?thesis by (simp add: timers_of_def swept_def of_timer_def)
qed

lemma later_swept: "l \<noteq> ''INBOX'' \<Longrightarrow> later_ids mb k l (swept l [(mb, k, v)] d) = []"
  using mirrored_out [of l mb k "mail d"] by (simp add: later_ids_def swept_def mail_of_timer_def sent_home_def [abs_def])

lemma calm_targeted:
  assumes "timerVersionFromJob h p = Inr v" "list_ex (timer_is (wk_mailbox p) (wk_key p) v) (policies d)"
  shows "calm_to f d (runTargetedWake h p final) (\<lambda>_ d'. d' = swept (f later_label) [(wk_mailbox p, wk_key p, v)] d)"
proof -
  have call: "calm_to f d (port_call no_effect) (\<lambda>x d2. x = () \<and> d2 = d)"
    by (intro calm_to_call) simp
  have clock: "calm_to f d clock (\<lambda>x d2. x = db_now d \<and> d2 = d)"
    by (intro calm_to_clock) simp
  show ?thesis
    unfolding runTargetedWake_def locked_def assms(1) sum.case targeted_wake_def Let_def
    by (rule calm_to_seq [OF call], rule calm_to_seq [OF clock], rule calm_to_catch, rule calm_to_bind [OF calm_wake [OF assms(2)]])
      (auto intro!: calm_to_return)
qed

lemma request_version:
  assumes "\<And>t. t = fst (timer_version p) \<or> Some t = snd (timer_version p) \<Longrightarrow>
      date_parse h (sv_iso env t) = Some t \<and> sv_iso env t \<noteq> ''''"
  shows "timerVersionFromJob h (wake_request env mb k p attempt now) = Inr (timer_version p)"
  using assms by (cases "snd (timer_version p)") (auto simp: timerVersionFromJob_def wake_request_def prod_eq_iff)

lemma wake_now_queues:
  assumes "calm_world w" "sv_queue env" "wake_queue w = []"
    and "List.find (\<lambda>s. se_id s = sid \<and> se_mailbox s = mb) (senders (wdb w)) = Some s"
    and "policy_of (wdb w) mb (se_key s) = Some q" "po_snoozed_until q = Some until"
  defines "p \<equiv> wake_request env mb (se_key s) q (''manual-'' @ show_nat (po_wake_failures q)) (db_now (wdb w))"
  shows "wakeNow env mb sid w = (Ok (), w\<lparr>wake_queue := [(snoozeWakeNowJobId p, p)]\<rparr>)"
proof -
  have key: "resolveSenderKey mb sid w = (Ok (se_key s), w)"
    by (simp add: resolveSenderKey_def bindw_def calm_world_query [OF assms(1)] assms(4) returnw_def)
  have timer: "query (active_timer mb (se_key s)) w = (Ok (Some q), w)"
    by (simp add: calm_world_query [OF assms(1)] active_timer_def assms(5,6))
  have clock: "clock w = (Ok (db_now (wdb w)), w)" by (simp add: clock_def)
  have add: "enqueueWake env mb (se_key s) q (''manual-'' @ show_nat (po_wake_failures q)) w =
      (Ok (), w\<lparr>wake_queue := [(snoozeWakeNowJobId p, p)]\<rparr>)"
    unfolding enqueueWake_def using assms(2)
    by (simp add: Let_def bindw_def clock calm_world_port [OF assms(1)] wake_queue_add_def assms(3) p_def)
  show ?thesis
    using add by (simp add: wakeNow_def bindw_def key timer)
qed


subsection \<open>Runs\<close>

definition later_demo_mail :: "ident \<Rightarrow> string \<Rightarrow> string list \<Rightarrow> mail_row" where
  "later_demo_mail i k ls =
     \<lparr>mm_id = i, mm_mailbox = ''m'', mm_key = Some k, mm_labels = ls, mm_outbound = False, mm_date = 0, mm_row = i, mm_one_click = False, mm_unsub_url = None, mm_mailto = None\<rparr>"

definition later_demo_policy :: "string \<Rightarrow> millis \<Rightarrow> policy_row" where
  "later_demo_policy k until =
     \<lparr>po_mailbox = ''m'', po_key = k, po_type = None, po_protected = False, po_reason = None, po_protected_at = None,
      po_snoozed_until = Some until, po_snoozed_at = Some 100, po_snooze_note = None, po_wake_attempt = None,
      po_wake_failed = None, po_wake_failures = 0, po_wake_kind = None, po_unsub = None\<rparr>"

text \<open>One sender due, one not yet.\<close>

definition later_demo_db :: db where
  "later_demo_db =
     \<lparr>workspaces = [\<lparr>ws_id = ''w'', ws_tier = Free\<rparr>],
      mailboxes = [\<lparr>mb_id = ''m'', mb_workspace = ''w'', mb_quiet = JNull, mb_active = True, mb_user = ''u'', mb_connected = None\<rparr>],
      rules = [],
      senders = [\<lparr>se_id = ''s'', se_mailbox = ''m'', se_key = ''k'', se_created = 0, se_first_seen = 0, se_last_seen = 0,
                  se_unsub = None, se_name = ''S'', se_email = ''s@x'', se_unsub_url = None\<rparr>],
      policies = [later_demo_policy ''k'' 500, later_demo_policy ''l'' 5000],
      matches = [], jobs = [], activity = [], undos = [],
      mail = [later_demo_mail ''a'' ''k'' [''Label_7''], later_demo_mail ''b'' ''k'' [''UNREAD'', ''Label_7''],
              later_demo_mail ''c'' ''k'' [''INBOX''], later_demo_mail ''x'' ''l'' [''Label_7'']],
      timeseries = [], decisions = [], outbox = [], inbox_reports = [], sync_states = [], cron_runs = [], db_now = 1000\<rparr>"

definition later_demo_world :: world where
  "later_demo_world =
     \<lparr>wdb = later_demo_db, ticks = [], sends = [], calls = [], uuid_of = (\<lambda>n. replicate n CHR ''i''), uuid_next = 1,
      ensure_label = (\<lambda>l. ''Label_7''), requests = [], enqueued = [], resumes = [], chained = [], requeued = [],
      label_queue = [], wake_queue = [], label_map = [], https = [], posted = []\<rparr>"

definition later_demo_host :: host where
  "later_demo_host = utc_host\<lparr>date_parse := (\<lambda>s. if s = ''500'' then Some 500 else if s = ''100'' then Some 100 else None)\<rparr>"

definition later_demo_env :: snooze_env where
  "later_demo_env = \<lparr>sv_queue = True, sv_iso = (\<lambda>t. if t = 500 then ''500'' else if t = 100 then ''100'' else ''1000'')\<rparr>"

definition later_demo_job :: wake_data where
  "later_demo_job = wake_request later_demo_env ''m'' ''k'' (later_demo_policy ''k'' 500) ''manual-0'' 1000"

lemmas later_demo_defs =
  later_demo_world_def later_demo_db_def later_demo_policy_def later_demo_mail_def later_demo_job_def later_demo_host_def
  later_demo_env_def wake_request_def timer_version_def

text \<open>The provider applies the request and its answer is lost.\<close>

theorem wake_all_or_nothing_witness:
  "let w = later_demo_world\<lparr>sends := [SendUnknown True]\<rparr>;
       w' = snd (runTargetedWake later_demo_host later_demo_job False w)
   in map gr_applied (requests w') = [True] \<and> timers_of ''m'' ''k'' (wdb w') = [(Some 500, Some 100)] \<and>
      later_ids ''m'' ''k'' ''Label_7'' (wdb w') = [''a'', ''b'']"
proof -
  let ?w = "later_demo_world\<lparr>sends := [SendUnknown True]\<rparr>"
  let ?r = "runTargetedWake later_demo_host later_demo_job False ?w"
  have run: "map gr_applied (requests (snd ?r)) = [True]" "timers_of ''m'' ''k'' (wdb (snd ?r)) \<noteq> [(None, None)]"
    by code_simp+
  have at: "wk_mailbox later_demo_job = ''m''" "wk_key later_demo_job = ''k''" "ensure_label ?w later_label = ''Label_7''"
    by (simp_all add: later_demo_defs)
  have start: "timerVersionFromJob later_demo_host later_demo_job = Inr (500, Some 100)"
    "timers_of ''m'' ''k'' (wdb ?w) = [(Some 500, Some 100)]" "later_ids ''m'' ''k'' ''Label_7'' (wdb ?w) = [''a'', ''b'']"
    by code_simp+
  have ok: "script_ok (leaves_later ''m'' ''k'' ''Label_7'') ?w"
    by (simp add: script_ok_def later_demo_defs)
  have "timers_of ''m'' ''k'' (wdb (snd ?r)) = [(Some 500, Some 100)] \<and>
      later_ids ''m'' ''k'' ''Label_7'' (wdb (snd ?r)) = later_ids ''m'' ''k'' ''Label_7'' (wdb ?w)"
    using wake_all_or_nothing [of later_demo_job ?w later_demo_host "(500, Some 100)" False "fst ?r" "snd ?r"] ok start run(2)
    unfolding at by auto
  with run start show ?thesis by (simp add: Let_def)
qed

text \<open>The process dies as the provider applies the request.\<close>

theorem sweep_all_or_nothing_witness:
  "let w = later_demo_world\<lparr>sends := [SendDies True]\<rparr>;
       w' = snd (runSweep ''t'' w)
   in timers_of ''m'' ''k'' (wdb w') = [(Some 500, Some 100)] \<and> later_ids ''m'' ''k'' ''Label_7'' (wdb w') = [''a'', ''b'']"
proof -
  let ?w = "later_demo_world\<lparr>sends := [SendDies True]\<rparr>"
  let ?r = "runSweep ''t'' ?w"
  have run: "timers_of ''m'' ''k'' (wdb (snd ?r)) \<noteq> [(None, None)]" by code_simp
  have at: "ensure_label ?w later_label = ''Label_7''" by (simp add: later_demo_defs)
  have start: "timers_of ''m'' ''k'' (wdb ?w) = [(Some 500, Some 100)]" "later_ids ''m'' ''k'' ''Label_7'' (wdb ?w) = [''a'', ''b'']"
    by code_simp+
  have ok: "script_ok (leaves_later ''m'' ''k'' ''Label_7'') ?w"
    by (simp add: script_ok_def later_demo_defs)
  show ?thesis
    using sweep_all_or_nothing [of "''m''" "''k''" ?w 500 "Some 100" "''t''" "fst ?r" "snd ?r"] ok start run
    unfolding at by (auto simp: Let_def)
qed

theorem sweep_exact_witness:
  "let w' = snd (runSweep ''t'' later_demo_world)
   in map mm_labels (mail (wdb w')) = [[''INBOX''], [''UNREAD'', ''INBOX''], [''INBOX''], [''Label_7'']] \<and>
      map po_snoozed_until (policies (wdb w')) = [None, Some 5000] \<and> map cr_status (cron_runs (wdb w')) = [CronSucceeded]"
proof -
  let ?w = later_demo_world
  have l: "ensure_label ?w later_label = ''Label_7''" by (simp add: later_demo_defs)
  have "calm_world ?w" "distinct (map (\<lambda>p. (po_mailbox p, po_key p)) (policies (wdb ?w)))" "\<forall>r \<in> set (cron_runs (wdb ?w)). cr_key r \<noteq> ''SnoozeWakeWorker:'' @ ''t''"
    by (simp_all add: calm_world_def later_demo_defs)
  from sweep_exact [OF this(1) _ this(2,3)]
  have "wdb (snd (runSweep ''t'' ?w)) = (all_returned ''Label_7'' (db_now (wdb ?w)) (wdb ?w))
      \<lparr>cron_runs := cron_runs (wdb ?w) @
         [\<lparr>cr_worker = ''SnoozeWakeWorker'', cr_key = ''SnoozeWakeWorker:'' @ ''t'', cr_status = CronSucceeded,
           cr_finished = Some (db_now (wdb ?w))\<rparr>]\<rparr>"
    unfolding l by force
  moreover have "map mm_labels (mail (all_returned ''Label_7'' (db_now (wdb ?w)) (wdb ?w))) =
      [[''INBOX''], [''UNREAD'', ''INBOX''], [''INBOX''], [''Label_7'']]"
    "map po_snoozed_until (policies (all_returned ''Label_7'' (db_now (wdb ?w)) (wdb ?w))) = [None, Some 5000]"
    by code_simp+
  ultimately show ?thesis by (simp add: Let_def later_demo_defs)
qed

text \<open>The sender was put off again after the job was queued.\<close>

theorem stale_wake_inert_witness:
  "let w = later_demo_world\<lparr>wdb := snd (set_snooze_tx later_demo_env ''m'' ''k'' ''s'' 9000 None (wdb later_demo_world))\<rparr>
   in wdb (snd (runTargetedWake later_demo_host later_demo_job True w)) = wdb w"
proof -
  let ?w = "later_demo_world\<lparr>wdb := snd (set_snooze_tx later_demo_env ''m'' ''k'' ''s'' 9000 None (wdb later_demo_world))\<rparr>"
  let ?r = "runTargetedWake later_demo_host later_demo_job True ?w"
  have at: "wk_mailbox later_demo_job = ''m''" "wk_key later_demo_job = ''k''"
    by (simp_all add: later_demo_defs)
  have v: "timerVersionFromJob later_demo_host later_demo_job = Inr (500, Some 100)" by code_simp
  have gone: "\<not> list_ex (timer_is ''m'' ''k'' (500, Some 100)) (policies (wdb ?w))" by code_simp
  have ok: "script_ok (=) ?w" by (simp add: script_ok_def later_demo_defs)
  from stale_wake_inert [where R = "(=)" and p = later_demo_job and h = later_demo_host and final = True and r = "fst ?r" and w' = "snd ?r",
      OF ok _ _ v, unfolded at, OF gone]
  have "(=)\<^sup>*\<^sup>* (wdb ?w) (wdb (snd ?r))" by simp
  then have "wdb (snd ?r) = wdb ?w" by (induction rule: rtranclp_induct) simp_all
  then show ?thesis by (simp add: Let_def)
qed


subsection \<open>Mail that turns up during a wake\<close>

text \<open>
  The update of the mirror goes by label, not by the messages that were sent. A message that the
  mailbox sync labels Later after the wake has read its set is mirrored as back in the inbox and
  its timer is cleared, though no request moved it.
\<close>

definition label_late_tick :: tick where
  "label_late_tick = Tick (\<lambda>d. d\<lparr>mail := update_where (\<lambda>x. mm_id x = ''c'') (\<lambda>x. x\<lparr>mm_labels := [''Label_7'']\<rparr>) (mail d)\<rparr>) StmtOk"

theorem late_label_mirrored_unsent:
  "let (r, w') = runTargetedWake later_demo_host later_demo_job True
         (later_demo_world\<lparr>ticks := [Tick id StmtOk, Tick id StmtOk, label_late_tick]\<rparr>)
   in map gr_ids (requests w') = [[''a'', ''b'']] \<and> map mm_labels (filter (\<lambda>x. mm_id x = ''c'') (mail (wdb w'))) = [[''INBOX'']] \<and>
      timers_of ''m'' ''k'' (wdb w') = [(None, None)] \<and> (case r of Ok x \<Rightarrow> wr_restored x = 2 | _ \<Rightarrow> False)"
  by code_simp

end
