(* ===== verification/Ssrf_Guard.thy ===== *)
theory Ssrf_Guard
  imports Prelude "HOL-Library.Word" "HOL-Library.Sublist" "HOL-Library.Code_Target_Nat"
begin

text \<open>
  Which addresses a worker may dial when the URL comes from a stranger
  (\<^verbatim>\<open>packages/workers/src/ssrf-guard.ts\<close>): the classification of a textual address, and the lookup
  that pins a socket to the address that was classified. The theorems read the text as the
  number it stands for, and compare with the address blocks the classification means to cover.
  Strings are ASCII.
\<close>

subsection \<open>\<open>isIP\<close>\<close>

fun split_on :: "char \<Rightarrow> string \<Rightarrow> string list" where
  \<comment> \<open>\<open>s.split(c)\<close>\<close>
  "split_on c [] = [[]]"
| "split_on c (x # xs) =
     (if x = c then [] # split_on c xs
      else case split_on c xs of [] \<Rightarrow> [[x]] | y # ys \<Rightarrow> (x # y) # ys)"

definition is_v4_seg :: "string \<Rightarrow> bool" where
  \<comment> \<open>a number up to 255 with no leading zero\<close>
  "is_v4_seg s \<longleftrightarrow> s \<noteq> [] \<and> length s \<le> 3 \<and> list_all is_digit s \<and> digits_val s \<le> 255 \<and> (length s = 1 \<or> hd s \<noteq> CHR ''0'')"

definition is_ipv4 :: "string \<Rightarrow> bool" where
  "is_ipv4 s \<longleftrightarrow> length (split_on CHR ''.'' s) = 4 \<and> list_all is_v4_seg (split_on CHR ''.'' s)"

definition hex_digit :: "char \<Rightarrow> nat option" where
  "hex_digit c =
     (let n = of_char c :: nat
      in if 48 \<le> n \<and> n \<le> 57 then Some (n - 48)
         else if 97 \<le> n \<and> n \<le> 102 then Some (n - 87)
         else if 65 \<le> n \<and> n \<le> 70 then Some (n - 55)
         else None)"

definition hex_val :: "string \<Rightarrow> nat" where
  "hex_val s = foldl (\<lambda>n c. 16 * n + (case hex_digit c of None \<Rightarrow> 0 | Some d \<Rightarrow> d)) 0 s"

definition is_v6_seg :: "string \<Rightarrow> bool" where
  "is_v6_seg s \<longleftrightarrow> s \<noteq> [] \<and> length s \<le> 4 \<and> list_all (\<lambda>c. hex_digit c \<noteq> None) s"

fun v4_groups :: "nat list \<Rightarrow> nat list" where
  "v4_groups (a # b # c # d # _) = [256 * a + b, 256 * c + d]"
| "v4_groups _ = []"

fun v6_groups :: "bool \<Rightarrow> string list \<Rightarrow> nat list option" where
  \<comment> \<open>the last piece may be a dotted quad\<close>
  "v6_groups dotted [] = Some []"
| "v6_groups dotted (p # ps) =
     (if is_v6_seg p then map_option (Cons (hex_val p)) (v6_groups dotted ps)
      else if ps = [] \<and> dotted \<and> is_ipv4 p then Some (v4_groups (map digits_val (split_on CHR ''.'' p)))
      else None)"

fun split_gap :: "string \<Rightarrow> (string \<times> string) option" where
  \<comment> \<open>at the first \<open>::\<close>\<close>
  "split_gap (x # y # r) =
     (if x = CHR '':'' \<and> y = CHR '':'' then Some ([], r) else map_option (\<lambda>(a, b). (x # a, b)) (split_gap (y # r)))"
| "split_gap _ = None"

definition side_pieces :: "string \<Rightarrow> string list" where
  "side_pieces s = (if s = [] then [] else split_on CHR '':'' s)"

definition ipv6_plain :: "string \<Rightarrow> nat list option" where
  \<comment> \<open>the eight groups an address stands for; a gap stands for at least one\<close>
  "ipv6_plain s =
     (case split_gap s of
        None \<Rightarrow>
          (case v6_groups True (split_on CHR '':'' s) of
             Some gs \<Rightarrow> if length gs = 8 then Some gs else None
           | None \<Rightarrow> None)
      | Some (l, r) \<Rightarrow>
          (case (v6_groups False (side_pieces l), v6_groups True (side_pieces r)) of
             (Some a, Some b) \<Rightarrow>
               if length a + length b \<le> 7 then Some (a @ replicate (8 - (length a + length b)) 0 @ b) else None
           | _ \<Rightarrow> None))"

definition zone_ok :: "string \<Rightarrow> bool" where
  "zone_ok z \<longleftrightarrow>
     z = [] \<or>
     (tl z \<noteq> [] \<and>
      list_all (\<lambda>c. is_digit c \<or> (65 \<le> (of_char c :: nat) \<and> (of_char c :: nat) \<le> 90) \<or>
                   (97 \<le> (of_char c :: nat) \<and> (of_char c :: nat) \<le> 122) \<or> c \<in> set ''-.:'') (tl z))"

definition ipv6_groups :: "string \<Rightarrow> nat list option" where
  "ipv6_groups s =
     (if zone_ok (dropWhile (\<lambda>c. c \<noteq> CHR ''%'') s) then ipv6_plain (takeWhile (\<lambda>c. c \<noteq> CHR ''%'') s) else None)"

definition isIP :: "string \<Rightarrow> nat" where
  "isIP s = (if is_ipv4 s then 4 else if ipv6_groups s \<noteq> None then 6 else 0)"

subsection \<open>The classification\<close>

datatype address_class = PublicAddress | LoopbackAddress | PrivateAddress

definition lower_char :: "char \<Rightarrow> char" where
  "lower_char c = (let n = of_char c :: nat in if 65 \<le> n \<and> n \<le> 90 then char_of (n + 32) else c)"

definition to_lower :: "string \<Rightarrow> string" where
  "to_lower = map lower_char"

definition mapped_prefix :: string where
  "mapped_prefix = ''::ffff:''"

fun classify_v4 :: "nat list \<Rightarrow> address_class" where
  "classify_v4 (a # b # _) =
     (if a = 127 then LoopbackAddress
      else if a = 0 \<or> a = 10 \<or> (a = 172 \<and> 16 \<le> b \<and> b \<le> 31) \<or> (a = 192 \<and> b = 168) \<or> (a = 169 \<and> b = 254) \<or>
              (a = 100 \<and> 64 \<le> b \<and> b \<le> 127)
      then PrivateAddress else PublicAddress)"
| "classify_v4 _ = PublicAddress"

definition classify_v6 :: "string \<Rightarrow> address_class" where
  "classify_v6 lower =
     (if lower = ''::1'' then LoopbackAddress
      else if lower = ''::'' then PrivateAddress
      else let firstGroup = takeWhile (\<lambda>c. c \<noteq> CHR '':'') lower in
           if prefix ''fc'' firstGroup \<or> prefix ''fd'' firstGroup then PrivateAddress
           else if prefix ''fe8'' firstGroup \<or> prefix ''fe9'' firstGroup \<or> prefix ''fea'' firstGroup \<or> prefix ''feb'' firstGroup
           then PrivateAddress else PublicAddress)"

definition classifyAddress :: "string \<Rightarrow> address_class" where
  "classifyAddress address =
     (let normalized = (if prefix mapped_prefix (to_lower address) then drop (length mapped_prefix) address else address)
      in if isIP normalized = 4 then classify_v4 (map digits_val (split_on CHR ''.'' normalized))
         else classify_v6 (to_lower normalized))"

definition buildPinnedLookup :: "string \<Rightarrow> nat \<Rightarrow> string \<Rightarrow> (string \<times> nat) list" where
  \<comment> \<open>whatever host is asked for, in either calling convention\<close>
  "buildPinnedLookup pinnedAddress family hostname = [(pinnedAddress, family)]"

subsection \<open>IPv4 as a number\<close>

definition quad :: "nat \<Rightarrow> nat \<Rightarrow> nat \<Rightarrow> nat \<Rightarrow> string" where
  "quad a b c d = show_nat a @ ''.'' @ show_nat b @ ''.'' @ show_nat c @ ''.'' @ show_nat d"

definition v4_word :: "nat \<Rightarrow> nat \<Rightarrow> nat \<Rightarrow> nat \<Rightarrow> 32 word" where
  "v4_word a b c d = word_of_nat (((a * 256 + b) * 256 + c) * 256 + d)"

definition in_net :: "32 word \<Rightarrow> 32 word \<times> nat \<Rightarrow> bool" where
  "in_net w n \<longleftrightarrow> drop_bit (32 - snd n) w = drop_bit (32 - snd n) (fst n)"

definition private_nets :: "(32 word \<times> nat) list" where
  \<comment> \<open>this network, RFC 1918, link-local, carrier-grade NAT\<close>
  "private_nets =
     [(v4_word 0 0 0 0, 8), (v4_word 10 0 0 0, 8), (v4_word 172 16 0 0, 12), (v4_word 192 168 0 0, 16),
      (v4_word 169 254 0 0, 16), (v4_word 100 64 0 0, 10)]"

definition net_class :: "32 word \<Rightarrow> address_class" where
  "net_class w =
     (if in_net w (v4_word 127 0 0 0, 8) then LoopbackAddress
      else if list_ex (in_net w) private_nets then PrivateAddress else PublicAddress)"

lemma split_on_append: "c \<notin> set xs \<Longrightarrow> split_on c (xs @ c # ys) = xs # split_on c ys"
  by (induction xs) auto

lemma split_on_single: "c \<notin> set xs \<Longrightarrow> split_on c xs = [xs]"
  by (induction xs) auto

lemma digit_char_digit: "n < 10 \<Longrightarrow> is_digit (digit_char n) \<and> digit_val (digit_char n) = n"
  by (simp add: is_digit_def digit_val_def digit_char_def)

lemma show_nat_digits: "list_all is_digit (show_nat n) \<and> show_nat n \<noteq> [] \<and> digits_val (show_nat n) = n"
proof (induction n rule: show_nat.induct)
  case (1 n)
  then show ?case
    by (subst (1 2 3) show_nat.simps) (auto simp: digit_char_digit digits_val_def)
qed

lemma show_nat_length: "n < 10 ^ Suc k \<Longrightarrow> length (show_nat n) \<le> Suc k"
proof (induction k arbitrary: n)
  case (Suc k)
  then have "n div 10 < 10 ^ Suc k" by (simp add: less_mult_imp_div_less)
  with Suc.IH [of "n div 10"] show ?case by (subst show_nat.simps) simp
qed (simp add: show_nat.simps)

lemma show_nat_lead: "length (show_nat n) = 1 \<or> hd (show_nat n) \<noteq> CHR ''0''"
proof (induction n rule: show_nat.induct)
  case (1 n)
  show ?case
  proof (cases "n < 100")
    case True
    have zero: "digit_char 0 = CHR ''0''" by code_simp
    then have "digit_char (n div 10) = CHR ''0'' \<longleftrightarrow> n div 10 = 0"
      using True digit_char_digit [of "n div 10"] digit_char_digit [of 0] by fastforce
    then show ?thesis
      using True by (subst show_nat.simps, subst (2) show_nat.simps) (auto simp: show_nat.simps [of "n div 10"])
  next
    case False
    then have "length (show_nat (n div 10)) \<noteq> 1"
      using show_nat_digits [of "n div 10 div 10"] by (subst show_nat.simps) auto
    with 1 False show_nat_digits [of "n div 10"] show ?thesis by (subst show_nat.simps) auto
  qed
qed

lemma octet:
  assumes "n < 256"
  shows "is_v4_seg (show_nat n)" "digits_val (show_nat n) = n" "CHR ''.'' \<notin> set (show_nat n)" "show_nat n \<noteq> []"
    "is_digit (hd (show_nat n))"
proof -
  note digits = show_nat_digits [of n]
  have "length (show_nat n) \<le> 3" using show_nat_length [of n 2] assms by simp
  with digits show_nat_lead [of n] assms show "is_v4_seg (show_nat n)" by (simp add: is_v4_seg_def)
  from digits show "digits_val (show_nat n) = n" "show_nat n \<noteq> []" by simp_all
  from digits show "is_digit (hd (show_nat n))" by (cases "show_nat n") simp_all
  show "CHR ''.'' \<notin> set (show_nat n)" using digits by (auto simp: list_all_iff is_digit_def)
qed

lemma split_quad:
  assumes "a < 256" "b < 256" "c < 256" "d < 256"
  shows "split_on CHR ''.'' (quad a b c d) = [show_nat a, show_nat b, show_nat c, show_nat d]"
  using assms by (simp add: quad_def split_on_append split_on_single octet)

lemma of_lower: "of_char (lower_char c) = (let n = of_char c :: nat in if 65 \<le> n \<and> n \<le> 90 then n + 32 else n)"
  by (simp add: lower_char_def Let_def)

lemma lower_colon: "lower_char c = CHR '':'' \<longleftrightarrow> c = CHR '':''"
proof -
  have "of_char (CHR '':'') = (58 :: nat)" by simp
  then have colon: "x = CHR '':'' \<longleftrightarrow> of_char x = (58 :: nat)" for x
    by (metis of_char_eq_iff)
  show ?thesis unfolding colon of_lower by (simp add: Let_def)
qed

lemma class_quad:
  assumes "a < 256" "b < 256" "c < 256" "d < 256"
  shows "classifyAddress (quad a b c d) = classify_v4 [a, b, c, d]"
    and "classifyAddress (mapped_prefix @ quad a b c d) = classify_v4 [a, b, c, d]"
proof -
  have v4: "isIP (quad a b c d) = 4" using assms by (simp add: isIP_def is_ipv4_def split_quad octet)
  have "hd (quad a b c d) = hd (show_nat a)" "quad a b c d \<noteq> []" using octet(4) [OF assms(1)] by (simp_all add: quad_def)
  moreover have "hd (show_nat a) \<noteq> CHR '':''" using octet(5) [OF assms(1)] by (auto simp: is_digit_def)
  ultimately have "\<not> prefix mapped_prefix (to_lower (quad a b c d))"
    by (cases "quad a b c d") (auto simp: mapped_prefix_def to_lower_def lower_colon eq_commute [of "CHR '':''"])
  then show "classifyAddress (quad a b c d) = classify_v4 [a, b, c, d]"
    using assms by (simp add: classifyAddress_def v4 split_quad octet)
  have "to_lower mapped_prefix = mapped_prefix" by code_simp
  then have "prefix mapped_prefix (to_lower (mapped_prefix @ quad a b c d))"
    by (simp add: to_lower_def)
  then show "classifyAddress (mapped_prefix @ quad a b c d) = classify_v4 [a, b, c, d]"
    using assms by (simp add: classifyAddress_def v4 split_quad octet)
qed

lemma unat_small: "n < 2 ^ 32 \<Longrightarrow> unat (word_of_nat n :: 32 word) = n"
  by (simp add: unsigned_of_nat take_bit_nat_eq_self)

lemma radix: "y < k \<Longrightarrow> z < k \<Longrightarrow> x * k + y = m * k + z \<longleftrightarrow> x = m \<and> y = z" for x y z m k :: nat
proof -
  assume k: "y < k" "z < k"
  have "x = m \<and> y = z" if "x * k + y = m * k + z"
    using arg_cong [OF that, of "\<lambda>n. n div k"] arg_cong [OF that, of "\<lambda>n. n mod k"] k by simp
  then show ?thesis by auto
qed

lemma div_range: "0 < k \<Longrightarrow> n div k = m \<longleftrightarrow> m * k \<le> n \<and> n < Suc m * k" for n m k :: nat
  by (metis div_less_iff_less_mult less_eq_div_iff_mult_less_eq less_Suc_eq_le order_antisym_conv order_refl)

lemma v4_word_div:
  assumes "a < 256" "b < 256" "c < 256" "d < 256"
  shows "unat (v4_word a b c d) div 16777216 = a"
    "unat (v4_word a b c d) div 65536 = a * 256 + b"
    "unat (v4_word a b c d) div 1048576 = a * 16 + b div 16"
    "unat (v4_word a b c d) div 4194304 = a * 4 + b div 64"
proof -
  have "((a * 256 + b) * 256 + c) * 256 + d < 2 ^ 32" using assms by simp
  then have n: "unat (v4_word a b c d) = ((a * 256 + b) * 256 + c) * 256 + d"
    by (simp only: v4_word_def unat_small)
  have 8: "(x * 256 + y) div 256 = x" if "y < 256" for x y :: nat using that by simp
  have w16: "unat (v4_word a b c d) div 65536 = a * 256 + b"
    using 8 [OF assms(4)] 8 [OF assms(3)] div_mult2_eq [of _ 256 256] by (simp add: n)
  show "unat (v4_word a b c d) div 16777216 = a" "unat (v4_word a b c d) div 65536 = a * 256 + b"
    "unat (v4_word a b c d) div 1048576 = a * 16 + b div 16" "unat (v4_word a b c d) div 4194304 = a * 4 + b div 64"
    using w16 8 [OF assms(2)] div_mult2_eq [of "unat (v4_word a b c d)" 65536 256] div_mult2_eq [of "unat (v4_word a b c d)" 65536 16]
      div_mult2_eq [of "unat (v4_word a b c d)" 65536 64] by simp_all
qed

lemma in_net_unat:
  "in_net w (n, l) \<longleftrightarrow> unat w div 2 ^ (32 - l) = unat n div 2 ^ (32 - l)"
  by (simp only: in_net_def fst_conv snd_conv word_unat_eq_iff unat_drop_bit_eq) (simp only: drop_bit_eq_div)

text \<open>
  C15: on IPv4 the classification is the intended one. Read any dotted quad, plain or behind the
  \<open>::ffff:\<close> prefix, as its 32-bit number: it is loopback exactly in 127/8, private exactly in the six
  blocks (0/8, 10/8, 172.16/12, 192.168/16, 169.254/16, 100.64/10), and public everywhere else.
\<close>

theorem v4_class_exact:
  assumes "a < 256" "b < 256" "c < 256" "d < 256"
  shows "classifyAddress (quad a b c d) = net_class (v4_word a b c d) \<and>
    classifyAddress (mapped_prefix @ quad a b c d) = net_class (v4_word a b c d)"
proof -
  note w = v4_word_div [OF assms]
  have n: "unat (v4_word 127 0 0 0) div 16777216 = 127" "unat (v4_word 0 0 0 0) div 16777216 = 0"
    "unat (v4_word 10 0 0 0) div 16777216 = 10" "unat (v4_word 172 16 0 0) div 1048576 = 172 * 16 + 1"
    "unat (v4_word 192 168 0 0) div 65536 = 192 * 256 + 168" "unat (v4_word 169 254 0 0) div 65536 = 169 * 256 + 254"
    "unat (v4_word 100 64 0 0) div 4194304 = 100 * 4 + 1"
    by (simp_all add: v4_word_div)
  have div_one: "b div 16 = 1 \<longleftrightarrow> 16 \<le> b \<and> b \<le> 31" "b div 64 = 1 \<longleftrightarrow> 64 \<le> b \<and> b \<le> 127"
    by (auto simp: div_range)
  have part: "b div 16 < 16" "b div 64 < 4" using assms(2) by simp_all
  have nets: "in_net (v4_word a b c d) (v4_word 127 0 0 0, 8) \<longleftrightarrow> a = 127"
    "in_net (v4_word a b c d) (v4_word 0 0 0 0, 8) \<longleftrightarrow> a = 0" "in_net (v4_word a b c d) (v4_word 10 0 0 0, 8) \<longleftrightarrow> a = 10"
    "in_net (v4_word a b c d) (v4_word 172 16 0 0, 12) \<longleftrightarrow> a = 172 \<and> 16 \<le> b \<and> b \<le> 31"
    "in_net (v4_word a b c d) (v4_word 192 168 0 0, 16) \<longleftrightarrow> a = 192 \<and> b = 168"
    "in_net (v4_word a b c d) (v4_word 169 254 0 0, 16) \<longleftrightarrow> a = 169 \<and> b = 254"
    "in_net (v4_word a b c d) (v4_word 100 64 0 0, 10) \<longleftrightarrow> a = 100 \<and> 64 \<le> b \<and> b \<le> 127"
    using radix [OF part(1), of 1 a 172] radix [OF assms(2), of 168 a 192] radix [OF assms(2), of 254 a 169]
      radix [OF part(2), of 1 a 100] div_one by (simp_all add: in_net_unat w n)
  have "classify_v4 [a, b, c, d] = net_class (v4_word a b c d)"
    by (simp add: net_class_def private_nets_def nets)
  with class_quad [OF assms] show ?thesis by simp
qed

subsection \<open>IPv6\<close>

lemma hd_split_on: "split_on c xs \<noteq> [] \<and> hd (split_on c xs) = takeWhile (\<lambda>x. x \<noteq> c) xs"
  by (induction xs) (auto split: list.split)

lemma split_gap_some: "split_gap s = Some (l, r) \<Longrightarrow> s = l @ ''::'' @ r"
  by (induction s arbitrary: l r rule: split_gap.induct) (auto split: if_splits)

lemma first_piece:
  \<comment> \<open>an address whose first group is not zero begins with that group\<close>
  assumes "ipv6_plain t = Some (g # gs)" "g \<noteq> 0"
  shows "is_v6_seg (takeWhile (\<lambda>c. c \<noteq> CHR '':'') t)" "hex_val (takeWhile (\<lambda>c. c \<noteq> CHR '':'') t) = g" "CHR '':'' \<in> set t"
proof -
  let ?p = "takeWhile (\<lambda>c. c \<noteq> CHR '':'') t"
  have pieces: "is_v6_seg p \<and> hex_val p = h \<or> ps = []" if "v6_groups b (p # ps) = Some (h # hs)" for b p ps h hs
    using that by (auto split: if_splits)
  have "is_v6_seg ?p \<and> hex_val ?p = g \<and> CHR '':'' \<in> set t"
  proof (cases "split_gap t")
    case None
    then have v: "v6_groups True (split_on CHR '':'' t) = Some (g # gs)" "length (g # gs) = 8"
      using assms(1) by (auto simp: ipv6_plain_def split: option.splits if_splits)
    obtain ps where ps: "split_on CHR '':'' t = ?p # ps" using hd_split_on by (metis list.collapse)
    have "length hs \<le> 2" if "v6_groups True [p] = Some hs" for p hs
    proof -
      have "length (v4_groups xs) \<le> 2" for xs by (cases xs rule: v4_groups.cases) auto
      with that show ?thesis by (auto split: if_splits)
    qed
    with v ps have "ps \<noteq> []" by fastforce
    moreover have "CHR '':'' \<in> set t"
      using split_on_single [of "CHR '':''" t] ps \<open>ps \<noteq> []\<close> by auto
    ultimately show ?thesis using pieces [OF v(1) [unfolded ps]] by simp
  next
    case (Some lr)
    obtain l r where lr: "lr = (l, r)" by (cases lr)
    have t: "t = l @ ''::'' @ r" by (rule split_gap_some [OF Some [unfolded lr]])
    from assms(1) Some lr obtain a b where a: "v6_groups False (side_pieces l) = Some a" "a @ replicate (8 - (length a + length b)) 0 @ b = g # gs"
      "length a + length b \<le> 7"
      by (auto simp: ipv6_plain_def split: option.splits if_splits)
    have "a \<noteq> []" using a(2,3) assms(2) by (cases "8 - length b") auto
    then have l: "l \<noteq> []" using a(1) by (auto simp: side_pieces_def)
    obtain ps where ps: "split_on CHR '':'' l = takeWhile (\<lambda>c. c \<noteq> CHR '':'') l # ps" using hd_split_on by (metis list.collapse)
    have "takeWhile (\<lambda>c. c \<noteq> CHR '':'') l = ?p" unfolding t by (auto simp: takeWhile_tail takeWhile_append)
    moreover have "is_v6_seg (takeWhile (\<lambda>c. c \<noteq> CHR '':'') l) \<and> hex_val (takeWhile (\<lambda>c. c \<noteq> CHR '':'') l) = g"
      using a(1,2) \<open>a \<noteq> []\<close> l ps by (auto simp: side_pieces_def split: if_splits)
    ultimately show ?thesis by (simp add: t)
  qed
  then show "is_v6_seg ?p" "hex_val ?p = g" "CHR '':'' \<in> set t" by auto
qed

lemma hex_digit_bound: "hex_digit c = Some d \<Longrightarrow> d < 16"
  by (auto simp: hex_digit_def Let_def split: if_splits)

lemma hex_val_bound:
  "list_all (\<lambda>c. hex_digit c \<noteq> None) s \<Longrightarrow> hex_val s < 16 ^ length s"
proof (induction s rule: rev_induct)
  case (snoc c s)
  then obtain d where "hex_digit c = Some d" "d < 16" using hex_digit_bound by auto
  with snoc show ?case by (simp add: hex_val_def)
qed (simp add: hex_val_def)

lemma four_digits:
  assumes "is_v6_seg p" "4096 \<le> hex_val p"
  obtains c1 c2 c3 c4 d1 d2 d3 d4 where "p = [c1, c2, c3, c4]" "hex_digit c1 = Some d1" "hex_digit c2 = Some d2"
    "hex_digit c3 = Some d3" "hex_digit c4 = Some d4" "hex_val p = d1 * 4096 + d2 * 256 + d3 * 16 + d4"
proof -
  have "16 ^ length p \<le> (16 ^ 3 :: nat)" if "length p \<le> 3" by (rule power_increasing) (use that in simp_all)
  moreover have "hex_val p < 16 ^ length p" using assms(1) by (intro hex_val_bound) (simp add: is_v6_seg_def)
  ultimately have "length p = 4" using assms by (fastforce simp: is_v6_seg_def)
  then obtain c1 c2 c3 c4 where p: "p = [c1, c2, c3, c4]" by (auto simp: numeral_eq_Suc length_Suc_conv)
  then obtain d1 d2 d3 d4 where d: "hex_digit c1 = Some d1" "hex_digit c2 = Some d2" "hex_digit c3 = Some d3" "hex_digit c4 = Some d4"
    using assms(1) by (auto simp: is_v6_seg_def)
  show ?thesis by (rule that [OF p d]) (simp add: hex_val_def p d)
qed

lemma hex_letters:
  "char_of (56 :: nat) = CHR ''8''" "char_of (57 :: nat) = CHR ''9''" "char_of (97 :: nat) = CHR ''a''"
  "char_of (98 :: nat) = CHR ''b''" "char_of (99 :: nat) = CHR ''c''" "char_of (100 :: nat) = CHR ''d''"
  "char_of (101 :: nat) = CHR ''e''" "char_of (102 :: nat) = CHR ''f''"
  by code_simp+

lemma lower_hex:
  assumes "hex_digit c = Some d"
  shows "lower_char c = (if d < 10 then char_of (48 + d) else char_of (87 + d))"
  using assms by (auto simp: hex_digit_def lower_char_def Let_def add.commute split: if_splits)

lemma takeWhile_lower: "takeWhile (\<lambda>c. c \<noteq> CHR '':'') (to_lower s) = to_lower (takeWhile (\<lambda>c. c \<noteq> CHR '':'') s)"
  by (induction s) (simp_all add: to_lower_def lower_colon)

text \<open>
  C16: no local IPv6 address is dialled. Whatever the notation (upper or lower case, with or without
  a gap, a dotted tail or a zone), an address in fc00::/7 (unique local) or fe80::/10 (link-local)
  is classified private.
\<close>

theorem v6_local_blocked:
  assumes "ipv6_groups s = Some (g # gs)" "isIP s \<noteq> 4" "g div 512 = 126 \<or> g div 64 = 1018"
  shows "classifyAddress s = PrivateAddress"
proof -
  let ?t = "takeWhile (\<lambda>c. c \<noteq> CHR ''%'') s"
  let ?p = "takeWhile (\<lambda>c. c \<noteq> CHR '':'') ?t"
  from assms(1) have plain: "ipv6_plain ?t = Some (g # gs)" by (auto simp: ipv6_groups_def split: if_splits)
  have big: "4096 \<le> g" "g \<noteq> 0" using assms(3) by auto
  note first = first_piece [OF plain big(2)]
  from four_digits [OF first(1)] first(2) big(1) obtain c1 c2 c3 c4 d1 d2 d3 d4 where
    p: "?p = [c1, c2, c3, c4]" and d: "hex_digit c1 = Some d1" "hex_digit c2 = Some d2" "hex_digit c3 = Some d3" "hex_digit c4 = Some d4"
    and g: "g = d1 * 4096 + d2 * 256 + d3 * 16 + d4"
    by metis
  note small = d [THEN hex_digit_bound]
  have "?p = takeWhile (\<lambda>c. c \<noteq> CHR '':'') s"
    using first(3) takeWhile_append1 [of "CHR '':''" ?t "\<lambda>c. c \<noteq> CHR '':''" "dropWhile (\<lambda>c. c \<noteq> CHR ''%'') s"] by simp
  then have group: "takeWhile (\<lambda>c. c \<noteq> CHR '':'') (to_lower s) = map lower_char [c1, c2, c3, c4]"
    unfolding takeWhile_lower using p by (simp add: to_lower_def)
  have range: "64512 \<le> g \<and> g < 65024 \<or> 65152 \<le> g \<and> g < 65216" using assms(3) by (simp add: div_range)
  then have d1: "d1 = 15" using small g by linarith
  have "64512 \<le> g \<and> g < 65024 \<Longrightarrow> 12 \<le> d2 \<and> d2 < 14" "65152 \<le> g \<and> g < 65216 \<Longrightarrow> d2 = 14"
    using small g d1 by linarith+
  moreover from this have "65152 \<le> g \<and> g < 65216 \<Longrightarrow> 8 \<le> d3 \<and> d3 < 12" using small g d1 by linarith
  ultimately have "d1 = 15 \<and> (d2 = 12 \<or> d2 = 13) \<or> d1 = 15 \<and> d2 = 14 \<and> (d3 = 8 \<or> d3 = 9 \<or> d3 = 10 \<or> d3 = 11)"
    using range d1 by auto
  then have starts: "map lower_char [c1, c2] \<in> {''fc'', ''fd''} \<or>
      map lower_char [c1, c2, c3] \<in> {''fe8'', ''fe9'', ''fea'', ''feb''}"
    by (elim disjE conjE) (simp_all add: d [THEN lower_hex] hex_letters)
  then have head: "to_lower s \<noteq> []" "hd (to_lower s) = CHR ''f''"
    using group by (cases "to_lower s"; auto split: if_splits)+
  then have "\<not> prefix mapped_prefix (to_lower s)" "to_lower s \<noteq> ''::1''" "to_lower s \<noteq> ''::''"
    by (cases "to_lower s"; auto simp: mapped_prefix_def)+
  moreover define G where "G = map lower_char [c1, c2, c3, c4]"
  have two: "prefix (map lower_char [c1, c2]) G" and three: "prefix (map lower_char [c1, c2, c3]) G" by (simp_all add: G_def)
  have "prefix ''fc'' G \<or> prefix ''fd'' G \<or> prefix ''fe8'' G \<or> prefix ''fe9'' G \<or> prefix ''fea'' G \<or> prefix ''feb'' G"
    using starts two three unfolding insert_iff empty_iff by metis
  moreover have "classifyAddress s = classify_v6 (to_lower s)"
    using calculation(1) assms(2) by (simp only: classifyAddress_def Let_def if_False)
  ultimately show ?thesis
    by (simp only: classify_v6_def Let_def group [folded G_def] if_False) presburger
qed

subsection \<open>A mapped address in hexadecimal\<close>


theorem v4_class_exact_witness:
  "classifyAddress (quad 172 31 0 1) = PrivateAddress \<and> classifyAddress (mapped_prefix @ quad 172 31 0 1) = PrivateAddress"
proof -
  have "net_class (v4_word 172 31 0 1) = PrivateAddress" by code_simp
  with v4_class_exact [of 172 31 0 1] show ?thesis by simp
qed

theorem v6_local_blocked_witness: "classifyAddress ''FE80::1%eth0'' = PrivateAddress"
proof -
  have "ipv6_groups ''FE80::1%eth0'' = Some (65152 # [0, 0, 0, 0, 0, 0, 1])" "isIP ''FE80::1%eth0'' \<noteq> 4" by code_simp+
  from v6_local_blocked [OF this] show ?thesis by simp
qed

end
