(* ===== verification/Worker_Log.thy ===== *)
theory Worker_Log
  imports Worker
begin

text \<open>
  The program logic of \<open>Worker\<close> speaks of one ghost log, the requests to the mail provider. Other
  workers leave other traces. A log is any part of the world that the statements and the port calls
  without an effect leave alone; the logic holds for each of them.
\<close>

locale world_log =
  fixes log :: "world \<Rightarrow> 'l"
  assumes log_stmt: "log (w\<lparr>wdb := d, ticks := ts\<rparr>) = log w"
    and log_fresh: "log (w\<lparr>uuid_next := n\<rparr>) = log w"
    and log_call: "log (w\<lparr>calls := cs\<rparr>) = log w"
begin

lemma log_ticks: "log (w\<lparr>ticks := ts\<rparr>) = log w"
  by (metis log_stmt world.surjective world.update_convs)

lemma log_wdb: "log (w\<lparr>wdb := d\<rparr>) = log w"
  by (metis log_stmt world.surjective world.update_convs)

fun lends ::
  "(db \<Rightarrow> db \<Rightarrow> bool) \<Rightarrow> (db \<Rightarrow> 'l \<Rightarrow> bool) \<Rightarrow> ('a \<Rightarrow> db \<Rightarrow> 'l \<Rightarrow> bool) \<Rightarrow> (worker_error \<Rightarrow> db \<Rightarrow> 'l \<Rightarrow> bool) \<Rightarrow>
     'a res \<times> world \<Rightarrow> bool" where
  "lends N J Q E (Ok a, w) = (script_ok N w \<and> Q a (wdb w) (log w))"
| "lends N J Q E (Err e, w) = (script_ok N w \<and> E e (wdb w) (log w))"
| "lends N J Q E (Crash, w) = (script_ok N w \<and> J (wdb w) (log w))"

definition lspec ::
  "(db \<Rightarrow> db \<Rightarrow> bool) \<Rightarrow> (db \<Rightarrow> 'l \<Rightarrow> bool) \<Rightarrow> (db \<Rightarrow> 'l \<Rightarrow> bool) \<Rightarrow> 'a wm \<Rightarrow> ('a \<Rightarrow> db \<Rightarrow> 'l \<Rightarrow> bool) \<Rightarrow>
     (worker_error \<Rightarrow> db \<Rightarrow> 'l \<Rightarrow> bool) \<Rightarrow> bool" where
  "lspec N J A m Q E \<longleftrightarrow> (\<forall>w. script_ok N w \<longrightarrow> A (wdb w) (log w) \<longrightarrow> lends N J Q E (m w))"

definition lstable :: "(db \<Rightarrow> db \<Rightarrow> bool) \<Rightarrow> (db \<Rightarrow> 'l \<Rightarrow> bool) \<Rightarrow> bool" where
  "lstable N A \<longleftrightarrow> (\<forall>d d' l. N d d' \<longrightarrow> A d l \<longrightarrow> A d' l)"

lemma lspecI: "(\<And>w. script_ok N w \<Longrightarrow> A (wdb w) (log w) \<Longrightarrow> lends N J Q E (m w)) \<Longrightarrow> lspec N J A m Q E"
  by (simp add: lspec_def)

lemma lspecD: "lspec N J A m Q E \<Longrightarrow> script_ok N w \<Longrightarrow> A (wdb w) (log w) \<Longrightarrow> lends N J Q E (m w)"
  by (simp add: lspec_def)

lemma lends_weaken:
  assumes "lends N J Q E rw" "\<And>a d l. Q a d l \<Longrightarrow> Q' a d l" "\<And>e d l. E e d l \<Longrightarrow> E' e d l"
  shows "lends N J Q' E' rw"
  using assms by (cases rw; cases "fst rw") auto

lemma lspec_weaken:
  assumes "lspec N J A m Q E" "\<And>d l. A' d l \<Longrightarrow> A d l" "\<And>a d l. Q a d l \<Longrightarrow> Q' a d l"
    "\<And>e d l. E e d l \<Longrightarrow> E' e d l"
  shows "lspec N J A' m Q' E'"
proof (rule lspecI)
  fix w assume w: "script_ok N w" "A' (wdb w) (log w)"
  show "lends N J Q' E' (m w)"
    by (rule lends_weaken [where Q = Q and E = E, OF lspecD [OF assms(1) w(1) assms(2) [OF w(2)]]]) (use assms in auto)
qed

lemma lspec_return: "(\<And>d l. A d l \<Longrightarrow> Q a d l) \<Longrightarrow> lspec N J A (returnw a) Q E"
  by (simp add: lspec_def returnw_def)

lemma lspec_throw: "(\<And>d l. A d l \<Longrightarrow> E e d l) \<Longrightarrow> lspec N J A (throww e) Q E"
  by (simp add: lspec_def throww_def)

lemma lspec_clock: "(\<And>d l. A d l \<Longrightarrow> Q (db_now d) d l) \<Longrightarrow> lspec N J A clock Q E"
  by (simp add: lspec_def clock_def)

lemma lspec_fresh: "(\<And>a d l. A d l \<Longrightarrow> Q a d l) \<Longrightarrow> lspec N J A fresh_id Q E"
  by (simp add: lspec_def fresh_id_def script_ok_def log_fresh)

lemma lspec_bind:
  assumes "lspec N J A m Q E" "\<And>a. lspec N J (Q a) (f a) R E"
  shows "lspec N J A (bindw m f) R E"
proof (rule lspecI)
  fix w assume w: "script_ok N w" "A (wdb w) (log w)"
  obtain r w' where m: "m w = (r, w')" by (cases "m w")
  note 1 = lspecD [OF assms(1) w, unfolded m]
  show "lends N J R E (bindw m f w)"
  proof (cases r)
    case (Ok a)
    with 1 have "script_ok N w'" "Q a (wdb w') (log w')" by simp_all
    from lspecD [OF assms(2) this] Ok show ?thesis by (simp add: bindw_def m)
  qed (use 1 in \<open>simp_all add: bindw_def m\<close>)
qed

lemma lspec_catch:
  assumes "lspec N J A m Q E" "\<And>e. lspec N J (E e) (h e) Q E'"
  shows "lspec N J A (catchw m h) Q E'"
proof (rule lspecI)
  fix w assume w: "script_ok N w" "A (wdb w) (log w)"
  obtain r w' where m: "m w = (r, w')" by (cases "m w")
  note 1 = lspecD [OF assms(1) w, unfolded m]
  show "lends N J Q E' (catchw m h w)"
  proof (cases r)
    case (Err e)
    with 1 have "script_ok N w'" "E e (wdb w') (log w')" by simp_all
    from lspecD [OF assms(2) this] Err show ?thesis by (simp add: catchw_def m)
  qed (use 1 in \<open>simp_all add: catchw_def m\<close>)
qed

lemma lspec_try:
  assumes "lspec N J A m Q E"
  shows "lspec N J A (tryw m) (\<lambda>r. case r of Inl e \<Rightarrow> E e | Inr a \<Rightarrow> Q a) E'"
  unfolding tryw_def
  by (rule lspec_catch [where E = E], rule lspec_bind [OF assms]) (rule lspec_return, simp)+

lemma lspec_if:
  "(b \<Longrightarrow> lspec N J A m Q E) \<Longrightarrow> (\<not> b \<Longrightarrow> lspec N J A m' Q E) \<Longrightarrow> lspec N J A (if b then m else m') Q E"
  by simp

lemma lspec_stmt:
  assumes "lstable N A" "\<And>d l. A d l \<Longrightarrow> J d l" "\<And>d l. A d l \<Longrightarrow> E TransientError d l"
    and "\<And>d l e. A d l \<Longrightarrow> f d = Inl e \<Longrightarrow> E e d l"
    and "\<And>d l a d'. A d l \<Longrightarrow> f d = Inr (a, d') \<Longrightarrow> Q a d' l \<and> J d' l \<and> E TransientError d' l"
  shows "lspec N J A (stmt f) Q E"
proof (rule lspecI)
  fix w assume w: "script_ok N w" "A (wdb w) (log w)"
  show "lends N J Q E (stmt f w)"
  proof (cases "ticks w")
    case Nil
    with w show ?thesis
      using assms(4,5) [OF w(2)] by (auto simp: stmt_def Let_def script_ok_def log_stmt log_ticks log_wdb split: sum.splits)
  next
    case (Cons t ts)
    have ok: "script_ok N (w\<lparr>wdb := d', ticks := ts\<rparr>)" for d'
      using w(1) Cons by (simp add: script_ok_def)
    have A: "A (tick_env t (wdb w)) (log w)"
      using w assms(1) Cons by (auto simp: script_ok_def ok_tick_def lstable_def)
    show ?thesis
      using ok A assms(2,3) [OF A] assms(4,5) [OF A] Cons
      by (cases "tick_fate t"; cases "f (tick_env t (wdb w))") (auto simp: stmt_def log_stmt log_ticks log_wdb)
  qed
qed

lemma lspec_query:
  assumes "lstable N A" "\<And>d l. A d l \<Longrightarrow> J d l" "\<And>d l. A d l \<Longrightarrow> E TransientError d l"
    and "\<And>d l. A d l \<Longrightarrow> Q (f d) d l"
  shows "lspec N J A (query f) Q E"
  unfolding query_def by (rule lspec_stmt) (use assms in auto)

lemma lspec_exec:
  assumes "lstable N A" "\<And>d l. A d l \<Longrightarrow> J d l" "\<And>d l. A d l \<Longrightarrow> E TransientError d l"
    and "\<And>d l. A d l \<Longrightarrow> Q (f d) l \<and> J (f d) l \<and> E TransientError (f d) l"
  shows "lspec N J A (exec f) (\<lambda>_. Q) E"
  unfolding exec_def by (rule lspec_stmt) (use assms in auto)

end

interpretation mail_log: world_log requests
  by unfold_locales simp_all

interpretation post_log: world_log posted
  by unfold_locales simp_all

lemma mail_log_spec: "mail_log.lspec = spec"
proof -
  have "mail_log.lends N J Q E rw = ends N J Q E rw" for N J and Q :: "'a \<Rightarrow> assertion" and E rw
    by (cases rw; cases "fst rw") auto
  then show ?thesis by (simp add: fun_eq_iff mail_log.lspec_def spec_def)
qed

end
