(* ===== verification/Unsub_Execution.thy ===== *)
theory Unsub_Execution
  imports Label_Action Ssrf_Guard Worker_Log
begin

text \<open>
  The worker that sends a one-click unsubscribe (\<^verbatim>\<open>packages/workers/src/unsub-execution.worker.ts\<close>),
  and the consumer of its event and of the intent's
  (\<^verbatim>\<open>apps/api/src/outbox/outbox-consumer-router.ts\<close>).

  The request leaves through \<open>postOneClick\<close>: the script \<open>https\<close> of the world answers it, and the ghost
  \<open>posted\<close> keeps what left. \<open>new URL\<close>, the resolver and the environment variables are the fields of
  \<open>unsub_env\<close>.
\<close>

subsection \<open>Payload, environment and result\<close>

record unsub_job_data =
  uj_action :: ident
  uj_mailbox :: ident
  uj_source :: "string option"
  uj_rule :: "ident option"
  uj_confirmed :: bool \<comment> \<open>the user confirmed acting on a Protected sender\<close>

record unsub_exec_result =
  ur_outcome :: exec_outcome
  ur_status :: "nat option"
  ur_already :: bool

record unsub_env =
  ux_send :: "string option" \<comment> \<open>\<open>UNSUB_SEND_ENABLED\<close>\<close>
  ux_node :: "string option" \<comment> \<open>\<open>NODE_ENV\<close>\<close>
  ux_insecure :: bool \<comment> \<open>\<open>allowInsecureTargets\<close>\<close>
  ux_url :: "string \<Rightarrow> (string \<times> string) option" \<comment> \<open>\<open>new URL\<close>: protocol and hostname\<close>
  ux_resolve :: "string \<Rightarrow> string list option" \<comment> \<open>\<open>None\<close>: the lookup throws\<close>

definition unsub_max_attempts :: nat where
  "unsub_max_attempts = 2"

definition unsub_sender_protected_code :: string where
  "unsub_sender_protected_code = ''UNSUB_SENDER_PROTECTED''"

definition unsub_send_blocked_code :: string where
  "unsub_send_blocked_code = ''UNSUB_SEND_DISABLED''"

definition unsub_ambiguous_code :: string where
  "unsub_ambiguous_code = ''UNSUB_AMBIGUOUS_REDIRECT''"

definition unsub_manual_code :: string where
  "unsub_manual_code = ''UNSUB_MANUAL_REQUIRED''"

definition unsubSendsEnabled :: "unsub_env \<Rightarrow> bool" where
  "unsubSendsEnabled env \<longleftrightarrow> ux_send env = Some ''true''"

subsection \<open>The target\<close>

definition allow_insecure :: "unsub_env \<Rightarrow> bool" where
  "allow_insecure env \<longleftrightarrow> ux_insecure env \<and> ux_node env \<noteq> Some ''production''"

definition strip_brackets :: "string \<Rightarrow> string" where
  "strip_brackets h =
     (let t = (if h \<noteq> [] \<and> hd h = CHR ''['' then tl h else h)
      in if t \<noteq> [] \<and> last t = CHR '']'' then butlast t else t)"

definition target_addresses :: "unsub_env \<Rightarrow> string \<Rightarrow> string + string list" where
  "target_addresses env hostname =
     (if isIP hostname \<noteq> 0 then Inr [hostname]
      else case ux_resolve env hostname of
          None \<Rightarrow> Inl ''UNSUB_DNS_FAILURE''
        | Some as \<Rightarrow> if as = [] then Inl ''UNSUB_DNS_FAILURE'' else Inr as)"

definition dialable :: "unsub_env \<Rightarrow> string \<Rightarrow> bool" where
  "dialable env a \<longleftrightarrow>
     classifyAddress a = PublicAddress \<or> (classifyAddress a = LoopbackAddress \<and> allow_insecure env)"

definition validateTarget :: "unsub_env \<Rightarrow> string \<Rightarrow> string + (string \<times> nat)" where
  \<comment> \<open>the error code, or the address to pin and its family\<close>
  "validateTarget env rawUrl =
     (case ux_url env rawUrl of
        None \<Rightarrow> Inl ''UNSUB_INVALID_URL''
      | Some (protocol, host) \<Rightarrow>
          if protocol \<noteq> ''https:'' \<and> \<not> (allow_insecure env \<and> protocol = ''http:'') then Inl ''UNSUB_INSECURE_SCHEME''
          else case target_addresses env (strip_brackets host) of
              Inl e \<Rightarrow> Inl e
            | Inr as \<Rightarrow>
                if list_all (dialable env) as then Inr (hd as, if isIP (hd as) = 6 then 6 else 4)
                else Inl ''UNSUB_PRIVATE_TARGET'')"

subsection \<open>The request\<close>

definition record_post :: "one_click_post \<Rightarrow> world \<Rightarrow> world" where
  "record_post p w = w\<lparr>posted := posted w @ [p]\<rparr>"

definition post_entry :: "ident \<Rightarrow> (db \<Rightarrow> bool) \<Rightarrow> string \<Rightarrow> string \<times> nat \<Rightarrow> nat option \<Rightarrow> db \<Rightarrow> one_click_post" where
  "post_entry jid prot url target st d =
     \<lparr>oc_job = jid, oc_url = url, oc_address = fst target, oc_family = snd target, oc_status = st, oc_protected = prot d\<rparr>"

definition postOneClick :: "ident \<Rightarrow> (db \<Rightarrow> bool) \<Rightarrow> string \<Rightarrow> string \<times> nat \<Rightarrow> nat wm" where
  "postOneClick jid prot url target w =
     (let entry = (\<lambda>st. post_entry jid prot url target st (wdb w)) in
      case https w of
        [] \<Rightarrow> (Ok 200, record_post (entry (Some 200)) w)
      | r # rs \<Rightarrow>
          (let w' = w\<lparr>https := rs\<rparr> in
           case r of
             HttpStatus n \<Rightarrow> (Ok n, record_post (entry (Some n)) w')
           | HttpFails arrived \<Rightarrow> (Err PlainError, if arrived then record_post (entry None) w' else w')
           | HttpDies arrived \<Rightarrow> (Crash, if arrived then record_post (entry None) w' else w')))"

subsection \<open>Channels\<close>

definition newer_mail :: "mail_row \<Rightarrow> mail_row \<Rightarrow> bool" where
  \<comment> \<open>\<open>internal_date desc, id desc\<close>\<close>
  "newer_mail x y \<longleftrightarrow> mm_date y < mm_date x \<or> (mm_date y = mm_date x \<and> mm_row y < mm_row x)"

fun newest :: "mail_row list \<Rightarrow> mail_row option" where
  "newest [] = None"
| "newest (x # xs) = (case newest xs of None \<Rightarrow> Some x | Some y \<Rightarrow> if newer_mail y x then Some y else Some x)"

definition sender_mail :: "ident \<Rightarrow> string \<Rightarrow> db \<Rightarrow> mail_row list" where
  "sender_mail mb k d = filter (\<lambda>x. mm_mailbox x = mb \<and> mm_key x = Some k) (mail d)"

definition newest_one_click :: "ident \<Rightarrow> string \<Rightarrow> db \<Rightarrow> string option" where
  "newest_one_click mb k d =
     Option.bind (newest (filter (\<lambda>x. mm_one_click x \<and> mm_unsub_url x \<noteq> None) (sender_mail mb k d))) mm_unsub_url"

definition newest_mailto :: "ident \<Rightarrow> string \<Rightarrow> db \<Rightarrow> string option" where
  "newest_mailto mb k d = Option.bind (newest (filter (\<lambda>x. mm_mailto x \<noteq> None) (sender_mail mb k d))) mm_mailto"

definition resolveChannels :: "ident \<Rightarrow> string \<Rightarrow> (string option \<times> string option) wm" where
  "resolveChannels mb k =
     bindw (query (newest_one_click mb k)) (\<lambda>a. bindw (query (newest_mailto mb k)) (\<lambda>b. returnw (a, b)))"

subsection \<open>Terminal writes\<close>

definition in_flight :: "unsub_status option \<Rightarrow> bool" where
  "in_flight s \<longleftrightarrow> s = Some StPending \<or> s = Some StRequested"

definition set_unsub :: "ident \<Rightarrow> string \<Rightarrow> (unsub_status option \<Rightarrow> bool) \<Rightarrow> unsub_status \<Rightarrow> db \<Rightarrow> db" where
  "set_unsub mb k p s d =
     d\<lparr>policies := update_where (\<lambda>x. po_mailbox x = mb \<and> po_key x = k \<and> p (po_unsub x)) (\<lambda>x. x\<lparr>po_unsub := Some s\<rparr>)
         (policies d)\<rparr>"

definition refuse_tx :: "ident \<Rightarrow> ident \<Rightarrow> string \<Rightarrow> string \<Rightarrow> db \<Rightarrow> db" where
  \<comment> \<open>nothing was attempted: no Activity row, no event\<close>
  "refuse_tx jid mb k code d =
     set_unsub mb k in_flight StFailed
       (update_job jid (\<lambda>j. j\<lparr>jo_status := JobFailed, jo_error := Some code, jo_affected := 0\<rparr>) d)"

definition refused :: unsub_exec_result where
  "refused = \<lparr>ur_outcome = ExecFailed, ur_status = None, ur_already = False\<rparr>"

definition recordSenderProtected :: "ident \<Rightarrow> ident \<Rightarrow> string \<Rightarrow> unsub_exec_result wm" where
  "recordSenderProtected jid mb k =
     bindw (exec (refuse_tx jid mb k unsub_sender_protected_code)) (\<lambda>_. returnw refused)"

definition recordSendDisabled :: "ident \<Rightarrow> ident \<Rightarrow> string \<Rightarrow> unsub_exec_result wm" where
  "recordSendDisabled jid mb k =
     bindw (exec (refuse_tx jid mb k unsub_send_blocked_code)) (\<lambda>_. returnw refused)"

record outcome_record =
  out_outcome :: exec_outcome
  out_status :: "nat option"
  out_code :: "string option"

definition out_failed :: "string \<Rightarrow> outcome_record" where
  "out_failed code = \<lparr>out_outcome = ExecFailed, out_status = None, out_code = Some code\<rparr>"

fun outcome_status :: "exec_outcome \<Rightarrow> unsub_status" where
  "outcome_status EndpointAccepted = StEndpointAccepted"
| "outcome_status ExecFailed = StFailed"
| "outcome_status Unconfirmed = StUnconfirmed"
| "outcome_status ActionRequired = StActionRequired"

fun outcome_activity :: "exec_outcome \<Rightarrow> string" where
  "outcome_activity EndpointAccepted = ''unsubscribe_endpoint_accepted''"
| "outcome_activity Unconfirmed = ''unsubscribe_unconfirmed''"
| "outcome_activity ActionRequired = ''unsubscribe_action_required''"
| "outcome_activity ExecFailed = ''unsubscribe_failed''"

definition unsub_activity :: "ident \<Rightarrow> unsub_job_data \<Rightarrow> ident \<Rightarrow> string \<Rightarrow> ident \<Rightarrow> string \<Rightarrow> millis \<Rightarrow> activity_row" where
  "unsub_activity aid p mb k jid action t =
     \<lparr>ac_id = aid, ac_mailbox = mb, ac_key = k, ac_source = (case uj_source p of None \<Rightarrow> ''manual'' | Some s \<Rightarrow> s),
      ac_action = action, ac_affected = 0, ac_undo = None, ac_rule = uj_rule p, ac_at = t, ac_job = Some jid,
      ac_reverted = None\<rparr>"

definition outcome_tx ::
  "ident \<Rightarrow> unsub_job_data \<Rightarrow> ident \<Rightarrow> ident \<Rightarrow> string \<Rightarrow> outcome_record \<Rightarrow> millis \<Rightarrow> db \<Rightarrow> db" where
  \<comment> \<open>job, policy, Activity, event; \<open>unconfirmed\<close> and \<open>action_required\<close> ride on a failed job\<close>
  "outcome_tx aid p jid mb k r executedAt d =
     (let accepted = (out_outcome r = EndpointAccepted);
          d1 = update_job jid (\<lambda>j. j\<lparr>jo_status := (if accepted then JobDone else JobFailed), jo_error := out_code r,
                                     jo_affected := (if accepted then 1 else 0)\<rparr>) d;
          d2 = set_unsub mb k (\<lambda>_. True) (outcome_status (out_outcome r)) d1
      in d2\<lparr>activity := activity d2 @ [unsub_activity aid p mb k jid (outcome_activity (out_outcome r)) (db_now d2)],
            outbox := outbox d2 @ [UnsubscribeExecuted mb k jid (out_outcome r) (out_status r) executedAt]\<rparr>)"

definition recordOutcome :: "unsub_job_data \<Rightarrow> ident \<Rightarrow> ident \<Rightarrow> string \<Rightarrow> outcome_record \<Rightarrow> unsub_exec_result wm" where
  "recordOutcome p jid mb k r =
     bindw clock (\<lambda>executedAt. bindw fresh_id (\<lambda>aid.
     bindw (exec (outcome_tx aid p jid mb k r executedAt)) (\<lambda>_.
     returnw \<lparr>ur_outcome = out_outcome r, ur_status = out_status r, ur_already = False\<rparr>)))"

subsection \<open>An attempt\<close>

definition replay_result :: "job_row \<Rightarrow> unsub_exec_result" where
  \<comment> \<open>never asked twice\<close>
  "replay_result j =
     \<lparr>ur_outcome = (if jo_status j = JobDone then EndpointAccepted
                    else if jo_error j = Some unsub_ambiguous_code then Unconfirmed else ExecFailed),
      ur_status = None, ur_already = True\<rparr>"

definition classify_response :: "nat \<Rightarrow> string option \<Rightarrow> outcome_record" where
  "classify_response n mailto =
     (if 200 \<le> n \<and> n < 300 then \<lparr>out_outcome = EndpointAccepted, out_status = Some n, out_code = None\<rparr>
      else if 300 \<le> n \<and> n < 400
      then \<lparr>out_outcome = Unconfirmed, out_status = Some n, out_code = Some unsub_ambiguous_code\<rparr>
      else if mailto \<noteq> None \<and> mailto \<noteq> Some ''''
      then \<lparr>out_outcome = ActionRequired, out_status = Some n, out_code = Some unsub_manual_code\<rparr>
      else \<lparr>out_outcome = ExecFailed, out_status = Some n, out_code = Some ''UNSUB_TARGET_REJECTED''\<rparr>)"

definition send_post ::
  "unsub_job_data \<Rightarrow> nat \<Rightarrow> job_row \<Rightarrow> string \<Rightarrow> string option \<Rightarrow> string \<times> nat \<Rightarrow> unsub_exec_result wm" where
  "send_post p attempt j url mailto target =
     bindw (tryw (postOneClick (jo_id j) (\<lambda>d. protectedSender d (jo_mailbox j) (jo_sender_key j)) url target)) (\<lambda>r.
       case r of
         Inl _ \<Rightarrow>
           if attempt < unsub_max_attempts then throww TransientError
           else recordOutcome p (jo_id j) (jo_mailbox j) (jo_sender_key j) (out_failed ''UNSUB_NETWORK_ERROR'')
       | Inr n \<Rightarrow> recordOutcome p (jo_id j) (jo_mailbox j) (jo_sender_key j) (classify_response n mailto))"

definition may_mark :: "ident \<Rightarrow> ident \<Rightarrow> string \<Rightarrow> bool \<Rightarrow> db \<Rightarrow> job_row \<Rightarrow> bool" where
  "may_mark jid mb k recheck d j \<longleftrightarrow> jo_id j = jid \<and> (recheck \<longrightarrow> \<not> protectedSender d mb k)"

definition mark_unsub :: "ident \<Rightarrow> ident \<Rightarrow> string \<Rightarrow> bool \<Rightarrow> db \<Rightarrow> worker_error + (bool \<times> db)" where
  "mark_unsub jid mb k recheck d =
     Inr (list_ex (may_mark jid mb k recheck d) (jobs d),
          d\<lparr>jobs := update_where (may_mark jid mb k recheck d) (\<lambda>j. j\<lparr>jo_status := Executing\<rparr>) (jobs d)\<rparr>)"

definition mark_and_send ::
  "unsub_job_data \<Rightarrow> nat \<Rightarrow> job_row \<Rightarrow> bool \<Rightarrow> string \<Rightarrow> string option \<Rightarrow> string \<times> nat \<Rightarrow> unsub_exec_result wm" where
  "mark_and_send p attempt j recheck url mailto target =
     bindw (stmt (mark_unsub (jo_id j) (jo_mailbox j) (jo_sender_key j) recheck)) (\<lambda>marked.
       if marked then send_post p attempt j url mailto target
       else bindw (query (\<lambda>d. list_ex (\<lambda>x. jo_id x = jo_id j) (jobs d))) (\<lambda>still.
              if still \<and> recheck then recordSenderProtected (jo_id j) (jo_mailbox j) (jo_sender_key j)
              else throww ValidationError))"

definition unsub_sender :: "job_row \<Rightarrow> db \<Rightarrow> sender_row option" where
  "unsub_sender j d = List.find (\<lambda>s. se_mailbox s = jo_mailbox j \<and> se_key s = jo_sender_key j) (senders d)"

definition one_click_target :: "unsub_env \<Rightarrow> unsub_job_data \<Rightarrow> nat \<Rightarrow> job_row \<Rightarrow> bool \<Rightarrow> string \<Rightarrow> string option \<Rightarrow> unsub_exec_result wm" where
  "one_click_target env p attempt j recheck url mailto =
     (if \<not> unsubSendsEnabled env then recordSendDisabled (jo_id j) (jo_mailbox j) (jo_sender_key j)
      else case validateTarget env url of
          Inl code \<Rightarrow> recordOutcome p (jo_id j) (jo_mailbox j) (jo_sender_key j) (out_failed code)
        | Inr target \<Rightarrow> mark_and_send p attempt j recheck url mailto target)"

definition or_null :: "string option \<Rightarrow> string option \<Rightarrow> string option" where
  \<comment> \<open>\<open>a ?? b\<close>\<close>
  "or_null a b = (case a of None \<Rightarrow> b | Some _ \<Rightarrow> a)"

definition run_unsub :: "unsub_env \<Rightarrow> unsub_job_data \<Rightarrow> nat \<Rightarrow> job_row \<Rightarrow> bool \<Rightarrow> unsub_exec_result wm" where
  "run_unsub env p attempt j recheck =
     bindw (query (unsub_sender j)) (\<lambda>r.
       case r of
         None \<Rightarrow> recordOutcome p (jo_id j) (jo_mailbox j) (jo_sender_key j) (out_failed ''UNSUB_NOT_ONE_CLICK'')
       | Some s \<Rightarrow>
           if se_unsub s \<noteq> Some OneClick
           then recordOutcome p (jo_id j) (jo_mailbox j) (jo_sender_key j) (out_failed ''UNSUB_NOT_ONE_CLICK'')
           else bindw (resolveChannels (jo_mailbox j) (jo_sender_key j)) (\<lambda>(oneClick, mailto).
             case or_null oneClick (se_unsub_url s) of
               None \<Rightarrow> recordOutcome p (jo_id j) (jo_mailbox j) (jo_sender_key j) (out_failed ''UNSUB_NOT_ONE_CLICK'')
             | Some url \<Rightarrow>
                 if url = '''' then recordOutcome p (jo_id j) (jo_mailbox j) (jo_sender_key j) (out_failed ''UNSUB_NOT_ONE_CLICK'')
                 else one_click_target env p attempt j recheck url mailto))"

definition guard_unsub :: "unsub_env \<Rightarrow> unsub_job_data \<Rightarrow> nat \<Rightarrow> job_row \<Rightarrow> unsub_exec_result wm" where
  "guard_unsub env p attempt j =
     (if jo_status j = JobDone \<or> jo_status j = JobFailed then returnw (replay_result j)
      else if jo_verb j \<noteq> VUnsubscribe \<or> jo_selector j \<noteq> BySender then throww ValidationError
      else let recheck = (jo_status j \<noteq> Executing \<and> \<not> uj_confirmed p)
           in bindw (if recheck
                     then query (\<lambda>d. case policy_of d (jo_mailbox j) (jo_sender_key j) of None \<Rightarrow> False | Some x \<Rightarrow> po_protected x)
                     else returnw False) (\<lambda>protected'.
              if protected' then recordSenderProtected (jo_id j) (jo_mailbox j) (jo_sender_key j)
              else run_unsub env p attempt j recheck))"

definition processUnsub :: "unsub_env \<Rightarrow> unsub_job_data \<Rightarrow> nat \<Rightarrow> unsub_exec_result wm" where
  "processUnsub env p attempt =
     bindw (query (\<lambda>d. List.find (\<lambda>j. jo_id j = uj_action p) (jobs d))) (\<lambda>r.
       case r of None \<Rightarrow> throww ValidationError | Some j \<Rightarrow> guard_unsub env p attempt j)"

definition open_job :: "ident \<Rightarrow> job_row \<Rightarrow> bool" where
  "open_job jid j \<longleftrightarrow> jo_id j = jid \<and> jo_status j \<noteq> JobDone \<and> jo_status j \<noteq> JobFailed"

definition give_up_tx :: "ident \<Rightarrow> unsub_job_data \<Rightarrow> job_row option \<Rightarrow> worker_error \<Rightarrow> db \<Rightarrow> db" where
  "give_up_tx aid p job e d =
     (let jid = uj_action p;
          failedJob = list_ex (open_job jid) (jobs d);
          d1 = d\<lparr>jobs := update_where (open_job jid) (\<lambda>j. j\<lparr>jo_status := JobFailed, jo_error := Some (error_name e)\<rparr>)
                   (jobs d)\<rparr>
      in case job of
           None \<Rightarrow> d1
         | Some j \<Rightarrow>
             if jo_selector j \<noteq> BySender then d1
             else let d2 = set_unsub (uj_mailbox p) (jo_sender_key j) in_flight StFailed d1
                  in if failedJob
                     then d2\<lparr>activity := activity d2 @
                              [unsub_activity aid p (uj_mailbox p) (jo_sender_key j) jid ''unsubscribe_failed'' (db_now d2)]\<rparr>
                     else d2)"

definition unsubGivenUp :: "unsub_job_data \<Rightarrow> worker_error \<Rightarrow> unit wm" where
  \<comment> \<open>\<open>onTerminalFailure\<close>; a write that fails is only logged\<close>
  "unsubGivenUp p e =
     catchw (bindw (query (\<lambda>d. List.find (\<lambda>j. jo_id j = uj_action p) (jobs d))) (\<lambda>job.
             bindw fresh_id (\<lambda>aid. exec (give_up_tx aid p job e))))
       (\<lambda>_. returnw ())"

subsection \<open>The consumer\<close>

fun intent_status :: "unsub_channel option \<Rightarrow> unsub_status option" where
  "intent_status (Some OneClick) = Some StRequested"
| "intent_status (Some Mailto) = Some StActionRequired"
| "intent_status (Some NoChannel) = Some StUnavailable"
| "intent_status None = None"

definition intent_over :: "unsub_status option \<Rightarrow> unsub_status option \<Rightarrow> unsub_status option" where
  \<comment> \<open>what a redelivered intent makes of the stored status\<close>
  "intent_over new old =
     (case new of
        None \<Rightarrow> old
      | Some s \<Rightarrow> if old = None \<or> (s = StRequested \<and> old = Some StPending) then Some s else old)"

definition upsert_unsub ::
  "ident \<Rightarrow> string \<Rightarrow> unsub_status option \<Rightarrow> (unsub_status option \<Rightarrow> unsub_status option) \<Rightarrow> db \<Rightarrow> db" where
  "upsert_unsub mb k new over d =
     (if list_ex (\<lambda>p. po_mailbox p = mb \<and> po_key p = k) (policies d)
      then d\<lparr>policies := update_where (\<lambda>p. po_mailbox p = mb \<and> po_key p = k)
               (\<lambda>p. p\<lparr>po_type := Some PolUnsubscribe, po_unsub := over (po_unsub p)\<rparr>) (policies d)\<rparr>
      else d\<lparr>policies := policies d @
               [\<lparr>po_mailbox = mb, po_key = k, po_type = Some PolUnsubscribe, po_protected = False, po_reason = None,
                 po_protected_at = None, po_snoozed_until = None, po_snoozed_at = None, po_snooze_note = None,
                 po_wake_attempt = None, po_wake_failed = None, po_wake_failures = 0, po_wake_kind = None,
                 po_unsub = new\<rparr>]\<rparr>)"

definition handleUnsubscribeIntentRecorded :: "ident \<Rightarrow> string \<Rightarrow> unsub_channel option \<Rightarrow> db \<Rightarrow> db" where
  "handleUnsubscribeIntentRecorded mb k method =
     upsert_unsub mb k (intent_status method) (intent_over (intent_status method))"

definition handleUnsubscribeExecuted :: "ident \<Rightarrow> string \<Rightarrow> exec_outcome \<Rightarrow> db \<Rightarrow> db" where
  "handleUnsubscribeExecuted mb k out =
     upsert_unsub mb k (Some (outcome_status out)) (\<lambda>_. Some (outcome_status out))"

end
