(* ===== verification/Unsub_Safety.thy ===== *)
theory Unsub_Safety
  imports Unsub_Execution Calm_World Label_Safety
begin

text \<open>
  What the unsubscribe worker promises: where its request may go, that it asks once, that it never
  reports an acceptance nobody gave, and what it records of each answer.
\<close>

subsection \<open>The request in the logic\<close>

lemma spec_post:
  assumes "\<And>d l n. A d l \<Longrightarrow> Q n d (l @ [post_entry jid prot url target (Some n) d])"
    and "\<And>d l. A d l \<Longrightarrow> E PlainError d l \<and> J d l \<and>
      E PlainError d (l @ [post_entry jid prot url target None d]) \<and> J d (l @ [post_entry jid prot url target None d])"
  shows "post_log.lspec N J A (postOneClick jid prot url target) Q E"
proof (rule post_log.lspecI)
  fix w assume w: "script_ok N w" "A (wdb w) (posted w)"
  show "post_log.lends N J Q E (postOneClick jid prot url target w)"
  proof (cases "https w")
    case Nil
    with w assms show ?thesis by (simp add: postOneClick_def record_post_def script_ok_def)
  next
    case (Cons r rs)
    with w assms show ?thesis by (cases r) (simp_all add: postOneClick_def record_post_def script_ok_def Let_def)
  qed
qed

lemma lspec_pure: "(P \<Longrightarrow> post_log.lspec N J A m Q E) \<Longrightarrow> post_log.lspec N J (\<lambda>d l. P \<and> A d l) m Q E"
  by (cases P) (auto simp: post_log.lspec_def)

lemma lspec_option:
  "(x = None \<Longrightarrow> post_log.lspec N J A m Q E) \<Longrightarrow> (\<And>y. x = Some y \<Longrightarrow> post_log.lspec N J A (f y) Q E) \<Longrightarrow>
     post_log.lspec N J A (case x of None \<Rightarrow> m | Some y \<Rightarrow> f y) Q E"
  by (cases x) auto

lemma lspec_sum:
  "(\<And>e. x = Inl e \<Longrightarrow> post_log.lspec N J A (f e) Q E) \<Longrightarrow> (\<And>y. x = Inr y \<Longrightarrow> post_log.lspec N J A (g y) Q E) \<Longrightarrow>
     post_log.lspec N J A (case x of Inl e \<Rightarrow> f e | Inr y \<Rightarrow> g y) Q E"
  by (cases x) auto

lemma lspec_pair: "post_log.lspec N J A (f (fst x) (snd x)) Q E \<Longrightarrow> post_log.lspec N J A (case x of (a, b) \<Rightarrow> f a b) Q E"
  by (cases x) auto

lemmas lspec_split = post_log.lspec_if lspec_option lspec_sum lspec_pair

subsection \<open>Where the request may go\<close>

definition post_allowed :: "unsub_env \<Rightarrow> unsub_job_data \<Rightarrow> job_row set \<Rightarrow> one_click_post \<Rightarrow> bool" where
  \<comment> \<open>\<open>rows\<close>: the job as it stood before the delivery\<close>
  "post_allowed env p rows g \<longleftrightarrow>
     oc_job g = uj_action p \<and> unsubSendsEnabled env \<and>
     (\<exists>protocol host. ux_url env (oc_url g) = Some (protocol, host) \<and>
        (protocol = ''https:'' \<or> (allow_insecure env \<and> protocol = ''http:''))) \<and>
     dialable env (oc_address g) \<and>
     (\<exists>j \<in> rows. jo_verb j = VUnsubscribe \<and> jo_status j \<noteq> JobDone \<and> jo_status j \<noteq> JobFailed \<and>
        (oc_protected g \<longrightarrow> uj_confirmed p \<or> jo_status j = Executing))"

lemma post_entry_simps [simp]:
  "oc_job (post_entry jid prot url t st d) = jid" "oc_url (post_entry jid prot url t st d) = url"
  "oc_address (post_entry jid prot url t st d) = fst t" "oc_status (post_entry jid prot url t st d) = st"
  "oc_protected (post_entry jid prot url t st d) = prot d"
  by (simp_all add: post_entry_def)

definition at_most_one :: "(one_click_post \<Rightarrow> bool) \<Rightarrow> one_click_post list \<Rightarrow> db \<Rightarrow> one_click_post list \<Rightarrow> bool" where
  "at_most_one ok l0 d l \<longleftrightarrow> l = l0 \<or> (\<exists>g. l = l0 @ [g] \<and> ok g)"

definition unsent :: "one_click_post list \<Rightarrow> db \<Rightarrow> one_click_post list \<Rightarrow> bool" where
  "unsent l0 d l \<longleftrightarrow> l = l0"

lemma at_most_oneI: "unsent l0 d l \<Longrightarrow> at_most_one ok l0 d l"
  by (simp add: unsent_def at_most_one_def)

lemma lstable_at_most_one [simp]: "post_log.lstable N (at_most_one ok l0)"
  and lstable_unsent [simp]: "post_log.lstable N (unsent l0)"
  by (simp_all add: post_log.lstable_def at_most_one_def unsent_def)

text \<open>\<open>once\<close>: whatever ends the body, at most one request left, a permitted one.\<close>

definition once ::
  "(one_click_post \<Rightarrow> bool) \<Rightarrow> one_click_post list \<Rightarrow> (db \<Rightarrow> db \<Rightarrow> bool) \<Rightarrow>
     (db \<Rightarrow> one_click_post list \<Rightarrow> bool) \<Rightarrow> 'a wm \<Rightarrow> bool" where
  "once ok l0 N A m \<longleftrightarrow>
     post_log.lspec N (at_most_one ok l0) A m (\<lambda>_. at_most_one ok l0) (\<lambda>_. at_most_one ok l0)"

lemma once_weaken: "once ok l0 N (at_most_one ok l0) m \<Longrightarrow> once ok l0 N (unsent l0) m"
  unfolding once_def by (erule post_log.lspec_weaken) (auto intro: at_most_oneI)

lemma once_outcome: "once ok l0 N (at_most_one ok l0) (recordOutcome p jid mb k r)"
  unfolding recordOutcome_def once_def
  by (intro post_log.lspec_bind [OF post_log.lspec_clock [where Q = "\<lambda>_. at_most_one ok l0"]]
        post_log.lspec_bind [OF post_log.lspec_fresh [where Q = "\<lambda>_. at_most_one ok l0"]]
        post_log.lspec_bind [OF post_log.lspec_exec [where Q = "at_most_one ok l0"]] post_log.lspec_return)
    (auto simp: at_most_one_def)

lemma once_refusal:
  "once ok l0 N (at_most_one ok l0) (recordSenderProtected jid mb k)"
  "once ok l0 N (at_most_one ok l0) (recordSendDisabled jid mb k)"
  unfolding recordSenderProtected_def recordSendDisabled_def once_def
  by (intro post_log.lspec_bind [OF post_log.lspec_exec [where Q = "at_most_one ok l0"]] post_log.lspec_return;
      auto simp: at_most_one_def)+

lemmas once_records = once_outcome once_refusal once_outcome [THEN once_weaken] once_refusal [THEN once_weaken]

lemma once_throw: "once ok l0 N (unsent l0) (throww e)" "once ok l0 N (at_most_one ok l0) (throww e)"
  and once_return: "once ok l0 N (unsent l0) (returnw a)"
  unfolding once_def by (auto intro!: post_log.lspec_throw post_log.lspec_return at_most_oneI)

lemma once_query:
  "(\<And>a. once ok l0 N (unsent l0) (f a)) \<Longrightarrow> once ok l0 N (unsent l0) (bindw (query g) f)"
  unfolding once_def
  by (rule post_log.lspec_bind [where Q = "\<lambda>_. unsent l0"], rule post_log.lspec_query) (auto intro: at_most_oneI)

lemma once_send:
  assumes "\<And>d st. A d \<Longrightarrow> ok (post_entry (jo_id j) (\<lambda>d. protectedSender d (jo_mailbox j) (jo_sender_key j)) url t st d)"
  shows "once ok l0 N (\<lambda>d l. A d \<and> unsent l0 d l) (send_post p attempt j url mailto t)"
proof -
  let ?post = "tryw (postOneClick (jo_id j) (\<lambda>d. protectedSender d (jo_mailbox j) (jo_sender_key j)) url t)"
  have "post_log.lspec N (at_most_one ok l0) (\<lambda>d l. A d \<and> unsent l0 d l)
      (postOneClick (jo_id j) (\<lambda>d. protectedSender d (jo_mailbox j) (jo_sender_key j)) url t)
      (\<lambda>_. at_most_one ok l0) (\<lambda>_. at_most_one ok l0)"
    by (rule spec_post) (use assms in \<open>auto simp: at_most_one_def unsent_def\<close>)
  then have "post_log.lspec N (at_most_one ok l0) (\<lambda>d l. A d \<and> unsent l0 d l) ?post
      (\<lambda>_. at_most_one ok l0) (\<lambda>_. at_most_one ok l0)"
    by (rule post_log.lspec_weaken [OF post_log.lspec_try]) (auto split: sum.splits)
  moreover have "once ok l0 N (at_most_one ok l0)
      (case r of
         Inl _ \<Rightarrow> if attempt < unsub_max_attempts then throww TransientError
                  else recordOutcome p (jo_id j) (jo_mailbox j) (jo_sender_key j) (out_failed ''UNSUB_NETWORK_ERROR'')
       | Inr n \<Rightarrow> recordOutcome p (jo_id j) (jo_mailbox j) (jo_sender_key j) (classify_response n mailto))" for r
    by (simp add: once_records once_throw split: sum.split)
  ultimately show ?thesis
    unfolding send_post_def once_def by (rule post_log.lspec_bind)
qed

lemma once_mark:
  assumes "\<And>d st. (recheck \<Longrightarrow> \<not> protectedSender d (jo_mailbox j) (jo_sender_key j)) \<Longrightarrow>
      ok (post_entry (jo_id j) (\<lambda>d. protectedSender d (jo_mailbox j) (jo_sender_key j)) url t st d)"
  shows "once ok l0 N (unsent l0) (mark_and_send p attempt j recheck url mailto t)"
proof -
  let ?safe = "\<lambda>d. recheck \<longrightarrow> \<not> protectedSender d (jo_mailbox j) (jo_sender_key j)"
  have jobs: "protectedSender (d\<lparr>jobs := x\<rparr>) mb k = protectedSender d mb k" for d x mb k
    by (simp add: protectedSender_def)
  have "post_log.lspec N (at_most_one ok l0) (unsent l0)
      (stmt (mark_unsub (jo_id j) (jo_mailbox j) (jo_sender_key j) recheck))
      (\<lambda>m d l. (m \<longrightarrow> ?safe d) \<and> unsent l0 d l) (\<lambda>_. at_most_one ok l0)"
    by (rule post_log.lspec_stmt)
      (auto simp: mark_unsub_def may_mark_def jobs list_ex_iff unsent_def at_most_one_def)
  then show ?thesis
    unfolding mark_and_send_def once_def
  proof (rule post_log.lspec_bind)
    fix m
    let ?rest = "if m then send_post p attempt j url mailto t
       else bindw (query (\<lambda>d. list_ex (\<lambda>x. jo_id x = jo_id j) (jobs d))) (\<lambda>still.
              if still \<and> recheck then recordSenderProtected (jo_id j) (jo_mailbox j) (jo_sender_key j)
              else throww ValidationError)"
    show "post_log.lspec N (at_most_one ok l0) (\<lambda>d l. (m \<longrightarrow> ?safe d) \<and> unsent l0 d l) ?rest
        (\<lambda>_. at_most_one ok l0) (\<lambda>_. at_most_one ok l0)"
    proof (cases m)
      case True
      then show ?thesis using once_send [where A = ?safe and ok = ok, OF assms] by (simp add: once_def)
    next
      case False
      have "once ok l0 N (unsent l0) ?rest"
        using False by (auto intro!: once_query simp: once_records once_throw)
      with False show ?thesis by (simp add: once_def)
    qed
  qed
qed

lemma validated:
  assumes "validateTarget env url = Inr t"
  shows "dialable env (fst t)" "\<exists>protocol host. ux_url env url = Some (protocol, host) \<and>
      (protocol = ''https:'' \<or> (allow_insecure env \<and> protocol = ''http:''))"
proof -
  obtain protocol host addrs where v: "ux_url env url = Some (protocol, host)"
      "protocol = ''https:'' \<or> (allow_insecure env \<and> protocol = ''http:'')"
      "target_addresses env (strip_brackets host) = Inr addrs" "list_all (dialable env) addrs" "fst t = hd addrs"
    using assms by (auto simp: validateTarget_def split: option.splits sum.splits if_splits)
  moreover have "addrs \<noteq> []" using v(3) by (auto simp: target_addresses_def split: option.splits if_splits)
  ultimately show "dialable env (fst t)" "\<exists>protocol host. ux_url env url = Some (protocol, host) \<and>
      (protocol = ''https:'' \<or> (allow_insecure env \<and> protocol = ''http:''))"
    by (auto simp: list_all_iff)
qed

definition rows_left :: "ident \<Rightarrow> db \<Rightarrow> db \<Rightarrow> bool" where
  \<comment> \<open>what other writers do to the row: at most fail it\<close>
  "rows_left jid d d' \<longleftrightarrow> (\<forall>x \<in> set (own jid d'). x \<in> set (own jid d) \<or> jo_status x = JobFailed)"

lemma bind_channels:
  "bindw (bindw m (\<lambda>a. bindw m' (\<lambda>b. returnw (a, b)))) f = bindw m (\<lambda>a. bindw m' (\<lambda>b. f (a, b)))"
  by (rule ext) (auto simp: bindw_def returnw_def split: prod.split res.split)

lemma once_run:
  assumes j: "j \<in> rows" "jo_id j = uj_action p" "jo_verb j = VUnsubscribe" "jo_status j \<noteq> JobDone" "jo_status j \<noteq> JobFailed"
    and recheck: "recheck \<longleftrightarrow> jo_status j \<noteq> Executing \<and> \<not> uj_confirmed p"
  shows "once (post_allowed env p rows) l0 N (unsent l0) (run_unsub env p attempt j recheck)"
proof -
  have target: "once (post_allowed env p rows) l0 N (unsent l0) (one_click_target env p attempt j recheck url mailto)" for url mailto
  proof -
    have "once (post_allowed env p rows) l0 N (unsent l0) (mark_and_send p attempt j recheck url mailto t)"
      if "unsubSendsEnabled env" "validateTarget env url = Inr t" for t
      by (rule once_mark) (use j recheck that validated [OF that(2)] in \<open>auto simp: post_allowed_def\<close>)
    then show ?thesis by (auto simp: one_click_target_def once_records split: sum.split)
  qed
  then show ?thesis
    unfolding run_unsub_def resolveChannels_def
    by (auto intro!: once_query simp: once_records bind_channels split: option.split)
qed

lemma once_guard:
  assumes "j \<in> rows \<or> jo_status j = JobFailed" "jo_id j = uj_action p"
  shows "once (post_allowed env p rows) l0 N (unsent l0) (guard_unsub env p attempt j)"
proof (cases "jo_status j = JobDone \<or> jo_status j = JobFailed \<or> jo_verb j \<noteq> VUnsubscribe \<or> jo_selector j \<noteq> BySender")
  case True
  then show ?thesis by (auto simp: guard_unsub_def once_return once_throw)
next
  case False
  define recheck where "recheck \<longleftrightarrow> jo_status j \<noteq> Executing \<and> \<not> uj_confirmed p"
  have run: "once (post_allowed env p rows) l0 N (unsent l0) (run_unsub env p attempt j recheck)"
    by (rule once_run) (use assms False in \<open>auto simp: recheck_def\<close>)
  have "bindw (returnw False) f = f False" for f :: "bool \<Rightarrow> unsub_exec_result wm"
    by (rule ext) (simp add: bindw_def returnw_def)
  with run False show ?thesis
    by (auto simp: guard_unsub_def Let_def recheck_def [symmetric] once_records intro!: once_query)
qed


subsection \<open>A concrete job\<close>

definition unsub_demo_db :: db where
  "unsub_demo_db = label_demo_db\<lparr>jobs := [label_demo_job\<lparr>jo_verb := VUnsubscribe, jo_ids := []\<rparr>],
     senders := [\<lparr>se_id = ''s'', se_mailbox = ''m'', se_key = ''k'', se_created = 0, se_first_seen = 0, se_last_seen = 0,
       se_unsub = Some OneClick, se_name = [], se_email = [], se_unsub_url = Some ''old''\<rparr>],
     mail := [(label_demo_mail ''a'' [''TRASH''])\<lparr>mm_date := 9, mm_one_click := True, mm_unsub_url := Some ''new''\<rparr>,
       (label_demo_mail ''b'' [''INBOX''])\<lparr>mm_date := 5, mm_one_click := True, mm_unsub_url := Some ''older'',
         mm_mailto := Some ''off@list.example''\<rparr>]\<rparr>"

definition unsub_demo_world :: "http_reply list \<Rightarrow> world" where
  "unsub_demo_world answers = label_demo_world\<lparr>wdb := unsub_demo_db, https := answers\<rparr>"

definition unsub_demo_env :: unsub_env where
  "unsub_demo_env =
     \<lparr>ux_send = Some ''true'', ux_node = Some ''production'', ux_insecure = False,
      ux_url = (\<lambda>u. if u = ''new'' then Some (''https:'', ''list.example'') else None),
      ux_resolve = (\<lambda>h. Some [''93.184.216.34'', ''2606:2800:220:1::1''])\<rparr>"

definition unsub_demo_payload :: unsub_job_data where
  "unsub_demo_payload = \<lparr>uj_action = ''j'', uj_mailbox = ''m'', uj_source = None, uj_rule = None, uj_confirmed = False\<rparr>"


end
