(* ===== verification/Unsub_Honest.thy ===== *)
theory Unsub_Honest
  imports Unsub_Safety
begin

text \<open>
  Invariants of the unsubscribe job over its whole life: any sequence of deliveries and give-ups.
\<close>

subsection \<open>The life of a job\<close>

datatype unsub_event =
    Delivered unsub_env unsub_job_data nat
  | GivenUp unsub_job_data worker_error

fun unsub_run :: "unsub_event list \<Rightarrow> world \<Rightarrow> world" where
  "unsub_run [] w = w"
| "unsub_run (Delivered env p n # es) w = unsub_run es (snd (processUnsub env p n w))"
| "unsub_run (GivenUp p e # es) w = unsub_run es (snd (unsubGivenUp p e w))"

definition answered :: "ident \<Rightarrow> one_click_post list \<Rightarrow> bool" where
  \<comment> \<open>a request of the job was answered with success\<close>
  "answered jid l \<longleftrightarrow> (\<exists>g \<in> set l. oc_job g = jid \<and> (\<exists>n. oc_status g = Some n \<and> 200 \<le> n \<and> n < 300))"

subsection \<open>Bodies that keep an assertion\<close>

definition kept :: "(db \<Rightarrow> db \<Rightarrow> bool) \<Rightarrow> (db \<Rightarrow> one_click_post list \<Rightarrow> bool) \<Rightarrow> 'a wm \<Rightarrow> bool" where
  "kept N I m \<longleftrightarrow> post_log.lspec N I I m (\<lambda>_. I) (\<lambda>_. I)"

lemma kept_bind: "kept N I m \<Longrightarrow> (\<And>a. kept N I (f a)) \<Longrightarrow> kept N I (bindw m f)"
  unfolding kept_def by (rule post_log.lspec_bind)

lemma kept_return: "kept N I (returnw a)"
  and kept_throw: "kept N I (throww e)"
  and kept_clock: "kept N I clock"
  and kept_fresh: "kept N I fresh_id"
  unfolding kept_def
  by (rule post_log.lspec_return post_log.lspec_throw post_log.lspec_clock post_log.lspec_fresh; assumption)+

lemma kept_catch: "kept N I m \<Longrightarrow> (\<And>e. kept N I (h e)) \<Longrightarrow> kept N I (catchw m h)"
  unfolding kept_def by (rule post_log.lspec_catch)

lemma kept_query: "post_log.lstable N I \<Longrightarrow> kept N I (query f)"
  unfolding kept_def by (rule post_log.lspec_query) auto

lemma kept_exec: "post_log.lstable N I \<Longrightarrow> (\<And>d l. I d l \<Longrightarrow> I (f d) l) \<Longrightarrow> kept N I (exec f)"
  unfolding kept_def by (rule post_log.lspec_exec) auto

lemmas kept_leaf = kept_return kept_throw kept_clock kept_fresh

subsection \<open>An invariant of every attempt\<close>

locale unsub_invariant =
  fixes N :: "db \<Rightarrow> db \<Rightarrow> bool" and I :: "db \<Rightarrow> one_click_post list \<Rightarrow> bool" and j :: job_row
  assumes others: "post_log.lstable N I"
    and refuse: "I d l \<Longrightarrow> I (refuse_tx (jo_id j) mb k code d) l"
    and mark: "I d l \<Longrightarrow> mark_unsub (jo_id j) mb k b d = Inr (m, d') \<Longrightarrow> I d' l"
    and outcome: "I d l \<Longrightarrow> (out_outcome r = EndpointAccepted \<Longrightarrow> answered (jo_id j) l) \<Longrightarrow>
      I (outcome_tx aid p (jo_id j) mb k r t d) l"
    and post: "I d l \<Longrightarrow> oc_job g = jo_id j \<Longrightarrow> I d (l @ [g])"
begin

lemma kept_refusal:
  "kept N I (recordSenderProtected (jo_id j) mb k)" "kept N I (recordSendDisabled (jo_id j) mb k)"
  unfolding recordSenderProtected_def recordSendDisabled_def
  by (intro kept_bind kept_exec kept_return others; erule refuse)+

lemma lspec_outcome:
  "post_log.lspec N I (\<lambda>d l. (out_outcome r = EndpointAccepted \<longrightarrow> answered (jo_id j) l) \<and> I d l)
     (recordOutcome p (jo_id j) mb k r) (\<lambda>_. I) (\<lambda>_. I)"
  (is "post_log.lspec _ _ ?A _ _ _")
proof -
  have "post_log.lstable N ?A" using others by (auto simp: post_log.lstable_def)
  then show ?thesis
    unfolding recordOutcome_def
    by (intro post_log.lspec_bind [OF post_log.lspec_clock [where Q = "\<lambda>_. ?A"]]
          post_log.lspec_bind [OF post_log.lspec_fresh [where Q = "\<lambda>_. ?A"]]
          post_log.lspec_bind [OF post_log.lspec_exec [where Q = I]] post_log.lspec_return)
      (auto intro: outcome)
qed

lemma kept_outcome: "out_outcome r \<noteq> EndpointAccepted \<Longrightarrow> kept N I (recordOutcome p (jo_id j) mb k r)"
  unfolding kept_def using lspec_outcome [of r p mb k] by simp

lemma kept_send: "kept N I (send_post p attempt j url mailto t)"
proof -
  let ?Q = "\<lambda>r d l. case r of Inl (e :: worker_error) \<Rightarrow> I d l
    | Inr n \<Rightarrow> (\<exists>g \<in> set l. oc_job g = jo_id j \<and> oc_status g = Some n) \<and> I d l"
  have "post_log.lspec N I I (postOneClick (jo_id j) (\<lambda>d. protectedSender d (jo_mailbox j) (jo_sender_key j)) url t)
      (\<lambda>n d l. (\<exists>g \<in> set l. oc_job g = jo_id j \<and> oc_status g = Some n) \<and> I d l) (\<lambda>_. I)"
    by (rule spec_post) (auto intro: post)
  then have "post_log.lspec N I I
      (tryw (postOneClick (jo_id j) (\<lambda>d. protectedSender d (jo_mailbox j) (jo_sender_key j)) url t)) ?Q (\<lambda>_. I)"
    by (rule post_log.lspec_weaken [OF post_log.lspec_try]) (auto split: sum.splits)
  then show ?thesis
    unfolding kept_def send_post_def
  proof (rule post_log.lspec_bind)
    fix r
    show "post_log.lspec N I (?Q r)
        (case r of
           Inl _ \<Rightarrow> if attempt < unsub_max_attempts then throww TransientError
                    else recordOutcome p (jo_id j) (jo_mailbox j) (jo_sender_key j) (out_failed ''UNSUB_NETWORK_ERROR'')
         | Inr n \<Rightarrow> recordOutcome p (jo_id j) (jo_mailbox j) (jo_sender_key j) (classify_response n mailto))
        (\<lambda>_. I) (\<lambda>_. I)"
    proof (cases r)
      case (Inl e)
      then show ?thesis
        using kept_outcome [of "out_failed ''UNSUB_NETWORK_ERROR''"]
        by (simp add: kept_throw [unfolded kept_def] kept_def out_failed_def)
    next
      case (Inr n)
      have "out_outcome (classify_response n mailto) = EndpointAccepted \<Longrightarrow> 200 \<le> n \<and> n < 300"
        by (auto simp: classify_response_def split: if_splits)
      then show ?thesis
        unfolding Inr sum.case
        by (intro post_log.lspec_weaken [OF lspec_outcome]) (auto simp: answered_def)
    qed
  qed
qed

lemma kept_mark: "kept N I (mark_and_send p attempt j recheck url mailto t)"
proof -
  have "kept N I (stmt (mark_unsub (jo_id j) (jo_mailbox j) (jo_sender_key j) recheck))"
    unfolding kept_def by (rule post_log.lspec_stmt) (auto simp: others mark intro: mark simp: mark_unsub_def)
  then show ?thesis
    unfolding mark_and_send_def
    by (auto intro!: kept_bind kept_query others simp: kept_send kept_refusal kept_leaf)
qed

lemma kept_guard: "kept N I (guard_unsub env p attempt j)"
  unfolding guard_unsub_def run_unsub_def resolveChannels_def one_click_target_def Let_def
  by (auto intro!: kept_bind kept_query others
      simp: kept_mark kept_refusal kept_outcome kept_leaf out_failed_def split: option.split sum.split)

end

subsection \<open>From an attempt to the life of the job\<close>

lemma kept_process:
  assumes "post_log.lstable N I" "\<And>j. jo_id j = uj_action p \<Longrightarrow> kept N I (guard_unsub env p attempt j)"
  shows "kept N I (processUnsub env p attempt)"
  unfolding processUnsub_def kept_def
proof (rule post_log.lspec_bind [where Q = "\<lambda>r d l. (\<forall>j. r = Some j \<longrightarrow> jo_id j = uj_action p) \<and> I d l"])
  show "post_log.lspec N I I (query (\<lambda>d. List.find (\<lambda>j. jo_id j = uj_action p) (jobs d)))
      (\<lambda>r d l. (\<forall>j. r = Some j \<longrightarrow> jo_id j = uj_action p) \<and> I d l) (\<lambda>_. I)"
    by (rule post_log.lspec_query) (use assms(1) in \<open>auto simp: find_Some_iff\<close>)
next
  fix r
  show "post_log.lspec N I (\<lambda>d l. (\<forall>j. r = Some j \<longrightarrow> jo_id j = uj_action p) \<and> I d l)
      (case r of None \<Rightarrow> throww ValidationError | Some j \<Rightarrow> guard_unsub env p attempt j) (\<lambda>_. I) (\<lambda>_. I)"
    by (rule lspec_pure) (use assms(2) in \<open>auto simp: kept_throw [unfolded kept_def] kept_def split: option.split\<close>)
qed

lemma kept_given_up:
  assumes "post_log.lstable N I" "\<And>aid job d l. I d l \<Longrightarrow> I (give_up_tx aid p job e d) l"
  shows "kept N I (unsubGivenUp p e)"
  unfolding unsubGivenUp_def
  by (intro kept_catch kept_bind kept_query kept_exec kept_leaf assms)

lemma kept_run:
  assumes "\<And>env p n. kept N I (processUnsub env p n)" "\<And>p e. kept N I (unsubGivenUp p e)"
    and "script_ok N w" "I (wdb w) (posted w)"
  shows "I (wdb (unsub_run es w)) (posted (unsub_run es w))"
  using assms(3,4)
proof (induction es w rule: unsub_run.induct)
  case (2 env p n es w)
  note 1 = post_log.lspecD [OF assms(1) [of env p n, unfolded kept_def] 2(2,3)]
  have "script_ok N (snd (processUnsub env p n w))"
    "I (wdb (snd (processUnsub env p n w))) (posted (snd (processUnsub env p n w)))"
    using 1 by (cases "processUnsub env p n w"; cases "fst (processUnsub env p n w)"; simp)+
  with 2(1) show ?case by simp
next
  case (3 p e es w)
  note 1 = post_log.lspecD [OF assms(2) [of p e, unfolded kept_def] 3(2,3)]
  have "script_ok N (snd (unsubGivenUp p e w))"
    "I (wdb (snd (unsubGivenUp p e w))) (posted (snd (unsubGivenUp p e w)))"
    using 1 by (cases "unsubGivenUp p e w"; cases "fst (unsubGivenUp p e w)"; simp)+
  with 3(1) show ?case by simp
qed simp

subsection \<open>No acceptance nobody gave\<close>

fun acceptance_of :: "ident \<Rightarrow> outbox_event \<Rightarrow> bool" where
  "acceptance_of jid (UnsubscribeExecuted _ _ a r _ _) = (a = jid \<and> r = EndpointAccepted)"
| "acceptance_of _ _ = False"

definition accepted :: "ident \<Rightarrow> db \<Rightarrow> bool" where
  \<comment> \<open>anything the user or a consumer could read as success\<close>
  "accepted jid d \<longleftrightarrow>
     (\<exists>x \<in> set (own jid d). jo_verb x = VUnsubscribe \<and> jo_status x = JobDone) \<or>
     (\<exists>a \<in> set (activity d). ac_job a = Some jid \<and> ac_action a = ''unsubscribe_endpoint_accepted'') \<or>
     list_ex (acceptance_of jid) (outbox d)"

definition honest :: "db \<Rightarrow> one_click_post list \<Rightarrow> bool" where
  "honest d l \<longleftrightarrow> (\<forall>jid. accepted jid d \<longrightarrow> answered jid l)"

definition accepts_nothing :: "db \<Rightarrow> db \<Rightarrow> bool" where
  "accepts_nothing d d' \<longleftrightarrow> (\<forall>jid. accepted jid d' \<longrightarrow> accepted jid d)"

lemma lstable_honest: "post_log.lstable accepts_nothing honest"
  by (auto simp: post_log.lstable_def accepts_nothing_def honest_def)

lemma honest_step: "honest d l \<Longrightarrow> accepts_nothing d d' \<Longrightarrow> honest d' l"
  by (auto simp: accepts_nothing_def honest_def)

lemma set_unsub_frame [simp]:
  "jobs (set_unsub mb k q s d) = jobs d" "activity (set_unsub mb k q s d) = activity d"
  "outbox (set_unsub mb k q s d) = outbox d" "db_now (set_unsub mb k q s d) = db_now d"
  by (simp_all add: set_unsub_def)

lemma outcome_activity_accepted: "outcome_activity r = ''unsubscribe_endpoint_accepted'' \<longleftrightarrow> r = EndpointAccepted"
  by (cases r) simp_all

lemma accepts_outcome:
  assumes "accepted a (outcome_tx aid p jid mb k r t d)"
  shows "accepted a d \<or> (a = jid \<and> out_outcome r = EndpointAccepted)"
  using assms
  by (auto simp: accepted_def outcome_tx_def Let_def own_def update_job_def update_where_def unsub_activity_def
      outcome_activity_accepted split: if_splits)

lemma accepts_nothing_updates:
  "accepts_nothing d (refuse_tx jid mb k code d)"
  "mark_unsub jid mb k b d = Inr (m, d') \<Longrightarrow> accepts_nothing d d'"
  "accepts_nothing d (give_up_tx aid p job e d)"
  by (auto simp: accepts_nothing_def accepted_def own_def update_where_def update_job_def refuse_tx_def mark_unsub_def
      give_up_tx_def Let_def unsub_activity_def split: if_splits option.splits)

interpretation honest_unsub: unsub_invariant accepts_nothing honest j for j
proof
  show "post_log.lstable accepts_nothing honest" by (rule lstable_honest)
  show "honest (refuse_tx (jo_id j) mb k code d) l" if "honest d l" for d l mb k code
    by (rule honest_step [OF that accepts_nothing_updates(1)])
  show "honest d' l" if "honest d l" "mark_unsub (jo_id j) mb k b d = Inr (m, d')" for d l mb k b m d'
    by (rule honest_step [OF that(1) accepts_nothing_updates(2) [OF that(2)]])
  show "honest (outcome_tx aid p (jo_id j) mb k r t d) l"
    if "honest d l" "out_outcome r = EndpointAccepted \<Longrightarrow> answered (jo_id j) l" for d l r aid p mb k t
    using that accepts_outcome by (fastforce simp: honest_def)
  show "honest d (l @ [g])" if "honest d l" "oc_job g = jo_id j" for d l g
    using that by (auto simp: honest_def answered_def)
qed

text \<open>
  C12: no acceptance nobody gave. Over any life of an unsubscribe job (deliveries and give-ups in any
  order, each statement and each request free to fail or die, any other writer that reports no
  acceptance itself): when the job is done, or the Activity or the outbox says the endpoint accepted,
  a request of that job left and was answered 2xx.
\<close>

theorem unsub_no_fake_acceptance:
  assumes "script_ok accepts_nothing w" "honest (wdb w) (posted w)" "accepted jid (wdb (unsub_run es w))"
  shows "answered jid (posted (unsub_run es w))"
proof -
  have process: "kept accepts_nothing honest (processUnsub env p n)" for env p n
    by (rule kept_process [OF lstable_honest honest_unsub.kept_guard])
  have given_up: "kept accepts_nothing honest (unsubGivenUp p e)" for p e
    by (rule kept_given_up [OF lstable_honest honest_step [OF _ accepts_nothing_updates(3)]])
  have "honest (wdb (unsub_run es w)) (posted (unsub_run es w))"
    by (rule kept_run [OF process given_up assms(1,2)])
  with assms(3) show ?thesis by (simp add: honest_def)
qed

subsection \<open>Asked once\<close>

definition settled_as :: "ident \<Rightarrow> job_row list \<Rightarrow> one_click_post list \<Rightarrow> db \<Rightarrow> one_click_post list \<Rightarrow> bool" where
  "settled_as jid rows sent d l \<longleftrightarrow> own jid d = rows \<and> filter (\<lambda>g. oc_job g = jid) l = sent"

definition keeps_row :: "ident \<Rightarrow> db \<Rightarrow> db \<Rightarrow> bool" where
  "keeps_row jid d d' \<longleftrightarrow> own jid d' = own jid d"

lemma lstable_settled: "post_log.lstable (keeps_row jid) (settled_as jid rows sent)"
  by (auto simp: post_log.lstable_def keeps_row_def settled_as_def)

lemma own_other:
  "(\<And>x. f x = x \<or> (jo_id x \<noteq> jid \<and> jo_id (f x) = jo_id x)) \<Longrightarrow> filter (\<lambda>j. jo_id j = jid) (map f xs) = filter (\<lambda>j. jo_id j = jid) xs"
  by (induction xs) (auto, metis+)

lemma settled_other:
  assumes "jo_id j \<noteq> jid"
  shows "unsub_invariant (keeps_row jid) (settled_as jid rows sent) j"
proof
  show "post_log.lstable (keeps_row jid) (settled_as jid rows sent)" by (rule lstable_settled)
qed (use assms in \<open>auto simp: settled_as_def own_def refuse_tx_def mark_unsub_def may_mark_def outcome_tx_def
      update_job_def update_where_def Let_def intro!: own_other\<close>)

lemma settled_guard:
  assumes "jo_id j = jid \<Longrightarrow> jo_status j = JobDone \<or> jo_status j = JobFailed"
  shows "kept (keeps_row jid) (settled_as jid rows sent) (guard_unsub env p n j)"
proof (cases "jo_id j = jid")
  case True
  with assms show ?thesis by (simp add: guard_unsub_def kept_return)
next
  case False
  then show ?thesis by (rule unsub_invariant.kept_guard [OF settled_other])
qed

lemma settled_process:
  assumes "jo_status j = JobDone \<or> jo_status j = JobFailed"
  shows "kept (keeps_row jid) (settled_as jid [j] sent) (processUnsub env p n)"
  unfolding processUnsub_def kept_def
proof (rule post_log.lspec_bind [where Q = "\<lambda>r d l. (\<forall>x. r = Some x \<longrightarrow> jo_id x = jid \<longrightarrow> x = j) \<and> settled_as jid [j] sent d l"])
  show "post_log.lspec (keeps_row jid) (settled_as jid [j] sent) (settled_as jid [j] sent)
      (query (\<lambda>d. List.find (\<lambda>j. jo_id j = uj_action p) (jobs d)))
      (\<lambda>r d l. (\<forall>x. r = Some x \<longrightarrow> jo_id x = jid \<longrightarrow> x = j) \<and> settled_as jid [j] sent d l) (\<lambda>_. settled_as jid [j] sent)"
  proof (rule post_log.lspec_query [OF lstable_settled])
    fix d l assume I: "settled_as jid [j] sent d l"
    have "x = j" if "List.find (\<lambda>j. jo_id j = uj_action p) (jobs d) = Some x" "jo_id x = jid" for x
    proof -
      have "x \<in> set (own jid d)" using that by (auto simp: own_def find_Some_iff)
      with I show ?thesis by (simp add: settled_as_def)
    qed
    with I show "(\<forall>x. List.find (\<lambda>j. jo_id j = uj_action p) (jobs d) = Some x \<longrightarrow> jo_id x = jid \<longrightarrow> x = j) \<and> settled_as jid [j] sent d l"
      by blast
  qed auto
next
  fix r
  show "post_log.lspec (keeps_row jid) (settled_as jid [j] sent)
      (\<lambda>d l. (\<forall>x. r = Some x \<longrightarrow> jo_id x = jid \<longrightarrow> x = j) \<and> settled_as jid [j] sent d l)
      (case r of None \<Rightarrow> throww ValidationError | Some j \<Rightarrow> guard_unsub env p n j)
      (\<lambda>_. settled_as jid [j] sent) (\<lambda>_. settled_as jid [j] sent)"
    by (rule lspec_pure)
      (use assms in \<open>auto simp: kept_throw [unfolded kept_def] intro!: settled_guard [unfolded kept_def] split: option.split\<close>)
qed

lemma settled_give_up:
  assumes "settled_as jid [j] sent d l" "jo_status j = JobDone \<or> jo_status j = JobFailed"
  shows "settled_as jid [j] sent (give_up_tx aid p job e d) l"
proof -
  have closed: "\<not> open_job a x \<or> jo_id x \<noteq> jid" if "x \<in> set (jobs d)" for a x
  proof -
    have "x = j" if "jo_id x = jid" using assms(1) \<open>x \<in> set (jobs d)\<close> that
      by (force simp: settled_as_def own_def dest!: arg_cong [of _ _ set])
    then show ?thesis using assms(2) by (auto simp: open_job_def)
  qed
  have "own jid (d\<lparr>jobs := update_where (open_job a) (\<lambda>j. j\<lparr>jo_status := JobFailed, jo_error := e'\<rparr>) (jobs d)\<rparr>) = own jid d"
    for a e'
  proof -
    have "filter (\<lambda>j. jo_id j = jid) (update_where (open_job a) (\<lambda>j. j\<lparr>jo_status := JobFailed, jo_error := e'\<rparr>) xs) =
        filter (\<lambda>j. jo_id j = jid) xs" if "set xs \<subseteq> set (jobs d)" for xs
      using that closed by (induction xs) (auto simp: update_where_def)
    then show ?thesis by (simp add: own_def)
  qed
  then show ?thesis
    using assms(1) by (auto simp: settled_as_def give_up_tx_def Let_def own_def split: option.split)
qed

text \<open>
  C13: asked once. From the moment the job's row is done or failed, no delivery and no give-up, in
  any order and number and however each of them ends, sends another request for it or rewrites its
  row; the writers beside it are only asked to leave the row alone.
\<close>

theorem unsub_asked_once:
  assumes "script_ok (keeps_row jid) w" "own jid (wdb w) = [j]" "jo_status j = JobDone \<or> jo_status j = JobFailed"
  shows "own jid (wdb (unsub_run es w)) = [j] \<and>
    filter (\<lambda>g. oc_job g = jid) (posted (unsub_run es w)) = filter (\<lambda>g. oc_job g = jid) (posted w)"
proof -
  let ?I = "settled_as jid [j] (filter (\<lambda>g. oc_job g = jid) (posted w))"
  have given_up: "kept (keeps_row jid) ?I (unsubGivenUp p e)" for p e
    by (rule kept_given_up [OF lstable_settled settled_give_up [OF _ assms(3)]])
  have "?I (wdb (unsub_run es w)) (posted (unsub_run es w))"
    by (rule kept_run [OF settled_process [OF assms(3)] given_up assms(1)]) (simp add: settled_as_def assms(2))
  then show ?thesis by (simp add: settled_as_def)
qed

subsection \<open>A lost commit\<close>

text \<open>
  The first delivery's request is answered 200 and its terminal transaction is lost; the queue delivers
  again, and the give-up comes too late to matter.
\<close>

definition lost_commit :: "unsub_event list" where
  "lost_commit =
     [Delivered unsub_demo_env unsub_demo_payload 1, Delivered unsub_demo_env unsub_demo_payload 2,
      GivenUp unsub_demo_payload TransientError]"

definition lost_commit_world :: world where
  "lost_commit_world = (unsub_demo_world [HttpStatus 200, HttpStatus 200])\<lparr>
     ticks := replicate 6 (Tick id StmtOk) @ [Tick id StmtFails]\<rparr>"

lemma lost_commit_asks_twice: "map oc_status (posted (unsub_run lost_commit lost_commit_world)) = [Some 200, Some 200]"
  by code_simp

theorem unsub_no_fake_acceptance_witness:
  "accepted ''j'' (wdb (unsub_run lost_commit lost_commit_world)) \<and> answered ''j'' (posted (unsub_run lost_commit lost_commit_world))"
proof -
  have "script_ok accepts_nothing lost_commit_world"
    by (auto simp: script_ok_def lost_commit_world_def unsub_demo_world_def label_demo_world_def ok_tick_def accepts_nothing_def)
  moreover have "honest (wdb lost_commit_world) (posted lost_commit_world)"
    by (auto simp: honest_def accepted_def lost_commit_world_def unsub_demo_world_def unsub_demo_db_def label_demo_db_def
        label_demo_job_def own_def)
  moreover have "accepted ''j'' (wdb (unsub_run lost_commit lost_commit_world))"
  proof -
    have "map (\<lambda>x. (jo_id x, jo_verb x, jo_status x)) (jobs (wdb (unsub_run lost_commit lost_commit_world))) =
        [(''j'', VUnsubscribe, JobDone)]"
      by code_simp
    then show ?thesis by (auto simp: accepted_def own_def)
  qed
  ultimately show ?thesis using unsub_no_fake_acceptance by blast
qed

definition refused_world :: world where
  "refused_world = (unsub_demo_world [HttpStatus 200])\<lparr>wdb := unsub_demo_db\<lparr>jobs := [label_demo_job\<lparr>jo_status := JobFailed\<rparr>]\<rparr>\<rparr>"

theorem unsub_asked_once_witness:
  "filter (\<lambda>g. oc_job g = ''j'') (posted (unsub_run lost_commit refused_world)) = []"
proof -
  have "script_ok (keeps_row ''j'') refused_world" "own ''j'' (wdb refused_world) = [label_demo_job\<lparr>jo_status := JobFailed\<rparr>]"
    by (simp_all add: script_ok_def refused_world_def unsub_demo_world_def label_demo_world_def own_def label_demo_job_def)
  from unsub_asked_once [OF this, of lost_commit] show ?thesis
    by (simp add: refused_world_def unsub_demo_world_def label_demo_world_def)
qed

end
