(* ===== verification/Unsub_Outcome.thy ===== *)
theory Unsub_Outcome
  imports Unsub_Honest
begin

text \<open>
  What an undisturbed delivery of the unsubscribe job records of each answer, which message supplies
  the URL, and what the consumer makes of the two unsubscribe events.
\<close>

subsection \<open>An undisturbed delivery\<close>

lemma calm_posted [simp]: "calm_world (w\<lparr>posted := l\<rparr>) = calm_world w" "calm_world (w\<lparr>https := h\<rparr>) = calm_world w"
  by (simp_all add: calm_world_def)

definition outcome_of :: "nat \<Rightarrow> string option \<Rightarrow> exec_outcome" where
  \<comment> \<open>what an answer means to the user\<close>
  "outcome_of n mailto =
     (if n div 100 = 2 then EndpointAccepted
      else if n div 100 = 3 then Unconfirmed
      else case mailto of Some (_ # _) \<Rightarrow> ActionRequired | _ \<Rightarrow> ExecFailed)"

fun outcome_code :: "exec_outcome \<Rightarrow> string option" where
  "outcome_code EndpointAccepted = None"
| "outcome_code Unconfirmed = Some unsub_ambiguous_code"
| "outcome_code ActionRequired = Some unsub_manual_code"
| "outcome_code ExecFailed = Some ''UNSUB_TARGET_REJECTED''"

lemma classify_outcome:
  "classify_response n mailto =
     \<lparr>out_outcome = outcome_of n mailto, out_status = Some n, out_code = outcome_code (outcome_of n mailto)\<rparr>"
proof -
  have "n div 100 = 2 \<longleftrightarrow> 200 \<le> n \<and> n < 300" "n div 100 = 3 \<longleftrightarrow> 300 \<le> n \<and> n < 400" by (auto simp: div_range)
  then show ?thesis by (auto simp: classify_response_def outcome_of_def split: option.split list.split)
qed

lemma calm_outcome:
  assumes "calm_world w"
  shows "\<exists>aid w'. recordOutcome p jid mb k r w = (Ok \<lparr>ur_outcome = out_outcome r, ur_status = out_status r, ur_already = False\<rparr>, w') \<and>
    wdb w' = outcome_tx aid p jid mb k r (db_now (wdb w)) (wdb w) \<and> posted w' = posted w"
  using assms
  by (auto simp: recordOutcome_def bindw_def clock_def fresh_id_def returnw_def calm_world_exec)

lemma calm_unsub_send:
  assumes "calm_world w" "https w = HttpStatus n # h"
  shows "\<exists>aid w' g. send_post p attempt j url mailto t w =
      (Ok \<lparr>ur_outcome = outcome_of n mailto, ur_status = Some n, ur_already = False\<rparr>, w') \<and>
    wdb w' = outcome_tx aid p (jo_id j) (jo_mailbox j) (jo_sender_key j) (classify_response n mailto) (db_now (wdb w)) (wdb w) \<and>
    posted w' = posted w @ [g] \<and> oc_job g = jo_id j \<and> oc_url g = url \<and> oc_address g = fst t \<and> oc_status g = Some n"
proof -
  let ?prot = "\<lambda>d. protectedSender d (jo_mailbox j) (jo_sender_key j)"
  define w1 where "w1 = record_post (post_entry (jo_id j) ?prot url t (Some n) (wdb w)) (w\<lparr>https := h\<rparr>)"
  have post: "tryw (postOneClick (jo_id j) ?prot url t) w = (Ok (Inr n), w1)"
    using assms(2) by (simp add: tryw_def catchw_def bindw_def postOneClick_def returnw_def w1_def Let_def)
  have "calm_world w1" "wdb w1 = wdb w" using assms(1) by (simp_all add: w1_def record_post_def)
  from calm_outcome [OF this(1), of p "jo_id j" "jo_mailbox j" "jo_sender_key j" "classify_response n mailto"] this(2)
  obtain aid w' where "recordOutcome p (jo_id j) (jo_mailbox j) (jo_sender_key j) (classify_response n mailto) w1 =
      (Ok \<lparr>ur_outcome = outcome_of n mailto, ur_status = Some n, ur_already = False\<rparr>, w')"
    "wdb w' = outcome_tx aid p (jo_id j) (jo_mailbox j) (jo_sender_key j) (classify_response n mailto) (db_now (wdb w)) (wdb w)"
    "posted w' = posted w1"
    by (auto simp: classify_outcome)
  then show ?thesis
    using post by (auto simp: send_post_def bindw_def w1_def record_post_def)
qed

lemma own_outcome:
  assumes "own jid d = [j]"
  shows "own jid (outcome_tx aid p jid mb k r t d) =
    [j\<lparr>jo_status := (if out_outcome r = EndpointAccepted then JobDone else JobFailed), jo_error := out_code r,
       jo_affected := (if out_outcome r = EndpointAccepted then 1 else 0)\<rparr>]"
proof -
  let ?f = "\<lambda>j. j\<lparr>jo_status := (if out_outcome r = EndpointAccepted then JobDone else JobFailed), jo_error := out_code r,
       jo_affected := (if out_outcome r = EndpointAccepted then 1 else 0)\<rparr>"
  have "own jid (outcome_tx aid p jid mb k r t d) = own jid (update_job jid ?f d)"
    by (simp add: own_def outcome_tx_def Let_def)
  also have "\<dots> = [?f j]" by (rule own_update_job [OF assms]) simp
  finally show ?thesis .
qed

lemma set_unsub_policies:
  assumes "x \<in> set (policies (set_unsub mb k (\<lambda>_. True) s d))" "po_mailbox x = mb" "po_key x = k"
  shows "po_unsub x = Some s"
proof -
  have "x \<in> (\<lambda>y. if po_mailbox y = mb \<and> po_key y = k then y\<lparr>po_unsub := Some s\<rparr> else y) ` set (policies d)"
    using assms(1) by (simp add: set_unsub_def update_where_def)
  then obtain y where "x = (if po_mailbox y = mb \<and> po_key y = k then y\<lparr>po_unsub := Some s\<rparr> else y)" by blast
  with assms(2,3) show ?thesis by (cases "po_mailbox y = mb \<and> po_key y = k") auto
qed

lemma outcome_policies:
  "x \<in> set (policies (outcome_tx aid p jid mb k r t d)) \<Longrightarrow> po_mailbox x = mb \<Longrightarrow> po_key x = k \<Longrightarrow>
     po_unsub x = Some (outcome_status (out_outcome r))"
  by (rule set_unsub_policies) (simp_all add: outcome_tx_def Let_def)

text \<open>The way to the request, when nothing fails and nobody else writes.\<close>

definition ready_to_send :: "unsub_env \<Rightarrow> unsub_job_data \<Rightarrow> db \<Rightarrow> job_row \<Rightarrow> string \<Rightarrow> string \<times> nat \<Rightarrow> bool" where
  "ready_to_send env p d j url t \<longleftrightarrow>
     own (uj_action p) d = [j] \<and> jo_verb j = VUnsubscribe \<and> jo_selector j = BySender \<and>
     (jo_status j = Queued \<or> jo_status j = Executing) \<and>
     (protectedSender d (jo_mailbox j) (jo_sender_key j) \<longrightarrow> uj_confirmed p \<or> jo_status j = Executing) \<and>
     (case unsub_sender j d of None \<Rightarrow> False | Some s \<Rightarrow> se_unsub s = Some OneClick \<and>
        or_null (newest_one_click (jo_mailbox j) (jo_sender_key j) d) (se_unsub_url s) = Some url) \<and>
     url \<noteq> '''' \<and> unsubSendsEnabled env \<and> validateTarget env url = Inr t"

lemma calm_unsub_ready:
  assumes "calm_world w" "ready_to_send env p (wdb w) j url t"
  shows "\<exists>js. processUnsub env p attempt w =
      send_post p attempt j url (newest_mailto (jo_mailbox j) (jo_sender_key j) (wdb w)) t (w\<lparr>wdb := (wdb w)\<lparr>jobs := js\<rparr>\<rparr>) \<and>
    own (uj_action p) ((wdb w)\<lparr>jobs := js\<rparr>) = [j\<lparr>jo_status := Executing\<rparr>]"
proof -
  define recheck where "recheck \<longleftrightarrow> jo_status j \<noteq> Executing \<and> \<not> uj_confirmed p"
  note r = assms(2) [unfolded ready_to_send_def]
  have own: "own (uj_action p) (wdb w) = [j]" and jid: "jo_id j = uj_action p" using r own_id by blast+
  have safe: "recheck \<Longrightarrow> \<not> protectedSender (wdb w) (jo_mailbox j) (jo_sender_key j)" using r by (auto simp: recheck_def)
  have find: "List.find (\<lambda>j. jo_id j = uj_action p) (jobs (wdb w)) = Some j"
  proof (rule find_unique)
    have only: "set (own (uj_action p) (wdb w)) = {j}" using own by simp
    then show "j \<in> set (jobs (wdb w))" by (auto simp: own_def)
    show "jo_id j = uj_action p" by (rule jid)
    show "x = j" if "x \<in> set (jobs (wdb w))" "jo_id x = uj_action p" for x
      using only that by (auto simp: own_def)
  qed
  have policy: "\<not> (case policy_of (wdb w) (jo_mailbox j) (jo_sender_key j) of None \<Rightarrow> False | Some x \<Rightarrow> po_protected x)" if recheck
    using safe [OF that] by (auto simp: policy_of_def protectedSender_def list_ex_iff find_Some_iff split: option.splits)
  obtain s where s: "unsub_sender j (wdb w) = Some s" "se_unsub s = Some OneClick"
      "or_null (newest_one_click (jo_mailbox j) (jo_sender_key j) (wdb w)) (se_unsub_url s) = Some url"
    using r by (auto split: option.splits)
  let ?js = "update_where (may_mark (jo_id j) (jo_mailbox j) (jo_sender_key j) recheck (wdb w))
      (\<lambda>j. j\<lparr>jo_status := Executing\<rparr>) (jobs (wdb w))"
  have may: "may_mark (jo_id j) (jo_mailbox j) (jo_sender_key j) recheck (wdb w) j" using safe by (simp add: may_mark_def)
  then have mark: "mark_unsub (jo_id j) (jo_mailbox j) (jo_sender_key j) recheck (wdb w) = Inr (True, (wdb w)\<lparr>jobs := ?js\<rparr>)"
    using find by (auto simp: mark_unsub_def list_ex_iff find_Some_iff)
  have "processUnsub env p attempt w =
      send_post p attempt j url (newest_mailto (jo_mailbox j) (jo_sender_key j) (wdb w)) t (w\<lparr>wdb := (wdb w)\<lparr>jobs := ?js\<rparr>\<rparr>)"
    using r s mark policy assms(1)
    by (auto simp: processUnsub_def bindw_def find guard_unsub_def Let_def recheck_def [symmetric] calm_world_query run_unsub_def
        resolveChannels_def returnw_def one_click_target_def mark_and_send_def calm_world_stmt)
  moreover have "own (uj_action p) ((wdb w)\<lparr>jobs := ?js\<rparr>) = [j\<lparr>jo_status := Executing\<rparr>]"
    using own_update [of "(wdb w)\<lparr>jobs := ?js\<rparr>" _ _ "wdb w", OF _ own] may jid by simp
  ultimately show ?thesis by blast
qed

text \<open>
  C14: the answer is what is recorded. An undisturbed delivery of a one-click job that may go out
  sends one POST, to the chosen URL at the validated address, and leaves, for every status the
  endpoint can give: the job done with one sender affected exactly on 2xx and failed with the
  answer's code otherwise, the sender's chip, one Activity row and one event of the same outcome (3xx
  unconfirmed, a refusal a manual step when the sender has a mail address to write to).
\<close>

theorem unsub_outcome_recorded:
  assumes "calm_world w" "https w = HttpStatus n # h" "ready_to_send env p (wdb w) j url t"
  defines "out \<equiv> outcome_of n (newest_mailto (jo_mailbox j) (jo_sender_key j) (wdb w))"
  shows "\<exists>w' g a. processUnsub env p attempt w = (Ok \<lparr>ur_outcome = out, ur_status = Some n, ur_already = False\<rparr>, w') \<and>
    posted w' = posted w @ [g] \<and> oc_url g = url \<and> oc_address g = fst t \<and>
    own (uj_action p) (wdb w') = [j\<lparr>jo_status := (if out = EndpointAccepted then JobDone else JobFailed),
      jo_error := outcome_code out, jo_affected := (if out = EndpointAccepted then 1 else 0)\<rparr>] \<and>
    (\<forall>x \<in> set (policies (wdb w')). po_mailbox x = jo_mailbox j \<and> po_key x = jo_sender_key j \<longrightarrow> po_unsub x = Some (outcome_status out)) \<and>
    activity (wdb w') = activity (wdb w) @ [a] \<and> ac_job a = Some (uj_action p) \<and> ac_action a = outcome_activity out \<and> ac_affected a = 0 \<and>
    outbox (wdb w') = outbox (wdb w) @
      [UnsubscribeExecuted (jo_mailbox j) (jo_sender_key j) (uj_action p) out (Some n) (db_now (wdb w))]"
proof -
  let ?mailto = "newest_mailto (jo_mailbox j) (jo_sender_key j) (wdb w)"
  have jid: "jo_id j = uj_action p" using assms(3) own_id unfolding ready_to_send_def by blast
  obtain js where run: "processUnsub env p attempt w =
        send_post p attempt j url ?mailto t (w\<lparr>wdb := (wdb w)\<lparr>jobs := js\<rparr>\<rparr>)"
      and own: "own (uj_action p) ((wdb w)\<lparr>jobs := js\<rparr>) = [j\<lparr>jo_status := Executing\<rparr>]"
    using calm_unsub_ready [OF assms(1,3)] by blast
  let ?d = "(wdb w)\<lparr>jobs := js\<rparr>"
  have "calm_world (w\<lparr>wdb := ?d\<rparr>)" "https (w\<lparr>wdb := ?d\<rparr>) = HttpStatus n # h" using assms(1,2) by simp_all
  from calm_unsub_send [OF this] obtain aid w' g where
    ret: "processUnsub env p attempt w = (Ok \<lparr>ur_outcome = out, ur_status = Some n, ur_already = False\<rparr>, w')"
    and db: "wdb w' = outcome_tx aid p (jo_id j) (jo_mailbox j) (jo_sender_key j) (classify_response n ?mailto) (db_now (wdb w)) ?d"
    and sent: "posted w' = posted w @ [g]" "oc_url g = url" "oc_address g = fst t"
    unfolding run out_def [THEN meta_eq_to_obj_eq] by fastforce
  have out: "out_outcome (classify_response n ?mailto) = out" "out_code (classify_response n ?mailto) = outcome_code out"
    "out_status (classify_response n ?mailto) = Some n"
    by (simp_all add: classify_outcome out_def)
  have rows: "own (uj_action p) (wdb w') = [j\<lparr>jo_status := (if out = EndpointAccepted then JobDone else JobFailed),
      jo_error := outcome_code out, jo_affected := (if out = EndpointAccepted then 1 else 0)\<rparr>]"
    unfolding db jid own_outcome [OF own] out by simp
  have chip: "po_unsub x = Some (outcome_status out)"
    if "x \<in> set (policies (wdb w'))" "po_mailbox x = jo_mailbox j" "po_key x = jo_sender_key j" for x
    using outcome_policies [OF that(1) [unfolded db] that(2,3)] by (simp only: out)
  show ?thesis
    using ret sent rows chip
    by (auto simp: db outcome_tx_def Let_def out jid update_job_def unsub_activity_def)
qed

theorem unsub_outcome_recorded_witness:
  "\<exists>w'. processUnsub unsub_demo_env unsub_demo_payload 1 (unsub_demo_world [HttpStatus 404]) =
      (Ok \<lparr>ur_outcome = ActionRequired, ur_status = Some 404, ur_already = False\<rparr>, w') \<and>
    map oc_url (posted w') = [''new''] \<and> map oc_address (posted w') = [''93.184.216.34''] \<and>
    map jo_error (own ''j'' (wdb w')) = [Some unsub_manual_code]"
proof -
  have "validateTarget unsub_demo_env ''new'' = Inr (''93.184.216.34'', 4)" by code_simp
  then have ready: "ready_to_send unsub_demo_env unsub_demo_payload (wdb (unsub_demo_world [HttpStatus 404]))
      (label_demo_job\<lparr>jo_verb := VUnsubscribe, jo_ids := []\<rparr>) ''new'' (''93.184.216.34'', 4)"
    by (simp add: ready_to_send_def unsub_demo_world_def unsub_demo_payload_def unsub_demo_db_def own_def label_demo_job_def
        label_demo_db_def protectedSender_def unsub_sender_def or_null_def newest_one_click_def sender_mail_def label_demo_mail_def
        newer_mail_def unsubSendsEnabled_def unsub_demo_env_def)
  have calm: "calm_world (unsub_demo_world [HttpStatus 404])" "https (unsub_demo_world [HttpStatus 404]) = HttpStatus 404 # []"
    by (simp_all add: calm_world_def unsub_demo_world_def label_demo_world_def)
  have "outcome_of 404 (newest_mailto ''m'' ''k'' unsub_demo_db) = ActionRequired" by code_simp
  with unsub_outcome_recorded [OF calm ready, of 1] show ?thesis
    by (auto simp: unsub_demo_world_def unsub_demo_payload_def label_demo_job_def label_demo_world_def)
qed

end
