(* ===== verification/Keep_Decision.thy ===== *)
theory Keep_Decision
  imports Match_Review Unsub_Outcome
begin

text \<open>
  The user's Keep: recorded by the actions service (\<^verbatim>\<open>recordKeepIntent\<close>), projected into the
  sender's policy by the outbox consumer (\<^verbatim>\<open>handleTriageVerdictApplied\<close>), taken back by the senders
  service (\<^verbatim>\<open>undoKeep\<close>). The projection and Undo are transactions under one advisory lock of the
  mailbox, so each is one step on the store; \<open>busy\<close> says that the wait for the lock timed out.
\<close>

subsection \<open>Recording\<close>

datatype keep_error = SenderNotFound | ProtectedSenderConflict | ActionStillRunning

definition triage_decided_window_days :: int where
  "triage_decided_window_days = 7"

definition sender_key_of :: "ident \<Rightarrow> ident \<Rightarrow> db \<Rightarrow> string option" where
  \<comment> \<open>\<open>resolveSenderKey\<close>\<close>
  "sender_key_of mb sid d = map_option se_key (List.find (\<lambda>s. se_id s = sid \<and> se_mailbox s = mb) (senders d))"

definition keep_row :: "ident \<Rightarrow> string \<Rightarrow> activity_row \<Rightarrow> bool" where
  "keep_row mb k a \<longleftrightarrow> ac_mailbox a = mb \<and> ac_key a = k \<and> ac_action a = ''keep''"

fun newest_act :: "activity_row list \<Rightarrow> activity_row option" where
  \<comment> \<open>\<open>order by occurred_at desc limit 1\<close>; of two equal times the first stored\<close>
  "newest_act [] = None"
| "newest_act (a # as) = (case newest_act as of None \<Rightarrow> Some a | Some b \<Rightarrow> if ac_at a < ac_at b then Some b else Some a)"

record keep_intent_result =
  ki_sender :: ident
  ki_recorded :: millis
  ki_activity :: ident

definition standing_keep :: "ident \<Rightarrow> string \<Rightarrow> db \<Rightarrow> activity_row option" where
  \<comment> \<open>an unreverted Keep inside the decided window\<close>
  "standing_keep mb k d =
     newest_act (filter (\<lambda>a. keep_row mb k a \<and> ac_reverted a = None \<and>
       db_now d - triage_decided_window_days * day_ms \<le> ac_at a) (activity d))"

definition recordKeepIntent :: "ident \<Rightarrow> ident \<Rightarrow> ident \<Rightarrow> db \<Rightarrow> keep_error + (keep_intent_result \<times> db)" where
  \<comment> \<open>\<open>aid\<close>: the id the insert draws\<close>
  "recordKeepIntent aid mb sid d =
     (case sender_key_of mb sid d of
        None \<Rightarrow> Inl SenderNotFound
      | Some k \<Rightarrow>
          (case standing_keep mb k d of
             Some a \<Rightarrow> Inr (\<lparr>ki_sender = sid, ki_recorded = ac_at a, ki_activity = ac_id a\<rparr>, d)
           | None \<Rightarrow>
               Inr (\<lparr>ki_sender = sid, ki_recorded = db_now d, ki_activity = aid\<rparr>,
                    d\<lparr>activity := activity d @ [policy_audit aid mb k ''keep'' (db_now d)],
                      outbox := outbox d @ [VerdictApplied mb k ''keep'']\<rparr>)))"

subsection \<open>Projecting\<close>

definition projectKeep :: "ident \<Rightarrow> string \<Rightarrow> db \<Rightarrow> db" where
  "projectKeep mb k d =
     (let undone = (case newest_act (filter (keep_row mb k) (activity d)) of
                      None \<Rightarrow> False | Some a \<Rightarrow> ac_reverted a \<noteq> None)
      in if undone then d
         else if list_ex (\<lambda>p. po_mailbox p = mb \<and> po_key p = k) (policies d)
         then d\<lparr>policies := update_where (\<lambda>p. po_mailbox p = mb \<and> po_key p = k) (\<lambda>p. p\<lparr>po_type := Some PolKeep\<rparr>)
                  (policies d)\<rparr>
         else d\<lparr>policies := policies d @ [new_policy mb k \<lparr>pa_policy = Some PolKeep, pa_protected = None\<rparr> (db_now d)]\<rparr>)"

definition mailbox_action_lock_attempts :: nat where
  "mailbox_action_lock_attempts = 2"

definition handleTriageVerdictApplied :: "bool list \<Rightarrow> ident \<Rightarrow> string \<Rightarrow> string \<Rightarrow> db \<Rightarrow> worker_error + db" where
  \<comment> \<open>\<open>busy\<close>: which attempts time out waiting for the lock\<close>
  "handleTriageVerdictApplied busy mb k vd d =
     (if vd \<noteq> ''keep'' then Inr d
      else if list_ex Not (take mailbox_action_lock_attempts (busy @ [False, False])) then Inr (projectKeep mb k d)
      else Inl TransientError)"

fun route_event :: "bool list \<Rightarrow> outbox_event \<Rightarrow> db \<Rightarrow> worker_error + db" where
  \<comment> \<open>\<open>outboxConsumerRouter\<close>, the topics that write a sender's policy\<close>
  "route_event busy (UnsubscribeIntentRecorded mb k aid t method) d = Inr (handleUnsubscribeIntentRecorded mb k method d)"
| "route_event busy (VerdictApplied mb k vd) d = handleTriageVerdictApplied busy mb k vd d"
| "route_event busy (UnsubscribeExecuted mb k aid out st t) d = Inr (handleUnsubscribeExecuted mb k out d)"
| "route_event busy _ d = Inr d"

subsection \<open>Taking back\<close>

record sender_policy_result =
  sp_sender :: ident
  sp_type :: "policy_type option"
  sp_protected :: bool
  sp_reason :: "protection_reason option"
  sp_protected_at :: "millis option"
  sp_changed :: bool

definition projectResult :: "ident \<Rightarrow> policy_row option \<Rightarrow> bool \<Rightarrow> sender_policy_result" where
  "projectResult sid row changed =
     (case row of
        None \<Rightarrow> \<lparr>sp_sender = sid, sp_type = None, sp_protected = False, sp_reason = None, sp_protected_at = None,
                  sp_changed = changed\<rparr>
      | Some p \<Rightarrow> \<lparr>sp_sender = sid, sp_type = po_type p, sp_protected = po_protected p, sp_reason = po_reason p,
                    sp_protected_at = po_protected_at p, sp_changed = changed\<rparr>)"

definition revert_keeps :: "ident \<Rightarrow> string \<Rightarrow> db \<Rightarrow> db" where
  "revert_keeps mb k d =
     d\<lparr>activity := update_where (\<lambda>a. keep_row mb k a \<and> ac_reverted a = None) (\<lambda>a. a\<lparr>ac_reverted := Some (db_now d)\<rparr>)
         (activity d)\<rparr>"

definition undo_keep_tx :: "ident \<Rightarrow> ident \<Rightarrow> string \<Rightarrow> db \<Rightarrow> keep_error + (sender_policy_result \<times> db)" where
  "undo_keep_tx mb sid k d =
     (let existing = policy_of d mb k;
          kept_now = (Option.bind existing po_type = Some PolKeep);
          reverted = list_ex (\<lambda>a. keep_row mb k a \<and> ac_reverted a = None) (activity d)
      in if kept_now \<and> (case existing of None \<Rightarrow> False | Some p \<Rightarrow> po_protected p) then Inl ProtectedSenderConflict
         else if Option.bind existing po_type \<noteq> None \<and> \<not> kept_now then Inr (projectResult sid existing False, d)
         else if kept_now
         then Inr (projectResult sid (map_option (\<lambda>p. p\<lparr>po_type := None\<rparr>) existing) True,
                   revert_keeps mb k (d\<lparr>policies := update_where (\<lambda>p. po_mailbox p = mb \<and> po_key p = k)
                                          (\<lambda>p. p\<lparr>po_type := None\<rparr>) (policies d)\<rparr>))
         else Inr (projectResult sid existing reverted, revert_keeps mb k d))"

definition undoKeep :: "bool \<Rightarrow> ident \<Rightarrow> ident \<Rightarrow> db \<Rightarrow> keep_error + (sender_policy_result \<times> db)" where
  "undoKeep busy mb sid d =
     (case sender_key_of mb sid d of
        None \<Rightarrow> Inl SenderNotFound
      | Some k \<Rightarrow> if busy then Inl ActionStillRunning else undo_keep_tx mb sid k d)"

subsection \<open>Undone is undone\<close>

lemma newest_act_in: "newest_act as = Some a \<Longrightarrow> a \<in> set as"
  by (induction as) (auto split: option.splits if_splits)

lemma newest_act_None [simp]: "newest_act as = None \<longleftrightarrow> as = []"
  by (cases as) (auto split: option.splits)

definition all_reverted :: "ident \<Rightarrow> string \<Rightarrow> db \<Rightarrow> bool" where
  "all_reverted mb k d \<longleftrightarrow>
     list_ex (keep_row mb k) (activity d) \<and> list_all (\<lambda>a. keep_row mb k a \<longrightarrow> ac_reverted a \<noteq> None) (activity d)"

lemma project_reverted:
  assumes "all_reverted mb k d"
  shows "projectKeep mb k d = d"
proof -
  obtain a where "newest_act (filter (keep_row mb k) (activity d)) = Some a"
    using assms by (cases "newest_act (filter (keep_row mb k) (activity d))")
      (auto simp: all_reverted_def list_ex_iff filter_empty_conv)
  moreover from newest_act_in [OF this] have "ac_reverted a \<noteq> None"
    using assms by (auto simp: all_reverted_def list_all_iff)
  ultimately show ?thesis by (simp add: projectKeep_def)
qed

lemma revert_all:
  assumes "list_ex (keep_row mb k) (activity d)"
  shows "all_reverted mb k (revert_keeps mb k d)"
proof -
  let ?ps = "update_where (\<lambda>a. keep_row mb k a \<and> ac_reverted a = None) (\<lambda>a. a\<lparr>ac_reverted := Some (db_now d)\<rparr>) (activity d)"
  have "list_ex (keep_row mb k) ?ps"
    by (subst list_ex_update) (use assms in \<open>simp_all add: keep_row_def\<close>)
  moreover have "list_all (\<lambda>a. keep_row mb k a \<longrightarrow> ac_reverted a \<noteq> None) ?ps"
    by (auto simp: list_all_iff update_where_def)
  ultimately show ?thesis by (simp add: all_reverted_def revert_keeps_def)
qed

lemma undo_changed:
  assumes "undo_keep_tx mb sid k d = Inr (r, d')" "sp_changed r" "list_ex (keep_row mb k) (activity d)"
  shows "all_reverted mb k d'" "Option.bind (policy_of d' mb k) po_type = None"
proof -
  have find: "policy_of (d\<lparr>policies := update_where (\<lambda>p. po_mailbox p = mb \<and> po_key p = k) (\<lambda>p. p\<lparr>po_type := None\<rparr>) ps\<rparr>) mb k =
      map_option (\<lambda>p. p\<lparr>po_type := None\<rparr>) (List.find (\<lambda>p. po_mailbox p = mb \<and> po_key p = k) ps)" for ps
    unfolding policy_of_def by (induction ps) auto
  have frame: "policy_of (revert_keeps mb k e) mb k = policy_of e mb k" for e
    by (simp add: policy_of_def revert_keeps_def)
  have "projectResult sid x False = r \<Longrightarrow> \<not> sp_changed r" for x by (cases x) (auto simp: projectResult_def)
  with assms(1,2) consider "Option.bind (policy_of d mb k) po_type = Some PolKeep"
      "d' = revert_keeps mb k (d\<lparr>policies := update_where (\<lambda>p. po_mailbox p = mb \<and> po_key p = k) (\<lambda>p. p\<lparr>po_type := None\<rparr>) (policies d)\<rparr>)"
    | "Option.bind (policy_of d mb k) po_type = None" "d' = revert_keeps mb k d"
    unfolding undo_keep_tx_def Let_def by (fastforce split: if_splits)
  then show "all_reverted mb k d'" "Option.bind (policy_of d' mb k) po_type = None"
  proof (atomize (full), cases)
    case 1
    have "all_reverted mb k d'" unfolding 1(2) by (rule revert_all) (simp add: assms(3))
    moreover have "Option.bind (policy_of d' mb k) po_type = None"
      unfolding 1(2) frame find by (cases "List.find (\<lambda>p. po_mailbox p = mb \<and> po_key p = k) (policies d)") simp_all
    ultimately show "all_reverted mb k d' \<and> Option.bind (policy_of d' mb k) po_type = None" ..
  next
    case 2
    then show "all_reverted mb k d' \<and> Option.bind (policy_of d' mb k) po_type = None"
      using revert_all [OF assms(3)] by (simp add: frame)
  qed
qed

fun deliver_all :: "(bool list \<times> outbox_event) list \<Rightarrow> db \<Rightarrow> db" where
  \<comment> \<open>a delivery that throws changes nothing and comes again\<close>
  "deliver_all [] d = d"
| "deliver_all ((busy, e) # es) d = deliver_all es (case route_event busy e d of Inl _ \<Rightarrow> d | Inr d' \<Rightarrow> d')"

text \<open>
  C18: a Keep the user took back never returns. Once \<^verbatim>\<open>undoKeep\<close> has reverted a recorded Keep, no
  number of late or repeated deliveries of that sender's verdict events, whether they get the
  mailbox's lock or not, puts the policy back or changes anything else.
\<close>

theorem keep_stays_undone:
  assumes "sender_key_of mb sid d = Some k" "list_ex (keep_row mb k) (activity d)"
    and "undoKeep False mb sid d = Inr (r, d')" "sp_changed r"
    and "list_all (\<lambda>e. \<exists>v. snd e = VerdictApplied mb k v) es"
  shows "Option.bind (policy_of d' mb k) po_type = None \<and> deliver_all es d' = d'"
proof -
  have "undo_keep_tx mb sid k d = Inr (r, d')" using assms(1,3) by (simp add: undoKeep_def)
  note undone = undo_changed [OF this assms(4,2)]
  have "deliver_all es d' = d'"
    using assms(5) undone(1)
    by (induction es) (auto simp: handleTriageVerdictApplied_def project_reverted split: sum.split)
  with undone(2) show ?thesis by simp
qed

definition keep_demo_db :: db where
  "keep_demo_db = demo_db\<lparr>db_now := 100,
      senders := [\<lparr>se_id = ''s'', se_mailbox = ''m'', se_key = ''k'', se_created = 0, se_first_seen = 0, se_last_seen = 0,
        se_unsub = None, se_name = [], se_email = [], se_unsub_url = None\<rparr>],
      activity := [policy_audit ''a'' ''m'' ''k'' ''keep'' 90],
      policies := [new_policy ''m'' ''k'' \<lparr>pa_policy = Some PolKeep, pa_protected = None\<rparr> 95], outbox := []\<rparr>"

theorem keep_stays_undone_witness:
  "\<exists>d'. map_option snd (case undoKeep False ''m'' ''s'' keep_demo_db of Inl _ \<Rightarrow> None | Inr x \<Rightarrow> Some x) = Some d' \<and>
     Option.bind (policy_of d' ''m'' ''k'') po_type = None \<and>
     deliver_all [([True, False], VerdictApplied ''m'' ''k'' ''keep''), ([], VerdictApplied ''m'' ''k'' ''keep'')] d' = d'"
proof -
  obtain r d' where u: "undoKeep False ''m'' ''s'' keep_demo_db = Inr (r, d')" "sp_changed r"
    by (simp add: keep_demo_db_def undoKeep_def sender_key_of_def undo_keep_tx_def policy_of_def keep_row_def policy_audit_def
        projectResult_def new_policy_def Let_def)
  have "Option.bind (policy_of d' ''m'' ''k'') po_type = None \<and>
      deliver_all [([True, False], VerdictApplied ''m'' ''k'' ''keep''), ([], VerdictApplied ''m'' ''k'' ''keep'')] d' = d'"
    by (rule keep_stays_undone [OF _ _ u]) (simp_all add: keep_demo_db_def sender_key_of_def keep_row_def policy_audit_def)
  with u(1) show ?thesis by simp
qed

subsection \<open>There and back\<close>

lemma newest_act_max: "newest_act as = Some a \<Longrightarrow> x \<in> set as \<Longrightarrow> ac_at x \<le> ac_at a"
  by (induction as arbitrary: a) (auto split: option.splits if_splits)

lemma newest_appended:
  assumes "\<And>x. x \<in> set as \<Longrightarrow> ac_at x < ac_at a"
  shows "newest_act (as @ [a]) = Some a"
proof -
  obtain b where b: "newest_act (as @ [a]) = Some b" by (cases "newest_act (as @ [a])") auto
  have "b = a" using newest_act_in [OF b] newest_act_max [OF b, of a] assms by fastforce
  with b show ?thesis by simp
qed

definition no_earlier_keep :: "ident \<Rightarrow> string \<Rightarrow> db \<Rightarrow> bool" where
  \<comment> \<open>no Keep of the sender stands, and the earlier ones are older than now\<close>
  "no_earlier_keep mb k d \<longleftrightarrow> list_all (\<lambda>a. keep_row mb k a \<longrightarrow> ac_reverted a \<noteq> None \<and> ac_at a < db_now d) (activity d)"

lemma keep_audit_row: "keep_row mb k (policy_audit aid mb k ''keep'' t)"
  by (simp add: keep_row_def policy_audit_def)

lemma retyped_find:
  "List.find (\<lambda>q. po_mailbox q = mb \<and> po_key q = k) (update_where (\<lambda>q. po_mailbox q = mb \<and> po_key q = k) (\<lambda>p. p\<lparr>po_type := v\<rparr>) ps) =
     map_option (\<lambda>p. p\<lparr>po_type := v\<rparr>) (List.find (\<lambda>q. po_mailbox q = mb \<and> po_key q = k) ps)"
  by (induction ps) auto

lemma retyped_twice:
  assumes "list_all (\<lambda>q. m q \<longrightarrow> q = p) ps" "p\<lparr>po_type := None\<rparr> = p" "\<And>q v. m (q\<lparr>po_type := v\<rparr>) = m q"
  shows "update_where m (\<lambda>p. p\<lparr>po_type := None\<rparr>) (update_where m (\<lambda>p. p\<lparr>po_type := v\<rparr>) ps) = ps"
  using assms by (induction ps) auto

lemma keep_recorded:
  fixes d :: db and aid :: ident
  assumes "sender_key_of mb sid d = Some k" "no_earlier_keep mb k d" "policy_of d mb k = Some p"
  defines "row \<equiv> policy_audit aid mb k ''keep'' (db_now d)"
  defines "d1 \<equiv> d\<lparr>activity := activity d @ [row], outbox := outbox d @ [VerdictApplied mb k ''keep'']\<rparr>"
  shows "recordKeepIntent aid mb sid d = Inr (\<lparr>ki_sender = sid, ki_recorded = db_now d, ki_activity = aid\<rparr>, d1)"
    and "projectKeep mb k d1 = d1\<lparr>policies := update_where (\<lambda>q. po_mailbox q = mb \<and> po_key q = k) (\<lambda>p. p\<lparr>po_type := Some PolKeep\<rparr>)
      (policies d)\<rparr>"
proof -
  have row: "keep_row mb k row" "ac_reverted row = None" "ac_at row = db_now d"
    by (simp_all add: row_def keep_audit_row) (simp_all add: policy_audit_def)
  have old: "x \<in> set (activity d) \<Longrightarrow> keep_row mb k x \<Longrightarrow> ac_reverted x \<noteq> None \<and> ac_at x < db_now d" for x
    using assms(2) by (auto simp: no_earlier_keep_def list_all_iff)
  have "standing_keep mb k d = None" using old by (auto simp: standing_keep_def filter_empty_conv)
  then show "recordKeepIntent aid mb sid d = Inr (\<lparr>ki_sender = sid, ki_recorded = db_now d, ki_activity = aid\<rparr>, d1)"
    by (simp add: recordKeepIntent_def assms(1) row_def d1_def)
  have "newest_act (filter (keep_row mb k) (activity d) @ [row]) = Some row"
    by (rule newest_appended) (use old row(3) in auto)
  then have "newest_act (filter (keep_row mb k) (activity d1)) = Some row" by (simp add: row(1) d1_def)
  moreover have "list_ex (\<lambda>q. po_mailbox q = mb \<and> po_key q = k) (policies d1)"
    using assms(3) by (auto simp: policy_of_def d1_def list_ex_iff find_Some_iff)
  ultimately show "projectKeep mb k d1 = d1\<lparr>policies := update_where (\<lambda>q. po_mailbox q = mb \<and> po_key q = k)
      (\<lambda>p. p\<lparr>po_type := Some PolKeep\<rparr>) (policies d)\<rparr>"
    using row(2) by (simp add: projectKeep_def d1_def)
qed


subsection \<open>The two unsubscribe events\<close>

definition chip_is :: "ident \<Rightarrow> string \<Rightarrow> unsub_status \<Rightarrow> db \<Rightarrow> bool" where
  "chip_is mb k s d \<longleftrightarrow>
     list_ex (\<lambda>q. po_mailbox q = mb \<and> po_key q = k) (policies d) \<and>
     list_all (\<lambda>q. po_mailbox q = mb \<and> po_key q = k \<longrightarrow> po_unsub q = Some s) (policies d)"

lemma chip_update:
  assumes "list_ex (\<lambda>q. po_mailbox q = mb \<and> po_key q = k) ps"
    and "\<And>q. po_mailbox (f q) = po_mailbox q \<and> po_key (f q) = po_key q"
    and "\<And>q. q \<in> set ps \<Longrightarrow> po_mailbox q = mb \<Longrightarrow> po_key q = k \<Longrightarrow> po_unsub (f q) = Some s"
  shows "chip_is mb k s (d\<lparr>policies := update_where (\<lambda>q. po_mailbox q = mb \<and> po_key q = k) f ps\<rparr>)"
proof -
  have "list_ex (\<lambda>q. po_mailbox q = mb \<and> po_key q = k) (update_where (\<lambda>q. po_mailbox q = mb \<and> po_key q = k) f ps)"
    by (subst list_ex_update) (use assms(1,2) in simp_all)
  moreover have "list_all (\<lambda>q. po_mailbox q = mb \<and> po_key q = k \<longrightarrow> po_unsub q = Some s)
      (update_where (\<lambda>q. po_mailbox q = mb \<and> po_key q = k) f ps)"
    using assms(2,3) by (auto simp: list_all_iff update_where_def)
  ultimately show ?thesis by (simp add: chip_is_def)
qed

lemma chip_executed: "chip_is mb k (outcome_status out) (handleUnsubscribeExecuted mb k out d)"
proof (cases "list_ex (\<lambda>q. po_mailbox q = mb \<and> po_key q = k) (policies d)")
  case True
  then show ?thesis by (simp add: handleUnsubscribeExecuted_def upsert_unsub_def chip_update)
next
  case False
  then show ?thesis
    by (auto simp: handleUnsubscribeExecuted_def upsert_unsub_def chip_is_def list_ex_iff list_all_iff)
qed

lemma chip_kept:
  assumes "chip_is mb k s d" "s \<noteq> StPending"
  shows "chip_is mb k s (handleUnsubscribeIntentRecorded mb k m d)" "chip_is mb k s (projectKeep mb k d)"
proof -
  have row: "list_ex (\<lambda>q. po_mailbox q = mb \<and> po_key q = k) (policies d)"
    and chip: "q \<in> set (policies d) \<Longrightarrow> po_mailbox q = mb \<Longrightarrow> po_key q = k \<Longrightarrow> po_unsub q = Some s" for q
    using assms(1) by (auto simp: chip_is_def list_all_iff)
  have "intent_over new (Some s) = Some s" for new
    using assms(2) by (auto simp: intent_over_def split: option.split)
  then show "chip_is mb k s (handleUnsubscribeIntentRecorded mb k m d)"
    using row by (simp add: handleUnsubscribeIntentRecorded_def upsert_unsub_def chip_update chip)
  show "chip_is mb k s (projectKeep mb k d)"
    using row assms(1) by (simp add: projectKeep_def Let_def chip_update chip)
qed

definition of_attempt :: "ident \<Rightarrow> string \<Rightarrow> exec_outcome \<Rightarrow> outbox_event \<Rightarrow> bool" where
  \<comment> \<open>the events a sender's one attempt and its Keep verdicts leave in the outbox\<close>
  "of_attempt mb k out e \<longleftrightarrow>
     (case e of UnsubscribeIntentRecorded a b _ _ _ \<Rightarrow> a = mb \<and> b = k
      | UnsubscribeExecuted a b _ r _ _ \<Rightarrow> a = mb \<and> b = k \<and> r = out
      | VerdictApplied a b _ \<Rightarrow> a = mb \<and> b = k
      | _ \<Rightarrow> False)"

lemma chip_step:
  assumes "of_attempt mb k out e" "chip_is mb k (outcome_status out) d \<or> (\<exists>a st t. e = UnsubscribeExecuted mb k a out st t)"
  shows "chip_is mb k (outcome_status out) (case route_event busy e d of Inl _ \<Rightarrow> d | Inr d' \<Rightarrow> d')"
proof -
  have "outcome_status out \<noteq> StPending" by (cases out) simp_all
  note kept = chip_kept [OF _ this]
  show ?thesis
    using assms by (cases e) (auto simp: of_attempt_def kept chip_executed handleTriageVerdictApplied_def)
qed

text \<open>
  C20: the outcome wins in every order. However the intent, the execution's result and Keep verdicts of a
  sender are delivered (reordered, repeated, refused for the lock), once the result was delivered the
  sender's chip shows it: a late or redelivered intent never turns it back to requested.
\<close>

theorem unsub_chip_settles:
  assumes "list_all (\<lambda>e. of_attempt mb k out (snd e)) es"
    and "list_ex (\<lambda>e. \<exists>a st t. snd e = UnsubscribeExecuted mb k a out st t) es"
  shows "chip_is mb k (outcome_status out) (deliver_all es d)"
proof -
  have keep: "chip_is mb k (outcome_status out) (deliver_all es d)"
    if "list_all (\<lambda>e. of_attempt mb k out (snd e)) es" "chip_is mb k (outcome_status out) d" for es d
    using that by (induction es d rule: deliver_all.induct) (auto intro: chip_step)
  show ?thesis
    using assms
  proof (induction es d rule: deliver_all.induct)
    case (2 busy e es d)
    show ?case
    proof (cases "\<exists>a st t. e = UnsubscribeExecuted mb k a out st t")
      case True
      then show ?thesis using 2(2) chip_step [of mb k out e d busy] by (auto intro: keep)
    next
      case False
      with 2 show ?thesis by simp
    qed
  qed simp
qed

theorem unsub_chip_settles_witness:
  "chip_is ''m'' ''k'' StFailed (deliver_all
     [([], UnsubscribeExecuted ''m'' ''k'' ''a'' ExecFailed None 9), ([], UnsubscribeIntentRecorded ''m'' ''k'' ''a'' 5 (Some OneClick)),
      ([True, True], VerdictApplied ''m'' ''k'' ''keep'')] keep_demo_db)"
  using unsub_chip_settles [of "''m''" "''k''" ExecFailed
     "[([], UnsubscribeExecuted ''m'' ''k'' ''a'' ExecFailed None 9), ([], UnsubscribeIntentRecorded ''m'' ''k'' ''a'' 5 (Some OneClick)),
      ([True, True], VerdictApplied ''m'' ''k'' ''keep'')]" keep_demo_db]
  by (simp add: of_attempt_def)



end
