(* ===== verification/Token_Bucket.thy ===== *)
theory Token_Bucket
  imports Prelude
begin

text \<open>
  Metering. Two places of the program spend from a token bucket kept in Redis: the Gmail
  quota of a mailbox (\<^verbatim>\<open>packages/workers/src/gmail-quota-limiter.ts\<close>) and the request limits
  of the API (\<^verbatim>\<open>apps/api/src/common/rate-limit/token-bucket.lua.ts\<close>). This theory has the
  two Lua scripts, the key they keep their hash under with its expiry, and the interface
  both offer their callers: the locale \<open>metered\<close> (what a window of requests may be granted)
  and its extension \<open>metered_wait\<close> (the wait a refusal asks for is enough).

  A script runs alone (Redis executes one at a time), so it is one function of the hash.
  Redis itself is not part of the program. Of its keys the model uses the documented rule
  that a key is never dropped before the deadline \<open>EXPIRE\<close> gave it; whether an overdue key
  is gone already is the parameter \<open>dropped\<close>, an arbitrary predicate of the instant.
\<close>

subsection \<open>The interface\<close>

type_synonym 's meter = "int \<Rightarrow> rat \<Rightarrow> 's \<Rightarrow> 's \<times> bool \<times> int"
  \<comment> \<open>instant, units and state to state, allowed and wait\<close>

fun serve :: "'s meter \<Rightarrow> (int \<times> rat) list \<Rightarrow> 's \<Rightarrow> (int \<times> rat) list \<times> 's" where
  \<comment> \<open>what a sequence of requests is granted\<close>
  "serve m [] s = ([], s)"
| "serve m ((t, u) # rs) s =
     (let (s', allowed, _) = m t u s; (g, s'') = serve m rs s'
      in (if allowed then (t, u) # g else g, s''))"

definition spent :: "(int \<times> rat) list \<Rightarrow> rat" where
  "spent g = sum_list (map snd g)"

fun clocked :: "int \<Rightarrow> (int \<times> rat) list \<Rightarrow> bool" where
  \<comment> \<open>requests of nonnegative cost whose instants never go back\<close>
  "clocked t [] = True"
| "clocked t ((t', u) # rs) = (t \<le> t' \<and> 0 \<le> u \<and> clocked t' rs)"

definition last_at :: "int \<Rightarrow> (int \<times> rat) list \<Rightarrow> int" where
  "last_at t rs = (if rs = [] then t else fst (last rs))"

lemma spent_simps [simp]: "spent [] = 0" "spent ((t, u) # g) = u + spent g"
  by (simp_all add: spent_def)

lemma last_at_Nil [simp]: "last_at t [] = t"
  by (simp add: last_at_def)

lemma last_at_Cons [simp]: "last_at t ((t', u) # rs) = last_at t' rs"
  by (simp add: last_at_def)

lemma clocked_serve:
  "clocked t rs \<Longrightarrow> serve m rs s = (g, s') \<Longrightarrow> (a, u) \<in> set g \<Longrightarrow> t \<le> a"
  by (induction rs arbitrary: t s g) (fastforce split: prod.splits if_splits)+

text \<open>
  A meter with a credit that a grant spends, a refusal leaves alone and time restores at a
  bounded rate.
\<close>

locale metered =
  fixes charge :: "'s meter"
    and credit :: "int \<Rightarrow> 's \<Rightarrow> rat" \<comment> \<open>what may be spent at an instant\<close>
    and ok :: "int \<Rightarrow> 's \<Rightarrow> bool" \<comment> \<open>well formed, and written no later than the instant\<close>
    and cap rate :: rat
  assumes rate_nonneg: "ok t s \<Longrightarrow> 0 \<le> rate"
    and ok_later: "ok t s \<Longrightarrow> t \<le> t' \<Longrightarrow> ok t' s"
    and ok_charge: "ok t s \<Longrightarrow> 0 \<le> u \<Longrightarrow> charge t u s = (s', a, w) \<Longrightarrow> ok t s'"
    and credit_bounds: "ok t s \<Longrightarrow> 0 \<le> credit t s \<and> credit t s \<le> cap"
    and credit_rate: "ok t s \<Longrightarrow> t \<le> t' \<Longrightarrow> credit t' s \<le> credit t s + rate * of_int (t' - t)"
    and granted_iff: "ok t s \<Longrightarrow> 0 \<le> u \<Longrightarrow> charge t u s = (s', a, w) \<Longrightarrow> a \<longleftrightarrow> u \<le> credit t s"
    and charge_credit: "ok t s \<Longrightarrow> 0 \<le> u \<Longrightarrow> charge t u s = (s', a, w) \<Longrightarrow>
      credit t s' = credit t s - (if a then u else 0)"
begin

lemma spent_until:
  "ok t s \<Longrightarrow> clocked t rs \<Longrightarrow> t \<le> t2 \<Longrightarrow> serve charge rs s = (g, s') \<Longrightarrow>
     spent (filter (\<lambda>(a, _). a \<le> t2) g) \<le> credit t s + rate * of_int (t2 - t)"
proof (induction rs arbitrary: t s g)
  case Nil
  then show ?case using credit_bounds rate_nonneg by (simp add: add_nonneg_nonneg)
next
  case (Cons r rs)
  obtain t1 u where r: "r = (t1, u)" by (cases r)
  with Cons.prems have t: "t \<le> t1" "0 \<le> u" "clocked t1 rs" by simp_all
  with Cons.prems have ok1: "ok t1 s" by (blast intro: ok_later)
  obtain s1 a w where c: "charge t1 u s = (s1, a, w)" by (cases "charge t1 u s")
  obtain h where h: "serve charge rs s1 = (h, s')" and g: "g = (if a then (t1, u) # h else h)"
    using Cons.prems(4) by (auto simp: r c split: prod.splits)
  show ?case
  proof (cases "t1 \<le> t2")
    case True
    from Cons.IH [OF ok_charge [OF ok1 t(2) c] t(3) True h]
    have "spent (filter (\<lambda>(a, _). a \<le> t2) h) \<le> credit t1 s1 + rate * of_int (t2 - t1)" .
    moreover have "credit t1 s1 = credit t1 s - (if a then u else 0)"
      by (rule charge_credit [OF ok1 t(2) c])
    moreover have "credit t1 s \<le> credit t s + rate * of_int (t1 - t)"
      by (rule credit_rate [OF Cons.prems(1) t(1)])
    moreover have "rate * of_int (t2 - t1) + rate * of_int (t1 - t) = rate * of_int (t2 - t)"
      by (simp add: algebra_simps)
    ultimately show ?thesis using True by (simp add: g split: if_splits)
  next
    case False
    with clocked_serve [OF t(3) h] have "filter (\<lambda>(a, _). a \<le> t2) g = []"
      by (force simp: g filter_empty_conv split: if_splits)
    with Cons.prems credit_bounds rate_nonneg show ?thesis by (simp add: add_nonneg_nonneg)
  qed
qed

text \<open>Between any two instants a run of requests is granted at most a full bucket and the refill.\<close>

lemma window_bound:
  "ok t s \<Longrightarrow> clocked t rs \<Longrightarrow> t1 \<le> t2 \<Longrightarrow> serve charge rs s = (g, s') \<Longrightarrow>
     spent (filter (\<lambda>(a, _). t1 \<le> a \<and> a \<le> t2) g) \<le> cap + rate * of_int (t2 - t1)"
proof (induction rs arbitrary: t s g)
  case Nil
  then show ?case using credit_bounds [of t s] rate_nonneg by (simp add: add_nonneg_nonneg)
next
  case (Cons r rs)
  obtain t0 u where r: "r = (t0, u)" by (cases r)
  with Cons.prems have t: "t \<le> t0" "0 \<le> u" "clocked t0 rs" by simp_all
  with Cons.prems have ok0: "ok t0 s" by (blast intro: ok_later)
  obtain s1 a w where c: "charge t0 u s = (s1, a, w)" by (cases "charge t0 u s")
  obtain h where h: "serve charge rs s1 = (h, s')" and g: "g = (if a then (t0, u) # h else h)"
    using Cons.prems(4) by (auto simp: r c split: prod.splits)
  show ?case
  proof (cases "t1 \<le> t0")
    case False
    with Cons.IH [OF ok_charge [OF ok0 t(2) c] t(3) Cons.prems(3) h] show ?thesis by (simp add: g)
  next
    case late: True
    have clk: "clocked t0 (r # rs)" using t by (simp add: r)
    from clocked_serve [OF this Cons.prems(4)] late
    have "filter (\<lambda>(a, _). t1 \<le> a \<and> a \<le> t2) g = filter (\<lambda>(a, _). a \<le> t2) g"
      by (intro filter_cong) fastforce+
    moreover have "spent (filter (\<lambda>(a, _). a \<le> t2) g) \<le> cap + rate * of_int (t2 - t1)"
    proof (cases "t0 \<le> t2")
      case True
      from spent_until [OF ok0 clk True Cons.prems(4)]
      have "spent (filter (\<lambda>(a, _). a \<le> t2) g) \<le> credit t0 s + rate * of_int (t2 - t0)" .
      moreover have "rate * of_int (t2 - t0) \<le> rate * of_int (t2 - t1)"
        using late rate_nonneg [OF ok0] by (intro mult_left_mono) simp_all
      ultimately show ?thesis using credit_bounds [OF ok0] by linarith
    next
      case False
      with clocked_serve [OF clk Cons.prems(4)] have "filter (\<lambda>(a, _). a \<le> t2) g = []"
        by (force simp: filter_empty_conv)
      with Cons.prems credit_bounds [OF ok0] rate_nonneg [OF ok0] show ?thesis
        by (simp add: add_nonneg_nonneg)
    qed
    ultimately show ?thesis by simp
  qed
qed

end

text \<open>A meter whose refusal names a wait after which the same request is granted.\<close>

locale metered_wait = metered +
  assumes wait_enough: "ok t s \<Longrightarrow> 0 \<le> u \<Longrightarrow> u \<le> cap \<Longrightarrow> charge t u s = (s', False, w) \<Longrightarrow>
    0 < w \<and> (\<forall>d \<ge> 0. u \<le> credit (t + w + d) s')"
begin

lemma granted_after_wait:
  assumes "ok t s" "0 \<le> u" "u \<le> cap" "charge t u s = (s', False, w)" "0 \<le> d"
    and "charge (t + w + d) u s' = (s'', a, w')"
  shows a
proof -
  from wait_enough [OF assms(1-4)] assms(5) have "0 < w" "u \<le> credit (t + w + d) s'" by auto
  moreover from this assms have "ok (t + w + d) s'"
    by (auto intro: ok_later ok_charge)
  ultimately show ?thesis using assms granted_iff by blast
qed

end

subsection \<open>The hash and its key\<close>

record bucket =
  tokens :: rat
  last_ms :: int

record key_entry =
  ke_bucket :: bucket
  ke_deadline :: int \<comment> \<open>set by \<open>EXPIRE\<close>, in milliseconds\<close>

definition hmget :: "(int \<Rightarrow> bool) \<Rightarrow> int \<Rightarrow> key_entry option \<Rightarrow> bucket option" where
  \<comment> \<open>\<open>HMGET\<close> at an instant: an overdue key may be gone\<close>
  "hmget dropped now e =
     (case e of None \<Rightarrow> None
      | Some k \<Rightarrow> if ke_deadline k \<le> now \<and> dropped now then None else Some (ke_bucket k))"

definition hmset_expire :: "int \<Rightarrow> int \<Rightarrow> bucket \<Rightarrow> key_entry" where
  \<comment> \<open>\<open>HMSET\<close> and \<open>EXPIRE\<close> with the time to live in seconds\<close>
  "hmset_expire now ttl_sec b = \<lparr>ke_bucket = b, ke_deadline = now + 1000 * ttl_sec\<rparr>"

subsection \<open>The scripts\<close>

definition refilled :: "rat \<Rightarrow> int \<Rightarrow> bucket option \<Rightarrow> (int \<Rightarrow> rat) \<Rightarrow> rat" where
  \<comment> \<open>the level the scripts compute first: a missing hash is full, time going back earns
      nothing, and a bucket never holds more than its capacity\<close>
  "refilled capacity now_ms b earned =
     (let (toks, last) = (case b of None \<Rightarrow> (capacity, now_ms) | Some k \<Rightarrow> (tokens k, last_ms k));
          elapsed_ms = now_ms - last;
          elapsed_ms = (if elapsed_ms < 0 then 0 else elapsed_ms)
      in min capacity (toks + earned elapsed_ms))"

definition gmail_quota_script :: "rat \<Rightarrow> rat \<Rightarrow> int \<Rightarrow> rat \<Rightarrow> bucket option \<Rightarrow> bucket \<times> bool \<times> int" where
  "gmail_quota_script capacity refill_per_ms now_ms units b =
     (let toks = refilled capacity now_ms b (\<lambda>e. of_int e * refill_per_ms)
      in if units \<le> toks then (\<lparr>tokens = toks - units, last_ms = now_ms\<rparr>, True, 0)
         else (let wait_ms = \<lceil>(units - toks) / refill_per_ms\<rceil>
               in (\<lparr>tokens = toks, last_ms = now_ms\<rparr>, False, if wait_ms < 1 then 1 else wait_ms)))"

definition token_bucket_script :: "rat \<Rightarrow> rat \<Rightarrow> int \<Rightarrow> bucket option \<Rightarrow> bucket \<times> bool \<times> int \<times> int" where
  \<comment> \<open>one token; allowed, whole tokens left, seconds to wait\<close>
  "token_bucket_script capacity refill_per_sec now_ms b =
     (let toks = refilled capacity now_ms b (\<lambda>e. of_int e / 1000 * refill_per_sec)
      in if 1 \<le> toks
         then (\<lparr>tokens = toks - 1, last_ms = now_ms\<rparr>, True, \<lfloor>toks - 1\<rfloor>, 0)
         else (let retry = \<lceil>(1 - toks) / refill_per_sec\<rceil>
               in (\<lparr>tokens = toks, last_ms = now_ms\<rparr>, False, \<lfloor>toks\<rfloor>, if retry < 1 then 1 else retry)))"

text \<open>The request limit is the Gmail script at one unit, its rate given per second.\<close>

lemma token_bucket_script_alt:
  "token_bucket_script capacity rps now b =
     (case gmail_quota_script capacity (rps / 1000) now 1 b of
        (k, a, _) \<Rightarrow>
          (k, a, \<lfloor>tokens k\<rfloor>, if a then 0 else max 1 \<lceil>(1 - tokens k) / rps\<rceil>))"
  by (simp add: token_bucket_script_def gmail_quota_script_def Let_def max_def)

subsection \<open>A bucket under a key meters\<close>

definition keyed_charge :: "(int \<Rightarrow> bool) \<Rightarrow> rat \<Rightarrow> rat \<Rightarrow> int \<Rightarrow> key_entry option meter" where
  \<comment> \<open>one evaluation of the script: read the hash, decide, write it back with a new deadline\<close>
  "keyed_charge dropped capacity refill_per_ms ttl_sec now units e =
     (let (b, allowed, wait) = gmail_quota_script capacity refill_per_ms now units (hmget dropped now e)
      in (Some (hmset_expire now ttl_sec b), allowed, wait))"

fun bucket_level :: "rat \<Rightarrow> rat \<Rightarrow> int \<Rightarrow> key_entry option \<Rightarrow> rat" where
  "bucket_level capacity rate t None = capacity"
| "bucket_level capacity rate t (Some k) =
     min capacity (tokens (ke_bucket k) + rate * of_int (t - last_ms (ke_bucket k)))"

fun bucket_ok :: "rat \<Rightarrow> rat \<Rightarrow> int \<Rightarrow> int \<Rightarrow> key_entry option \<Rightarrow> bool" where
  \<comment> \<open>the bucket refills before its key may be dropped\<close>
  "bucket_ok capacity rate ttl_sec t e \<longleftrightarrow>
     0 < rate \<and> 0 \<le> capacity \<and> capacity \<le> rate * of_int (1000 * ttl_sec) \<and>
     (case e of None \<Rightarrow> True
      | Some k \<Rightarrow> 0 \<le> tokens (ke_bucket k) \<and> tokens (ke_bucket k) \<le> capacity \<and>
          last_ms (ke_bucket k) \<le> t \<and> ke_deadline k = last_ms (ke_bucket k) + 1000 * ttl_sec)"

lemma refilled_level:
  assumes "bucket_ok capacity rate ttl t e"
  shows "refilled capacity t (hmget dropped t e) (\<lambda>d. of_int d * rate) = bucket_level capacity rate t e"
proof (cases e)
  case None
  then show ?thesis using assms by (simp add: refilled_def hmget_def)
next
  case (Some k)
  show ?thesis
  proof (cases "ke_deadline k \<le> t \<and> dropped t")
    case True
    with assms Some have "1000 * ttl \<le> t - last_ms (ke_bucket k)" by simp
    then have "(of_int (1000 * ttl) :: rat) \<le> of_int (t - last_ms (ke_bucket k))"
      by (simp only: of_int_le_iff)
    with assms have "rate * of_int (1000 * ttl) \<le> rate * of_int (t - last_ms (ke_bucket k))"
      by (intro mult_left_mono) simp_all
    moreover have "capacity \<le> rate * of_int (1000 * ttl)" "0 \<le> tokens (ke_bucket k)"
      using assms Some by simp_all
    ultimately have "capacity \<le> tokens (ke_bucket k) + rate * of_int (t - last_ms (ke_bucket k))"
      by linarith
    with assms Some True show ?thesis by (simp add: refilled_def hmget_def min_def)
  next
    case False
    with assms Some show ?thesis by (auto simp: refilled_def hmget_def mult.commute)
  qed
qed

lemma bucket_level_bounds:
  assumes "bucket_ok capacity rate ttl t e"
  shows "0 \<le> bucket_level capacity rate t e \<and> bucket_level capacity rate t e \<le> capacity"
  using assms by (cases e) (auto intro!: add_nonneg_nonneg mult_nonneg_nonneg)

lemma keyed_charge_cases:
  assumes "bucket_ok capacity rate ttl t e" "0 \<le> u"
    and "keyed_charge dropped capacity rate ttl t u e = (e', a, w)"
  shows "a \<longleftrightarrow> u \<le> bucket_level capacity rate t e"
    and "e' = Some (hmset_expire t ttl
           \<lparr>tokens = bucket_level capacity rate t e - (if a then u else 0), last_ms = t\<rparr>)"
    and "\<not> a \<Longrightarrow> w = max 1 \<lceil>(u - bucket_level capacity rate t e) / rate\<rceil>"
  using assms(3)
  by (auto simp: keyed_charge_def gmail_quota_script_def refilled_level [OF assms(1)] Let_def max_def
      split: if_splits)

lemma hmset_expire_ok:
  "bucket_ok capacity rate ttl t e \<Longrightarrow> 0 \<le> x \<Longrightarrow> x \<le> capacity \<Longrightarrow>
     bucket_ok capacity rate ttl t (Some (hmset_expire t ttl \<lparr>tokens = x, last_ms = t\<rparr>))"
  by (simp add: hmset_expire_def)

lemma bucket_level_set:
  "x \<le> capacity \<Longrightarrow>
     bucket_level capacity rate t' (Some (hmset_expire t ttl \<lparr>tokens = x, last_ms = t\<rparr>))
       = min capacity (x + rate * of_int (t' - t))"
  by (simp add: hmset_expire_def)

interpretation keyed: metered_wait
  "keyed_charge dropped capacity rate ttl" "bucket_level capacity rate" "bucket_ok capacity rate ttl"
  capacity rate
proof
  fix t t' u s s' a w
  show "bucket_ok capacity rate ttl t s \<Longrightarrow> 0 \<le> rate"
    by simp
  show "bucket_ok capacity rate ttl t s \<Longrightarrow> t \<le> t' \<Longrightarrow> bucket_ok capacity rate ttl t' s"
    by (auto split: option.splits)
  show "bucket_ok capacity rate ttl t s \<Longrightarrow>
      0 \<le> bucket_level capacity rate t s \<and> bucket_level capacity rate t s \<le> capacity"
    by (rule bucket_level_bounds)
  show "bucket_level capacity rate t' s \<le> bucket_level capacity rate t s + rate * of_int (t' - t)"
    if "bucket_ok capacity rate ttl t s" "t \<le> t'"
  proof -
    have "0 \<le> rate * of_int (t' - t)" using that by simp
    then show ?thesis by (cases s) (auto simp: algebra_simps min_def)
  qed
  assume c: "bucket_ok capacity rate ttl t s" "0 \<le> u" "keyed_charge dropped capacity rate ttl t u s = (s', a, w)"
  note cs = keyed_charge_cases [OF c] and lv = bucket_level_bounds [OF c(1)]
  show "a \<longleftrightarrow> u \<le> bucket_level capacity rate t s" by (rule cs(1))
  show "bucket_ok capacity rate ttl t s'"
    unfolding cs(2) using c(1) cs(1) c(2) lv by (intro hmset_expire_ok) auto
  show "bucket_level capacity rate t s' = bucket_level capacity rate t s - (if a then u else 0)"
    unfolding cs(2) using c(2) lv by (subst bucket_level_set) auto
next
  fix t u s s' w
  assume c: "bucket_ok capacity rate ttl t s" "0 \<le> u" "u \<le> capacity"
    "keyed_charge dropped capacity rate ttl t u s = (s', False, w)"
  note cs = keyed_charge_cases [OF c(1,2,4)] and lv = bucket_level_bounds [OF c(1)]
  let ?x = "bucket_level capacity rate t s"
  have w: "0 < w" "(u - ?x) / rate \<le> of_int w" using cs(3) by (simp_all add: max_def) linarith?
  have "u \<le> bucket_level capacity rate (t + w + d) s'" if "0 \<le> d" for d
  proof -
    have "u - ?x \<le> rate * of_int w"
      using w(2) c(1) by (simp add: pos_divide_le_eq mult.commute)
    moreover have "rate * of_int w \<le> rate * of_int (w + d)"
      using c(1) that by (intro mult_left_mono) simp_all
    ultimately have "u \<le> ?x + rate * of_int (w + d)" by linarith
    with c(3) lv show ?thesis unfolding cs(2) by (subst bucket_level_set) (auto simp: add.assoc)
  qed
  with w(1) show "0 < w \<and> (\<forall>d\<ge>0. u \<le> bucket_level capacity rate (t + w + d) s')" by blast
qed

text \<open>The wait of the script is enough from any hash, whatever its clock says.\<close>

lemma second_charge_granted:
  assumes "0 < rate" "u \<le> capacity"
    and "keyed_charge dropped capacity rate ttl t u e = (e', False, w)"
    and "t + w \<le> t'"
  shows "fst (snd (keyed_charge dropped capacity rate ttl t' u e'))"
proof -
  obtain x where x: "e' = Some (hmset_expire t ttl \<lparr>tokens = x, last_ms = t\<rparr>)" "x < u"
      "w = max 1 \<lceil>(u - x) / rate\<rceil>"
    using assms(3)
    by (auto simp: keyed_charge_def gmail_quota_script_def Let_def max_def not_le split: if_splits)
  then have w: "1 \<le> w" "(u - x) / rate \<le> of_int w" by (simp_all add: max_def) linarith?
  then have "u - x \<le> rate * of_int w"
    using assms(1) by (simp add: pos_divide_le_eq mult.commute)
  also have "\<dots> \<le> rate * of_int (t' - t)"
    using assms(1,4) by (intro mult_left_mono) simp_all
  finally have "u \<le> x + of_int (t' - t) * rate" by (simp add: mult.commute)
  moreover have "t \<le> t'" using w(1) assms(4) by simp
  ultimately have "u \<le> refilled capacity t' (hmget dropped t' e') (\<lambda>d. of_int d * rate)"
    using assms(2) by (simp add: x(1) refilled_def hmget_def hmset_expire_def)
  then show ?thesis by (simp add: keyed_charge_def gmail_quota_script_def Let_def)
qed

end
