(* ===== verification/Gmail_Quota.thy ===== *)
theory Gmail_Quota
  imports Token_Bucket
begin

text \<open>
  How the workers pace Gmail: the configuration of the budget
  (\<^verbatim>\<open>apps/api/src/gmail/gmail-quota-config.ts\<close>), the price of each Gmail method
  (\<^verbatim>\<open>apps/api/src/gmail/gmail-client.service.ts\<close>), the limiter shared through Redis
  (\<^verbatim>\<open>packages/workers/src/gmail-quota-limiter.ts\<close>) and the sliding window of one process it
  degrades to (\<^verbatim>\<open>packages/workers/src/rate-limiter.ts\<close>).

  The loop that waits for units may meet anything: other workers spend from the same key,
  other callers of the process from the same window, Redis loses its scripts or fails with or
  without having run one, the caller aborts, a sleep lasts longer than asked. The field
  \<open>rounds\<close> of the world scripts this, one entry per turn of a loop; after its end nobody
  interferes. The loops are \<open>partial_function\<close>s, so that returning is a theorem.
\<close>

subsection \<open>Configuration\<close>

datatype quota_metric = DefaultMetric | TotalQueryCost

fun metric_name :: "quota_metric \<Rightarrow> string" where
  "metric_name DefaultMetric = ''gmail.googleapis.com/default''"
| "metric_name TotalQueryCost = ''gmail.googleapis.com/total_query_cost''"

definition gmail_quota_metrics :: "quota_metric list" where
  "gmail_quota_metrics = [DefaultMetric, TotalQueryCost]"

datatype gmail_method =
    Profile | HistoryList | LabelsList | LabelsCreate | MessagesList | MessagesGet
  | MessagesModify | MessagesBatchModify | Watch | StopWatch

fun quotaUnitsFor :: "quota_metric \<Rightarrow> gmail_method \<Rightarrow> int" where
  "quotaUnitsFor m Profile = 1"
| "quotaUnitsFor m HistoryList = 2"
| "quotaUnitsFor m LabelsList = 1"
| "quotaUnitsFor m LabelsCreate = 5"
| "quotaUnitsFor m MessagesList = 5"
| "quotaUnitsFor m MessagesGet = (if m = DefaultMetric then 5 else 20)"
| "quotaUnitsFor m MessagesModify = 5"
| "quotaUnitsFor m MessagesBatchModify = 50"
| "quotaUnitsFor m Watch = 100"
| "quotaUnitsFor m StopWatch = 50"

definition parseGmailQuotaMetric :: "string option \<Rightarrow> quota_metric option" where
  \<comment> \<open>\<open>None\<close> throws\<close>
  "parseGmailQuotaMetric raw =
     (case raw of
        None \<Rightarrow> Some TotalQueryCost
      | Some s \<Rightarrow> if s = [] then Some TotalQueryCost
                  else List.find (\<lambda>m. metric_name m = s) gmail_quota_metrics)"

definition gmail_quota_window_ms :: int where
  "gmail_quota_window_ms = 60000"

definition gmail_quota_burst_window_ms :: int where
  "gmail_quota_burst_window_ms = 5000"

record gmail_quota_config =
  qc_metric :: quota_metric
  unitsPerMin :: int
  burstCapacity :: int
  messagesGetUnits :: int

definition configured_units :: "(string \<Rightarrow> rat option) \<Rightarrow> string option \<Rightarrow> rat option" where
  \<comment> \<open>\<open>configured ? Number(configured) : 4_800\<close>, \<open>None\<close> for \<open>NaN\<close>\<close>
  "configured_units num configured =
     (case configured of None \<Rightarrow> Some 4800 | Some s \<Rightarrow> if s = [] then Some 4800 else num s)"

definition resolveGmailQuotaConfig ::
  "(string \<Rightarrow> rat option) \<Rightarrow> string option \<Rightarrow> string option \<Rightarrow> gmail_quota_config option" where
  \<comment> \<open>\<open>GMAIL_QUOTA_METRIC\<close> and \<open>GMAIL_QUOTA_UNITS_PER_MIN\<close>; the first argument is \<open>Number\<close>
      on a string; \<open>None\<close> throws. An integer in the accepted range is safe.\<close>
  "resolveGmailQuotaConfig num metric_env configured =
     (case (parseGmailQuotaMetric metric_env, configured_units num configured) of
        (Some metric, Some x) \<Rightarrow>
          if x \<noteq> of_int \<lfloor>x\<rfloor> \<or> x < 1200 \<or> 12000 < x then None
          else Some \<lparr>qc_metric = metric, unitsPerMin = \<lfloor>x\<rfloor>, burstCapacity = \<lfloor>x\<rfloor> div 12,
                     messagesGetUnits = quotaUnitsFor metric MessagesGet\<rparr>
      | _ \<Rightarrow> None)"

lemma resolve_units:
  assumes "resolveGmailQuotaConfig num me uc = Some cfg"
  shows "1200 \<le> unitsPerMin cfg \<and> unitsPerMin cfg \<le> 12000 \<and> burstCapacity cfg = unitsPerMin cfg div 12"
proof -
  from assms obtain x :: rat where x: "1200 \<le> x" "x \<le> 12000" "unitsPerMin cfg = \<lfloor>x\<rfloor>"
      "burstCapacity cfg = \<lfloor>x\<rfloor> div 12"
    by (auto simp: resolveGmailQuotaConfig_def not_less split: option.splits if_splits)
  from x(1,2) have "1200 \<le> \<lfloor>x\<rfloor>" "\<lfloor>x\<rfloor> \<le> 12000"
    by (simp_all add: le_floor_iff floor_le_iff)
  with x show ?thesis by simp
qed

text \<open>The dearest method fits the smallest burst the configuration accepts.\<close>

lemma price_fits_burst:
  assumes "resolveGmailQuotaConfig num me uc = Some cfg"
  shows "0 < quotaUnitsFor m k \<and> quotaUnitsFor m k \<le> burstCapacity cfg"
  using resolve_units [OF assms] by (cases k) auto

subsection \<open>The window of one process\<close>

type_synonym rl_events = "(int \<times> rat) list" \<comment> \<open>instant and units, oldest first\<close>

definition rl_prune :: "int \<Rightarrow> int \<Rightarrow> rl_events \<Rightarrow> rl_events" where
  \<comment> \<open>the \<open>while\<close> loop that shifts expired events\<close>
  "rl_prune windowMs now evs = dropWhile (\<lambda>(a, _). windowMs \<le> now - a) evs"

definition reserve :: "rat \<Rightarrow> int \<Rightarrow> rat \<Rightarrow> int \<Rightarrow> rl_events \<Rightarrow> int option \<times> rl_events" where
  \<comment> \<open>\<open>None\<close>: \<open>this.events[0]!.at\<close> on an empty list throws a \<open>TypeError\<close>\<close>
  "reserve maxUnits windowMs units now evs =
     (let evs = rl_prune windowMs now evs
      in if spent evs + units \<le> maxUnits then (Some 0, evs @ [(now, units)])
         else (case evs of [] \<Rightarrow> (None, [])
               | (a, _) # _ \<Rightarrow> (Some (windowMs - (now - a) + 1), evs)))"

definition window_spent :: "int \<Rightarrow> int \<Rightarrow> rl_events \<Rightarrow> rat" where
  \<comment> \<open>units of a history in the window that ends at an instant\<close>
  "window_spent windowMs t h = spent (filter (\<lambda>(a, _). t - windowMs < a \<and> a \<le> t) h)"

definition reserve_meter :: "rat \<Rightarrow> int \<Rightarrow> rl_events meter" where
  "reserve_meter maxUnits windowMs t u evs =
     (case reserve maxUnits windowMs u t evs of
        (Some w, evs') \<Rightarrow> (evs', w = 0, w) | (None, evs') \<Rightarrow> (evs', False, 0))"

lemma rl_prune_split:
  obtains dead where "evs = dead @ rl_prune windowMs now evs"
    and "\<And>a u. (a, u) \<in> set dead \<Longrightarrow> windowMs \<le> now - a"
  using takeWhile_dropWhile_id [of "\<lambda>(a, _). windowMs \<le> now - a" evs]
  unfolding rl_prune_def by (metis (no_types, lifting) case_prodD set_takeWhileD)

lemma rl_prune_head:
  "rl_prune windowMs now evs = (a, u) # evs' \<Longrightarrow> now - a < windowMs"
  unfolding rl_prune_def by (metis (no_types, lifting) case_prod_conv hd_dropWhile linorder_not_less list.sel(1) list.simps(3))

text \<open>A refusal always names a wait, unless the request alone exceeds the window.\<close>

lemma reserve_total:
  assumes "units \<le> maxUnits" "reserve maxUnits windowMs units now evs = (r, evs')"
  shows "\<exists>w. r = Some w \<and> (w = 0 \<or> 2 \<le> w)"
  using assms
  by (auto simp: reserve_def Let_def split: if_splits list.splits dest: rl_prune_head)

lemma spent_append [simp]: "spent (xs @ ys) = spent xs + spent ys"
  by (simp add: spent_def)

lemma spent_nonneg: "(\<And>a u. (a, u) \<in> set h \<Longrightarrow> 0 \<le> u) \<Longrightarrow> 0 \<le> spent h"
  by (induction h) (auto, fastforce)

lemma window_spent_le:
  "(\<And>a u. (a, u) \<in> set h \<Longrightarrow> 0 \<le> u) \<Longrightarrow> window_spent windowMs t h \<le> spent h"
proof (induction h)
  case Nil
  then show ?case by (simp add: window_spent_def)
next
  case (Cons e h)
  obtain a u where e: "e = (a, u)" by (cases e)
  from Cons have "0 \<le> u" "window_spent windowMs t h \<le> spent h" by (auto simp: e)
  then show ?case by (simp add: e window_spent_def)
qed

lemma window_spent_append [simp]:
  "window_spent windowMs t (xs @ ys) = window_spent windowMs t xs + window_spent windowMs t ys"
  by (simp add: window_spent_def)

lemma window_spent_dead:
  "(\<And>a u. (a, u) \<in> set h \<Longrightarrow> windowMs \<le> t - a) \<Longrightarrow> window_spent windowMs t h = 0"
  unfolding window_spent_def by (subst filter_False) fastforce+

text \<open>
  What a history looks like beside the events the limiter still holds: the rest has left the
  window, and no window of the history was overspent.
\<close>

definition rl_inv :: "rat \<Rightarrow> int \<Rightarrow> int \<Rightarrow> rl_events \<Rightarrow> rl_events \<Rightarrow> bool" where
  "rl_inv maxUnits windowMs now h evs \<longleftrightarrow>
     (\<exists>old. h = old @ evs \<and> (\<forall>(a, u) \<in> set old. windowMs \<le> now - a)) \<and>
     (\<forall>(a, u) \<in> set h. 0 \<le> u) \<and> (\<forall>t. window_spent windowMs t h \<le> maxUnits)"

lemma rl_inv_later: "rl_inv m win now h evs \<Longrightarrow> now \<le> now' \<Longrightarrow> rl_inv m win now' h evs"
  unfolding rl_inv_def by fastforce

lemma rl_inv_reserve:
  assumes inv: "rl_inv m win now h evs" and u: "0 \<le> u"
    and r: "reserve_meter m win now u evs = (evs', a, w)"
  shows "rl_inv m win now (h @ (if a then [(now, u)] else [])) evs'"
proof -
  let ?live = "rl_prune win now evs"
  obtain dead where dead: "evs = dead @ ?live" "\<And>a u. (a, u) \<in> set dead \<Longrightarrow> win \<le> now - a"
    using rl_prune_split [of evs win now] by metis
  from inv obtain old where h: "h = old @ evs" "\<forall>(a, u) \<in> set old. win \<le> now - a"
      and hp: "\<forall>(a, u) \<in> set h. 0 \<le> u" and bound: "\<And>t. window_spent win t h \<le> m"
    unfolding rl_inv_def by blast
  from h hp have old: "h = old @ evs" "\<And>a u. (a, u) \<in> set old \<Longrightarrow> win \<le> now - a"
      and pos: "\<And>a u. (a, u) \<in> set h \<Longrightarrow> 0 \<le> u"
    by auto
  have gone: "h = (old @ dead) @ ?live" "\<And>a u. (a, u) \<in> set (old @ dead) \<Longrightarrow> win \<le> now - a"
    using dead old by auto
  show ?thesis
  proof (cases "spent ?live + u \<le> m")
    case True
    with r have e: "a" "evs' = ?live @ [(now, u)]"
      by (auto simp: reserve_meter_def reserve_def Let_def)
    have "window_spent win t (h @ [(now, u)]) \<le> m" for t
    proof (cases "now \<le> t")
      case True
      have "window_spent win t (old @ dead) = 0"
        by (rule window_spent_dead) (use True gone(2) in force)
      then have "window_spent win t (h @ [(now, u)]) = window_spent win t (?live @ [(now, u)])"
        by (subst gone(1)) simp
      also have "\<dots> \<le> spent (?live @ [(now, u)])"
        using pos gone(1) u by (intro window_spent_le) (metis Un_iff empty_iff empty_set
          in_set_conv_decomp prod.inject set_ConsD set_append)
      finally show ?thesis using \<open>spent ?live + u \<le> m\<close> by simp
    next
      case False
      with bound [of t] show ?thesis by (simp add: window_spent_def)
    qed
    with e gone pos u show ?thesis unfolding rl_inv_def by (auto intro!: exI [of _ "old @ dead"])
  next
    case False
    with r have e: "\<not> a" "evs' = ?live"
      by (auto simp: reserve_meter_def reserve_def Let_def split: list.splits dest: rl_prune_head)
    with gone pos bound show ?thesis
      unfolding rl_inv_def by (auto intro!: exI [of _ "old @ dead"])
  qed
qed

lemma rl_serve:
  "rl_inv m win now h evs \<Longrightarrow> clocked now rs \<Longrightarrow> serve (reserve_meter m win) rs evs = (g, evs') \<Longrightarrow>
     rl_inv m win (last_at now rs) (h @ g) evs'"
proof (induction rs arbitrary: now h evs g)
  case Nil
  then show ?case by simp
next
  case (Cons r rs)
  obtain t u where r: "r = (t, u)" by (cases r)
  obtain evs1 a w where c: "reserve_meter m win t u evs = (evs1, a, w)"
    by (cases "reserve_meter m win t u evs")
  obtain g1 where g1: "serve (reserve_meter m win) rs evs1 = (g1, evs')"
      and g: "g = (if a then (t, u) # g1 else g1)"
    using Cons.prems(3) by (auto simp: r c split: prod.splits)
  have "rl_inv m win t (h @ (if a then [(t, u)] else [])) evs1"
    using Cons.prems by (intro rl_inv_reserve [OF rl_inv_later _ c, of now]) (auto simp: r)
  from Cons.IH [OF this _ g1] Cons.prems(2) show ?case by (auto simp: r g)
qed

subsection \<open>The world of a waiting caller\<close>

datatype abort_point = NoAbort | AbortBefore | AbortAfter | AbortAsleep

datatype eval_fate = EvalAnswers | EvalFails bool
  \<comment> \<open>the flag: whether the script had run when the call failed\<close>

datatype redis_fate = ShaAnswers | ShaMissing eval_fate | ShaFails bool

record wait_round =
  rd_redis :: "key_entry option \<Rightarrow> key_entry option" \<comment> \<open>what other workers did to the key\<close>
  rd_local :: "rl_events \<Rightarrow> rl_events" \<comment> \<open>what other callers did to the window\<close>
  rd_fate :: redis_fate
  rd_abort :: abort_point
  rd_over :: nat \<comment> \<open>how much longer the sleep took, in milliseconds\<close>

definition calm_round :: wait_round where
  "calm_round = \<lparr>rd_redis = id, rd_local = id, rd_fate = ShaAnswers, rd_abort = NoAbort, rd_over = 0\<rparr>"

record wait_world =
  lw_now :: int
  lw_entry :: "key_entry option"
  lw_events :: rl_events
  rounds :: "wait_round list"

definition next_round :: "wait_world \<Rightarrow> wait_round \<times> wait_world" where
  "next_round w =
     (let (r, rest) = (case rounds w of [] \<Rightarrow> (calm_round, []) | r # rs \<Rightarrow> (r, rs))
      in (r, w\<lparr>rounds := rest, lw_entry := rd_redis r (lw_entry w), lw_events := rd_local r (lw_events w)\<rparr>))"

definition slept :: "int \<Rightarrow> wait_round \<Rightarrow> wait_world \<Rightarrow> wait_world" where
  \<comment> \<open>\<open>setTimeout\<close> never fires early\<close>
  "slept wait r w = w\<lparr>lw_now := lw_now w + wait + int (rd_over r)\<rparr>"

datatype acquired = Acquired | Aborted | TypeError | OverBurst

subsection \<open>RateLimiter.acquire\<close>

partial_function (option) rl_acquire ::
  "rat \<Rightarrow> int \<Rightarrow> rat \<Rightarrow> wait_world \<Rightarrow> (acquired \<times> wait_world) option"
where
  "rl_acquire maxUnits windowMs units w =
     (let (r, w) = next_round w
      in if rd_abort r = AbortBefore then Some (Aborted, w)
         else let (res, evs) = reserve maxUnits windowMs units (lw_now w) (lw_events w);
                  w = w\<lparr>lw_events := evs\<rparr>
              in case res of
                   None \<Rightarrow> Some (TypeError, w)
                 | Some wait \<Rightarrow>
                     if wait = 0 then Some (Acquired, w)
                     else if rd_abort r = AbortAsleep then Some (Aborted, w)
                     else rl_acquire maxUnits windowMs units (slept wait r w))"

subsection \<open>RedisGmailQuotaLimiter\<close>

record gmail_limiter =
  gl_burst :: rat
  gl_refill :: rat \<comment> \<open>units per millisecond\<close>
  gl_ttl :: int
  gl_fallback :: "rat \<times> int" \<comment> \<open>units and window of the in-process limiter\<close>

definition newGmailQuotaLimiter :: "rat \<Rightarrow> rat \<Rightarrow> int \<Rightarrow> rat \<times> int \<Rightarrow> gmail_limiter" where
  "newGmailQuotaLimiter burst sustainedUnitsPerWindow windowMs fallback =
     \<lparr>gl_burst = burst, gl_refill = sustainedUnitsPerWindow / of_int windowMs,
      gl_ttl = max \<lceil>of_int (2 * windowMs) / (1000 :: rat)\<rceil> 1, gl_fallback = fallback\<rparr>"

definition worker_limiter :: "gmail_quota_config \<Rightarrow> gmail_limiter" where
  \<comment> \<open>the limiter the worker process builds for a mailbox\<close>
  "worker_limiter cfg =
     newGmailQuotaLimiter (of_int (burstCapacity cfg)) (of_int (unitsPerMin cfg)) gmail_quota_window_ms
       (of_int (burstCapacity cfg), gmail_quota_burst_window_ms)"

definition quota_charge :: "(int \<Rightarrow> bool) \<Rightarrow> gmail_limiter \<Rightarrow> key_entry option meter" where
  \<comment> \<open>the script with the arguments of a limiter\<close>
  "quota_charge dropped l = keyed_charge dropped (gl_burst l) (gl_refill l) (gl_ttl l)"

definition run_script ::
  "(int \<Rightarrow> bool) \<Rightarrow> gmail_limiter \<Rightarrow> rat \<Rightarrow> wait_world \<Rightarrow> (bool \<times> int) \<times> wait_world" where
  "run_script dropped l units w =
     (case quota_charge dropped l (lw_now w) units (lw_entry w) of
        (e, reply) \<Rightarrow> (reply, w\<lparr>lw_entry := e\<rparr>))"

definition evalScript ::
  "(int \<Rightarrow> bool) \<Rightarrow> gmail_limiter \<Rightarrow> rat \<Rightarrow> redis_fate \<Rightarrow> wait_world \<Rightarrow> (bool \<times> int) option \<times> wait_world"
where
  \<comment> \<open>\<open>EVALSHA\<close>, then \<open>EVAL\<close> on \<open>NOSCRIPT\<close>; \<open>None\<close> throws\<close>
  "evalScript dropped l units fate w =
     (let (reply, w') = run_script dropped l units w
      in case fate of
           ShaAnswers \<Rightarrow> (Some reply, w')
         | ShaMissing EvalAnswers \<Rightarrow> (Some reply, w')
         | ShaMissing (EvalFails scripted) \<Rightarrow> (None, if scripted then w' else w)
         | ShaFails scripted \<Rightarrow> (None, if scripted then w' else w))"

partial_function (option) quota_loop ::
  "(int \<Rightarrow> bool) \<Rightarrow> gmail_limiter \<Rightarrow> rat \<Rightarrow> wait_world \<Rightarrow> (acquired \<times> wait_world) option"
where
  "quota_loop dropped l units w =
     (let (r, w) = next_round w
      in if rd_abort r = AbortBefore then Some (Aborted, w)
         else let (reply, w) = evalScript dropped l units (rd_fate r) w
              in if rd_abort r = AbortAfter then Some (Aborted, w)
                 else case reply of
                        None \<Rightarrow> rl_acquire (fst (gl_fallback l)) (snd (gl_fallback l)) units w
                      | Some (allowed, wait) \<Rightarrow>
                          if allowed then Some (Acquired, w)
                          else if rd_abort r = AbortAsleep then Some (Aborted, w)
                          else quota_loop dropped l units (slept wait r w))"

definition acquire ::
  "(int \<Rightarrow> bool) \<Rightarrow> gmail_limiter \<Rightarrow> rat \<Rightarrow> wait_world \<Rightarrow> (acquired \<times> wait_world) option" where
  "acquire dropped l units w =
     (if gl_burst l < units then Some (OverBurst, w) else quota_loop dropped l units w)"

definition never_aborts :: "wait_world \<Rightarrow> bool" where
  "never_aborts w \<longleftrightarrow> list_all (\<lambda>r. rd_abort r = NoAbort) (rounds w)"

lemma next_round_script [simp]:
  "next_round w = (r, w') \<Longrightarrow> rounds w = [] \<Longrightarrow> r = calm_round \<and> w' = w"
  by (cases w) (auto simp: next_round_def calm_round_def)

lemma next_round_shorter:
  "next_round w = (r, w') \<Longrightarrow> rounds w = r' # rs \<Longrightarrow> r = r' \<and> rounds w' = rs"
  by (auto simp: next_round_def Let_def)

lemma slept_simps [simp]:
  "rounds (slept t r w) = rounds w" "lw_entry (slept t r w) = lw_entry w"
  "lw_events (slept t r w) = lw_events w" "lw_now (slept t r w) = lw_now w + t + int (rd_over r)"
  by (simp_all add: slept_def)

subsection \<open>The loops return\<close>

definition settles :: "wait_world \<Rightarrow> (acquired \<times> wait_world) option \<Rightarrow> bool" where
  \<comment> \<open>returns, and with the units unless the caller aborted\<close>
  "settles w res \<longleftrightarrow>
     (case res of None \<Rightarrow> False
      | Some (r, _) \<Rightarrow> r = Acquired \<or> r = Aborted \<and> \<not> never_aborts w)"

lemma settles_rounds: "rounds w = rounds w' \<Longrightarrow> settles w res \<longleftrightarrow> settles w' res"
  by (simp add: settles_def never_aborts_def cong: option.case_cong)

lemma settles_round:
  \<comment> \<open>a turn that is not aborted leaves it to the rest of the script\<close>
  assumes "rounds w = r # rs" "rounds w' = rs" "settles w' res"
  shows "settles w res"
  using assms by (auto simp: settles_def never_aborts_def split: option.splits)

lemma settles_simps [simp]:
  "settles w (Some (Acquired, w'))"
  "rounds w = r # rs \<Longrightarrow> rd_abort r \<noteq> NoAbort \<Longrightarrow> settles w (Some (Aborted, w'))"
  by (simp_all add: settles_def never_aborts_def)

lemma reserve_refused:
  assumes "reserve m win u now evs = (Some t, evs')" "t \<noteq> 0" "now + t \<le> now'"
  shows "length (rl_prune win now' evs') < length (rl_prune win now evs)"
proof -
  from assms obtain a x rest where e: "rl_prune win now evs = (a, x) # rest" "evs' = (a, x) # rest"
      "t = win - (now - a) + 1"
    by (auto simp: reserve_def Let_def split: if_splits list.splits)
  with assms(3) have "win \<le> now' - a" by simp
  then have "rl_prune win now' evs' = rl_prune win now' rest" by (simp add: e rl_prune_def)
  also have "length \<dots> \<le> length rest" by (simp add: rl_prune_def length_dropWhile_le)
  finally show ?thesis by (simp add: e)
qed

lemma rl_calm:
  assumes "u \<le> m"
  shows "rounds w = [] \<Longrightarrow> settles w (rl_acquire m win u w)"
proof (induction "length (rl_prune win (lw_now w) (lw_events w))" arbitrary: w rule: less_induct)
  case less
  obtain r w1 where n: "next_round w = (r, w1)" by (cases "next_round w")
  with less.prems have r: "r = calm_round" "w1 = w" by auto
  obtain res evs where v: "reserve m win u (lw_now w) (lw_events w) = (res, evs)"
    by (cases "reserve m win u (lw_now w) (lw_events w)")
  with reserve_total [OF assms] obtain t where t: "res = Some t" "t = 0 \<or> 2 \<le> t" by blast
  let ?w = "slept t calm_round (w\<lparr>lw_events := evs\<rparr>)"
  show ?case
  proof (cases "t = 0")
    case True
    then show ?thesis
      by (subst rl_acquire.simps) (simp add: n r v t settles_def calm_round_def)
  next
    case False
    with v t have "length (rl_prune win (lw_now ?w) (lw_events ?w)) < length (rl_prune win (lw_now w) (lw_events w))"
      by (intro reserve_refused [where t = t and m = m and u = u]) (simp_all add: calm_round_def)
    with less have "settles ?w (rl_acquire m win u ?w)" by simp
    moreover have "rl_acquire m win u w = rl_acquire m win u ?w"
      using False by (subst rl_acquire.simps) (simp add: n r v t calm_round_def)
    ultimately show ?thesis
      using less.prems settles_rounds [of ?w w] by simp
  qed
qed

lemma rl_returns:
  assumes "u \<le> m"
  shows "settles w (rl_acquire m win u w)"
proof (induction "rounds w" arbitrary: w)
  case Nil
  then show ?case by (simp add: rl_calm [OF assms])
next
  case (Cons r rs)
  obtain r' w1 where n: "next_round w = (r', w1)" by (cases "next_round w")
  with Cons.hyps(2) have r: "r' = r" "rounds w1 = rs" by (metis next_round_shorter)+
  obtain res evs where v: "reserve m win u (lw_now w1) (lw_events w1) = (res, evs)"
    by (cases "reserve m win u (lw_now w1) (lw_events w1)")
  with reserve_total [OF assms] obtain t where t: "res = Some t" by blast
  let ?w = "slept t r (w1\<lparr>lw_events := evs\<rparr>)"
  have "settles ?w (rl_acquire m win u ?w)" by (rule Cons.hyps(1)) (simp add: r)
  with Cons.hyps(2) have "settles w (rl_acquire m win u ?w)"
    by (intro settles_round [of w r rs ?w]) (simp_all add: r)
  with Cons.hyps(2) [symmetric] show ?case
    by (subst rl_acquire.simps) (simp add: n r v t Let_def)
qed

lemma quota_calm:
  assumes "0 < gl_refill l" "u \<le> gl_burst l" "rounds w = []"
  shows "settles w (quota_loop dropped l u w)"
proof -
  let ?charge = "\<lambda>t e. keyed_charge dropped (gl_burst l) (gl_refill l) (gl_ttl l) t u e"
  obtain e a t where c: "?charge (lw_now w) (lw_entry w) = (e, a, t)"
    by (cases "?charge (lw_now w) (lw_entry w)")
  have n: "next_round v = (calm_round, v)" if "rounds v = []" for v
    using that by (cases "next_round v") simp
  let ?w = "slept t calm_round (w\<lparr>lw_entry := e\<rparr>)"
  show ?thesis
  proof (cases a)
    case True
    with assms c show ?thesis
      by (subst quota_loop.simps) (simp add: n evalScript_def run_script_def quota_charge_def calm_round_def)
  next
    case False
    with c have "fst (snd (?charge (lw_now ?w) e))"
      by (intro second_charge_granted [OF assms(1,2)]) (auto simp: calm_round_def)
    then obtain e2 t2 where c2: "?charge (lw_now ?w) e = (e2, True, t2)"
      by (metis prod.collapse)
    have "quota_loop dropped l u w = quota_loop dropped l u ?w"
      using False c assms(3)
      by (subst quota_loop.simps) (simp add: n evalScript_def run_script_def quota_charge_def calm_round_def)
    moreover have "settles w (quota_loop dropped l u ?w)"
      using c2 assms(3)
      by (subst quota_loop.simps) (simp add: n evalScript_def run_script_def quota_charge_def calm_round_def)
    ultimately show ?thesis by simp
  qed
qed

lemma evalScript_rounds: "evalScript dropped l u f w = (reply, w') \<Longrightarrow> rounds w' = rounds w"
  by (auto simp: evalScript_def run_script_def Let_def split: prod.splits redis_fate.splits eval_fate.splits if_splits)

lemma quota_returns:
  assumes "0 < gl_refill l" "u \<le> gl_burst l" "u \<le> fst (gl_fallback l)"
  shows "settles w (quota_loop dropped l u w)"
proof (induction "rounds w" arbitrary: w)
  case Nil
  then show ?case by (simp add: quota_calm [OF assms(1,2)])
next
  case (Cons r rs)
  obtain r' w1 where n: "next_round w = (r', w1)" by (cases "next_round w")
  with Cons.hyps(2) have r: "r' = r" "rounds w1 = rs" by (metis next_round_shorter)+
  obtain reply w2 where v: "evalScript dropped l u (rd_fate r) w1 = (reply, w2)"
    by (cases "evalScript dropped l u (rd_fate r) w1")
  note r2 = evalScript_rounds [OF v]
  have fb: "settles w (rl_acquire (fst (gl_fallback l)) (snd (gl_fallback l)) u w2)"
    using Cons.hyps(2) rl_returns [OF assms(3), of w2]
    by (intro settles_round [of w r rs w2]) (simp_all add: r r2)
  have "settles w (quota_loop dropped l u (slept t r w2))" for t
    using Cons.hyps by (intro settles_round [of w r rs "slept t r w2"]) (simp_all add: r r2)
  with fb Cons.hyps(2) [symmetric] show ?case
    by (subst quota_loop.simps) (auto simp: n r v split: option.splits)
qed

subsection \<open>Properties\<close>

lemma worker_limiter_simps:
  "gl_burst (worker_limiter cfg) = of_int (burstCapacity cfg)"
  "gl_refill (worker_limiter cfg) = of_int (unitsPerMin cfg) / 60000"
  "gl_ttl (worker_limiter cfg) = 120"
  "gl_fallback (worker_limiter cfg) = (of_int (burstCapacity cfg), 5000)"
  by (simp_all add: worker_limiter_def newGmailQuotaLimiter_def gmail_quota_window_ms_def
      gmail_quota_burst_window_ms_def)

lemma burst_share:
  assumes "resolveGmailQuotaConfig num me uc = Some cfg"
  shows "(of_int (burstCapacity cfg) :: rat) \<le> of_int (unitsPerMin cfg) / 12"
proof -
  have "12 * burstCapacity cfg \<le> unitsPerMin cfg" using resolve_units [OF assms] by simp
  then have "(of_int (12 * burstCapacity cfg) :: rat) \<le> of_int (unitsPerMin cfg)"
    by (simp only: of_int_le_iff)
  then show ?thesis by simp
qed

definition default_cfg :: gmail_quota_config where
  "default_cfg = \<lparr>qc_metric = TotalQueryCost, unitsPerMin = 4800, burstCapacity = 400, messagesGetUnits = 20\<rparr>"

lemma default_quota_config: "resolveGmailQuotaConfig (\<lambda>_. None) None None = Some default_cfg"
  by (simp add: resolveGmailQuotaConfig_def parseGmailQuotaMetric_def configured_units_def default_cfg_def)

lemma fresh_key_ok:
  assumes "resolveGmailQuotaConfig num me uc = Some cfg"
  shows "bucket_ok (of_int (burstCapacity cfg)) (of_int (unitsPerMin cfg) / 60000) 120 t None"
proof -
  note r = resolve_units [OF assms]
  then have "0 \<le> burstCapacity cfg" "burstCapacity cfg \<le> 2 * unitsPerMin cfg" by auto
  then have "(0 :: rat) \<le> of_int (burstCapacity cfg)"
      "(of_int (burstCapacity cfg) :: rat) \<le> of_int (2 * unitsPerMin cfg)"
    by (simp_all only: of_int_0_le_iff of_int_le_iff)
  with r show ?thesis by simp
qed

text \<open>
  C33: the Gmail budget holds across the fleet. Whatever configuration a worker boots with,
  whatever requests any number of workers make for a mailbox, and whether or not Redis drops
  the key when its time to live is over: between any two instants the shared bucket grants at
  most a twelfth of the budget of a minute plus the sustained rate of the time in between,
  provided the workers' clocks agree. Any minute is therefore granted at most 13/12 of the
  budget: 5,200 units by default (Gmail allows 6,000) and 13,000 for the production budget
  (Gmail allows it 15,000).
\<close>

theorem gmail_fleet_bound:
  assumes "resolveGmailQuotaConfig num me uc = Some cfg"
    and "clocked t rs" and "serve (quota_charge dropped (worker_limiter cfg)) rs None = (g, e)"
    and "t1 \<le> t2"
  shows "spent (filter (\<lambda>(a, _). t1 \<le> a \<and> a \<le> t2) g)
    \<le> of_int (unitsPerMin cfg) / 12 + of_int (unitsPerMin cfg) / 60000 * of_int (t2 - t1)"
proof -
  have "spent (filter (\<lambda>(a, _). t1 \<le> a \<and> a \<le> t2) g) \<le> of_int (burstCapacity cfg)
      + of_int (unitsPerMin cfg) / 60000 * of_int (t2 - t1)"
    using assms(3) unfolding quota_charge_def worker_limiter_simps
    by (rule keyed.window_bound [OF fresh_key_ok [OF assms(1)] assms(2,4)])
  with burst_share [OF assms(1)] show ?thesis by linarith
qed

lemma gmail_fleet_bound_witness:
  "spent [(0, 400), (260, 20)] \<le> of_int 4800 / 12 + of_int 4800 / 60000 * of_int 300"
proof -
  note charge_simps = quota_charge_def worker_limiter_simps default_cfg_def keyed_charge_def
    gmail_quota_script_def refilled_def hmget_def hmset_expire_def
  obtain e where "serve (quota_charge (\<lambda>_. True) (worker_limiter default_cfg)) [(0, 400), (10, 20), (260, 20)] None
      = ([(0, 400), (260, 20)], e)"
    by (simp add: charge_simps)
  from gmail_fleet_bound [OF default_quota_config _ this, where t = 0 and ?t1.0 = 0 and ?t2.0 = 300]
  show ?thesis by (simp add: default_cfg_def)
qed

text \<open>
  C34: every Gmail call gets through. For every accepted configuration and every Gmail method,
  \<open>acquire\<close> neither throws nor waits forever, however other workers spend from the key,
  however other callers spend from the fallback window, and whichever calls to Redis fail, with
  or without having run the script, as long as they do so finitely often: it returns with the
  units unless its caller aborted.
\<close>

theorem acquire_returns:
  assumes "resolveGmailQuotaConfig num me uc = Some cfg"
  shows "\<exists>r w'. acquire dropped (worker_limiter cfg) (of_int (quotaUnitsFor (qc_metric cfg) k)) w = Some (r, w')
           \<and> (if never_aborts w then r = Acquired else r \<in> {Acquired, Aborted})"
proof -
  let ?u = "of_int (quotaUnitsFor (qc_metric cfg) k) :: rat"
  have u: "?u \<le> of_int (burstCapacity cfg)"
    using price_fits_burst [OF assms] by (simp only: of_int_le_iff)
  have "0 < gl_refill (worker_limiter cfg)"
    using resolve_units [OF assms] by (simp add: worker_limiter_simps)
  then have "settles w (quota_loop dropped (worker_limiter cfg) ?u w)"
    using u by (intro quota_returns) (simp_all add: worker_limiter_simps)
  with u show ?thesis
    by (auto simp: acquire_def worker_limiter_simps settles_def split: option.splits)
qed

definition busy_world :: wait_world where
  \<comment> \<open>an empty key written by a worker ahead, a refused turn, a failed script\<close>
  "busy_world = \<lparr>lw_now = 1000,
     lw_entry = Some \<lparr>ke_bucket = \<lparr>tokens = 0, last_ms = 1200\<rparr>, ke_deadline = 121200\<rparr>,
     lw_events = [(900, 400)],
     rounds = [calm_round, calm_round\<lparr>rd_redis := \<lambda>_. None, rd_fate := ShaMissing (EvalFails True), rd_over := 3\<rparr>]\<rparr>"

lemma acquire_returns_witness:
  "never_aborts busy_world \<and>
   map_option fst (acquire (\<lambda>_. False) (worker_limiter default_cfg) 100 busy_world) = Some Acquired"
proof -
  have 1: "never_aborts busy_world" by (simp add: never_aborts_def busy_world_def calm_round_def)
  with acquire_returns [OF default_quota_config, where k = Watch and w = busy_world and dropped = "\<lambda>_. False"]
  show ?thesis by (auto simp: default_cfg_def)
qed

text \<open>
  What a worker is held to while Redis is away. The in-process window a limiter
  degrades to never grants more than the burst capacity within any five seconds, which is
  the sustained rate of the shared bucket, and its \<open>reserve\<close> never indexes an empty list for a
  priced method.
\<close>

theorem degraded_window:
  assumes "resolveGmailQuotaConfig num me uc = Some cfg"
    and "gl_fallback (worker_limiter cfg) = (maxUnits, windowMs)"
    and "clocked now rs" and "serve (reserve_meter maxUnits windowMs) rs [] = (g, evs)"
  shows "window_spent windowMs t g \<le> of_int (unitsPerMin cfg) / 60000 * of_int windowMs
    \<and> fst (reserve maxUnits windowMs (of_int (quotaUnitsFor (qc_metric cfg) k)) now' evs) \<noteq> None"
proof
  note r = resolve_units [OF assms(1)]
  have m: "maxUnits = of_int (burstCapacity cfg)" "windowMs = 5000"
    using assms(2) by (simp_all add: worker_limiter_simps)
  have "rl_inv maxUnits windowMs now [] []"
    using r by (auto simp: rl_inv_def window_spent_def m)
  from rl_serve [OF this assms(3,4)] have "window_spent windowMs t g \<le> maxUnits"
    by (simp add: rl_inv_def)
  moreover have "maxUnits \<le> of_int (unitsPerMin cfg) / 60000 * of_int windowMs"
    using burst_share [OF assms(1)] by (simp add: m)
  ultimately show "window_spent windowMs t g \<le> of_int (unitsPerMin cfg) / 60000 * of_int windowMs"
    by simp
  have "(of_int (quotaUnitsFor (qc_metric cfg) k) :: rat) \<le> maxUnits"
    using price_fits_burst [OF assms(1)] by (simp add: m)
  then show "fst (reserve maxUnits windowMs (of_int (quotaUnitsFor (qc_metric cfg) k)) now' evs) \<noteq> None"
    using reserve_total by (metis option.distinct(1) prod.collapse)
qed

lemma degraded_window_witness:
  "window_spent 5000 5000 [(0, 400)] \<le> of_int 4800 / 60000 * of_int 5000"
proof -
  have f: "gl_fallback (worker_limiter default_cfg) = (400, 5000)"
    by (simp add: worker_limiter_simps default_cfg_def)
  have "serve (reserve_meter 400 5000) [(0, 400), (10, 5)] [] = ([(0, 400)], [(0, 400)])"
    by (simp add: reserve_meter_def reserve_def rl_prune_def)
  from degraded_window [OF default_quota_config f _ this, where now = 0 and t = 5000] show ?thesis
    by (simp add: default_cfg_def)
qed


end
