(* ===== verification/Rate_Limit.thy ===== *)
theory Rate_Limit
  imports Token_Bucket
begin

text \<open>
  The request limits of the API (\<^verbatim>\<open>apps/api/src/common/rate-limit\<close>): the buckets and their
  defaults, the production store over the Lua script, the in-memory store that stands for it
  in the tests, the counter a request is charged to, and the interceptor that answers 429.

  Routes carry their options as metadata; \<open>options\<close> below is that lookup. A request names its
  route, the session's user if there is one, and its address. A key of the store is the
  string the interceptor builds, so that two routes share a counter exactly when the code
  makes them share it.
\<close>

subsection \<open>Buckets\<close>

datatype limit_bucket = AuthBucket | GmailAction | TriageLoad | DefaultBucket

fun bucket_name :: "limit_bucket \<Rightarrow> string" where
  "bucket_name AuthBucket = ''auth''"
| "bucket_name GmailAction = ''gmail-action''"
| "bucket_name TriageLoad = ''triage-load''"
| "bucket_name DefaultBucket = ''default''"

record bucket_config =
  bc_limit :: int
  bc_windowSec :: int

fun bucket_defaults :: "limit_bucket \<Rightarrow> bucket_config" where
  "bucket_defaults AuthBucket = \<lparr>bc_limit = 5, bc_windowSec = 60\<rparr>"
| "bucket_defaults GmailAction = \<lparr>bc_limit = 60, bc_windowSec = 60\<rparr>"
| "bucket_defaults TriageLoad = \<lparr>bc_limit = 120, bc_windowSec = 60\<rparr>"
| "bucket_defaults DefaultBucket = \<lparr>bc_limit = 120, bc_windowSec = 60\<rparr>"

record limit_options =
  lo_bucket :: limit_bucket
  lo_limit :: "int option"
  lo_windowSec :: "int option"

definition resolve :: "limit_options \<Rightarrow> bucket_config" where
  "resolve opts =
     (let defaults = bucket_defaults (lo_bucket opts)
      in \<lparr>bc_limit = (case lo_limit opts of None \<Rightarrow> bc_limit defaults | Some l \<Rightarrow> l),
          bc_windowSec = (case lo_windowSec opts of None \<Rightarrow> bc_windowSec defaults | Some s \<Rightarrow> s)\<rparr>)"

datatype consume_result = Allowed int | Refused int \<comment> \<open>remaining; seconds to wait\<close>

subsection \<open>The stores\<close>

definition refill_per_sec :: "bucket_config \<Rightarrow> rat" where
  "refill_per_sec cfg = of_int (bc_limit cfg) / of_int (bc_windowSec cfg)"

definition limit_ttl :: "bucket_config \<Rightarrow> int" where
  "limit_ttl cfg = max (2 * bc_windowSec cfg) 1"

definition redis_consume ::
  "(int \<Rightarrow> bool) \<Rightarrow> string \<Rightarrow> bucket_config \<Rightarrow> int \<Rightarrow> (string \<rightharpoonup> key_entry) \<Rightarrow>
     consume_result \<times> (string \<rightharpoonup> key_entry)"
where
  "redis_consume dropped key cfg nowMs ks =
     (let (b, allowed, remaining, retryAfterSec) =
            token_bucket_script (of_int (bc_limit cfg)) (refill_per_sec cfg) nowMs (hmget dropped nowMs (ks key))
      in (if allowed then Allowed remaining else Refused (max 1 retryAfterSec),
          ks(key \<mapsto> hmset_expire nowMs (limit_ttl cfg) b)))"

datatype script_fate = Cached | NotCached bool | Unreachable bool
  \<comment> \<open>\<open>NotCached\<close>: whether the \<open>EVAL\<close> that follows succeeds;
      \<open>Unreachable\<close>: whether the script ran before the call failed\<close>

definition consume_call ::
  "(int \<Rightarrow> bool) \<Rightarrow> script_fate \<Rightarrow> string \<Rightarrow> bucket_config \<Rightarrow> int \<Rightarrow> (string \<rightharpoonup> key_entry) \<Rightarrow>
     consume_result option \<times> (string \<rightharpoonup> key_entry)"
where
  \<comment> \<open>\<open>runScript\<close> around it: \<open>EVALSHA\<close>, \<open>EVAL\<close> on \<open>NOSCRIPT\<close>, no retry; \<open>None\<close> throws\<close>
  "consume_call dropped fate key cfg nowMs ks =
     (let (r, ks') = redis_consume dropped key cfg nowMs ks
      in case fate of
           Cached \<Rightarrow> (Some r, ks')
         | NotCached True \<Rightarrow> (Some r, ks')
         | NotCached False \<Rightarrow> (None, ks)
         | Unreachable scripted \<Rightarrow> (None, if scripted then ks' else ks))"

definition mem_consume ::
  "string \<Rightarrow> bucket_config \<Rightarrow> int \<Rightarrow> (string \<rightharpoonup> bucket) \<Rightarrow> consume_result \<times> (string \<rightharpoonup> bucket)"
where
  "mem_consume key cfg nowMs m =
     (let refillPerSec = of_int (bc_limit cfg) / of_int (bc_windowSec cfg);
          toks = (case m key of None \<Rightarrow> of_int (bc_limit cfg) | Some b \<Rightarrow> tokens b);
          lastRefillMs = (case m key of None \<Rightarrow> nowMs | Some b \<Rightarrow> last_ms b);
          elapsedMs = max 0 (nowMs - lastRefillMs);
          refill = of_int elapsedMs / 1000 * refillPerSec;
          toks = min (of_int (bc_limit cfg)) (toks + refill)
      in if 1 \<le> toks
         then (Allowed \<lfloor>toks - 1\<rfloor>, m(key \<mapsto> \<lparr>tokens = toks - 1, last_ms = nowMs\<rparr>))
         else (let deficit = 1 - toks
               in (Refused (max 1 \<lceil>deficit / refillPerSec\<rceil>), m(key \<mapsto> \<lparr>tokens = toks, last_ms = nowMs\<rparr>))))"

text \<open>What the production store is to the in-memory one: its hashes without their deadlines.\<close>

definition mem_view :: "(string \<rightharpoonup> key_entry) \<Rightarrow> (string \<rightharpoonup> bucket)" where
  "mem_view ks = (\<lambda>k. map_option ke_bucket (ks k))"

definition limit_ok :: "bucket_config \<Rightarrow> int \<Rightarrow> key_entry option \<Rightarrow> bool" where
  "limit_ok cfg t e \<longleftrightarrow> 0 < bc_limit cfg \<and> 0 < bc_windowSec cfg \<and>
     bucket_ok (of_int (bc_limit cfg)) (refill_per_sec cfg / 1000) (limit_ttl cfg) t e"

lemma limit_ok_later: "limit_ok cfg t e \<Longrightarrow> t \<le> t' \<Longrightarrow> limit_ok cfg t' e"
  by (auto simp: limit_ok_def split: option.splits)

lemma limit_ok_None: "0 < bc_limit cfg \<Longrightarrow> 0 < bc_windowSec cfg \<Longrightarrow> limit_ok cfg t None"
  by (simp add: limit_ok_def refill_per_sec_def limit_ttl_def field_simps max_def)

text \<open>The request limit as a charge of one unit.\<close>

lemma redis_consume_charge:
  assumes "keyed_charge dropped (of_int (bc_limit cfg)) (refill_per_sec cfg / 1000) (limit_ttl cfg) t 1 (ks key)
             = (e, a, w)"
  shows "redis_consume dropped key cfg t ks =
     (case e of
        Some k \<Rightarrow>
          (if a then Allowed \<lfloor>tokens (ke_bucket k)\<rfloor>
           else Refused (max 1 \<lceil>(1 - tokens (ke_bucket k)) / refill_per_sec cfg\<rceil>), ks(key \<mapsto> k))
      | None \<Rightarrow> (Allowed 0, ks))"
  using assms
  by (auto simp: keyed_charge_def redis_consume_def token_bucket_script_alt hmset_expire_def max.assoc [symmetric]
      split: prod.splits)

lemma redis_refines_step:
  assumes "limit_ok cfg t (ks key)"
  shows "mem_consume key cfg t (mem_view ks) =
    (fst (redis_consume dropped key cfg t ks), mem_view (snd (redis_consume dropped key cfg t ks)))"
proof -
  let ?cap = "of_int (bc_limit cfg) :: rat"
  let ?earn = "\<lambda>e. of_int e * refill_per_sec cfg / 1000"
  have earn: "?earn = (\<lambda>d. of_int d * (refill_per_sec cfg / 1000))" by (simp add: fun_eq_iff)
  have ok: "bucket_ok ?cap (refill_per_sec cfg / 1000) (limit_ttl cfg) t (ks key)"
    using assms by (simp add: limit_ok_def)
  have lv: "refilled ?cap t (hmget dropped t (ks key)) ?earn = bucket_level ?cap (refill_per_sec cfg / 1000) t (ks key)"
    unfolding earn by (rule refilled_level [OF ok])
  have "refilled ?cap t (mem_view ks key) ?earn = bucket_level ?cap (refill_per_sec cfg / 1000) t (ks key)"
    using assms by (cases "ks key") (auto simp: refilled_def mem_view_def limit_ok_def mult.commute)
  moreover have "mem_consume key cfg t (mem_view ks) =
      (let toks = refilled ?cap t (mem_view ks key) ?earn
       in if 1 \<le> toks
          then (Allowed \<lfloor>toks - 1\<rfloor>, (mem_view ks)(key \<mapsto> \<lparr>tokens = toks - 1, last_ms = t\<rparr>))
          else (Refused (max 1 \<lceil>(1 - toks) / refill_per_sec cfg\<rceil>),
                (mem_view ks)(key \<mapsto> \<lparr>tokens = toks, last_ms = t\<rparr>)))"
    by (cases "mem_view ks key") (simp_all add: mem_consume_def refilled_def max_def Let_def flip: refill_per_sec_def)
  ultimately show ?thesis
    by (auto simp: redis_consume_def token_bucket_script_def lv Let_def mem_view_def hmset_expire_def max_def)
qed

subsection \<open>Which counter a request is charged to\<close>

record http_request =
  hr_route :: "string \<times> string" \<comment> \<open>class and method names\<close>
  hr_user :: "string option"
  hr_ip :: "string option"

definition readOptions :: "limit_options option \<Rightarrow> limit_options option \<Rightarrow> limit_options option" where
  \<comment> \<open>metadata of the handler, then of its class\<close>
  "readOptions handler cls = (case handler of Some opts \<Rightarrow> Some opts | None \<Rightarrow> cls)"

definition identify :: "http_request \<Rightarrow> string" where
  "identify req =
     (case hr_user req of
        Some u \<Rightarrow>
          if u \<noteq> [] then ''user:'' @ u
          else ''ip:'' @ (case hr_ip req of Some i \<Rightarrow> i | None \<Rightarrow> ''unknown'')
      | None \<Rightarrow> ''ip:'' @ (case hr_ip req of Some i \<Rightarrow> i | None \<Rightarrow> ''unknown''))"

definition overridden :: "limit_options \<Rightarrow> bool" where
  "overridden opts \<longleftrightarrow> lo_limit opts \<noteq> None \<or> lo_windowSec opts \<noteq> None"

definition keyPrefix :: "limit_options \<Rightarrow> string \<times> string \<Rightarrow> string" where
  "keyPrefix opts route =
     (if \<not> overridden opts then bucket_name (lo_bucket opts)
      else bucket_name (lo_bucket opts) @ '':route:'' @ fst route @ ''.'' @ snd route)"

definition limit_key :: "limit_options \<Rightarrow> http_request \<Rightarrow> string" where
  "limit_key opts req = keyPrefix opts (hr_route req) @ '':'' @ identify req"

definition route_name :: "string \<times> string \<Rightarrow> bool" where
  \<comment> \<open>two JavaScript identifiers: neither separator occurs in them\<close>
  "route_name route \<longleftrightarrow>
     CHR ''.'' \<notin> set (fst route) \<and> CHR '':'' \<notin> set (fst route) \<and> CHR '':'' \<notin> set (snd route)"

lemma identify_head: "\<exists>s. identify req = ''user:'' @ s \<or> identify req = ''ip:'' @ s"
  by (auto simp: identify_def split: option.splits)

lemma split_at:
  "c \<notin> set xs \<Longrightarrow> c \<notin> set xs' \<Longrightarrow> xs @ c # ys = xs' @ c # ys' \<longleftrightarrow> xs = xs' \<and> ys = ys'"
proof (induction xs arbitrary: xs')
  case Nil
  then show ?case by (cases xs') auto
next
  case (Cons x xs)
  then show ?case by (cases xs') auto
qed

lemma bucket_name_colon: "CHR '':'' \<notin> set (bucket_name b)"
  by (cases b) simp_all

lemma bucket_name_inj: "bucket_name b = bucket_name b' \<longleftrightarrow> b = b'"
  by (cases b; cases b') simp_all

lemma limit_key_alt:
  "limit_key opts req = bucket_name (lo_bucket opts) @ CHR '':'' #
     (if overridden opts
      then ''route'' @ CHR '':'' # (fst (hr_route req) @ CHR ''.'' # (snd (hr_route req) @ CHR '':'' # identify req))
      else identify req)"
  by (simp add: limit_key_def keyPrefix_def)

lemma limit_key_eq:
  assumes "route_name (hr_route r)" "route_name (hr_route r')"
  shows "limit_key o1 r = limit_key o2 r' \<longleftrightarrow>
    lo_bucket o1 = lo_bucket o2 \<and> overridden o1 = overridden o2 \<and> identify r = identify r' \<and>
    (overridden o1 \<longrightarrow> hr_route r = hr_route r')"
proof -
  have "identify x \<noteq> ''route'' @ CHR '':'' # s" for x s
    using identify_head [of x] by auto
  moreover have "''route'' @ CHR '':'' # s \<noteq> identify x" for x s
    using identify_head [of x] by auto
  ultimately show ?thesis
    using assms
    by (auto simp: limit_key_alt split_at bucket_name_colon bucket_name_inj route_name_def prod_eq_iff)
qed

subsection \<open>The interceptor\<close>

datatype event_severity = SeverityInfo | SeverityWarning | SeverityCritical

fun breach_severity :: "limit_bucket \<Rightarrow> event_severity" where
  "breach_severity AuthBucket = SeverityCritical"
| "breach_severity GmailAction = SeverityWarning"
| "breach_severity TriageLoad = SeverityInfo"
| "breach_severity DefaultBucket = SeverityWarning"

record limit_breach =
  lb_severity :: event_severity
  lb_user :: "string option"
  lb_ip :: "string option"
  lb_bucket :: limit_bucket

datatype verdict = PassThrough | TooManyRequests int \<comment> \<open>with its \<open>Retry-After\<close>\<close>

definition intercept ::
  "(int \<Rightarrow> bool) \<Rightarrow> bool \<Rightarrow> script_fate \<Rightarrow> limit_options option \<Rightarrow> http_request \<Rightarrow> int \<Rightarrow>
     (string \<rightharpoonup> key_entry) \<Rightarrow> verdict \<times> limit_breach list \<times> (string \<rightharpoonup> key_entry)"
where
  \<comment> \<open>the second argument: whether a store is wired; the events recorded are returned\<close>
  "intercept dropped wired fate meta req now ks =
     (case meta of
        None \<Rightarrow> (PassThrough, [], ks)
      | Some opts \<Rightarrow>
          if \<not> wired then (PassThrough, [], ks)
          else (case consume_call dropped fate (limit_key opts req) (resolve opts) now ks of
                  (None, ks') \<Rightarrow> (PassThrough, [], ks')
                | (Some (Allowed _), ks') \<Rightarrow> (PassThrough, [], ks')
                | (Some (Refused n), ks') \<Rightarrow>
                    (TooManyRequests n,
                     [\<lparr>lb_severity = breach_severity (lo_bucket opts), lb_user = hr_user req,
                       lb_ip = hr_ip req, lb_bucket = lo_bucket opts\<rparr>], ks')))"

subsection \<open>Requests over time\<close>

type_synonym limit_request = "int \<times> string \<times> bucket_config"

fun run_redis ::
  "(int \<Rightarrow> bool) \<Rightarrow> limit_request list \<Rightarrow> (string \<rightharpoonup> key_entry) \<Rightarrow> consume_result list \<times> (string \<rightharpoonup> key_entry)"
where
  "run_redis dropped [] ks = ([], ks)"
| "run_redis dropped ((t, k, cfg) # rs) ks =
     (let (r, ks') = redis_consume dropped k cfg t ks; (out, ks'') = run_redis dropped rs ks'
      in (r # out, ks''))"

fun run_mem ::
  "limit_request list \<Rightarrow> (string \<rightharpoonup> bucket) \<Rightarrow> consume_result list \<times> (string \<rightharpoonup> bucket)"
where
  "run_mem [] m = ([], m)"
| "run_mem ((t, k, cfg) # rs) m =
     (let (r, m') = mem_consume k cfg t m; (out, m'') = run_mem rs m' in (r # out, m''))"

definition limit_trace ::
  "(string \<times> string \<Rightarrow> limit_options) \<Rightarrow> (int \<times> http_request) list \<Rightarrow> limit_request list" where
  \<comment> \<open>what the interceptor asks its store, request by request\<close>
  "limit_trace options reqs =
     map (\<lambda>(t, req). let opts = options (hr_route req) in (t, limit_key opts req, resolve opts)) reqs"

fun trace_ok :: "(string \<Rightarrow> bucket_config) \<Rightarrow> int \<Rightarrow> limit_request list \<Rightarrow> bool" where
  "trace_ok cfg_of t [] = True"
| "trace_ok cfg_of t ((t', k, cfg) # rs) = (t \<le> t' \<and> cfg = cfg_of k \<and> trace_ok cfg_of t' rs)"

definition keys_ok :: "(string \<Rightarrow> bucket_config) \<Rightarrow> int \<Rightarrow> (string \<rightharpoonup> key_entry) \<Rightarrow> bool" where
  "keys_ok cfg_of t ks \<longleftrightarrow> (\<forall>k. limit_ok (cfg_of k) t (ks k))"

lemma redis_consume_entry:
  assumes "limit_ok cfg t (ks key)"
  shows "\<exists>e w. keyed_charge dropped (of_int (bc_limit cfg)) (refill_per_sec cfg / 1000) (limit_ttl cfg) t 1 (ks key)
      = (Some e, (case fst (redis_consume dropped key cfg t ks) of Allowed _ \<Rightarrow> True | Refused _ \<Rightarrow> False), w)
    \<and> snd (redis_consume dropped key cfg t ks) = ks(key \<mapsto> e) \<and> limit_ok cfg t (Some e)"
proof -
  let ?c = "keyed_charge dropped (of_int (bc_limit cfg)) (refill_per_sec cfg / 1000) (limit_ttl cfg) t 1 (ks key)"
  obtain e' a w where c: "?c = (e', a, w)" by (cases ?c)
  have b: "bucket_ok (of_int (bc_limit cfg)) (refill_per_sec cfg / 1000) (limit_ttl cfg) t (ks key)"
    using assms by (simp add: limit_ok_def)
  from keyed_charge_cases(2) [OF b _ c] obtain e where e: "e' = Some e" by auto
  from keyed.ok_charge [OF b _ c] assms have "limit_ok cfg t (Some e)"
    by (simp add: limit_ok_def e del: bucket_ok.simps)
  with c show ?thesis by (auto simp: e redis_consume_charge [where ks = ks, OF c [unfolded e]])
qed

lemma keys_ok_consume:
  assumes "keys_ok cfg_of t ks"
  shows "keys_ok cfg_of t (snd (redis_consume dropped k (cfg_of k) t ks))"
proof -
  have "limit_ok (cfg_of k) t (ks k)" using assms by (simp add: keys_ok_def)
  from redis_consume_entry [where ks = ks and dropped = dropped, OF this] assms show ?thesis by (auto simp: keys_ok_def)
qed

lemma run_redis_refines:
  "keys_ok cfg_of t ks \<Longrightarrow> trace_ok cfg_of t rs \<Longrightarrow>
     run_mem rs (mem_view ks) = (fst (run_redis dropped rs ks), mem_view (snd (run_redis dropped rs ks)))"
proof (induction rs arbitrary: t ks)
  case Nil
  then show ?case by simp
next
  case (Cons r rs)
  obtain t' k cfg where r: "r = (t', k, cfg)" by (cases r)
  obtain res ks' where c: "redis_consume dropped k cfg t' ks = (res, ks')"
    by (cases "redis_consume dropped k cfg t' ks")
  from Cons.prems have t: "t \<le> t'" "cfg = cfg_of k" "trace_ok cfg_of t' rs" by (simp_all add: r)
  with Cons.prems(1) have ok: "keys_ok cfg_of t' ks" by (auto simp: keys_ok_def intro: limit_ok_later)
  then have "limit_ok cfg t' (ks k)" by (simp add: keys_ok_def t(2))
  from redis_refines_step [where ks = ks and dropped = dropped, OF this]
  have "mem_consume k cfg t' (mem_view ks) = (res, mem_view ks')" by (simp add: c)
  moreover have "keys_ok cfg_of t' ks'" using keys_ok_consume [OF ok, of dropped k] c t(2) by simp
  ultimately show ?case
    using Cons.IH [of t' ks'] t(3) by (simp add: r c split_beta)
qed

text \<open>One counter, one limit: on the requests of the API the configuration is a function of the key.\<close>

lemma limit_trace_cfg:
  fixes reqs :: "(int \<times> http_request) list"
  assumes "\<And>t req. (t, req) \<in> set reqs \<Longrightarrow> route_name (hr_route req)"
  obtains cfg_of where
    "\<And>t req. (t, req) \<in> set reqs \<Longrightarrow>
       cfg_of (limit_key (options (hr_route req)) req) = resolve (options (hr_route req))"
    "\<And>k. cfg_of k \<in> insert (bucket_defaults AuthBucket) ((\<lambda>(t, req). resolve (options (hr_route req))) ` set reqs)"
proof -
  let ?hit = "\<lambda>k (x :: int \<times> http_request). limit_key (options (hr_route (snd x))) (snd x) = k"
  let ?cfg = "\<lambda>k. case List.find (?hit k) reqs of
      None \<Rightarrow> bucket_defaults AuthBucket | Some (_, req) \<Rightarrow> resolve (options (hr_route req))"
  have same: "resolve (options (hr_route r)) = resolve (options (hr_route r'))"
    if "(t, r) \<in> set reqs" "(t', r') \<in> set reqs"
      and k: "limit_key (options (hr_route r)) r = limit_key (options (hr_route r')) r'" for t t' r r'
  proof -
    let ?o = "options (hr_route r)" and ?o' = "options (hr_route r')"
    from k assms [OF that(1)] assms [OF that(2)]
    have "lo_bucket ?o = lo_bucket ?o'" "overridden ?o = overridden ?o'"
      "overridden ?o \<Longrightarrow> hr_route r = hr_route r'"
      by (simp_all add: limit_key_eq)
    then show ?thesis by (cases "overridden ?o") (auto simp: overridden_def resolve_def)
  qed
  show thesis
  proof (rule that [of ?cfg])
    fix t req assume m: "(t, req) \<in> set reqs"
    let ?k = "limit_key (options (hr_route req)) req"
    obtain x where x: "List.find (?hit ?k) reqs = Some x"
      using find_NoneD [of "?hit ?k" reqs, OF _ m] by (cases "List.find (?hit ?k) reqs") auto
    obtain t' req' where "x = (t', req')" by (cases x)
    with find_SomeD [OF x] same [OF m] x
    show "?cfg ?k = resolve (options (hr_route req))" by auto
  next
    fix k
    show "?cfg k \<in> insert (bucket_defaults AuthBucket) ((\<lambda>(t, req). resolve (options (hr_route req))) ` set reqs)"
      by (auto split: option.splits dest!: find_SomeD intro!: rev_image_eqI)
  qed
qed

subsection \<open>Properties\<close>

fun allowed_at :: "string \<Rightarrow> limit_request list \<Rightarrow> consume_result list \<Rightarrow> int list" where
  \<comment> \<open>the instants at which a counter let a request pass\<close>
  "allowed_at k ((t, k', _) # rs) (Allowed _ # out) = (if k' = k then t # allowed_at k rs out else allowed_at k rs out)"
| "allowed_at k (_ # rs) (Refused _ # out) = allowed_at k rs out"
| "allowed_at k _ _ = []"

definition charges :: "string \<Rightarrow> limit_request list \<Rightarrow> (int \<times> rat) list" where
  "charges k rs = map (\<lambda>(t, _). (t, 1)) (filter (\<lambda>(t, k', cfg). k' = k) rs)"

lemma charges_simps [simp]:
  "charges k [] = []"
  "charges k ((t, k', cfg) # rs) = (if k' = k then (t, 1) # charges k rs else charges k rs)"
  by (simp_all add: charges_def)

lemma trace_clocked: "trace_ok cfg_of t rs \<Longrightarrow> t0 \<le> t \<Longrightarrow> clocked t0 (charges k rs)"
  by (induction cfg_of t rs arbitrary: t0 rule: trace_ok.induct) (auto intro: order_trans)

text \<open>The other counters do not matter: what a counter allows is what its meter grants.\<close>

lemma run_redis_projection:
  "keys_ok cfg_of t ks \<Longrightarrow> trace_ok cfg_of t rs \<Longrightarrow>
     fst (serve (keyed_charge dropped (of_int (bc_limit (cfg_of k))) (refill_per_sec (cfg_of k) / 1000)
                   (limit_ttl (cfg_of k))) (charges k rs) (ks k))
       = map (\<lambda>a. (a, 1)) (allowed_at k rs (fst (run_redis dropped rs ks)))"
proof (induction rs arbitrary: t ks)
  case Nil
  then show ?case by simp
next
  case (Cons r rs)
  obtain t' k' cfg where r: "r = (t', k', cfg)" by (cases r)
  obtain res ks' where c: "redis_consume dropped k' cfg t' ks = (res, ks')"
    by (cases "redis_consume dropped k' cfg t' ks")
  from Cons.prems have t: "t \<le> t'" "cfg = cfg_of k'" "trace_ok cfg_of t' rs" by (simp_all add: r)
  with Cons.prems(1) have ok: "keys_ok cfg_of t' ks" by (auto simp: keys_ok_def intro: limit_ok_later)
  then have "limit_ok cfg t' (ks k')" by (simp add: keys_ok_def t(2))
  from redis_consume_entry [where ks = ks and dropped = dropped, OF this] c obtain e w
    where e: "keyed_charge dropped (of_int (bc_limit cfg)) (refill_per_sec cfg / 1000) (limit_ttl cfg) t' 1 (ks k')
        = (Some e, (case res of Allowed _ \<Rightarrow> True | Refused _ \<Rightarrow> False), w)" "ks' = ks(k' \<mapsto> e)"
    by auto
  have "keys_ok cfg_of t' ks'" using keys_ok_consume [OF ok, of dropped k'] c t(2) by simp
  note IH = Cons.IH [OF this t(3)]
  have "ks' k = (if k' = k then Some e else ks k)" by (simp add: e(2))
  with IH e(1) c show ?case
    by (cases "k' = k"; cases res) (simp_all add: r t(2) split_beta)
qed

lemma limit_trace_ok:
  fixes reqs :: "(int \<times> http_request) list"
  assumes "list_all (\<lambda>(_, req). route_name (hr_route req)) reqs"
    and "list_all (\<lambda>(_, req). 0 < bc_limit (resolve (options (hr_route req))) \<and>
           0 < bc_windowSec (resolve (options (hr_route req)))) reqs"
    and "sorted (map fst reqs)"
  obtains cfg_of t0 where "trace_ok cfg_of t0 (limit_trace options reqs)"
    and "\<And>k t. limit_ok (cfg_of k) t None"
    and "\<And>t req. (t, req) \<in> set reqs \<Longrightarrow>
       cfg_of (limit_key (options (hr_route req)) req) = resolve (options (hr_route req))"
proof -
  have names: "route_name (hr_route req)" if "(t, req) \<in> set reqs" for t req
    using assms(1) that by (auto simp: list_all_iff)
  obtain cfg_of where cfg: "\<And>t req. (t, req) \<in> set reqs \<Longrightarrow>
       cfg_of (limit_key (options (hr_route req)) req) = resolve (options (hr_route req))"
    and range: "\<And>k. cfg_of k \<in> insert (bucket_defaults AuthBucket) ((\<lambda>(t, req). resolve (options (hr_route req))) ` set reqs)"
    using limit_trace_cfg [where options = options and reqs = reqs] names by metis
  have tr: "trace_ok cfg_of t (limit_trace options rs)"
    if "sorted (t # map fst rs)" "set rs \<subseteq> set reqs" for t rs
    using that by (induction rs arbitrary: t) (auto simp: limit_trace_def Let_def cfg)
  have "limit_ok (cfg_of k) t None" for k t
    using range [of k] assms(2) by (intro limit_ok_None) (auto simp: list_all_iff)
  moreover have "trace_ok cfg_of (case reqs of [] \<Rightarrow> 0 | (t, _) # _ \<Rightarrow> t) (limit_trace options reqs)"
    using assms(3) by (intro tr order_refl) (cases reqs; auto)
  ultimately show thesis using cfg that by blast
qed

text \<open>
  C36: the in-memory store is what the production store refines. On any stream of requests
  to annotated routes, with clocks that do not go back, the Redis store gives every request the answer of
  the in-memory reference, although its keys expire: by the time a key may be dropped its
  bucket is full again. It needs that one key is never checked against two limits, which the
  keys of the interceptor guarantee for every assignment of options to routes.
\<close>

theorem redis_refines_memory:
  fixes reqs :: "(int \<times> http_request) list"
  assumes "list_all (\<lambda>(_, req). route_name (hr_route req)) reqs"
    and "list_all (\<lambda>(_, req). 0 < bc_limit (resolve (options (hr_route req))) \<and>
           0 < bc_windowSec (resolve (options (hr_route req)))) reqs"
    and "sorted (map fst reqs)"
  shows "fst (run_redis dropped (limit_trace options reqs) Map.empty)
       = fst (run_mem (limit_trace options reqs) Map.empty)"
proof -
  from limit_trace_ok [OF assms, of thesis] obtain cfg_of t0
    where tr: "trace_ok cfg_of t0 (limit_trace options reqs)" and ok: "\<And>k t. limit_ok (cfg_of k) t None"
    using limit_trace_ok [OF assms] by metis
  have "keys_ok cfg_of t0 Map.empty" using ok by (simp add: keys_ok_def)
  from run_redis_refines [OF this tr, of dropped] show ?thesis by (simp add: mem_view_def)
qed


definition demo_options :: "string \<times> string \<Rightarrow> limit_options" where
  \<comment> \<open>a login route on the defaults and a preview route with its own limit\<close>
  "demo_options route =
     (if snd route = ''login'' then \<lparr>lo_bucket = AuthBucket, lo_limit = None, lo_windowSec = None\<rparr>
      else \<lparr>lo_bucket = AuthBucket, lo_limit = Some 2, lo_windowSec = Some 10\<rparr>)"

definition demo_request :: "string \<Rightarrow> http_request" where
  "demo_request method = \<lparr>hr_route = (''Auth'', method), hr_user = None, hr_ip = Some ''::1''\<rparr>"

definition demo_requests :: "(int \<times> http_request) list" where
  "demo_requests = [(0, demo_request ''login''), (0, demo_request ''preview''), (5, demo_request ''preview''),
     (9, demo_request ''preview''), (20000, demo_request ''preview'')]"

lemmas demo_defs = demo_requests_def demo_request_def demo_options_def resolve_def route_name_def

lemma redis_refines_memory_witness:
  "fst (run_redis (\<lambda>t. t = 20000) (limit_trace demo_options demo_requests) Map.empty)
     = fst (run_mem (limit_trace demo_options demo_requests) Map.empty)"
  by (rule redis_refines_memory) (simp_all add: demo_defs)


text \<open>
  No two limits meet on one counter. Two requests are charged to the same key exactly when
  their routes name the same bucket, both or neither of them declare a limit of their own (and
  then are the same route), and their callers are the same; so the key fixes the limit the counter
  is checked against. A route that overrides its bucket never draws from the shared pool.
\<close>

theorem counters_separate:
  assumes "route_name (hr_route r)" "route_name (hr_route r')"
    and "opts = options (hr_route r)" "opts' = options (hr_route r')"
  shows "if lo_bucket opts = lo_bucket opts' \<and> overridden opts = overridden opts' \<and> identify r = identify r' \<and>
            (if overridden opts then hr_route r = hr_route r' else True)
         then limit_key opts r = limit_key opts' r' \<and> resolve opts = resolve opts'
         else limit_key opts r \<noteq> limit_key opts' r'"
proof (cases "overridden opts")
  case True
  then show ?thesis
    unfolding assms(3,4) limit_key_eq [OF assms(1,2)]
    by (cases "hr_route r = hr_route r'") simp_all
next
  case False
  then show ?thesis
    unfolding assms(3,4) limit_key_eq [OF assms(1,2)] by (simp add: overridden_def resolve_def)
qed

lemma counters_separate_witness:
  "limit_key (demo_options (''Auth'', ''login'')) (demo_request ''login'')
     \<noteq> limit_key (demo_options (''Auth'', ''preview'')) (demo_request ''preview'')"
  using counters_separate [of "demo_request ''login''" "demo_request ''preview''" _ demo_options, OF _ _ refl refl]
  by (simp add: demo_defs overridden_def)



end
