(* ===== verification/Llm_Breaker.thy ===== *)
theory Llm_Breaker
  imports Prelude
begin

text \<open>
  The breaker in front of the language model (\<^verbatim>\<open>apps/api/src/adapters/llm-circuit-breaker.ts\<close>):
  how a thrown provider error is classified, when calls pause, and the two adapters that share
  one breaker (the guards of \<^verbatim>\<open>anthropic-haiku.adapter.ts\<close> and
  \<^verbatim>\<open>brief-llm-anthropic.adapter.ts\<close>).

  A thrown value is an untyped value with the name the code reads off it (the constructor of
  an \<open>Error\<close>, otherwise its \<open>typeof\<close>). The machine interleaves any number of calls: an attempt
  may leave or be blocked, a call in flight may answer or throw later, time passes. Its history
  records, in order, the calls that left, the refusals that pause and the trips reported.
\<close>

subsection \<open>Reading an unknown value\<close>

record thrown =
  th_value :: jsval
  th_class :: string

fun readPath :: "jsval option \<Rightarrow> string list \<Rightarrow> jsval option" where
  "readPath v [] = v"
| "readPath None (k # ks) = None"
| "readPath (Some v) (k # ks) = (if js_is_object v then readPath (js_field v k) ks else None)"

definition as_string :: "jsval option \<Rightarrow> string option" where
  \<comment> \<open>\<open>typeof found === 'string' ? found : null\<close>\<close>
  "as_string v = (case v of Some (JStr s) \<Rightarrow> Some s | _ \<Rightarrow> None)"

definition stringAt :: "jsval \<Rightarrow> string list \<Rightarrow> string option" where
  "stringAt v path = as_string (readPath (Some v) path)"

definition is_lower :: "char \<Rightarrow> bool" where
  "is_lower c \<longleftrightarrow> 97 \<le> (of_char c :: nat) \<and> (of_char c :: nat) \<le> 122"

definition is_upper :: "char \<Rightarrow> bool" where
  "is_upper c \<longleftrightarrow> 65 \<le> (of_char c :: nat) \<and> (of_char c :: nat) \<le> 90"

definition provider_id :: "string \<Rightarrow> bool" where
  \<comment> \<open>\<open>^[a-z][a-z0-9_]{0,63}$\<close>\<close>
  "provider_id s \<longleftrightarrow>
     (case s of [] \<Rightarrow> False
      | c # cs \<Rightarrow> is_lower c \<and> length cs \<le> 63 \<and>
                  list_all (\<lambda>c. is_lower c \<or> is_digit c \<or> c = CHR ''_'') cs)"

definition request_id :: "string \<Rightarrow> bool" where
  \<comment> \<open>\<open>^[A-Za-z0-9_-]{1,128}$\<close>\<close>
  "request_id s \<longleftrightarrow> 1 \<le> length s \<and> length s \<le> 128 \<and>
     list_all (\<lambda>c. is_upper c \<or> is_lower c \<or> is_digit c \<or> c = CHR ''_'' \<or> c = CHR ''-'') s"

definition identifier_of :: "string option \<Rightarrow> (string \<Rightarrow> bool) \<Rightarrow> string option" where
  "identifier_of v shape = (case v of Some s \<Rightarrow> if shape s then Some s else None | None \<Rightarrow> None)"

definition errorType :: "jsval \<Rightarrow> string option" where
  "errorType err =
     (case readPath (Some err) [''type''] of
        Some (JStr s) \<Rightarrow> Some s
      | _ \<Rightarrow> stringAt err [''error'', ''error'', ''type''])"

definition requestIdOf :: "jsval \<Rightarrow> string option" where
  "requestIdOf err =
     identifier_of (case readPath (Some err) [''requestID''] of
                   Some (JStr s) \<Rightarrow> Some s
                 | _ \<Rightarrow> stringAt err [''error'', ''request_id'']) request_id"

datatype provider_error_fields =
    ProviderAnswered rat "string option" "string option"
  | ProviderSilent string

definition providerErrorFields :: "thrown \<Rightarrow> provider_error_fields" where
  "providerErrorFields err =
     (case readPath (Some (th_value err)) [''status''] of
        Some (JNum status) \<Rightarrow>
          ProviderAnswered status (identifier_of (errorType (th_value err)) provider_id) (requestIdOf (th_value err))
      | _ \<Rightarrow> ProviderSilent (th_class err))"

subsection \<open>Classification\<close>

datatype rejection_reason =
  CreditBalance | SpendLimit | TierSpendCap | BillingError | Auth | NotFound | Other

fun pauses :: "rejection_reason \<Rightarrow> bool" where
  "pauses Other = False"
| "pauses _ = True"

record provider_rejection =
  pr_reason :: rejection_reason
  pr_status :: rat
  pr_type :: "string option"
  pr_errorCode :: "string option"
  pr_requestId :: "string option"

definition to_lower :: "char \<Rightarrow> char" where
  "to_lower c = (if is_upper c then char_of (of_char c + (32 :: nat)) else c)"

definition starts_with_i :: "string \<Rightarrow> string \<Rightarrow> bool" where
  \<comment> \<open>\<open>/^prefix/i\<close> for an ASCII prefix\<close>
  "starts_with_i prefix s \<longleftrightarrow> map to_lower (take (length prefix) s) = map to_lower prefix"

definition refusalReason :: "rat \<Rightarrow> string option \<Rightarrow> string option \<Rightarrow> string \<Rightarrow> rejection_reason option" where
  "refusalReason status type errorCode message =
     (if errorCode = Some ''enforced_spend_limit_reached'' then Some TierSpendCap
      else if status = 402 \<or> type = Some ''billing_error'' then Some BillingError
      else if starts_with_i ''Your credit balance is too low'' message then Some CreditBalance
      else if starts_with_i ''You have reached your specified API usage limits'' message
              \<or> starts_with_i ''You have reached your specified workspace API usage limits'' message
           then Some SpendLimit
      else if starts_with_i ''You have reached your API usage limits'' message then Some TierSpendCap
      else if status = 429 then (if errorCode = None then None else Some Other)
      else if status = 401 \<or> status = 403 then Some Auth
      else if status = 404 then Some NotFound
      else Some Other)"

definition classifyProviderRejection :: "thrown \<Rightarrow> provider_rejection option" where
  "classifyProviderRejection err =
     (case readPath (Some (th_value err)) [''status''] of
        Some (JNum status) \<Rightarrow>
          if status < 400 \<or> 500 \<le> status \<or> status = 408 \<or> status = 409 then None
          else
            (let type = identifier_of (errorType (th_value err)) provider_id;
                 errorCode = identifier_of (stringAt (th_value err) [''error'', ''error'', ''details'', ''error_code''])
                               provider_id;
                 message = (case stringAt (th_value err) [''error'', ''error'', ''message''] of
                              Some m \<Rightarrow> m | None \<Rightarrow> '''')
             in case refusalReason status type errorCode message of
                  None \<Rightarrow> None
                | Some reason \<Rightarrow>
                    Some \<lparr>pr_reason = reason, pr_status = status, pr_type = type,
                          pr_errorCode = errorCode, pr_requestId = requestIdOf (th_value err)\<rparr>)
      | _ \<Rightarrow> None)"

subsection \<open>The breaker\<close>

definition default_llm_cooldown_ms :: int where
  "default_llm_cooldown_ms = 15 * 60 * 1000"

record breaker =
  cooldownMs :: int
  pausedUntil :: int

definition newLlmCircuitBreaker :: "int option \<Rightarrow> breaker" where
  "newLlmCircuitBreaker cooldown =
     \<lparr>cooldownMs = (case cooldown of None \<Rightarrow> default_llm_cooldown_ms | Some c \<Rightarrow> c), pausedUntil = 0\<rparr>"

definition isBlocked :: "int \<Rightarrow> breaker \<Rightarrow> bool" where
  "isBlocked now b \<longleftrightarrow> now < pausedUntil b"

definition recordFailure :: "int \<Rightarrow> thrown \<Rightarrow> breaker \<Rightarrow> provider_rejection option \<times> bool \<times> breaker" where
  \<comment> \<open>the refusal, whether \<open>onTrip\<close> is called, and the breaker; a reporter that throws changes nothing\<close>
  "recordFailure now err b =
     (case classifyProviderRejection err of
        None \<Rightarrow> (None, False, b)
      | Some rejection \<Rightarrow>
          (let p = pauses (pr_reason rejection);
               tripped = p \<and> \<not> isBlocked now b
           in (Some rejection, tripped, if p then b\<lparr>pausedUntil := now + cooldownMs b\<rparr> else b)))"

subsection \<open>The adapters around it\<close>

datatype breaker_mark = Called int | Refused int | Tripped int

datatype llm_event =
    Attempt bool \<comment> \<open>an adapter is asked; the flag is the AI consent\<close>
  | Answers \<comment> \<open>a call in flight returns\<close>
  | CallFails thrown
  | Elapse nat

record llm_state =
  ls_now :: int
  ls_breaker :: breaker
  ls_inflight :: nat
  ls_history :: "breaker_mark list"

definition llm_init :: "int \<Rightarrow> int option \<Rightarrow> llm_state" where
  "llm_init now cooldown =
     \<lparr>ls_now = now, ls_breaker = newLlmCircuitBreaker cooldown, ls_inflight = 0, ls_history = []\<rparr>"

definition attempt :: "bool \<Rightarrow> llm_state \<Rightarrow> llm_state" where
  \<comment> \<open>\<open>explain\<close> and \<open>compose\<close> up to the request: no consent or a pause returns \<open>null\<close> at once\<close>
  "attempt consent s =
     (if \<not> consent then s
      else if isBlocked (ls_now s) (ls_breaker s) then s
      else s\<lparr>ls_inflight := ls_inflight s + 1, ls_history := ls_history s @ [Called (ls_now s)]\<rparr>)"

definition call_fails :: "thrown \<Rightarrow> llm_state \<Rightarrow> llm_state" where
  \<comment> \<open>the \<open>catch\<close> of either adapter\<close>
  "call_fails err s =
     (case recordFailure (ls_now s) err (ls_breaker s) of
        (r, tripped, b) \<Rightarrow>
          s\<lparr>ls_breaker := b, ls_inflight := ls_inflight s - 1,
            ls_history := ls_history s
              @ (case r of Some x \<Rightarrow> if pauses (pr_reason x) then [Refused (ls_now s)] else [] | None \<Rightarrow> [])
              @ (if tripped then [Tripped (ls_now s)] else [])\<rparr>)"

inductive llm_step :: "llm_state \<Rightarrow> llm_event \<Rightarrow> llm_state \<Rightarrow> bool" where
  attempt_step: "llm_step s (Attempt consent) (attempt consent s)"
| answer_step: "0 < ls_inflight s \<Longrightarrow> llm_step s Answers (s\<lparr>ls_inflight := ls_inflight s - 1\<rparr>)"
| fail_step: "0 < ls_inflight s \<Longrightarrow> llm_step s (CallFails err) (call_fails err s)"
| elapse_step: "llm_step s (Elapse n) (s\<lparr>ls_now := ls_now s + int n\<rparr>)"

inductive llm_reachable :: "int \<Rightarrow> int option \<Rightarrow> llm_state \<Rightarrow> bool" for t0 cooldown where
  llm_start: "llm_reachable t0 cooldown (llm_init t0 cooldown)"
| llm_next: "llm_reachable t0 cooldown s \<Longrightarrow> llm_step s e s' \<Longrightarrow> llm_reachable t0 cooldown s'"

inductive_cases llm_step_cases: "llm_step s e s'"

fun llm_exec :: "llm_state \<Rightarrow> llm_event \<Rightarrow> llm_state option" where
  \<comment> \<open>the step relation as a function\<close>
  "llm_exec s (Attempt consent) = Some (attempt consent s)"
| "llm_exec s Answers = (if 0 < ls_inflight s then Some (s\<lparr>ls_inflight := ls_inflight s - 1\<rparr>) else None)"
| "llm_exec s (CallFails err) = (if 0 < ls_inflight s then Some (call_fails err s) else None)"
| "llm_exec s (Elapse n) = Some (s\<lparr>ls_now := ls_now s + int n\<rparr>)"

lemma llm_step_exec: "llm_step s e s' \<longleftrightarrow> llm_exec s e = Some s'"
  by (cases e) (auto elim: llm_step_cases intro: llm_step.intros llm_step.intros [simplified])

fun llm_run :: "llm_state \<Rightarrow> llm_event list \<Rightarrow> llm_state option" where
  "llm_run s [] = Some s"
| "llm_run s (e # es) = (case llm_exec s e of None \<Rightarrow> None | Some s' \<Rightarrow> llm_run s' es)"

lemma llm_run_reachable: "llm_reachable t0 cd s \<Longrightarrow> llm_run s es = Some s' \<Longrightarrow> llm_reachable t0 cd s'"
  by (induction s es rule: llm_run.induct)
    (auto simp: llm_step_exec [symmetric] split: option.splits intro: llm_next)

subsection \<open>Properties\<close>

fun apart :: "int \<Rightarrow> breaker_mark \<Rightarrow> breaker_mark \<Rightarrow> bool" where
  \<comment> \<open>what may follow what\<close>
  "apart cd (Refused f) (Called c) = (f + cd \<le> c)"
| "apart cd (Tripped a) (Tripped b) = (a + cd \<le> b)"
| "apart cd _ _ = True"

fun cooled :: "int \<Rightarrow> int \<Rightarrow> breaker_mark \<Rightarrow> bool" where
  \<comment> \<open>at an instant: not a pausing refusal, or one the cool-down old\<close>
  "cooled cd now (Refused f) = (f + cd \<le> now)"
| "cooled cd now _ = True"

lemma cooled_iff: "cooled cd now m \<longleftrightarrow> (\<forall>f. m = Refused f \<longrightarrow> f + cd \<le> now)"
  by (cases m) auto

fun mark_time :: "breaker_mark \<Rightarrow> int" where
  "mark_time (Called t) = t"
| "mark_time (Refused t) = t"
| "mark_time (Tripped t) = t"

definition cooldown_of :: "int option \<Rightarrow> int" where
  "cooldown_of cooldown = cooldownMs (newLlmCircuitBreaker cooldown)"

definition breaker_inv :: "int option \<Rightarrow> llm_state \<Rightarrow> bool" where
  "breaker_inv cooldown s \<longleftrightarrow>
     (let cd = cooldown_of cooldown; h = ls_history s; b = ls_breaker s
      in cooldownMs b = cd \<and> sorted_wrt (apart cd) h \<and> (\<forall>m \<in> set h. mark_time m \<le> ls_now s) \<and>
         (\<forall>f. Refused f \<in> set h \<longrightarrow> f + cd \<le> pausedUntil b) \<and>
         (\<forall>a. Tripped a \<in> set h \<longrightarrow> Refused a \<in> set h) \<and>
         (pausedUntil b = 0 \<or> (\<exists>f. Refused f \<in> set h \<and> pausedUntil b = f + cd)))"

lemma sorted_wrt_snoc: "sorted_wrt R (xs @ [x]) \<longleftrightarrow> sorted_wrt R xs \<and> (\<forall>y \<in> set xs. R y x)"
  by (simp add: sorted_wrt_append)

lemma apart_later:
  "apart cd m (Called t)" if "\<And>f. m = Refused f \<Longrightarrow> f + cd \<le> t"
  using that by (cases m) auto

lemma apart_trip:
  "apart cd m (Tripped t)" if "\<And>a. m = Tripped a \<Longrightarrow> a + cd \<le> t"
  using that by (cases m) auto

lemma breaker_inv_attempt:
  assumes "breaker_inv cd s"
  shows "breaker_inv cd (attempt consent s)"
proof (cases "consent \<and> \<not> isBlocked (ls_now s) (ls_breaker s)")
  case True
  then have "pausedUntil (ls_breaker s) \<le> ls_now s" by (simp add: isBlocked_def)
  moreover have "f + cooldown_of cd \<le> pausedUntil (ls_breaker s)" if "Refused f \<in> set (ls_history s)" for f
    using assms that by (simp add: breaker_inv_def Let_def)
  ultimately have "\<forall>m \<in> set (ls_history s). apart (cooldown_of cd) m (Called (ls_now s))"
    by (intro ballI apart_later) force
  with assms True show ?thesis
    by (auto simp: breaker_inv_def Let_def attempt_def sorted_wrt_snoc)
next
  case False
  with assms show ?thesis by (auto simp: attempt_def)
qed

lemma breaker_inv_fails:
  assumes inv: "breaker_inv cd s"
  shows "breaker_inv cd (call_fails err s)"
proof (cases "classifyProviderRejection err")
  case None
  with inv show ?thesis by (simp add: call_fails_def recordFailure_def breaker_inv_def)
next
  case (Some r)
  show ?thesis
  proof (cases "pauses (pr_reason r)")
    case False
    with inv Some show ?thesis by (simp add: call_fails_def recordFailure_def breaker_inv_def Let_def)
  next
    case p: True
    let ?t = "ls_now s" and ?h = "ls_history s" and ?b = "ls_breaker s"
    have R: "\<forall>m \<in> set ?h. apart (cooldown_of cd) m (Refused ?t)"
      by simp
    show ?thesis
    proof (cases "isBlocked ?t ?b")
      case True
      with inv p Some R show ?thesis
        by (auto simp: call_fails_def recordFailure_def breaker_inv_def Let_def sorted_wrt_snoc)
    next
      case False
      then have "pausedUntil ?b \<le> ?t" by (simp add: isBlocked_def)
      with inv have "\<forall>m \<in> set (?h @ [Refused ?t]). apart (cooldown_of cd) m (Tripped ?t)"
        by (fastforce simp: breaker_inv_def Let_def intro: apart_trip)
      with inv p Some R False show ?thesis
        by (auto simp: call_fails_def recordFailure_def breaker_inv_def Let_def sorted_wrt_snoc
            sorted_wrt_append)
    qed
  qed
qed

lemma breaker_inv_step: "llm_step s e s' \<Longrightarrow> breaker_inv cd s \<Longrightarrow> breaker_inv cd s'"
proof (induction rule: llm_step.induct)
  case (attempt_step s consent)
  then show ?case by (rule breaker_inv_attempt)
next
  case (answer_step s)
  then show ?case by (simp add: breaker_inv_def)
next
  case (fail_step s err)
  then show ?case by (blast intro: breaker_inv_fails)
next
  case (elapse_step s n)
  then show ?case by (fastforce simp: breaker_inv_def Let_def)
qed

lemma breaker_inv_init: "breaker_inv cd (llm_init t0 cd)"
  by (simp add: breaker_inv_def llm_init_def newLlmCircuitBreaker_def cooldown_of_def)

lemma breaker_reachable: "llm_reachable t0 cd s \<Longrightarrow> breaker_inv cd s"
  by (induction rule: llm_reachable.induct) (blast intro: breaker_inv_init breaker_inv_step)+

lemma identifier_of_shape: "identifier_of v shape = Some s \<Longrightarrow> shape s"
  by (auto simp: identifier_of_def split: option.splits if_splits)

lemma refusal_fields:
  assumes "classifyProviderRejection err = Some r"
  shows "pr_type r = identifier_of (errorType (th_value err)) provider_id
    \<and> pr_errorCode r
        = identifier_of (stringAt (th_value err) [''error'', ''error'', ''details'', ''error_code'']) provider_id
    \<and> pr_requestId r = requestIdOf (th_value err)
    \<and> 400 \<le> pr_status r \<and> pr_status r < 500 \<and> pr_status r \<noteq> 408 \<and> pr_status r \<noteq> 409"
proof -
  from assms obtain status where st: "readPath (Some (th_value err)) [''status''] = Some (JNum status)"
    unfolding classifyProviderRejection_def by (auto split: option.splits jsval.splits simp del: readPath.simps)
  with assms show ?thesis
    unfolding classifyProviderRejection_def st Let_def
    by (auto split: if_splits option.splits simp del: readPath.simps)
qed

text \<open>
  C39: no call leaves a pause, and a pause is reported once. In every reachable state of any
  number of interleaved calls, every call that left came at least the cool-down after each
  refusal that pauses before it, and two reported trips are at least the cool-down apart.
\<close>

theorem breaker_keeps_apart:
  assumes "llm_reachable t0 cooldown s"
  shows "sorted_wrt (apart (cooldown_of cooldown)) (ls_history s)"
  using breaker_reachable [OF assms] by (simp add: breaker_inv_def Let_def)

definition credit_error :: thrown where
  \<comment> \<open>the 400 of an exhausted balance\<close>
  "credit_error = \<lparr>th_value = JObj [(''status'', JNum 400),
      (''error'', JObj [(''error'', JObj [(''type'', JStr ''invalid_request_error''),
         (''message'', JStr ''your CREDIT balance is too low to access the API'')])])],
     th_class = ''BadRequestError''\<rparr>"

definition demo_run :: "llm_event list" where
  "demo_run = [Attempt True, Attempt True, CallFails credit_error, Attempt True, Elapse 5,
     CallFails credit_error, Elapse 100, Attempt True, CallFails credit_error]"

lemma demo_run_history:
  "map_option ls_history (llm_run (llm_init 7 (Some 100)) demo_run)
     = Some [Called 7, Called 7, Refused 7, Tripped 7, Refused 12, Called 112, Refused 112, Tripped 112]"
  by code_simp

lemma breaker_keeps_apart_witness:
  "sorted_wrt (apart 100) [Called 7, Called 7, Refused 7, Tripped 7, Refused 12, Called 112, Refused 112, Tripped 112]"
proof -
  obtain s where "llm_run (llm_init 7 (Some 100)) demo_run = Some s"
      "ls_history s = [Called 7, Called 7, Refused 7, Tripped 7, Refused 12, Called 112, Refused 112, Tripped 112]"
    using demo_run_history by auto
  with breaker_keeps_apart [OF llm_run_reachable [OF llm_start this(1)]] show ?thesis
    by (simp add: cooldown_of_def newLlmCircuitBreaker_def)
qed

text \<open>
  Calls come back. In every reachable state, a consented attempt leaves for the provider
  exactly when every pausing refusal so far is at least the cool-down old; so once the
  cool-down has passed without a new one the next attempt leaves, with no probe in between.
  Transient failures and refusals classified \<open>other\<close> never delay anybody.
\<close>

theorem attempt_leaves_iff:
  assumes "llm_reachable t0 cooldown s" and "0 \<le> t0"
  shows "ls_history (attempt True s) =
     (if list_all (cooled (cooldown_of cooldown) (ls_now s)) (ls_history s)
      then ls_history s @ [Called (ls_now s)] else ls_history s)"
proof -
  from breaker_reachable [OF assms(1)]
  have le: "\<And>f. Refused f \<in> set (ls_history s) \<Longrightarrow> f + cooldown_of cooldown \<le> pausedUntil (ls_breaker s)"
    and eq: "pausedUntil (ls_breaker s) = 0 \<or>
      (\<exists>f. Refused f \<in> set (ls_history s) \<and> pausedUntil (ls_breaker s) = f + cooldown_of cooldown)"
    by (auto simp: breaker_inv_def Let_def)
  have now: "0 \<le> ls_now s" using assms
  proof (induction rule: llm_reachable.induct)
    case llm_start
    then show ?case by (simp add: llm_init_def)
  next
    case (llm_next s e s')
    then show ?case
      by (auto elim!: llm_step.cases simp: attempt_def call_fails_def split: prod.splits)
  qed
  have "\<not> isBlocked (ls_now s) (ls_breaker s) \<longleftrightarrow>
      list_all (cooled (cooldown_of cooldown) (ls_now s)) (ls_history s)"
    using le eq now
    by (fastforce simp: isBlocked_def list_all_iff not_less cooled_iff)
  then show ?thesis by (auto simp: attempt_def)
qed

lemma attempt_leaves_iff_witness:
  "\<exists>s. llm_run (llm_init 7 (Some 100)) (take 6 demo_run @ [Elapse 99]) = Some s
     \<and> ls_history (attempt True s) = ls_history s"
proof -
  obtain s where s: "llm_run (llm_init 7 (Some 100)) (take 6 demo_run @ [Elapse 99]) = Some s"
      "Refused 12 \<in> set (ls_history s)" "ls_now s = 111"
  proof -
    have "map_option (\<lambda>s. (ls_history s, ls_now s))
        (llm_run (llm_init 7 (Some 100)) (take 6 demo_run @ [Elapse 99]))
        = Some ([Called 7, Called 7, Refused 7, Tripped 7, Refused 12], 111)"
      by code_simp
    then show thesis by (auto intro: that)
  qed
  from s(2,3) have "\<not> list_all (cooled (cooldown_of (Some 100)) (ls_now s)) (ls_history s)"
    by (force simp: list_all_iff cooldown_of_def newLlmCircuitBreaker_def)
  with attempt_leaves_iff [OF llm_run_reachable [OF llm_start s(1)]] s(1) show ?thesis by simp
qed


end
